(* ===== verification/Prelude.thy ===== *)
theory Prelude
  imports Main "HOL-Library.Word" "HOL-Library.Multiset"
begin

text \<open>
  Shared material of the development: the Go error values and \<open>errors.Is\<close>, the width of
  Go's 64-bit integers, saturating time subtraction, and the generic facts on lists (element
  exchange, sums, removal) that the component theories use. Component facts that several
  proofs share are gathered in the collections declared here.
\<close>

named_theorems go_simps \<open>equations that evaluate operations of the model\<close>
named_theorems frame_intros \<open>which stores an operation may change\<close>

section \<open>Go integers and time\<close>

type_synonym uint64 = "64 word"
type_synonym int64 = "64 word" \<comment> \<open>two's complement, read with \<open>sint\<close>; conversion to uint64 keeps the bits\<close>
type_synonym time = int \<comment> \<open>nanoseconds\<close>
type_synonym duration = int \<comment> \<open>nanoseconds, within the int64 range\<close>

definition maxInt64 :: int where "maxInt64 = 2 ^ 63 - 1"
definition minInt64 :: int where "minInt64 = - (2 ^ 63)"

text \<open>\<open>time.Time.Sub\<close> saturates at the ends of the \<open>time.Duration\<close> range.\<close>

definition time_Sub :: "time \<Rightarrow> time \<Rightarrow> duration" where
  "time_Sub t u = max minInt64 (min maxInt64 (t - u))"

lemma time_Sub_exact: "minInt64 \<le> t - u \<Longrightarrow> t - u \<le> maxInt64 \<Longrightarrow> time_Sub t u = t - u"
  by (simp add: time_Sub_def)

lemma time_Sub_mono: "t \<le> t' \<Longrightarrow> time_Sub t u \<le> time_Sub t' u"
  by (auto simp: time_Sub_def)

text \<open>The idiom \<open>x.Add(^y + 1)\<close> of \<open>sync/atomic\<close> subtracts.\<close>

lemma atomic_sub [simp]: "x + (not y + 1) = x - (y :: 'a::len word)"
  by (simp flip: minus_eq_not_plus_1)

section \<open>Go errors\<close>

datatype sentinel =
    ErrRejected | ErrEvicted
  | ErrNilRequest | ErrFlowIDEmpty | ErrQueueAtCapacity
  | ErrTTLExpired | ErrContextCancelled | ErrFlowControllerShutdown
  | ErrNilQueueItem | ErrQueueEmpty | ErrInvalidQueueItemHandle | ErrQueueItemNotFound
  | ErrIncompatiblePriorityType
  | ErrFlowInstanceNotFound | ErrPriorityBandNotFound | ErrPolicyQueueIncompatible
  | ErrInterFlow | ErrIntraFlow
  | Canceled | DeadlineExceeded

text \<open>
  An error is a package-level sentinel, or the result of \<open>errors.New\<close> / \<open>fmt.Errorf\<close>: the
  text of the format and the errors wrapped by its \<open>%w\<close> verbs.
\<close>

datatype goError = Sentinel sentinel | Errorf string "goError list"

fun errors_Is :: "goError \<Rightarrow> sentinel \<Rightarrow> bool" where
  "errors_Is (Sentinel e) t = (e = t)"
| "errors_Is (Errorf msg es) t = list_ex (\<lambda>e. errors_Is e t) es"

section \<open>Exchanging two elements of a list\<close>

definition list_swap :: "'a list \<Rightarrow> nat \<Rightarrow> nat \<Rightarrow> 'a list" where
  "list_swap xs i j = xs[i := xs ! j, j := xs ! i]"

lemma length_list_swap [simp]: "length (list_swap xs i j) = length xs"
  by (simp add: list_swap_def)

lemma nth_list_swap:
  "i < length xs \<Longrightarrow> j < length xs \<Longrightarrow> k < length xs \<Longrightarrow>
   list_swap xs i j ! k = (if k = i then xs ! j else if k = j then xs ! i else xs ! k)"
  by (auto simp: list_swap_def nth_list_update)

lemma mset_list_swap [simp]:
  "i < length xs \<Longrightarrow> j < length xs \<Longrightarrow> mset (list_swap xs i j) = mset xs"
  by (simp add: list_swap_def mset_swap)

lemma set_list_swap [simp]:
  "i < length xs \<Longrightarrow> j < length xs \<Longrightarrow> set (list_swap xs i j) = set xs"
  by (metis mset_list_swap set_mset_mset)

lemma list_swap_last_butlast:
  assumes "i < length xs"
  shows "mset (butlast (list_swap xs i (length xs - 1))) = mset xs - {#xs ! i#}"
proof -
  let ?n = "length xs - 1"
  have ne: "list_swap xs i ?n \<noteq> []" using assms by (auto simp: list_swap_def)
  have l: "last (list_swap xs i ?n) = xs ! i"
    using assms ne by (auto simp: last_conv_nth nth_list_swap)
  have "mset (list_swap xs i ?n) = mset (butlast (list_swap xs i ?n)) + {#xs ! i#}"
    using append_butlast_last_id [OF ne] l by (metis mset.simps mset_append)
  moreover have "mset (list_swap xs i ?n) = mset xs"
    using assms by (intro mset_list_swap) auto
  ultimately show ?thesis by (metis add_diff_cancel_right')
qed

section \<open>Sums, distinctness and removal\<close>

lemma sum_list_map_mset_eq:
  fixes f :: "'a \<Rightarrow> 'b::comm_monoid_add"
  shows "mset xs = mset ys \<Longrightarrow> sum_list (map f xs) = sum_list (map f ys)"
  by (metis mset_map sum_mset_sum_list)

lemma distinct_map_mset_eq: "mset xs = mset ys \<Longrightarrow> distinct (map f xs) = distinct (map f ys)"
  by (metis mset_eq_imp_distinct_iff mset_map)

lemma sum_list_map_remove:
  fixes f :: "'a \<Rightarrow> 'b::ab_group_add"
  assumes "x \<in># mset xs" "mset ys = mset xs - {#x#}"
  shows "sum_list (map f ys) = sum_list (map f xs) - f x"
proof -
  have "mset xs = add_mset x (mset ys)" using assms by simp
  then have "mset xs = mset (x # ys)" by simp
  then have "sum_list (map f xs) = sum_list (map f (x # ys))" by (rule sum_list_map_mset_eq)
  then show ?thesis by simp
qed

lemma sum_list_map_partition:
  fixes f :: "'a \<Rightarrow> 'b::comm_monoid_add"
  shows "sum_list (map f xs) = sum_list (map f (filter P xs)) + sum_list (map f (filter (\<lambda>x. \<not> P x) xs))"
  by (induction xs) (auto simp: add.assoc add.left_commute)

lemma mset_partition: "mset (filter P xs) + mset (filter (\<lambda>x. \<not> P x) xs) = mset xs"
  by (simp add: mset_filter flip: multiset_partition)

lemma map_remove1_inj:
  "inj_on f (set xs) \<Longrightarrow> x \<in> set xs \<Longrightarrow> map f (remove1 x xs) = remove1 (f x) (map f xs)"
  by (induction xs) (auto simp: inj_on_def)

lemma list_ex_iff_set: "list_ex P xs \<longleftrightarrow> (\<exists>x\<in>set xs. P x)"
  by (induction xs) auto

lemma unat_sum_list_le:
  fixes ws :: "'a::len word list"
  shows "unat (sum_list ws) \<le> sum_list (map unat ws)"
proof (induction ws)
  case (Cons w ws)
  have "unat (w + sum_list ws) \<le> unat w + unat (sum_list ws)"
    by (simp add: unat_word_ariths)
  with Cons show ?case by simp
qed simp

lemma length_mset_remove:
  assumes "x \<in> set xs" "mset ys = mset xs - {#x#}"
  shows "Suc (length ys) = length xs"
proof -
  have "size (mset ys) = size (mset xs - {#x#})" using assms(2) by simp
  then show ?thesis using size_Suc_Diff1 [of x "mset xs"] assms(1) by simp
qed

end
