(* ===== verification/FlowTypes.thy ===== *)
theory FlowTypes
  imports Prelude "HOL-Library.Char_ord" "HOL-Library.List_Lexorder"
begin

text \<open>
  The vocabulary of the flow-control system (\<^verbatim>\<open>pkg/epp/flowcontrol/types\<close>) and the request
  item of the controller (\<^verbatim>\<open>controller/internal/item.go\<close>). Go objects that are shared and
  mutated (the handle field and the final state of a \<open>flowItem\<close>, the handle objects the queues
  create) live in an explicit \<open>store\<close>, so that invalidating a handle through one reference is
  seen through every other.
\<close>

section \<open>Flow keys\<close>

datatype FlowKey = FlowKey (ID: string) (Priority: nat)

text \<open>\<open>strings.Compare\<close> is the three-way lexicographic comparison of bytes.\<close>

definition strings_Compare :: "string \<Rightarrow> string \<Rightarrow> int" where
  "strings_Compare a b = (if a = b then 0 else if a < b then - 1 else 1)"

definition FlowKey_Compare :: "FlowKey \<Rightarrow> FlowKey \<Rightarrow> int" where
  "FlowKey_Compare k other =
     (if Priority k > Priority other then - 1
      else if Priority k < Priority other then 1
      else strings_Compare (ID k) (ID other))"

instantiation FlowKey :: linorder
begin

definition less_eq_FlowKey :: "FlowKey \<Rightarrow> FlowKey \<Rightarrow> bool" where
  "less_eq_FlowKey k l \<longleftrightarrow> FlowKey_Compare k l \<le> 0"

definition less_FlowKey :: "FlowKey \<Rightarrow> FlowKey \<Rightarrow> bool" where
  "less_FlowKey k l \<longleftrightarrow> FlowKey_Compare k l < 0"

instance
proof
  have le: "x \<le> y \<longleftrightarrow> Priority y < Priority x \<or> Priority x = Priority y \<and> ID x \<le> ID y"
    for x y :: FlowKey
    by (simp add: less_eq_FlowKey_def FlowKey_Compare_def strings_Compare_def order.order_iff_strict)
  have lt: "x < y \<longleftrightarrow> Priority y < Priority x \<or> Priority x = Priority y \<and> ID x < ID y"
    for x y :: FlowKey
    by (simp add: less_FlowKey_def FlowKey_Compare_def strings_Compare_def)
  fix x y z :: FlowKey
  show "(x < y) = (x \<le> y \<and> \<not> y \<le> x)"
    unfolding le lt by (metis less_le_not_le nat_neq_iff order_less_asym)
  show "x \<le> x"
    unfolding le by simp
  show "x \<le> y \<Longrightarrow> y \<le> z \<Longrightarrow> x \<le> z"
    unfolding le by (metis order.strict_trans order_trans)
  show "x \<le> y \<Longrightarrow> y \<le> x \<Longrightarrow> x = y"
    unfolding le by (metis FlowKey.expand less_asym' order_antisym less_irrefl)
  show "x \<le> y \<or> y \<le> x"
    unfolding le by (metis linorder_cases nle_le)
qed

end

section \<open>Requests, items and outcomes\<close>

record FlowControlRequest =
  req_ID :: string
  req_FlowKey :: FlowKey
  req_ByteSize :: uint64
  req_InitialEffectiveTTL :: duration

text \<open>
  A \<open>*flowItem\<close>: its address and the fields that never change after \<open>NewItem\<close>. The mutable
  fields are in the \<open>store\<close>, under the address.
\<close>

record flowItem =
  fi_ptr :: nat
  EnqueueTime :: time
  EffectiveTTL :: duration
  OriginalRequest :: FlowControlRequest

abbreviation itemByteSize :: "flowItem \<Rightarrow> uint64" where
  "itemByteSize it \<equiv> req_ByteSize (OriginalRequest it)"

abbreviation itemFlowKey :: "flowItem \<Rightarrow> FlowKey" where
  "itemFlowKey it \<equiv> req_FlowKey (OriginalRequest it)"

datatype QueueOutcome =
    QueueOutcomeNotYetFinalized
  | QueueOutcomeDispatched
  | QueueOutcomeRejectedCapacity
  | QueueOutcomeRejectedOther
  | QueueOutcomeEvictedTTL
  | QueueOutcomeEvictedContextCancelled
  | QueueOutcomeEvictedOther

fun QueueOutcome_String :: "QueueOutcome \<Rightarrow> string" where
  "QueueOutcome_String QueueOutcomeNotYetFinalized = ''NotYetFinalized''"
| "QueueOutcome_String QueueOutcomeDispatched = ''Dispatched''"
| "QueueOutcome_String QueueOutcomeRejectedCapacity = ''RejectedCapacity''"
| "QueueOutcome_String QueueOutcomeRejectedOther = ''RejectedOther''"
| "QueueOutcome_String QueueOutcomeEvictedTTL = ''EvictedTTL''"
| "QueueOutcome_String QueueOutcomeEvictedContextCancelled = ''EvictedContextCancelled''"
| "QueueOutcome_String QueueOutcomeEvictedOther = ''EvictedOther''"

section \<open>Handle objects and the store\<close>

text \<open>A \<open>*list.Element\<close> of \<open>container/list\<close>: its address and its \<open>Value\<close>.\<close>

record element =
  e_ptr :: nat
  e_Value :: flowItem

record listItemHandle =
  lh_element :: element
  lh_owner :: nat
  lh_isInvalidated :: bool

record heapItem =
  hi_item :: flowItem
  hi_index :: nat
  hi_isInvalidated :: bool

datatype handleObj = ListItemHandle listItemHandle | HeapItem heapItem

record finalState =
  onceFinalize :: bool
  doneClosed :: bool
  outcome :: QueueOutcome
  ferr :: "goError option"

record store =
  st_handle :: "nat \<Rightarrow> nat option"
  st_final :: "nat \<Rightarrow> finalState"
  st_ctxErr :: "nat \<Rightarrow> sentinel option"
  st_obj :: "nat \<Rightarrow> handleObj option"
  st_next :: nat
  st_panicked :: bool

definition newFinal :: finalState where
  "newFinal = \<lparr>onceFinalize = False, doneClosed = False,
     outcome = QueueOutcomeNotYetFinalized, ferr = None\<rparr>"

definition emptyStore :: store where
  "emptyStore = \<lparr>st_handle = (\<lambda>_. None), st_final = (\<lambda>_. newFinal), st_ctxErr = (\<lambda>_. None),
     st_obj = (\<lambda>_. None), st_next = 0, st_panicked = False\<rparr>"

fun obj_item :: "handleObj \<Rightarrow> flowItem" where
  "obj_item (ListItemHandle lh) = e_Value (lh_element lh)"
| "obj_item (HeapItem hi) = hi_item hi"

fun obj_IsInvalidated :: "handleObj \<Rightarrow> bool" where
  "obj_IsInvalidated (ListItemHandle lh) = lh_isInvalidated lh"
| "obj_IsInvalidated (HeapItem hi) = hi_isInvalidated hi"

fun obj_Invalidate :: "handleObj \<Rightarrow> handleObj" where
  "obj_Invalidate (ListItemHandle lh) = ListItemHandle (lh\<lparr>lh_isInvalidated := True\<rparr>)"
| "obj_Invalidate (HeapItem hi) = HeapItem (hi\<lparr>hi_isInvalidated := True\<rparr>)"

lemma obj_item_Invalidate [simp]: "obj_item (obj_Invalidate ob) = obj_item ob"
  by (cases ob) auto

lemma obj_IsInvalidated_Invalidate [simp]: "obj_IsInvalidated (obj_Invalidate ob)"
  by (cases ob) auto

text \<open>\<open>handle.Invalidate()\<close> and \<open>handle.IsInvalidated()\<close> through a reference.\<close>

definition Invalidate :: "nat \<Rightarrow> store \<Rightarrow> store" where
  "Invalidate h s = s\<lparr>st_obj := (st_obj s)(h := map_option obj_Invalidate (st_obj s h))\<rparr>"

definition IsInvalidated :: "store \<Rightarrow> nat \<Rightarrow> bool" where
  "IsInvalidated s h = (case st_obj s h of None \<Rightarrow> False | Some ob \<Rightarrow> obj_IsInvalidated ob)"

definition Handle :: "store \<Rightarrow> flowItem \<Rightarrow> nat option" where
  "Handle s it = st_handle s (fi_ptr it)"

definition SetHandle :: "flowItem \<Rightarrow> nat \<Rightarrow> store \<Rightarrow> store" where
  "SetHandle it h s = s\<lparr>st_handle := (st_handle s)(fi_ptr it := Some h)\<rparr>"

text \<open>Allocation of a new handle object (\<open>&listItemHandle{..}\<close>, \<open>&heapItem{..}\<close>).\<close>

definition alloc :: "handleObj \<Rightarrow> store \<Rightarrow> nat \<times> store" where
  "alloc ob s = (st_next s, s\<lparr>st_obj := (st_obj s)(st_next s \<mapsto> ob), st_next := Suc (st_next s)\<rparr>)"

text \<open>The handle of an item, if it has one, is invalidated.\<close>

definition InvalidateItem :: "flowItem \<Rightarrow> store \<Rightarrow> store" where
  "InvalidateItem it s = (case Handle s it of None \<Rightarrow> s | Some h \<Rightarrow> Invalidate h s)"

section \<open>The life of an item\<close>

definition NewItem :: "store \<Rightarrow> FlowControlRequest \<Rightarrow> duration \<Rightarrow> time \<Rightarrow> flowItem \<times> store" where
  "NewItem s req ttl t =
     (let p = st_next s in
      (\<lparr>fi_ptr = p, EnqueueTime = t, EffectiveTTL = ttl, OriginalRequest = req\<rparr>,
       s\<lparr>st_next := Suc p, st_handle := (st_handle s)(p := None),
         st_final := (st_final s)(p := newFinal), st_ctxErr := (st_ctxErr s)(p := None)\<rparr>))"

definition isFinalized :: "store \<Rightarrow> flowItem \<Rightarrow> bool" where
  "isFinalized s it = doneClosed (st_final s (fi_ptr it))"

definition FinalState :: "store \<Rightarrow> flowItem \<Rightarrow> QueueOutcome \<times> goError option" where
  "FinalState s it = (outcome (st_final s (fi_ptr it)), ferr (st_final s (fi_ptr it)))"

definition finalize :: "flowItem \<Rightarrow> QueueOutcome \<Rightarrow> goError option \<Rightarrow> store \<Rightarrow> store" where
  "finalize it oc e s =
     (let f = st_final s (fi_ptr it) in
      if onceFinalize f then s
      else s\<lparr>st_final := (st_final s)(fi_ptr it :=
               f\<lparr>onceFinalize := True,
                 ferr := (case e of None \<Rightarrow> ferr f | Some _ \<Rightarrow> e),
                 outcome := oc, doneClosed := True\<rparr>)\<rparr>)"

text \<open>Every state of an item is either untouched or finalized, never in between.\<close>

definition final_ok :: "store \<Rightarrow> bool" where
  "final_ok s \<longleftrightarrow> (\<forall>p. onceFinalize (st_final s p) = doneClosed (st_final s p) \<and>
     (\<not> doneClosed (st_final s p) \<longrightarrow> st_final s p = newFinal))"

lemma final_ok_empty: "final_ok emptyStore"
  by (simp add: final_ok_def emptyStore_def newFinal_def)

lemma final_ok_finalize: "final_ok s \<Longrightarrow> final_ok (finalize it oc e s)"
  by (auto simp: final_ok_def finalize_def Let_def)

lemma final_okD:
  "final_ok s \<Longrightarrow> onceFinalize (st_final s p) = doneClosed (st_final s p)"
  "final_ok s \<Longrightarrow> \<not> doneClosed (st_final s p) \<Longrightarrow> st_final s p = newFinal"
  by (simp_all add: final_ok_def)

lemma finalize_isFinalized: "final_ok s \<Longrightarrow> isFinalized (finalize it oc e s) it"
  by (simp add: finalize_def isFinalized_def Let_def final_okD(1))

lemma finalize_keeps:
  "final_ok s \<Longrightarrow> isFinalized s it \<Longrightarrow> FinalState (finalize it' oc e s) it = FinalState s it"
  by (auto simp: finalize_def isFinalized_def FinalState_def Let_def final_okD(1))

lemma finalize_idem_state:
  "final_ok s \<Longrightarrow> isFinalized s it \<Longrightarrow> finalize it oc e s = s"
  by (simp add: finalize_def isFinalized_def Let_def final_okD(1))

lemma finalize_fresh:
  "final_ok s \<Longrightarrow> \<not> isFinalized s it \<Longrightarrow> FinalState (finalize it oc e s) it = (oc, e)"
  using final_okD(2) [of s "fi_ptr it"]
  by (cases e) (simp_all add: finalize_def isFinalized_def FinalState_def Let_def newFinal_def)

lemma isFinalized_finalize:
  "final_ok s \<Longrightarrow> isFinalized (finalize it oc e s) x \<longleftrightarrow> isFinalized s x \<or> fi_ptr x = fi_ptr it"
  by (auto simp: finalize_def isFinalized_def Let_def final_okD(1))

lemma finalize_other [simp]:
  "st_handle (finalize it oc e s) = st_handle s"
  "st_obj (finalize it oc e s) = st_obj s"
  "st_next (finalize it oc e s) = st_next s"
  "st_ctxErr (finalize it oc e s) = st_ctxErr s"
  "st_panicked (finalize it oc e s) = st_panicked s"
  by (auto simp: finalize_def Let_def)

section \<open>Frames: which part of the store an operation may change\<close>

text \<open>
  References not yet allocated are unused; a queue operation on the items with addresses in
  \<open>A\<close> changes only the handle fields of those items and the handle objects made for them.
\<close>

definition store_ok :: "store \<Rightarrow> bool" where
  "store_ok s \<longleftrightarrow> (\<forall>h \<ge> st_next s. st_obj s h = None)"

definition frame :: "nat set \<Rightarrow> store \<Rightarrow> store \<Rightarrow> bool" where
  "frame A s s' \<longleftrightarrow>
     (\<forall>p. p \<notin> A \<longrightarrow> st_handle s' p = st_handle s p) \<and>
     (\<forall>h ob. st_obj s h = Some ob \<longrightarrow> fi_ptr (obj_item ob) \<notin> A \<longrightarrow> st_obj s' h = Some ob) \<and>
     st_final s' = st_final s \<and> st_ctxErr s' = st_ctxErr s \<and> st_next s \<le> st_next s' \<and>
     st_panicked s' = st_panicked s \<and> (store_ok s \<longrightarrow> store_ok s')"

lemma frame_refl [simp, frame_intros]: "frame A s s"
  by (simp add: frame_def)

lemma frame_mono: "frame A s s' \<Longrightarrow> A \<subseteq> B \<Longrightarrow> frame B s s'"
  by (auto simp: frame_def)

lemma frameD:
  assumes "frame A s s'"
  shows "p \<notin> A \<Longrightarrow> st_handle s' p = st_handle s p"
    and "st_obj s h = Some ob \<Longrightarrow> fi_ptr (obj_item ob) \<notin> A \<Longrightarrow> st_obj s' h = Some ob"
    and "st_final s' = st_final s" and "st_ctxErr s' = st_ctxErr s" and "st_next s \<le> st_next s'"
    and "st_panicked s' = st_panicked s" and "store_ok s \<Longrightarrow> store_ok s'"
  using assms unfolding frame_def by blast+

lemma frame_trans:
  assumes 1: "frame A s s'" and 2: "frame A s' s''"
  shows "frame A s s''"
  unfolding frame_def
proof (intro conjI allI impI)
  show "st_obj s'' h = Some ob" if "st_obj s h = Some ob" "fi_ptr (obj_item ob) \<notin> A" for h ob
    using frameD(2) [OF 2 frameD(2) [OF 1 that] that(2)] .
qed (simp_all add: frameD(1,3,4,6,7) [OF 1] frameD(1,3,4,6,7) [OF 2] order_trans [OF frameD(5) [OF 1] frameD(5) [OF 2]])

lemma store_ok_empty: "store_ok emptyStore"
  by (simp add: store_ok_def emptyStore_def)

lemma frame_Invalidate [frame_intros]:
  "(\<And>ob. st_obj s h = Some ob \<Longrightarrow> fi_ptr (obj_item ob) \<in> A) \<Longrightarrow> frame A s (Invalidate h s)"
  by (simp add: frame_def Invalidate_def store_ok_def)

lemma frame_SetHandle [frame_intros]: "fi_ptr it \<in> A \<Longrightarrow> frame A s (SetHandle it h s)"
  by (auto simp: frame_def SetHandle_def store_ok_def)

lemma frame_alloc [frame_intros]: "store_ok s \<Longrightarrow> frame A s (snd (alloc ob s))"
  by (auto simp: frame_def alloc_def store_ok_def)

end
