(* ===== verification/QueueContract.thy ===== *)
theory QueueContract
  imports FlowTypes
begin

text \<open>
  The contract of \<^verbatim>\<open>framework/queue.go\<close>: what every \<open>SafeQueue\<close> promises to the managed queue
  and the shard processor. The interface is the locale \<open>safe_queue\<close>; \<open>fifo_queue\<close> and
  \<open>priority_queue\<close> add the ordering that the capabilities \<open>FIFO\<close> and
  \<open>PriorityConfigurable\<close> announce. The contents of a queue are a list of items; an
  invariant ties the queue to the handle objects in the store.
\<close>

section \<open>Capabilities\<close>

datatype QueueCapability = CapabilityFIFO | CapabilityPriorityConfigurable

section \<open>Items, their bytes and their handles\<close>

definition ptrs :: "flowItem list \<Rightarrow> nat set" where
  "ptrs xs = fi_ptr ` set xs"

definition bytes :: "flowItem list \<Rightarrow> uint64" where
  "bytes xs = sum_list (map itemByteSize xs)"

definition linked :: "store \<Rightarrow> flowItem \<Rightarrow> nat \<Rightarrow> bool" where
  "linked s it h \<longleftrightarrow> Handle s it = Some h \<and> (\<exists>ob. st_obj s h = Some ob \<and> obj_item ob = it)"

definition attached :: "store \<Rightarrow> flowItem \<Rightarrow> nat \<Rightarrow> bool" where
  "attached s it h \<longleftrightarrow> linked s it h \<and> \<not> IsInvalidated s h"

lemma ptrs_simps [simp]:
  "ptrs [] = {}" "ptrs (x # xs) = insert (fi_ptr x) (ptrs xs)" "ptrs (xs @ ys) = ptrs xs \<union> ptrs ys"
  by (auto simp: ptrs_def)

lemma ptrs_mem: "x \<in> set xs \<Longrightarrow> fi_ptr x \<in> ptrs xs"
  by (simp add: ptrs_def)

lemma ptrs_mset: "mset xs = mset ys \<Longrightarrow> ptrs xs = ptrs ys"
  unfolding ptrs_def by (metis set_mset_mset)

lemma ptrs_subset: "set xs \<subseteq> set ys \<Longrightarrow> ptrs xs \<subseteq> ptrs ys"
  by (auto simp: ptrs_def)

lemma bytes_simps [simp]:
  "bytes [] = 0" "bytes (x # xs) = itemByteSize x + bytes xs" "bytes (xs @ ys) = bytes xs + bytes ys"
  by (simp_all add: bytes_def)

lemma bytes_mset: "mset xs = mset ys \<Longrightarrow> bytes xs = bytes ys"
  unfolding bytes_def by (rule sum_list_map_mset_eq)

lemma bytes_remove: "x \<in> set xs \<Longrightarrow> mset ys = mset xs - {#x#} \<Longrightarrow> bytes ys = bytes xs - itemByteSize x"
  unfolding bytes_def by (rule sum_list_map_remove) auto

lemma bytes_partition: "bytes xs = bytes (filter P xs) + bytes (filter (\<lambda>x. \<not> P x) xs)"
  unfolding bytes_def by (rule sum_list_map_partition)

lemma linked_frame:
  "linked s it h \<Longrightarrow> frame A s s' \<Longrightarrow> fi_ptr it \<notin> A \<Longrightarrow>
   Handle s' it = Some h \<and> st_obj s' h = st_obj s h"
  by (auto simp: linked_def Handle_def frameD(1) dest: frameD(2))

section \<open>Invalidating the handles of several items\<close>

definition invalidate_all :: "flowItem list \<Rightarrow> store \<Rightarrow> store" where
  "invalidate_all xs s = fold InvalidateItem xs s"

lemma invalidate_all_simps [simp]:
  "invalidate_all [] s = s"
  "invalidate_all (x # xs) s = invalidate_all xs (InvalidateItem x s)"
  by (simp_all add: invalidate_all_def)

lemma invalidate_all_append:
  "invalidate_all (xs @ ys) s = invalidate_all ys (invalidate_all xs s)"
  by (simp add: invalidate_all_def)

lemma Handle_InvalidateItem [simp]: "Handle (InvalidateItem x s) it = Handle s it"
  by (simp add: Handle_def InvalidateItem_def Invalidate_def split: option.split)

lemma IsInvalidated_InvalidateItem: "IsInvalidated s h \<Longrightarrow> IsInvalidated (InvalidateItem x s) h"
  by (auto simp: IsInvalidated_def InvalidateItem_def Invalidate_def split: option.splits)

lemma linked_InvalidateItem: "linked s it h \<Longrightarrow> linked (InvalidateItem x s) it h"
  by (auto simp: linked_def) (auto simp: InvalidateItem_def Invalidate_def split: option.split)

lemma InvalidateItem_self: "linked s it h \<Longrightarrow> IsInvalidated (InvalidateItem it s) h"
  by (auto simp: linked_def IsInvalidated_def InvalidateItem_def Invalidate_def)

lemma frame_InvalidateItem [frame_intros]:
  "(\<And>h. Handle s it = Some h \<Longrightarrow> linked s it h) \<Longrightarrow> fi_ptr it \<in> A \<Longrightarrow> frame A s (InvalidateItem it s)"
  by (auto simp: InvalidateItem_def linked_def intro!: frame_Invalidate split: option.split)

lemma invalidate_all_linked: "linked s it h \<Longrightarrow> linked (invalidate_all xs s) it h"
  by (induction xs arbitrary: s) (auto intro: linked_InvalidateItem)

lemma invalidate_all_keeps: "IsInvalidated s h \<Longrightarrow> IsInvalidated (invalidate_all xs s) h"
  by (induction xs arbitrary: s) (auto intro: IsInvalidated_InvalidateItem)

lemma frame_invalidate_all [frame_intros]:
  "\<forall>it\<in>set xs. \<exists>h. linked s it h \<Longrightarrow> ptrs xs \<subseteq> A \<Longrightarrow> frame A s (invalidate_all xs s)"
proof (induction xs arbitrary: s)
  case (Cons x xs)
  have "frame A s (InvalidateItem x s)"
    using Cons.prems by (intro frame_InvalidateItem) (auto simp: linked_def)
  moreover have "frame A (InvalidateItem x s) (invalidate_all xs (InvalidateItem x s))"
    using Cons.prems linked_InvalidateItem by (intro Cons.IH) (simp, blast, simp)
  ultimately show ?case by (auto intro: frame_trans)
qed simp

lemma invalidate_all_invalid:
  "it \<in> set xs \<Longrightarrow> linked s it h \<Longrightarrow> IsInvalidated (invalidate_all xs s) h"
proof (induction xs arbitrary: s)
  case (Cons x xs)
  show ?case
  proof (cases "it = x")
    case True
    with Cons.prems have "IsInvalidated (InvalidateItem x s) h"
      by (auto intro: InvalidateItem_self)
    then show ?thesis by (simp add: invalidate_all_keeps)
  next
    case False
    with Cons show ?thesis by (auto intro: linked_InvalidateItem)
  qed
qed simp

section \<open>Serving from the head\<close>

text \<open>At most \<open>n\<close> times: peek the head and remove it through its handle.\<close>

fun serve ::
  "('q \<Rightarrow> goError + flowItem) \<Rightarrow> ('q \<Rightarrow> store \<Rightarrow> nat option \<Rightarrow> (goError + flowItem) \<times> 'q \<times> store) \<Rightarrow>
   nat \<Rightarrow> 'q \<Rightarrow> store \<Rightarrow> flowItem list \<times> 'q \<times> store" where
  "serve peek remove 0 q s = ([], q, s)"
| "serve peek remove (Suc n) q s =
     (case peek q of
        Inl e \<Rightarrow> ([], q, s)
      | Inr it \<Rightarrow>
          (case remove q s (Handle s it) of
             (Inl e, q', s') \<Rightarrow> ([], q', s')
           | (Inr x, q', s') \<Rightarrow> (let (xs, qs) = serve peek remove n q' s' in (x # xs, qs))))"

section \<open>The SafeQueue interface\<close>

locale safe_queue =
  fixes invar :: "'q \<Rightarrow> store \<Rightarrow> bool"
    and contents :: "'q \<Rightarrow> flowItem list"
    and Len :: "'q \<Rightarrow> nat"
    and ByteSize :: "'q \<Rightarrow> uint64"
    and PeekHead :: "'q \<Rightarrow> goError + flowItem"
    and PeekTail :: "'q \<Rightarrow> goError + flowItem"
    and Add :: "'q \<Rightarrow> store \<Rightarrow> flowItem option \<Rightarrow> goError option \<times> 'q \<times> store"
    and Remove :: "'q \<Rightarrow> store \<Rightarrow> nat option \<Rightarrow> (goError + flowItem) \<times> 'q \<times> store"
    and Cleanup :: "'q \<Rightarrow> store \<Rightarrow> (flowItem \<Rightarrow> bool) \<Rightarrow> flowItem list \<times> 'q \<times> store"
    and Drain :: "'q \<Rightarrow> store \<Rightarrow> flowItem list \<times> 'q \<times> store"
  assumes distinct_ptrs: "invar q s \<Longrightarrow> distinct (map fi_ptr (contents q))"
    and invar_attached: "invar q s \<Longrightarrow> it \<in> set (contents q) \<Longrightarrow> \<exists>h. attached s it h"
    and invar_frame: "invar q s \<Longrightarrow> frame A s s' \<Longrightarrow> A \<inter> ptrs (contents q) = {} \<Longrightarrow> invar q s'"
    and invar_final: "invar q s \<Longrightarrow> invar q (s\<lparr>st_final := f, st_ctxErr := c\<rparr>)"
    and Len: "Len q = length (contents q)"
    and ByteSize: "invar q s \<Longrightarrow> ByteSize q = bytes (contents q)"
    and PeekHead_empty: "contents q = [] \<Longrightarrow> PeekHead q = Inl (Sentinel ErrQueueEmpty)"
    and PeekHead_mem: "contents q \<noteq> [] \<Longrightarrow> \<exists>it\<in>set (contents q). PeekHead q = Inr it"
    and PeekTail_empty: "contents q = [] \<Longrightarrow> PeekTail q = Inl (Sentinel ErrQueueEmpty)"
    and PeekTail_mem: "contents q \<noteq> [] \<Longrightarrow> \<exists>it\<in>set (contents q). PeekTail q = Inr it"
    and Add_nil: "Add q s None = (Some (Sentinel ErrNilQueueItem), q, s)"
    and Add_ok: "invar q s \<Longrightarrow> fi_ptr it \<notin> ptrs (contents q) \<Longrightarrow>
      \<exists>q' s'. Add q s (Some it) = (None, q', s') \<and> invar q' s' \<and>
        mset (contents q') = add_mset it (mset (contents q)) \<and>
        frame (insert (fi_ptr it) (ptrs (contents q))) s s'"
    and Remove_nil: "Remove q s None = (Inl (Sentinel ErrInvalidQueueItemHandle), q, s)"
    and Remove_invalidated: "IsInvalidated s h \<Longrightarrow>
      Remove q s (Some h) = (Inl (Sentinel ErrInvalidQueueItemHandle), q, s)"
    and Remove_ok: "invar q s \<Longrightarrow> it \<in> set (contents q) \<Longrightarrow> Handle s it = Some h \<Longrightarrow>
      \<exists>q' s'. Remove q s (Some h) = (Inr it, q', s') \<and> invar q' s' \<and>
        mset (contents q') = mset (contents q) - {#it#} \<and>
        frame (ptrs (contents q)) s s' \<and> IsInvalidated s' h"
    and Cleanup_ok: "invar q s \<Longrightarrow>
      \<exists>q' s'. Cleanup q s P = (filter P (contents q), q', s') \<and> invar q' s' \<and>
        mset (contents q') = mset (filter (\<lambda>x. \<not> P x) (contents q)) \<and>
        frame (ptrs (contents q)) s s' \<and>
        (\<forall>it\<in>set (filter P (contents q)). \<forall>h. Handle s it = Some h \<longrightarrow> IsInvalidated s' h)"
    and Drain_ok: "invar q s \<Longrightarrow>
      \<exists>q' s'. Drain q s = (contents q, q', s') \<and> invar q' s' \<and> contents q' = [] \<and>
        frame (ptrs (contents q)) s s' \<and>
        (\<forall>it\<in>set (contents q). \<forall>h. Handle s it = Some h \<longrightarrow> IsInvalidated s' h)"
begin

lemma PeekHead_cases:
  obtains "contents q = []" "PeekHead q = Inl (Sentinel ErrQueueEmpty)"
  | it where "it \<in> set (contents q)" "PeekHead q = Inr it"
  using PeekHead_empty PeekHead_mem by blast

text \<open>An item that was added can be removed through its handle, exactly once.\<close>

lemma Add_Remove:
  assumes "invar q s" "fi_ptr it \<notin> ptrs (contents q)" "Add q s (Some it) = (e, q1, s1)"
  shows "\<exists>h q2 s2. Handle s1 it = Some h \<and> Remove q1 s1 (Some h) = (Inr it, q2, s2) \<and>
    mset (contents q2) = mset (contents q) \<and> invar q2 s2 \<and>
    Remove q2 s2 (Some h) = (Inl (Sentinel ErrInvalidQueueItemHandle), q2, s2)"
proof -
  have 1: "invar q1 s1" "mset (contents q1) = add_mset it (mset (contents q))"
    using Add_ok [OF assms(1,2)] assms(3) by auto
  have mem: "it \<in> set (contents q1)" using 1(2) by (metis set_mset_mset union_single_eq_member)
  from invar_attached [OF 1(1) mem] obtain h where h: "Handle s1 it = Some h"
    by (auto simp: attached_def linked_def)
  from Remove_ok [OF 1(1) mem h] obtain q2 s2 where
    2: "Remove q1 s1 (Some h) = (Inr it, q2, s2)" "invar q2 s2"
      "mset (contents q2) = mset (contents q1) - {#it#}" "IsInvalidated s2 h" by blast
  have "Remove q2 s2 (Some h) = (Inl (Sentinel ErrInvalidQueueItemHandle), q2, s2)"
    by (rule Remove_invalidated) (rule 2(4))
  with h 1 2 show ?thesis by auto
qed

text \<open>Removal from one queue leaves every queue with other items intact.\<close>

lemma Remove_other:
  assumes "invar q s" "it \<in> set (contents q)" "Handle s it = Some h" "invar r s"
    "ptrs (contents q) \<inter> ptrs (contents r) = {}" "Remove q s (Some h) = (e, q', s')"
  shows "invar r s'"
  using Remove_ok [OF assms(1-3)] invar_frame [OF assms(4) _ assms(5)] assms(6) by auto

end

text \<open>\<open>CapabilityFIFO\<close>: the contents are in the order of their arrival and the head is the oldest.\<close>

locale fifo_queue = safe_queue invar contents Len ByteSize PeekHead PeekTail Add Remove Cleanup Drain
  for invar :: "'q \<Rightarrow> store \<Rightarrow> bool" and contents and Len and ByteSize and PeekHead and PeekTail
    and Add and Remove and Cleanup and Drain +
  assumes PeekHead_hd: "contents q \<noteq> [] \<Longrightarrow> PeekHead q = Inr (hd (contents q))"
    and PeekTail_last: "contents q \<noteq> [] \<Longrightarrow> PeekTail q = Inr (last (contents q))"
    and Add_order: "Add q s (Some it) = (None, q', s') \<Longrightarrow> contents q' = contents q @ [it]"
    and Remove_order: "invar q s \<Longrightarrow> it \<in> set (contents q) \<Longrightarrow> Handle s it = Some h \<Longrightarrow>
      Remove q s (Some h) = (Inr it, q', s') \<Longrightarrow> contents q' = remove1 it (contents q)"
    and Cleanup_order: "invar q s \<Longrightarrow> Cleanup q s P = (xs, q', s') \<Longrightarrow>
      contents q' = filter (\<lambda>x. \<not> P x) (contents q)"
begin

text \<open>Taking the head out leaves the second oldest item at the head.\<close>

lemma Remove_head:
  assumes "invar q s" "contents q = it # rest" "Handle s it = Some h"
  shows "\<exists>q' s'. Remove q s (Some h) = (Inr it, q', s') \<and> contents q' = rest \<and> invar q' s'"
  using Remove_ok [OF assms(1) _ assms(3)] Remove_order [OF assms(1) _ assms(3)] assms(2) by auto

text \<open>Serving from the head returns the items in the order of their arrival.\<close>

lemma serve_in_order:
  "invar q s \<Longrightarrow> \<exists>q' s'. serve PeekHead Remove n q s = (take n (contents q), q', s') \<and>
     contents q' = drop n (contents q) \<and> invar q' s'"
proof (induction n arbitrary: q s)
  case (Suc n)
  show ?case
  proof (cases "contents q")
    case Nil
    then show ?thesis using Suc.prems PeekHead_empty by simp
  next
    case (Cons it rest)
    then obtain h where h: "Handle s it = Some h"
      using invar_attached [OF Suc.prems, of it] by (auto simp: attached_def linked_def)
    obtain q1 s1 where 1: "Remove q s (Some h) = (Inr it, q1, s1)" "contents q1 = rest" "invar q1 s1"
      using Remove_head [OF Suc.prems Cons h] by blast
    from Suc.IH [OF 1(3)] 1 h Cons PeekHead_hd [of q] show ?thesis by auto
  qed
qed simp

end

text \<open>
  \<open>CapabilityPriorityConfigurable\<close>: under an order invariant for the comparator, the head is an
  item that no other item precedes and the tail one that precedes no other.
\<close>

locale priority_queue = safe_queue invar contents Len ByteSize PeekHead PeekTail Add Remove Cleanup Drain
  for invar :: "'q \<Rightarrow> store \<Rightarrow> bool" and contents and Len and ByteSize and PeekHead and PeekTail
    and Add and Remove and Cleanup and Drain +
  fixes ordered :: "'q \<Rightarrow> bool"
    and before :: "'q \<Rightarrow> flowItem \<Rightarrow> flowItem \<Rightarrow> bool"
  assumes PeekHead_best: "ordered q \<Longrightarrow> PeekHead q = Inr it \<Longrightarrow> x \<in> set (contents q) \<Longrightarrow>
      \<not> before q x it"
    and PeekTail_worst: "ordered q \<Longrightarrow> PeekTail q = Inr it \<Longrightarrow> x \<in> set (contents q) \<Longrightarrow>
      \<not> before q it x"
    and Add_ordered: "ordered q \<Longrightarrow> Add q s (Some it) = (None, q', s') \<Longrightarrow>
      ordered q' \<and> before q' = before q"
    and Remove_head_ordered: "invar q s \<Longrightarrow> ordered q \<Longrightarrow>
      (\<forall>x\<in>set (contents q). \<forall>y\<in>set (contents q). x \<noteq> y \<longrightarrow> before q x y \<or> before q y x) \<Longrightarrow>
      PeekHead q = Inr it \<Longrightarrow> Handle s it = Some h \<Longrightarrow>
      Remove q s (Some h) = (Inr it, q', s') \<Longrightarrow> ordered q' \<and> before q' = before q"
    and Cleanup_ordered: "invar q s \<Longrightarrow> ordered q \<Longrightarrow>
      (\<forall>x\<in>set (contents q). \<forall>y\<in>set (contents q). x \<noteq> y \<longrightarrow> before q x y \<or> before q y x) \<Longrightarrow>
      Cleanup q s P = (xs, q', s') \<Longrightarrow> ordered q' \<and> before q' = before q"
begin

text \<open>
  Taking the head out again and again serves the items in the order of the comparator: the
  new head never precedes the item served before it.
\<close>

lemma next_head_not_before:
  assumes "invar q s" "ordered q"
    and total: "\<forall>x\<in>set (contents q). \<forall>y\<in>set (contents q). x \<noteq> y \<longrightarrow> before q x y \<or> before q y x"
    and head: "PeekHead q = Inr it" "Handle s it = Some h"
    and rem: "Remove q s (Some h) = (Inr it, q', s')" and next_head: "PeekHead q' = Inr it'"
  shows "ordered q'" and "invar q' s'" and "\<not> before q it' it"
proof -
  show "ordered q'" using Remove_head_ordered [OF assms(1-6)] by simp
  have it: "it \<in> set (contents q)" using head(1) by (cases q rule: PeekHead_cases) auto
  from Remove_ok [OF assms(1) it head(2)] rem have
    "invar q' s'" and m: "mset (contents q') = mset (contents q) - {#it#}" by auto
  then show "invar q' s'" by simp
  have "it' \<in> set (contents q')" using next_head by (cases q' rule: PeekHead_cases) auto
  then have "it' \<in> set (contents q)" using m by (metis in_diffD set_mset_mset)
  then show "\<not> before q it' it" using PeekHead_best [OF assms(2) head(1)] by blast
qed

text \<open>
  Serving everything from the head sorts the items: what is served is a permutation of the
  contents in which no item precedes one that was served before it.
\<close>

lemma serve_sorted:
  assumes "invar q s" "ordered q" "n = length (contents q)"
    and "\<forall>x\<in>set (contents q). \<forall>y\<in>set (contents q). x \<noteq> y \<longrightarrow> before q x y \<or> before q y x"
  shows "\<exists>xs q' s'. serve PeekHead Remove n q s = (xs, q', s') \<and> contents q' = [] \<and>
    mset xs = mset (contents q) \<and> sorted_wrt (\<lambda>a b. \<not> before q b a) xs"
  using assms
proof (induction n arbitrary: q s)
  case (Suc n)
  then have "contents q \<noteq> []" by auto
  then obtain it where it: "PeekHead q = Inr it" "it \<in> set (contents q)"
    using PeekHead_mem by blast
  then obtain h where h: "Handle s it = Some h"
    using invar_attached [OF Suc.prems(1)] by (auto simp: attached_def linked_def)
  obtain q1 s1 where 1: "Remove q s (Some h) = (Inr it, q1, s1)" "invar q1 s1"
      "mset (contents q1) = mset (contents q) - {#it#}"
    using Remove_ok [OF Suc.prems(1) it(2) h] by blast
  have o1: "ordered q1" "before q1 = before q"
    using Remove_head_ordered [OF Suc.prems(1,2,4) it(1) h 1(1)] by auto
  have sub: "set (contents q1) \<subseteq> set (contents q)" using 1(3) by (metis in_diffD set_mset_mset subsetI)
  have "length (contents q1) = n" using 1(3) it(2) Suc.prems(3)
    by (metis diff_Suc_1 set_mset_mset size_Diff_singleton size_mset)
  then obtain xs q' s' where IH: "serve PeekHead Remove n q1 s1 = (xs, q', s')" "contents q' = []"
      "mset xs = mset (contents q1)" "sorted_wrt (\<lambda>a b. \<not> before q b a) xs"
    using Suc.IH [OF 1(2) o1(1)] Suc.prems(4) sub unfolding o1(2) by blast
  have "set xs \<subseteq> set (contents q)" using IH(3) sub by (metis set_mset_mset)
  then have "\<not> before q x it" if "x \<in> set xs" for x
    using PeekHead_best [OF Suc.prems(2) it(1)] that by blast
  moreover have "mset (it # xs) = mset (contents q)" using IH(3) 1(3) it(2) by simp
  ultimately show ?case using IH it h 1 by auto
qed simp

end

end
