(* ===== verification/MaxMinHeap.thy ===== *)
theory MaxMinHeap
  imports QueueContract
begin

unbundle bit_operations_syntax

text \<open>
  \<^verbatim>\<open>framework/plugins/queue/maxminheap/maxminheap.go\<close>: the priority queue on an array-backed
  max-min heap, with the index of every item kept in its handle object. This theory has the
  operations and their structural facts (contents, handles, byte count); the heap order is in
  \<open>HeapOrder\<close>. The operations take the heap and the store and return both; the comparator's
  function is passed to the routines that compare.

  A nil-pointer dereference or an index out of range sets the sticky flag \<open>st_panicked\<close> of the
  store; the invariant says that it never happens.
\<close>

section \<open>State\<close>

record maxMinHeap =
  mh_items :: "flowItem list"
  mh_handles :: "nat \<Rightarrow> nat option"
  mh_byteSize :: uint64
  mh_comparator :: "flowItem \<Rightarrow> flowItem \<Rightarrow> bool"

type_synonym comparatorFunc = "flowItem \<Rightarrow> flowItem \<Rightarrow> bool"
type_synonym heapState = "maxMinHeap \<times> store"

definition newMaxMinHeap :: "comparatorFunc \<Rightarrow> maxMinHeap" where
  "newMaxMinHeap comparator =
     \<lparr>mh_items = [], mh_handles = (\<lambda>_. None), mh_byteSize = 0, mh_comparator = comparator\<rparr>"

definition panic :: "store \<Rightarrow> store" where
  "panic s = s\<lparr>st_panicked := True\<rparr>"

section \<open>Levels\<close>

text \<open>The integer part of \<open>math.Log2\<close>.\<close>

fun log2_floor :: "nat \<Rightarrow> nat" where
  "log2_floor n = (if n < 2 then 0 else Suc (log2_floor (n div 2)))"

declare log2_floor.simps [simp del]

lemma log2_floor_bounds: "0 < n \<Longrightarrow> 2 ^ log2_floor n \<le> n \<and> n < 2 ^ Suc (log2_floor n)"
proof (induction n rule: log2_floor.induct)
  case (1 n)
  show ?case
  proof (cases "n < 2")
    case True
    with "1.prems" show ?thesis by (simp add: log2_floor.simps [of n])
  next
    case False
    with "1.IH" have "2 ^ log2_floor (n div 2) \<le> n div 2 \<and> n div 2 < 2 ^ Suc (log2_floor (n div 2))"
      by simp
    with False show ?thesis by (subst (1 2) log2_floor.simps) (simp, linarith)
  qed
qed

definition isMinLevel :: "nat \<Rightarrow> bool" where
  "isMinLevel i = (log2_floor (i + 1) mod 2 \<noteq> 0)"

lemma isMinLevel_0 [simp]: "\<not> isMinLevel 0"
  by (simp add: isMinLevel_def log2_floor.simps)

lemma isMinLevel_parent: "0 < i \<Longrightarrow> isMinLevel i \<longleftrightarrow> \<not> isMinLevel ((i - 1) div 2)"
proof -
  assume "0 < i"
  then have "(i + 1) div 2 = (i - 1) div 2 + 1" by (cases i) auto
  with \<open>0 < i\<close> have "log2_floor (i + 1) = Suc (log2_floor ((i - 1) div 2 + 1))"
    by (subst log2_floor.simps) simp
  then show ?thesis by (simp add: isMinLevel_def mod_Suc)
qed

section \<open>Exchanging two slots\<close>

text \<open>\<open>h.handles[item.Handle()].index = i\<close>\<close>

definition setIndex :: "maxMinHeap \<Rightarrow> flowItem \<Rightarrow> nat \<Rightarrow> store \<Rightarrow> store" where
  "setIndex h it i s =
     (case Option.bind (Handle s it) (mh_handles h) of
        None \<Rightarrow> panic s
      | Some p \<Rightarrow>
          (case st_obj s p of
             Some (HeapItem hi) \<Rightarrow> s\<lparr>st_obj := (st_obj s)(p \<mapsto> HeapItem (hi\<lparr>hi_index := i\<rparr>))\<rparr>
           | _ \<Rightarrow> panic s))"

fun mh_swap :: "heapState \<Rightarrow> nat \<Rightarrow> nat \<Rightarrow> heapState" where
  "mh_swap (h, s) i j =
     (let h1 = h\<lparr>mh_items := list_swap (mh_items h) i j\<rparr>;
          s1 = setIndex h1 (mh_items h1 ! i) i s
      in (h1, setIndex h1 (mh_items h1 ! j) j s1))"

abbreviation hs_items :: "heapState \<Rightarrow> flowItem list" where
  "hs_items hs \<equiv> mh_items (fst hs)"

lemma hs_items_swap [simp]: "hs_items (mh_swap hs i j) = list_swap (hs_items hs) i j"
  by (cases hs) (simp add: Let_def)

section \<open>Moving up\<close>

function mh_upMin :: "comparatorFunc \<Rightarrow> heapState \<Rightarrow> nat \<Rightarrow> heapState" where
  "mh_upMin cmp hs i =
     (let parentIndex = (i - 1) div 2 in
      if parentIndex = 0 then hs
      else let grandparentIndex = (parentIndex - 1) div 2 in
        if cmp (hs_items hs ! grandparentIndex) (hs_items hs ! i)
        then mh_upMin cmp (mh_swap hs i grandparentIndex) grandparentIndex
        else hs)"
  by pat_completeness auto
termination by (relation "measure (\<lambda>(cmp, hs, i). i)") auto

function mh_upMax :: "comparatorFunc \<Rightarrow> heapState \<Rightarrow> nat \<Rightarrow> heapState" where
  "mh_upMax cmp hs i =
     (let parentIndex = (i - 1) div 2 in
      if parentIndex = 0 then hs
      else let grandparentIndex = (parentIndex - 1) div 2 in
        if cmp (hs_items hs ! i) (hs_items hs ! grandparentIndex)
        then mh_upMax cmp (mh_swap hs i grandparentIndex) grandparentIndex
        else hs)"
  by pat_completeness auto
termination by (relation "measure (\<lambda>(cmp, hs, i). i)") auto

declare mh_upMin.simps [simp del] mh_upMax.simps [simp del]

definition mh_up :: "comparatorFunc \<Rightarrow> heapState \<Rightarrow> nat \<Rightarrow> heapState" where
  "mh_up cmp hs i =
     (if i = 0 then hs
      else let parentIndex = (i - 1) div 2 in
        if isMinLevel i then
          (if cmp (hs_items hs ! i) (hs_items hs ! parentIndex)
           then mh_upMax cmp (mh_swap hs i parentIndex) parentIndex
           else mh_upMin cmp hs i)
        else
          (if cmp (hs_items hs ! parentIndex) (hs_items hs ! i)
           then mh_upMin cmp (mh_swap hs i parentIndex) parentIndex
           else mh_upMax cmp hs i))"

section \<open>Moving down\<close>

text \<open>The result \<open>-1\<close> (no descendants) is \<open>None\<close>.\<close>

definition findSmallestChildOrGrandchild :: "comparatorFunc \<Rightarrow> flowItem list \<Rightarrow> nat \<Rightarrow> nat option" where
  "findSmallestChildOrGrandchild cmp items i =
     (let leftChild = 2 * i + 1 in
      if leftChild \<ge> length items then None
      else
        let m = leftChild;
            rightChild = 2 * i + 2;
            m = (if rightChild < length items \<and> cmp (items ! m) (items ! rightChild)
                 then rightChild else m);
            grandchildStart = 2 * leftChild + 1;
            grandchildEnd = grandchildStart + 4
        in Some (fold (\<lambda>j m. if cmp (items ! m) (items ! j) then j else m)
                   [grandchildStart ..< min grandchildEnd (length items)] m))"

definition findLargestChildOrGrandchild :: "comparatorFunc \<Rightarrow> flowItem list \<Rightarrow> nat \<Rightarrow> nat option" where
  "findLargestChildOrGrandchild cmp items i =
     (let leftChild = 2 * i + 1 in
      if leftChild \<ge> length items then None
      else
        let m = leftChild;
            rightChild = 2 * i + 2;
            m = (if rightChild < length items \<and> cmp (items ! rightChild) (items ! m)
                 then rightChild else m);
            grandchildStart = 2 * leftChild + 1;
            grandchildEnd = grandchildStart + 4
        in Some (fold (\<lambda>j m. if cmp (items ! j) (items ! m) then j else m)
                   [grandchildStart ..< min grandchildEnd (length items)] m))"

lemma fold_choose_mem: "fold (\<lambda>j m. if Q j m then j else m) js m \<in> insert m (set js)"
proof (induction js arbitrary: m)
  case (Cons a js)
  from Cons.IH [of "if Q a m then a else m"] show ?case by (auto split: if_splits)
qed simp

lemma findSmallest_flip:
  "findSmallestChildOrGrandchild cmp = findLargestChildOrGrandchild (\<lambda>a b. cmp b a)"
  by (intro ext) (simp add: findSmallestChildOrGrandchild_def findLargestChildOrGrandchild_def)

text \<open>The children and grandchildren of a node that the array holds.\<close>

definition descendants2 :: "nat \<Rightarrow> nat \<Rightarrow> nat set" where
  "descendants2 n i = {j. j < n \<and> (j = 2 * i + 1 \<or> j = 2 * i + 2 \<or> 4 * i + 3 \<le> j \<and> j < 4 * i + 7)}"

lemma descendants2_iff:
  "j \<in> descendants2 n i \<longleftrightarrow> j < n \<and> (j = 2 * i + 1 \<or> j = 2 * i + 2 \<or> 4 * i + 3 \<le> j \<and> j < 4 * i + 7)"
  by (simp add: descendants2_def)

lemma findLargest_mem:
  assumes "findLargestChildOrGrandchild cmp items i = Some m"
  shows "m \<in> descendants2 (length items) i"
proof -
  let ?js = "[2 * (2 * i + 1) + 1 ..< min (2 * (2 * i + 1) + 1 + 4) (length items)]"
  from assms obtain m0 where l: "2 * i + 1 < length items"
    and m0: "m0 = 2 * i + 1 \<or> m0 = 2 * i + 2 \<and> m0 < length items"
    and m: "m = fold (\<lambda>j m. if cmp (items ! j) (items ! m) then j else m) ?js m0"
    by (auto simp: findLargestChildOrGrandchild_def Let_def split: if_splits)
  from fold_choose_mem [of "\<lambda>j m. cmp (items ! j) (items ! m)" ?js m0]
  have "m = m0 \<or> m \<in> set ?js" unfolding m by blast
  with l m0 show ?thesis by (auto simp: descendants2_iff)
qed

lemma findLargest_gt:
  "findLargestChildOrGrandchild cmp items i = Some m \<Longrightarrow> i < m \<and> m < length items"
  by (drule findLargest_mem) (auto simp: descendants2_iff)

lemma findSmallest_gt:
  "findSmallestChildOrGrandchild cmp items i = Some m \<Longrightarrow> i < m \<and> m < length items"
  by (simp add: findSmallest_flip findLargest_gt)

function mh_downMin :: "comparatorFunc \<Rightarrow> heapState \<Rightarrow> nat \<Rightarrow> heapState" where
  "mh_downMin cmp hs i =
     (case findSmallestChildOrGrandchild cmp (hs_items hs) i of
        None \<Rightarrow> hs
      | Some m \<Rightarrow>
          if cmp (hs_items hs ! i) (hs_items hs ! m) then
            let hs1 = mh_swap hs i m;
                parentOfM = (m - 1) div 2;
                hs2 = (if parentOfM \<noteq> i \<and> cmp (hs_items hs1 ! m) (hs_items hs1 ! parentOfM)
                       then mh_swap hs1 m parentOfM else hs1)
            in mh_downMin cmp hs2 m
          else hs)"
  by pat_completeness auto
termination
  by (relation "measure (\<lambda>(cmp, hs, i). length (hs_items hs) - i)") (auto dest!: findSmallest_gt)

function mh_downMax :: "comparatorFunc \<Rightarrow> heapState \<Rightarrow> nat \<Rightarrow> heapState" where
  "mh_downMax cmp hs i =
     (case findLargestChildOrGrandchild cmp (hs_items hs) i of
        None \<Rightarrow> hs
      | Some m \<Rightarrow>
          if cmp (hs_items hs ! m) (hs_items hs ! i) then
            let hs1 = mh_swap hs i m;
                parentOfM = (m - 1) div 2;
                hs2 = (if parentOfM \<noteq> i \<and> cmp (hs_items hs1 ! parentOfM) (hs_items hs1 ! m)
                       then mh_swap hs1 m parentOfM else hs1)
            in mh_downMax cmp hs2 m
          else hs)"
  by pat_completeness auto
termination
  by (relation "measure (\<lambda>(cmp, hs, i). length (hs_items hs) - i)") (auto dest!: findLargest_gt)

declare mh_downMin.simps [simp del] mh_downMax.simps [simp del]

definition mh_down :: "comparatorFunc \<Rightarrow> heapState \<Rightarrow> nat \<Rightarrow> heapState" where
  "mh_down cmp hs i = (if isMinLevel i then mh_downMin cmp hs i else mh_downMax cmp hs i)"

section \<open>The queue operations\<close>

definition mh_Name :: "maxMinHeap \<Rightarrow> string" where "mh_Name h = ''MaxMinHeap''"

definition mh_Capabilities :: "maxMinHeap \<Rightarrow> QueueCapability list" where
  "mh_Capabilities h = [CapabilityPriorityConfigurable]"

definition mh_Len :: "maxMinHeap \<Rightarrow> nat" where "mh_Len h = length (mh_items h)"

definition mh_ByteSize :: "maxMinHeap \<Rightarrow> uint64" where "mh_ByteSize h = mh_byteSize h"

definition mh_PeekHead :: "maxMinHeap \<Rightarrow> goError + flowItem" where
  "mh_PeekHead h =
     (if length (mh_items h) = 0 then Inl (Sentinel ErrQueueEmpty) else Inr (mh_items h ! 0))"

definition mh_PeekTail :: "maxMinHeap \<Rightarrow> goError + flowItem" where
  "mh_PeekTail h =
     (let n = length (mh_items h) in
      if n = 0 then Inl (Sentinel ErrQueueEmpty)
      else if n = 1 then Inr (mh_items h ! 0)
      else if n = 2 then Inr (mh_items h ! 1)
      else if mh_comparator h (mh_items h ! 1) (mh_items h ! 2) then Inr (mh_items h ! 2)
      else Inr (mh_items h ! 1))"

definition mh_push :: "maxMinHeap \<Rightarrow> store \<Rightarrow> flowItem \<Rightarrow> heapState" where
  "mh_push h s item =
     (let (hdl, s1) = alloc (HeapItem
            \<lparr>hi_item = item, hi_index = length (mh_items h), hi_isInvalidated = False\<rparr>) s;
          h1 = h\<lparr>mh_items := mh_items h @ [item], mh_handles := (mh_handles h)(hdl \<mapsto> hdl)\<rparr>;
          s2 = SetHandle item hdl s1
      in mh_up (mh_comparator h) (h1, s2) (length (mh_items h1) - 1))"

definition mh_Add :: "maxMinHeap \<Rightarrow> store \<Rightarrow> flowItem option \<Rightarrow> goError option \<times> maxMinHeap \<times> store" where
  "mh_Add h s item =
     (case item of
        None \<Rightarrow> (Some (Sentinel ErrNilQueueItem), h, s)
      | Some it \<Rightarrow>
          let (h1, s1) = mh_push h s it in
          (None, h1\<lparr>mh_byteSize := mh_byteSize h1 + itemByteSize it\<rparr>, s1))"

definition mh_Remove :: "maxMinHeap \<Rightarrow> store \<Rightarrow> nat option \<Rightarrow> (goError + flowItem) \<times> maxMinHeap \<times> store" where
  "mh_Remove h s handle =
     (case handle of
        None \<Rightarrow> (Inl (Sentinel ErrInvalidQueueItemHandle), h, s)
      | Some hdl \<Rightarrow>
          if IsInvalidated s hdl then (Inl (Sentinel ErrInvalidQueueItemHandle), h, s)
          else case st_obj s hdl of
            Some (HeapItem hi) \<Rightarrow>
              if mh_handles h hdl = None then (Inl (Sentinel ErrQueueItemNotFound), h, s)
              else
                let i = hi_index hi; n = length (mh_items h) - 1 in
                if i \<ge> length (mh_items h) then (Inl (Sentinel ErrQueueItemNotFound), h, panic s)
                else
                  let item = mh_items h ! i in
                  if i < n then
                    let (h1, s1) = mh_swap (h, s) i n;
                        h2 = h1\<lparr>mh_items := take n (mh_items h1),
                                mh_handles := (mh_handles h1)(hdl := None),
                                mh_byteSize := mh_byteSize h1 + (NOT (itemByteSize item) + 1)\<rparr>;
                        (h3, s3) = mh_down (mh_comparator h) (h2, s1) i
                    in (Inr item, h3, Invalidate hdl s3)
                  else
                    (Inr item,
                     h\<lparr>mh_items := take n (mh_items h),
                       mh_handles := (mh_handles h)(hdl := None),
                       mh_byteSize := mh_byteSize h + (NOT (itemByteSize item) + 1)\<rparr>,
                     Invalidate hdl s)
          | _ \<Rightarrow> (Inl (Sentinel ErrInvalidQueueItemHandle), h, s))"

text \<open>The first loop of \<open>Cleanup\<close>: items to remove, items to keep.\<close>

fun mh_cleanup_from ::
  "(flowItem \<Rightarrow> bool) \<Rightarrow> flowItem list \<Rightarrow> heapState \<Rightarrow> flowItem list \<Rightarrow> flowItem list \<Rightarrow>
   flowItem list \<times> flowItem list \<times> heapState" where
  "mh_cleanup_from predicate [] hs removedItems itemsToKeep = (removedItems, itemsToKeep, hs)"
| "mh_cleanup_from predicate (item # items) (h, s) removedItems itemsToKeep =
     (if predicate item then
        let (h1, s1) =
              (case Handle s item of
                 None \<Rightarrow> (h, s)
               | Some hdl \<Rightarrow> (h\<lparr>mh_handles := (mh_handles h)(hdl := None)\<rparr>, Invalidate hdl s));
            h2 = h1\<lparr>mh_byteSize := mh_byteSize h1 + (NOT (itemByteSize item) + 1)\<rparr>
        in mh_cleanup_from predicate items (h2, s1) (removedItems @ [item]) itemsToKeep
      else mh_cleanup_from predicate items (h, s) removedItems (itemsToKeep @ [item]))"

text \<open>The second loop sets the indices, the third restores the heap order from the last inner node.\<close>

fun mh_reindex :: "maxMinHeap \<Rightarrow> nat \<Rightarrow> flowItem list \<Rightarrow> store \<Rightarrow> store" where
  "mh_reindex h i [] s = s"
| "mh_reindex h i (item # items) s = mh_reindex h (Suc i) items (setIndex h item i s)"

fun mh_heapify :: "comparatorFunc \<Rightarrow> heapState \<Rightarrow> nat \<Rightarrow> heapState" where
  "mh_heapify cmp hs 0 = hs"
| "mh_heapify cmp hs (Suc i) = mh_heapify cmp (mh_down cmp hs i) i"

definition mh_Cleanup :: "maxMinHeap \<Rightarrow> store \<Rightarrow> (flowItem \<Rightarrow> bool) \<Rightarrow> flowItem list \<times> maxMinHeap \<times> store" where
  "mh_Cleanup h s predicate =
     (let (removedItems, itemsToKeep, (h1, s1)) = mh_cleanup_from predicate (mh_items h) (h, s) [] [] in
      if removedItems \<noteq> [] then
        let h2 = h1\<lparr>mh_items := itemsToKeep\<rparr>;
            s2 = mh_reindex h2 0 itemsToKeep s1;
            (h3, s3) = mh_heapify (mh_comparator h) (h2, s2) (length itemsToKeep div 2)
        in (removedItems, h3, s3)
      else (removedItems, h1, s1))"

definition mh_Drain :: "maxMinHeap \<Rightarrow> store \<Rightarrow> flowItem list \<times> maxMinHeap \<times> store" where
  "mh_Drain h s =
     (let drainedItems = mh_items h in
      (drainedItems, h\<lparr>mh_items := [], mh_handles := (\<lambda>_. None), mh_byteSize := 0\<rparr>,
       invalidate_all drainedItems s))"

section \<open>Handles and indices\<close>

definition owned :: "maxMinHeap \<Rightarrow> store \<Rightarrow> flowItem \<Rightarrow> nat \<Rightarrow> bool" where
  "owned h s it hdl \<longleftrightarrow> Handle s it = Some hdl \<and> mh_handles h hdl = Some hdl \<and>
     (\<exists>k. st_obj s hdl = Some (HeapItem \<lparr>hi_item = it, hi_index = k, hi_isInvalidated = False\<rparr>))"

definition item_index :: "store \<Rightarrow> flowItem \<Rightarrow> nat option" where
  "item_index s it =
     (case Option.bind (Handle s it) (st_obj s) of
        Some (HeapItem hi) \<Rightarrow> Some (hi_index hi) | _ \<Rightarrow> None)"

definition mh_owns :: "maxMinHeap \<Rightarrow> store \<Rightarrow> bool" where
  "mh_owns h s \<longleftrightarrow> store_ok s \<and> \<not> st_panicked s \<and> distinct (map fi_ptr (mh_items h)) \<and>
     (\<forall>it\<in>set (mh_items h). \<exists>hdl. owned h s it hdl) \<and>
     (\<forall>hdl. mh_handles h hdl \<noteq> None \<longrightarrow> (\<exists>it\<in>set (mh_items h). Handle s it = Some hdl))"

definition mh_indexed :: "maxMinHeap \<Rightarrow> store \<Rightarrow> bool" where
  "mh_indexed h s \<longleftrightarrow> (\<forall>i < length (mh_items h). item_index s (mh_items h ! i) = Some i)"

definition mh_invar :: "maxMinHeap \<Rightarrow> store \<Rightarrow> bool" where
  "mh_invar h s \<longleftrightarrow> mh_owns h s \<and> mh_indexed h s \<and> mh_byteSize h = bytes (mh_items h)"

lemma mh_ownsI:
  "store_ok s \<Longrightarrow> \<not> st_panicked s \<Longrightarrow> distinct (map fi_ptr (mh_items h)) \<Longrightarrow>
   (\<And>it. it \<in> set (mh_items h) \<Longrightarrow> \<exists>hdl. owned h s it hdl) \<Longrightarrow>
   (\<And>hdl. mh_handles h hdl \<noteq> None \<Longrightarrow> \<exists>it\<in>set (mh_items h). Handle s it = Some hdl) \<Longrightarrow> mh_owns h s"
  by (simp add: mh_owns_def)

lemma mh_ownsD:
  assumes "mh_owns h s"
  shows "store_ok s" and "\<not> st_panicked s" and "distinct (map fi_ptr (mh_items h))"
    and "it \<in> set (mh_items h) \<Longrightarrow> \<exists>hdl. owned h s it hdl"
    and "mh_handles h hdl \<noteq> None \<Longrightarrow> \<exists>it\<in>set (mh_items h). Handle s it = Some hdl"
  using assms by (simp_all add: mh_owns_def)

lemma owned_linked: "owned h s it hdl \<Longrightarrow> attached s it hdl"
  by (auto simp: owned_def attached_def linked_def IsInvalidated_def)

lemma owned_inj: "owned h s x hdl \<Longrightarrow> owned h s y hdl \<Longrightarrow> x = y"
  by (auto simp: owned_def)

lemma owned_frame:
  assumes "owned h s it hdl" "frame A s s'" "fi_ptr it \<notin> A" "mh_handles h' hdl = mh_handles h hdl"
  shows "owned h' s' it hdl"
proof -
  have "linked s it hdl" using owned_linked [OF assms(1)] by (simp add: attached_def)
  from linked_frame [OF this assms(2,3)] assms(1,4) show ?thesis by (auto simp: owned_def)
qed

lemma item_index_frame:
  assumes "linked s it hdl" "frame A s s'" "fi_ptr it \<notin> A"
  shows "item_index s' it = item_index s it"
  using linked_frame [OF assms] assms(1) by (simp add: item_index_def linked_def)

lemma mh_owns_cong:
  assumes "mh_owns h s" "mh_handles h' = mh_handles h" "mset (mh_items h') = mset (mh_items h)"
  shows "mh_owns h' s"
proof -
  have st: "set (mh_items h') = set (mh_items h)" using assms(3) by (metis set_mset_mset)
  show ?thesis using assms st distinct_map_mset_eq [OF assms(3), of fi_ptr]
    by (simp add: mh_owns_def owned_def)
qed

text \<open>Setting the index of an owned item changes its handle object only.\<close>

lemma setIndex_owned:
  assumes "owned h s it hdl"
  shows "setIndex h it i s =
    s\<lparr>st_obj := (st_obj s)(hdl \<mapsto> HeapItem \<lparr>hi_item = it, hi_index = i, hi_isInvalidated = False\<rparr>)\<rparr>"
  using assms by (auto simp: owned_def setIndex_def)

lemma setIndex_frame:
  assumes "owned h s it hdl" "fi_ptr it \<in> A"
  shows "frame A s (setIndex h it i s)"
proof -
  have "hdl < st_next s \<or> \<not> store_ok s" using assms(1)
    by (metis owned_def leI option.distinct(1) store_ok_def)
  then show ?thesis
    using assms unfolding setIndex_owned [OF assms(1)] by (auto simp: frame_def owned_def store_ok_def)
qed

lemma setIndex_mh_owns:
  assumes "mh_owns h s" "it \<in> set (mh_items h)"
  shows "mh_owns h (setIndex h it i s)"
proof -
  obtain hdl where hdl: "owned h s it hdl" using mh_ownsD(4) [OF assms] by blast
  have f: "frame {fi_ptr it} s (setIndex h it i s)" by (rule setIndex_frame [OF hdl]) simp
  have H: "Handle (setIndex h it i s) x = Handle s x" for x
    unfolding setIndex_owned [OF hdl] by (simp add: Handle_def)
  show ?thesis
  proof (rule mh_ownsI)
    fix x assume x: "x \<in> set (mh_items h)"
    obtain hx where hx: "owned h s x hx" using mh_ownsD(4) [OF assms(1) x] by blast
    have "owned h (setIndex h it i s) x hx"
    proof (cases "hx = hdl")
      case True
      with hx hdl have "x = it" by (simp add: owned_inj)
      with True hx show ?thesis unfolding setIndex_owned [OF hdl] by (auto simp: owned_def Handle_def)
    next
      case False
      with hx show ?thesis unfolding setIndex_owned [OF hdl] by (auto simp: owned_def Handle_def)
    qed
    then show "\<exists>hdl. owned h (setIndex h it i s) x hdl" ..
  qed (use mh_ownsD [OF assms(1)] frameD(6,7) [OF f] H in simp_all)
qed

lemma setIndex_item_index:
  assumes "mh_owns h s" "it \<in> set (mh_items h)" "x \<in> set (mh_items h)"
  shows "item_index (setIndex h it i s) x = (if x = it then Some i else item_index s x)"
proof -
  obtain hdl where hdl: "owned h s it hdl" using mh_ownsD(4) [OF assms(1,2)] by blast
  obtain hx where hx: "owned h s x hx" using mh_ownsD(4) [OF assms(1,3)] by blast
  have "hx = hdl \<longleftrightarrow> x = it" using hdl hx owned_inj by (auto simp: owned_def)
  then show ?thesis
    using hx unfolding setIndex_owned [OF hdl] by (auto simp: item_index_def owned_def Handle_def)
qed

section \<open>What exchanges preserve\<close>

lemma mh_swap_fields [simp]:
  "mh_handles (fst (mh_swap hs i j)) = mh_handles (fst hs)"
  "mh_byteSize (fst (mh_swap hs i j)) = mh_byteSize (fst hs)"
  "mh_comparator (fst (mh_swap hs i j)) = mh_comparator (fst hs)"
  by (cases hs; simp add: Let_def)+

lemma mh_swap_ok:
  assumes own: "mh_owns (fst hs) (snd hs)"
    and ij: "i < length (hs_items hs)" "j < length (hs_items hs)"
  shows "mh_owns (fst (mh_swap hs i j)) (snd (mh_swap hs i j))"
    and "mh_indexed (fst hs) (snd hs) \<Longrightarrow> mh_indexed (fst (mh_swap hs i j)) (snd (mh_swap hs i j))"
    and "frame (ptrs (hs_items hs)) (snd hs) (snd (mh_swap hs i j))"
proof -
  obtain h s where hs: "hs = (h, s)" by (cases hs)
  let ?h = "h\<lparr>mh_items := list_swap (mh_items h) i j\<rparr>"
  let ?xs = "mh_items h"
  have n: "i < length ?xs" "j < length ?xs" using ij hs by auto
  have ni: "mh_items ?h ! i = ?xs ! j" using n by (simp add: nth_list_swap)
  have nj: "mh_items ?h ! j = ?xs ! i" using n by (simp add: nth_list_swap)
  have st: "set (mh_items ?h) = set ?xs" using n by simp
  let ?s1 = "setIndex ?h (?xs ! j) i s"
  let ?s2 = "setIndex ?h (?xs ! i) j ?s1"
  have eq: "mh_swap hs i j = (?h, ?s2)" using hs ni nj by (simp add: Let_def)
  have o0: "mh_owns ?h s" by (rule mh_owns_cong [of h s]) (use own hs n in simp_all)
  have m: "?xs ! i \<in> set (mh_items ?h)" "?xs ! j \<in> set (mh_items ?h)" using n st by auto
  have o1: "mh_owns ?h ?s1" by (rule setIndex_mh_owns [OF o0 m(2)])
  have o2: "mh_owns ?h ?s2" by (rule setIndex_mh_owns [OF o1 m(1)])
  then show "mh_owns (fst (mh_swap hs i j)) (snd (mh_swap hs i j))" by (simp add: eq)
  have p: "ptrs (mh_items ?h) = ptrs ?xs" using st by (simp add: ptrs_def)
  obtain a b where ab: "owned ?h s (?xs ! j) a" "owned ?h ?s1 (?xs ! i) b"
    using mh_ownsD(4) [OF o0 m(2)] mh_ownsD(4) [OF o1 m(1)] by blast
  have "frame (ptrs ?xs) s ?s1" "frame (ptrs ?xs) ?s1 ?s2"
    using m p by (auto intro!: setIndex_frame [OF ab(1)] setIndex_frame [OF ab(2)] simp: ptrs_mem simp flip: p)
  then have "frame (ptrs ?xs) s ?s2" by (rule frame_trans)
  then show "frame (ptrs (hs_items hs)) (snd hs) (snd (mh_swap hs i j))" unfolding eq by (simp add: hs)
  assume "mh_indexed (fst hs) (snd hs)"
  then have idx: "item_index s (?xs ! k) = Some k" if "k < length ?xs" for k
    using that by (simp add: hs mh_indexed_def)
  have dist: "distinct ?xs" using mh_ownsD(3) [OF own] hs by (simp add: distinct_map)
  have "item_index ?s2 (mh_items ?h ! k) = Some k" if k: "k < length (mh_items ?h)" for k
  proof -
    have kx: "k < length ?xs" using k by simp
    have mk: "mh_items ?h ! k \<in> set (mh_items ?h)" using k by (rule nth_mem)
    have "item_index ?s2 (mh_items ?h ! k) =
      (if mh_items ?h ! k = ?xs ! i then Some j
       else if mh_items ?h ! k = ?xs ! j then Some i else item_index s (mh_items ?h ! k))"
      by (simp only: setIndex_item_index [OF o1 m(1) mk] setIndex_item_index [OF o0 m(2) mk])
    then show ?thesis
      using n kx dist idx [OF kx] by (auto simp: nth_list_swap nth_eq_iff_index_eq split: if_splits)
  qed
  then show "mh_indexed (fst (mh_swap hs i j)) (snd (mh_swap hs i j))"
    by (simp add: eq mh_indexed_def)
qed

lemma setIndex_st_handle [simp]: "st_handle (setIndex h it i s) = st_handle s"
  by (simp add: setIndex_def panic_def split: option.split handleObj.split)

text \<open>Everything the sifting routines do is a sequence of exchanges within the array.\<close>

inductive swaps :: "heapState \<Rightarrow> heapState \<Rightarrow> bool" for hs where
  swaps_refl: "swaps hs hs"
| swaps_step: "swaps hs hs' \<Longrightarrow> i < length (hs_items hs') \<Longrightarrow> j < length (hs_items hs') \<Longrightarrow>
    swaps hs (mh_swap hs' i j)"

lemma swaps_trans: "swaps b c \<Longrightarrow> swaps a b \<Longrightarrow> swaps a c"
  by (induction rule: swaps.induct) (auto intro: swaps_step)

lemma swaps_one: "i < length (hs_items hs) \<Longrightarrow> j < length (hs_items hs) \<Longrightarrow> swaps hs (mh_swap hs i j)"
  by (rule swaps_step [OF swaps_refl])

lemma swaps_fields:
  assumes "swaps hs hs'"
  shows "mset (hs_items hs') = mset (hs_items hs)" "length (hs_items hs') = length (hs_items hs)"
    "mh_handles (fst hs') = mh_handles (fst hs)" "mh_byteSize (fst hs') = mh_byteSize (fst hs)"
    "mh_comparator (fst hs') = mh_comparator (fst hs)"
  using assms by (induction rule: swaps.induct) auto

lemma swaps_Handle: "swaps hs hs' \<Longrightarrow> Handle (snd hs') x = Handle (snd hs) x"
proof (induction rule: swaps.induct)
  case (swaps_step hs' i j)
  then show ?case by (cases hs') (simp add: Let_def Handle_def)
qed simp

lemma swaps_ok:
  assumes "swaps hs hs'" "mh_owns (fst hs) (snd hs)"
  shows "mh_owns (fst hs') (snd hs')"
    and "mh_indexed (fst hs) (snd hs) \<Longrightarrow> mh_indexed (fst hs') (snd hs')"
    and "frame (ptrs (hs_items hs)) (snd hs) (snd hs')"
proof -
  have "mh_owns (fst hs') (snd hs') \<and> (mh_indexed (fst hs) (snd hs) \<longrightarrow> mh_indexed (fst hs') (snd hs')) \<and>
    frame (ptrs (hs_items hs)) (snd hs) (snd hs')"
    using assms
  proof (induction rule: swaps.induct)
    case (swaps_step hs' i j)
    have p: "ptrs (hs_items hs') = ptrs (hs_items hs)"
      by (rule ptrs_mset) (rule swaps_fields(1) [OF swaps_step.hyps(1)])
    note IH = swaps_step.IH [OF swaps_step.prems]
    note ok = mh_swap_ok [OF conjunct1 [OF IH] swaps_step.hyps(2,3)]
    show ?case using IH ok(1,2) frame_trans [OF _ ok(3) [unfolded p]] by simp
  qed simp
  then show "mh_owns (fst hs') (snd hs')"
    and "mh_indexed (fst hs) (snd hs) \<Longrightarrow> mh_indexed (fst hs') (snd hs')"
    and "frame (ptrs (hs_items hs)) (snd hs) (snd hs')" by auto
qed

lemma mh_upMin_flip: "mh_upMin cmp hs i = mh_upMax (\<lambda>a b. cmp b a) hs i"
proof (induction cmp hs i rule: mh_upMin.induct)
  case (1 cmp hs i)
  then show ?case
    by (subst mh_upMin.simps, subst mh_upMax.simps) (simp add: Let_def)
qed

lemma mh_downMin_flip: "mh_downMin cmp hs i = mh_downMax (\<lambda>a b. cmp b a) hs i"
proof (induction cmp hs i rule: mh_downMin.induct)
  case (1 cmp hs i)
  then show ?case
    by (subst mh_downMin.simps, subst mh_downMax.simps)
      (simp add: Let_def findSmallest_flip split: option.split)
qed

lemma mh_upMax_swaps: "i < length (hs_items hs) \<Longrightarrow> swaps hs (mh_upMax cmp hs i)"
proof (induction cmp hs i rule: mh_upMax.induct)
  case (1 cmp hs i)
  let ?g = "((i - 1) div 2 - 1) div 2"
  show ?case
  proof (cases "(i - 1) div 2 \<noteq> 0 \<and> cmp (hs_items hs ! i) (hs_items hs ! ?g)")
    case True
    have g: "?g < length (hs_items hs)" using "1.prems" by linarith
    with "1.IH" True have "swaps (mh_swap hs i ?g) (mh_upMax cmp (mh_swap hs i ?g) ?g)" by simp
    then have "swaps hs (mh_upMax cmp (mh_swap hs i ?g) ?g)"
      using swaps_trans swaps_one "1.prems" g by blast
    with True show ?thesis by (subst mh_upMax.simps) (simp add: Let_def)
  next
    case False
    then show ?thesis by (subst mh_upMax.simps) (auto simp: Let_def intro: swaps_refl)
  qed
qed

lemma mh_upMin_swaps: "i < length (hs_items hs) \<Longrightarrow> swaps hs (mh_upMin cmp hs i)"
  by (simp add: mh_upMin_flip mh_upMax_swaps)

lemma mh_up_swaps:
  assumes "i < length (hs_items hs)"
  shows "swaps hs (mh_up cmp hs i)"
proof -
  let ?p = "(i - 1) div 2"
  have p: "?p < length (hs_items hs)" using assms by linarith
  then have "swaps hs (mh_upMax cmp (mh_swap hs i ?p) ?p)" "swaps hs (mh_upMin cmp (mh_swap hs i ?p) ?p)"
    using assms by (auto intro!: swaps_trans [OF mh_upMax_swaps swaps_one] swaps_trans [OF mh_upMin_swaps swaps_one])
  with assms show ?thesis
    by (auto simp: mh_up_def Let_def intro: swaps_refl mh_upMax_swaps mh_upMin_swaps)
qed

lemma mh_downMax_swaps: "i < length (hs_items hs) \<Longrightarrow> swaps hs (mh_downMax cmp hs i)"
proof (induction cmp hs i rule: mh_downMax.induct)
  case (1 cmp hs i)
  show ?case
  proof (cases "findLargestChildOrGrandchild cmp (hs_items hs) i")
    case None
    then show ?thesis by (subst mh_downMax.simps) (simp add: swaps_refl)
  next
    case (Some m)
    note m = findLargest_gt [OF Some]
    let ?hs1 = "mh_swap hs i m"
    let ?p = "(m - 1) div 2"
    let ?hs2 = "if ?p \<noteq> i \<and> cmp (hs_items ?hs1 ! ?p) (hs_items ?hs1 ! m) then mh_swap ?hs1 m ?p else ?hs1"
    show ?thesis
    proof (cases "cmp (hs_items hs ! m) (hs_items hs ! i)")
      case True
      have s1: "swaps hs ?hs1" using m "1.prems" by (intro swaps_one) auto
      have "swaps ?hs1 ?hs2" using m by (auto intro!: swaps_one swaps_refl)
      then have s2: "swaps hs ?hs2" using s1 by (rule swaps_trans)
      have "swaps ?hs2 (mh_downMax cmp ?hs2 m)"
        by (rule "1.IH" [OF Some True refl refl refl]) (use m in auto)
      then have "swaps hs (mh_downMax cmp ?hs2 m)" using s2 by (rule swaps_trans)
      then show ?thesis by (subst mh_downMax.simps) (simp only: Some True option.case if_True Let_def)
    next
      case False
      with Some show ?thesis by (subst mh_downMax.simps) (simp add: swaps_refl)
    qed
  qed
qed

lemma mh_down_swaps: "i < length (hs_items hs) \<Longrightarrow> swaps hs (mh_down cmp hs i)"
  by (simp add: mh_down_def mh_downMin_flip mh_downMax_swaps)

lemma mh_heapify_swaps: "k \<le> length (hs_items hs) \<Longrightarrow> swaps hs (mh_heapify cmp hs k)"
proof (induction k arbitrary: hs)
  case (Suc k)
  have d: "swaps hs (mh_down cmp hs k)" using Suc.prems by (intro mh_down_swaps) simp
  then have "k \<le> length (hs_items (mh_down cmp hs k))" using Suc.prems swaps_fields(2) by fastforce
  from swaps_trans [OF Suc.IH [OF this] d] show ?case by simp
qed (simp add: swaps_refl)

end
