(* ===== verification/HeapQueue.thy ===== *)
theory HeapQueue
  imports MaxMinHeap
begin

text \<open>
  The max-min heap of \<open>maxminheap.go\<close> implements the \<open>SafeQueue\<close> contract: every
  operation keeps the handles, the stored indices and the byte counter right, whatever the
  comparator is. The order of the heap is the subject of \<open>HeapOrder\<close>.
\<close>

section \<open>The invariant and the frame\<close>

lemma mh_invarD:
  assumes "mh_invar h s"
  shows "mh_owns h s" "mh_indexed h s" "mh_byteSize h = bytes (mh_items h)"
  using assms by (simp_all add: mh_invar_def)

lemma mh_owns_frame:
  assumes own: "mh_owns h s" and f: "frame A s s'" and A: "A \<inter> ptrs (mh_items h) = {}"
  shows "mh_owns h s'" and "mh_indexed h s \<Longrightarrow> mh_indexed h s'"
proof -
  have out: "fi_ptr x \<notin> A" if "x \<in> set (mh_items h)" for x using ptrs_mem [OF that] A by blast
  have H: "Handle s' x = Handle s x" if "x \<in> set (mh_items h)" for x
    using frameD(1) [OF f out [OF that]] by (simp add: Handle_def)
  show "mh_owns h s'"
  proof (rule mh_ownsI)
    fix x assume x: "x \<in> set (mh_items h)"
    obtain hx where "owned h s x hx" using mh_ownsD(4) [OF own x] by blast
    from owned_frame [OF this f out [OF x] refl] show "\<exists>hdl. owned h s' x hdl" ..
  next
    fix hdl assume "mh_handles h hdl \<noteq> None"
    from mh_ownsD(5) [OF own this] show "\<exists>it\<in>set (mh_items h). Handle s' it = Some hdl"
      using H by auto
  qed (use mh_ownsD(1-3) [OF own] frameD(6,7) [OF f] in simp_all)
  assume idx: "mh_indexed h s"
  show "mh_indexed h s'"
    unfolding mh_indexed_def
  proof (intro allI impI)
    fix i assume i: "i < length (mh_items h)"
    then have x: "mh_items h ! i \<in> set (mh_items h)" by simp
    obtain hx where "owned h s (mh_items h ! i) hx" using mh_ownsD(4) [OF own x] by blast
    then have "linked s (mh_items h ! i) hx" using owned_linked attached_def by blast
    from item_index_frame [OF this f out [OF x]] idx i
    show "item_index s' (mh_items h ! i) = Some i" by (simp add: mh_indexed_def)
  qed
qed

lemma mh_invar_frame:
  "mh_invar h s \<Longrightarrow> frame A s s' \<Longrightarrow> A \<inter> ptrs (mh_items h) = {} \<Longrightarrow> mh_invar h s'"
  unfolding mh_invar_def using mh_owns_frame by blast

lemma mh_invar_new: "store_ok s \<Longrightarrow> \<not> st_panicked s \<Longrightarrow> mh_invar (newMaxMinHeap cmp) s"
  by (simp add: mh_invar_def mh_owns_def mh_indexed_def newMaxMinHeap_def)

section \<open>Add\<close>

text \<open>The state of \<open>push\<close> before it sifts the new last item up.\<close>

definition pushed :: "maxMinHeap \<Rightarrow> store \<Rightarrow> flowItem \<Rightarrow> heapState" where
  "pushed h s it =
     (h\<lparr>mh_items := mh_items h @ [it], mh_handles := (mh_handles h)(st_next s \<mapsto> st_next s)\<rparr>,
      SetHandle it (st_next s) (snd (alloc (HeapItem
        \<lparr>hi_item = it, hi_index = length (mh_items h), hi_isInvalidated = False\<rparr>) s)))"

lemma mh_push_pushed:
  "mh_push h s it = mh_up (mh_comparator h) (pushed h s it) (length (mh_items h))"
  by (simp add: mh_push_def pushed_def alloc_def Let_def)

lemma pushed_items [simp]: "mh_items (fst (pushed h s it)) = mh_items h @ [it]"
  by (simp add: pushed_def)

lemma pushed_frame: "store_ok s \<Longrightarrow> frame {fi_ptr it} s (snd (pushed h s it))"
  unfolding pushed_def snd_conv by (rule frame_trans [OF frame_alloc frame_SetHandle]) simp_all

lemma pushed_new: "owned (fst (pushed h s it)) (snd (pushed h s it)) it (st_next s)"
  "item_index (snd (pushed h s it)) it = Some (length (mh_items h))"
  by (simp_all add: owned_def Handle_def SetHandle_def alloc_def pushed_def item_index_def)

lemma pushed_old:
  assumes "owned h s x hx" "fi_ptr x \<noteq> fi_ptr it" "store_ok s"
  shows "owned (fst (pushed h s it)) (snd (pushed h s it)) x hx"
    and "item_index (snd (pushed h s it)) x = item_index s x"
proof -
  have x: "fi_ptr x \<notin> {fi_ptr it}" using assms(2) by simp
  note f = pushed_frame [OF assms(3), of it h]
  show "owned (fst (pushed h s it)) (snd (pushed h s it)) x hx"
    by (rule owned_frame [OF assms(1) f x])
      (use assms in \<open>auto simp: pushed_def owned_def store_ok_def\<close>)
  have "linked s x hx" using owned_linked [OF assms(1)] by (simp add: attached_def)
  then show "item_index (snd (pushed h s it)) x = item_index s x" using f x by (rule item_index_frame)
qed

lemma pushed_ok:
  assumes own: "mh_owns h s" and new: "fi_ptr it \<notin> ptrs (mh_items h)"
  shows "mh_owns (fst (pushed h s it)) (snd (pushed h s it))"
    and "mh_indexed h s \<Longrightarrow> mh_indexed (fst (pushed h s it)) (snd (pushed h s it))"
proof -
  note ok = mh_ownsD(1) [OF own]
  note f = pushed_frame [OF ok, of it h]
  have neq: "fi_ptr x \<noteq> fi_ptr it" if "x \<in> set (mh_items h)" for x using new ptrs_mem [OF that] by auto
  have old: "\<exists>hx. owned h s x hx \<and> owned (fst (pushed h s it)) (snd (pushed h s it)) x hx \<and>
      item_index (snd (pushed h s it)) x = item_index s x" if "x \<in> set (mh_items h)" for x
    using mh_ownsD(4) [OF own that] pushed_old [OF _ neq [OF that] ok] by blast
  show "mh_owns (fst (pushed h s it)) (snd (pushed h s it))"
  proof (rule mh_ownsI)
    show "store_ok (snd (pushed h s it))" "\<not> st_panicked (snd (pushed h s it))"
      using frameD(6,7) [OF f] ok mh_ownsD(2) [OF own] by simp_all
    show "distinct (map fi_ptr (mh_items (fst (pushed h s it))))"
      using mh_ownsD(3) [OF own] new by (auto simp: ptrs_def)
    fix x assume "x \<in> set (mh_items (fst (pushed h s it)))"
    then consider "x = it" | "x \<in> set (mh_items h)" by auto
    then show "\<exists>hdl. owned (fst (pushed h s it)) (snd (pushed h s it)) x hdl"
      by cases (use pushed_new(1) old in blast)+
  next
    fix hdl assume "mh_handles (fst (pushed h s it)) hdl \<noteq> None"
    then consider "hdl = st_next s" | "mh_handles h hdl \<noteq> None" by (auto simp: pushed_def split: if_splits)
    then show "\<exists>x\<in>set (mh_items (fst (pushed h s it))). Handle (snd (pushed h s it)) x = Some hdl"
    proof cases
      case 1
      then show ?thesis using pushed_new(1) [of h s it] by (simp add: owned_def)
    next
      case 2
      then obtain x where x: "x \<in> set (mh_items h)" "Handle s x = Some hdl"
        using mh_ownsD(5) [OF own] by blast
      with old [OF x(1)] show ?thesis by (auto simp: owned_def)
    qed
  qed
  assume idx: "mh_indexed h s"
  show "mh_indexed (fst (pushed h s it)) (snd (pushed h s it))"
    unfolding mh_indexed_def
  proof (intro allI impI)
    fix i assume "i < length (mh_items (fst (pushed h s it)))"
    then consider "i = length (mh_items h)" | "i < length (mh_items h)" by fastforce
    then show "item_index (snd (pushed h s it)) (mh_items (fst (pushed h s it)) ! i) = Some i"
    proof cases
      case 2
      then show ?thesis using old [of "mh_items h ! i"] idx by (auto simp: mh_indexed_def nth_append)
    qed (simp add: pushed_new)
  qed
qed

lemma mh_push_ok:
  assumes own: "mh_owns h s" and idx: "mh_indexed h s" and new: "fi_ptr it \<notin> ptrs (mh_items h)"
  shows "\<exists>h' s'. mh_push h s it = (h', s') \<and> mh_owns h' s' \<and> mh_indexed h' s' \<and>
    mset (mh_items h') = add_mset it (mset (mh_items h)) \<and> mh_byteSize h' = mh_byteSize h \<and>
    mh_comparator h' = mh_comparator h \<and> frame (insert (fi_ptr it) (ptrs (mh_items h))) s s'"
proof -
  let ?A = "insert (fi_ptr it) (ptrs (mh_items h))"
  obtain h' s' where r: "mh_push h s it = (h', s')" by fastforce
  then have sw: "swaps (pushed h s it) (h', s')"
    using mh_up_swaps [of "length (mh_items h)" "pushed h s it" "mh_comparator h"] by (simp add: mh_push_pushed)
  note ok = pushed_ok [OF own new]
  have "frame ?A (snd (pushed h s it)) s'" using swaps_ok(3) [OF sw ok(1)] by simp
  then have "frame ?A s s'"
    using frame_trans [OF frame_mono [OF pushed_frame [OF mh_ownsD(1) [OF own]]]] by blast
  moreover have "mh_byteSize (fst (pushed h s it)) = mh_byteSize h"
    "mh_comparator (fst (pushed h s it)) = mh_comparator h" by (simp_all add: pushed_def)
  ultimately show ?thesis
    using r swaps_ok(1,2) [OF sw ok(1)] swaps_fields [OF sw] ok(2) [OF idx] by simp
qed

lemma mh_Add_ok:
  assumes inv: "mh_invar h s" and new: "fi_ptr it \<notin> ptrs (mh_items h)"
  shows "\<exists>h' s'. mh_Add h s (Some it) = (None, h', s') \<and> mh_invar h' s' \<and>
    mset (mh_items h') = add_mset it (mset (mh_items h)) \<and>
    frame (insert (fi_ptr it) (ptrs (mh_items h))) s s'"
proof -
  obtain h' s' where p: "mh_push h s it = (h', s')" "mh_owns h' s'" "mh_indexed h' s'"
      "mset (mh_items h') = add_mset it (mset (mh_items h))" "mh_byteSize h' = mh_byteSize h"
      "frame (insert (fi_ptr it) (ptrs (mh_items h))) s s'"
    using mh_push_ok [OF mh_invarD(1,2) [OF inv] new] by blast
  let ?h = "h'\<lparr>mh_byteSize := mh_byteSize h' + itemByteSize it\<rparr>"
  have "mh_owns ?h s'" by (rule mh_owns_cong [OF p(2)]) simp_all
  moreover have "bytes (mh_items h') = itemByteSize it + bytes (mh_items h)"
    using bytes_mset [of "mh_items h'" "it # mh_items h"] p(4) by simp
  ultimately have "mh_invar ?h s'"
    using p(3,5) mh_invarD(3) [OF inv] by (simp add: mh_invar_def mh_indexed_def)
  with p show ?thesis by (simp add: mh_Add_def)
qed

section \<open>Remove\<close>

text \<open>Cutting off the last item, whose handle leaves the set of handles.\<close>

definition cut :: "maxMinHeap \<Rightarrow> flowItem list \<Rightarrow> nat \<Rightarrow> uint64 \<Rightarrow> maxMinHeap" where
  "cut h ys hdl b = h\<lparr>mh_items := ys, mh_handles := (mh_handles h)(hdl := None), mh_byteSize := b\<rparr>"

lemma cut_ok:
  assumes own: "mh_owns h s" and split: "mh_items h = ys @ [it]" and it: "owned h s it hdl"
  shows "mh_owns (cut h ys hdl b) s" and "mh_indexed h s \<Longrightarrow> mh_indexed (cut h ys hdl b) s"
proof -
  have sub: "x \<in> set (mh_items h)" "fi_ptr x \<noteq> fi_ptr it" if "x \<in> set ys" for x
    using that mh_ownsD(3) [OF own] split by (auto simp: image_iff dest: sym)
  show "mh_owns (cut h ys hdl b) s"
  proof (rule mh_ownsI)
    fix x assume "x \<in> set (mh_items (cut h ys hdl b))"
    then have x: "x \<in> set ys" by (simp add: cut_def)
    obtain hx where hx: "owned h s x hx" using mh_ownsD(4) [OF own sub(1) [OF x]] by blast
    have "hx \<noteq> hdl" using owned_inj [OF hx] it sub(2) [OF x] by blast
    with hx show "\<exists>hdl'. owned (cut h ys hdl b) s x hdl'" by (auto simp: owned_def cut_def)
  next
    fix hx assume "mh_handles (cut h ys hdl b) hx \<noteq> None"
    then have hx: "hx \<noteq> hdl" "mh_handles h hx \<noteq> None" by (auto simp: cut_def split: if_splits)
    obtain x where x: "x \<in> set (mh_items h)" "Handle s x = Some hx" using mh_ownsD(5) [OF own hx(2)] by blast
    have "x \<noteq> it" using x(2) hx(1) it by (auto simp: owned_def)
    with x split show "\<exists>x\<in>set (mh_items (cut h ys hdl b)). Handle s x = Some hx" by (auto simp: cut_def)
  qed (use mh_ownsD(1-3) [OF own] split in \<open>simp_all add: cut_def\<close>)
  assume "mh_indexed h s"
  then have "item_index s (mh_items h ! i) = Some i" if "i < length ys" for i
    using that split by (simp add: mh_indexed_def)
  then show "mh_indexed (cut h ys hdl b) s"
    unfolding mh_indexed_def split by (simp add: cut_def nth_append)
qed

lemma remove_core:
  assumes own: "mh_owns h s" and idx: "mh_indexed h s"
    and split: "mh_items h = ys @ [it]" and it: "owned h s it hdl"
    and sw: "swaps (cut h ys hdl b, s) (h', s')"
  shows "mh_owns h' (Invalidate hdl s')" "mh_indexed h' (Invalidate hdl s')"
    and "mset (mh_items h') = mset ys" "mh_byteSize h' = b" "mh_comparator h' = mh_comparator h"
    and "frame (ptrs (mh_items h)) s (Invalidate hdl s')" "IsInvalidated (Invalidate hdl s') hdl"
proof -
  note c = cut_ok [OF own split it, of b]
  have own': "mh_owns h' s'" and idx': "mh_indexed h' s'" and f: "frame (ptrs ys) s s'"
    using swaps_ok [OF sw] c idx by (simp_all add: cut_def)
  show ms: "mset (mh_items h') = mset ys" and "mh_byteSize h' = b" "mh_comparator h' = mh_comparator h"
    using swaps_fields [OF sw] by (simp_all add: cut_def)
  have p: "ptrs (mh_items h') = ptrs ys" using ms by (rule ptrs_mset)
  have out: "fi_ptr it \<notin> ptrs ys" using mh_ownsD(3) [OF own] split by (auto simp: ptrs_def)
  have lk: "linked s it hdl" using owned_linked [OF it] by (simp add: attached_def)
  from linked_frame [OF lk f out] lk have lk': "linked s' it hdl" by (simp add: linked_def)
  then have g: "frame {fi_ptr it} s' (Invalidate hdl s')"
    by (intro frame_Invalidate) (auto simp: linked_def)
  have "{fi_ptr it} \<inter> ptrs (mh_items h') = {}" using out p by simp
  from mh_owns_frame [OF own' g this] idx'
  show "mh_owns h' (Invalidate hdl s')" "mh_indexed h' (Invalidate hdl s')" by simp_all
  have "ptrs ys \<subseteq> ptrs (mh_items h)" "{fi_ptr it} \<subseteq> ptrs (mh_items h)" using split by auto
  then show "frame (ptrs (mh_items h)) s (Invalidate hdl s')"
    using frame_trans [OF frame_mono [OF f] frame_mono [OF g]] by blast
  show "IsInvalidated (Invalidate hdl s') hdl"
    using lk' by (auto simp: linked_def IsInvalidated_def Invalidate_def)
qed

text \<open>\<open>Remove\<close> as an exchange with the last item, a cut and the sift down.\<close>

lemma mh_owned_index:
  assumes "mh_owns h s" "mh_indexed h s" "it \<in> set (mh_items h)" "Handle s it = Some hdl"
  obtains i where "owned h s it hdl" "i < length (mh_items h)" "mh_items h ! i = it"
    "st_obj s hdl = Some (HeapItem \<lparr>hi_item = it, hi_index = i, hi_isInvalidated = False\<rparr>)"
proof -
  obtain i where i: "i < length (mh_items h)" "mh_items h ! i = it" using assms(3) by (auto simp: in_set_conv_nth)
  have o: "owned h s it hdl" using mh_ownsD(4) [OF assms(1,3)] assms(4) by (auto simp: owned_def)
  then obtain k where k: "st_obj s hdl = Some (HeapItem \<lparr>hi_item = it, hi_index = k, hi_isInvalidated = False\<rparr>)"
    by (auto simp: owned_def)
  moreover have "item_index s it = Some i" using assms(2) i by (auto simp: mh_indexed_def)
  ultimately have "k = i" using assms(4) by (simp add: item_index_def)
  with that o i k show thesis by blast
qed

lemma mh_Remove_eq:
  assumes inv: "mh_owns h s" "mh_indexed h s" and it: "it \<in> set (mh_items h)" and hdl: "Handle s it = Some hdl"
  obtains i h1 s1 where "owned h s it hdl" "i < length (mh_items h)" "mh_items h ! i = it"
    "st_obj s hdl = Some (HeapItem \<lparr>hi_item = it, hi_index = i, hi_isInvalidated = False\<rparr>)"
    "(h1, s1) = (if i < length (mh_items h) - 1 then mh_swap (h, s) i (length (mh_items h) - 1) else (h, s))"
    "mh_Remove h s (Some hdl) =
       (let hs2 = (cut h1 (butlast (mh_items h1)) hdl (mh_byteSize h - itemByteSize it), s1);
            (h3, s3) = (if i < length (mh_items h) - 1 then mh_down (mh_comparator h) hs2 i else hs2)
        in (Inr it, h3, Invalidate hdl s3))"
    "mh_items h1 = butlast (mh_items h1) @ [it]"
proof -
  obtain i where i: "owned h s it hdl" "i < length (mh_items h)" "mh_items h ! i = it"
      "st_obj s hdl = Some (HeapItem \<lparr>hi_item = it, hi_index = i, hi_isInvalidated = False\<rparr>)"
    using mh_owned_index [OF inv it hdl] by blast
  let ?n = "length (mh_items h) - 1"
  obtain h1 s1 where hs1: "(h1, s1) = (if i < ?n then mh_swap (h, s) i ?n else (h, s))" by (metis surj_pair)
  have sw: "swaps (h, s) (h1, s1)" unfolding hs1 using i(2) by (simp add: swaps_one swaps_refl del: mh_swap.simps)
  note fl = swaps_fields [OF sw]
  have len: "length (mh_items h1) = length (mh_items h)" using fl(2) by simp
  have bl: "take ?n (mh_items h1) = butlast (mh_items h1)" using len by (simp add: butlast_conv_take)
  have "mh_items h1 ! ?n = it"
  proof (cases "i < ?n")
    case True
    then have "h1 = fst (mh_swap (h, s) i ?n)" using hs1 by (simp add: prod_eq_iff del: mh_swap.simps)
    with True i show ?thesis by (simp add: Let_def nth_list_swap)
  next
    case False
    with hs1 i show ?thesis by (metis Suc_pred' le_neq_implies_less length_greater_0_conv less_Suc_eq_le linorder_not_less list.size(3) not_less0 prod.inject)
  qed
  then have last: "mh_items h1 = butlast (mh_items h1) @ [it]"
    using len i(2) by (metis append_butlast_last_id last_conv_nth length_0_conv not_less0)
  have nv: "\<not> IsInvalidated s hdl" "mh_handles h hdl = Some hdl"
    using i(1) by (auto simp: IsInvalidated_def owned_def)
  have "mh_Remove h s (Some hdl) =
       (let hs2 = (cut h1 (butlast (mh_items h1)) hdl (mh_byteSize h - itemByteSize it), s1);
            (h3, s3) = (if i < ?n then mh_down (mh_comparator h) hs2 i else hs2)
        in (Inr it, h3, Invalidate hdl s3))"
  proof (cases "i < ?n")
    case True
    then have "mh_swap (h, s) i ?n = (h1, s1)" using hs1 by simp
    with True nv i show ?thesis
      using bl fl(3,4) by (simp add: mh_Remove_def cut_def Let_def del: mh_swap.simps)
  next
    case False
    with hs1 nv i bl show ?thesis by (simp add: mh_Remove_def cut_def Let_def)
  qed
  with that i hs1 last show thesis by blast
qed

lemma mh_Remove_ok:
  assumes inv: "mh_invar h s" and it: "it \<in> set (mh_items h)" and hdl: "Handle s it = Some hdl"
  shows "\<exists>h' s'. mh_Remove h s (Some hdl) = (Inr it, h', s') \<and> mh_invar h' s' \<and>
    mset (mh_items h') = mset (mh_items h) - {#it#} \<and> mh_comparator h' = mh_comparator h \<and>
    frame (ptrs (mh_items h)) s s' \<and> IsInvalidated s' hdl"
proof -
  note own = mh_invarD(1,2) [OF inv]
  obtain i h1 s1 where i: "owned h s it hdl" "i < length (mh_items h)" "mh_items h ! i = it"
    and hs1: "(h1, s1) = (if i < length (mh_items h) - 1 then mh_swap (h, s) i (length (mh_items h) - 1) else (h, s))"
    and eq: "mh_Remove h s (Some hdl) =
       (let hs2 = (cut h1 (butlast (mh_items h1)) hdl (mh_byteSize h - itemByteSize it), s1);
            (h3, s3) = (if i < length (mh_items h) - 1 then mh_down (mh_comparator h) hs2 i else hs2)
        in (Inr it, h3, Invalidate hdl s3))"
    and last: "mh_items h1 = butlast (mh_items h1) @ [it]"
    by (rule mh_Remove_eq [OF own it hdl])
  let ?b = "mh_byteSize h - itemByteSize it"
  let ?hs2 = "(cut h1 (butlast (mh_items h1)) hdl ?b, s1)"
  have sw: "swaps (h, s) (h1, s1)" unfolding hs1 using i(2) by (simp add: swaps_one swaps_refl del: mh_swap.simps)
  have own1: "mh_owns h1 s1" "mh_indexed h1 s1" "frame (ptrs (mh_items h)) s s1"
    using swaps_ok [OF sw] own by simp_all
  have ms1: "mset (mh_items h1) = mset (mh_items h)" using swaps_fields(1) [OF sw] by simp
  have p1: "ptrs (mh_items h1) = ptrs (mh_items h)" using ms1 by (rule ptrs_mset)
  have "it \<in> set (mh_items h1)" using it ms1 by (metis set_mset_mset)
  then have it1: "owned h1 s1 it hdl"
    using mh_ownsD(4) [OF own1(1)] swaps_Handle [OF sw] hdl by (fastforce simp: owned_def)
  obtain h3 s3 where r: "(if i < length (mh_items h) - 1 then mh_down (mh_comparator h) ?hs2 i else ?hs2) = (h3, s3)"
    by fastforce
  have "length (butlast (mh_items h1)) = length (mh_items h) - 1" using swaps_fields(2) [OF sw] by simp
  then have "swaps ?hs2 (h3, s3)"
    using r mh_down_swaps [of i ?hs2 "mh_comparator h"] by (auto simp: cut_def swaps_refl split: if_splits)
  note core = remove_core [OF own1(1,2) last it1 this]
  have ms: "mset (mh_items h3) = mset (mh_items h) - {#it#}"
    using core(3) ms1 last by (metis add_mset_add_single add_mset_remove_trivial mset.simps(1,2) mset_append)
  moreover have "mh_invar h3 (Invalidate hdl s3)"
    using core(1,2,4) bytes_remove [OF it ms] mh_invarD(3) [OF inv] by (simp add: mh_invar_def)
  moreover have "frame (ptrs (mh_items h)) s (Invalidate hdl s3)"
    using frame_trans [OF own1(3)] core(6) p1 by simp
  ultimately show ?thesis using eq r core(5,7) swaps_fields(5) [OF sw] by simp
qed

section \<open>Cleanup and Drain\<close>

definition drop_handles :: "store \<Rightarrow> flowItem list \<Rightarrow> (nat \<rightharpoonup> nat) \<Rightarrow> nat \<rightharpoonup> nat" where
  "drop_handles s xs m = (\<lambda>hdl. if \<exists>x\<in>set xs. Handle s x = Some hdl then None else m hdl)"

lemma mh_cleanup_from_eq:
  "mh_cleanup_from P xs (h, s) rs ks =
     (rs @ filter P xs, ks @ filter (\<lambda>x. \<not> P x) xs,
      h\<lparr>mh_handles := drop_handles s (filter P xs) (mh_handles h),
        mh_byteSize := mh_byteSize h - bytes (filter P xs)\<rparr>,
      invalidate_all (filter P xs) s)"
proof (induction xs arbitrary: h s rs ks)
  case (Cons x xs)
  have d: "drop_handles (InvalidateItem x s) zs ((mh_handles h)(hdl := None)) =
      drop_handles s (x # zs) (mh_handles h)" if "Handle s x = Some hdl" for hdl zs
    using that by (auto simp: drop_handles_def fun_eq_iff)
  show ?case
  proof (cases "P x")
    case True
    show ?thesis
    proof (cases "Handle s x")
      case None
      then have "drop_handles s (x # zs) m = drop_handles s zs m" for zs m by (simp add: drop_handles_def)
      with True None show ?thesis by (simp add: Cons.IH InvalidateItem_def diff_diff_eq)
    next
      case (Some hdl)
      with d [OF Some] True show ?thesis by (simp add: Cons.IH InvalidateItem_def diff_diff_eq)
    qed
  qed (simp add: Cons.IH)
qed (simp add: drop_handles_def)

lemma mh_reindex_ok:
  assumes "mh_owns h s" "set xs \<subseteq> set (mh_items h)"
  shows "mh_owns h (mh_reindex h i xs s)" and "frame (ptrs (mh_items h)) s (mh_reindex h i xs s)"
    and "y \<in> set (mh_items h) - set xs \<Longrightarrow> item_index (mh_reindex h i xs s) y = item_index s y"
    and "distinct xs \<Longrightarrow> j < length xs \<Longrightarrow> item_index (mh_reindex h i xs s) (xs ! j) = Some (i + j)"
proof -
  have "mh_owns h (mh_reindex h i xs s) \<and> frame (ptrs (mh_items h)) s (mh_reindex h i xs s) \<and>
    (\<forall>y \<in> set (mh_items h) - set xs. item_index (mh_reindex h i xs s) y = item_index s y) \<and>
    (distinct xs \<longrightarrow> (\<forall>j < length xs. item_index (mh_reindex h i xs s) (xs ! j) = Some (i + j)))"
    using assms
  proof (induction xs arbitrary: i s)
    case (Cons x xs)
    have x: "x \<in> set (mh_items h)" and sub: "set xs \<subseteq> set (mh_items h)" using Cons.prems by auto
    let ?s = "setIndex h x i s"
    have own: "mh_owns h ?s" by (rule setIndex_mh_owns [OF Cons.prems(1) x])
    obtain hdl where hdl: "owned h s x hdl" using mh_ownsD(4) [OF Cons.prems(1) x] by blast
    have f: "frame (ptrs (mh_items h)) s ?s" by (rule setIndex_frame [OF hdl ptrs_mem [OF x]])
    note IH = Cons.IH [OF own sub, of "Suc i"]
    note ix = setIndex_item_index [OF Cons.prems(1) x]
    have fr: "frame (ptrs (mh_items h)) s (mh_reindex h (Suc i) xs ?s)"
      by (rule frame_trans [OF f]) (use IH in blast)
    have "item_index (mh_reindex h (Suc i) xs ?s) x = Some i" if "x \<notin> set xs"
      using IH ix [OF x] x that by simp
    then have "item_index (mh_reindex h (Suc i) xs ?s) ((x # xs) ! j) = Some (i + j)"
      if "distinct (x # xs)" "j < length (x # xs)" for j
      using that IH by (cases j) auto
    moreover have "item_index (mh_reindex h (Suc i) xs ?s) y = item_index s y"
      if "y \<in> set (mh_items h) - set (x # xs)" for y
      using that IH ix [of y] by auto
    ultimately show ?case using IH fr by simp
  qed simp
  then show "mh_owns h (mh_reindex h i xs s)" "frame (ptrs (mh_items h)) s (mh_reindex h i xs s)"
    and "y \<in> set (mh_items h) - set xs \<Longrightarrow> item_index (mh_reindex h i xs s) y = item_index s y"
    and "distinct xs \<Longrightarrow> j < length xs \<Longrightarrow> item_index (mh_reindex h i xs s) (xs ! j) = Some (i + j)"
    by blast+
qed

text \<open>The state after the first loop, with the kept items in the array.\<close>

lemma cleanup_kept_owns:
  fixes P :: "flowItem \<Rightarrow> bool"
  assumes own: "mh_owns h s"
  defines "rs \<equiv> filter P (mh_items h)" and "ks \<equiv> filter (\<lambda>x. \<not> P x) (mh_items h)"
  shows "mh_owns (h\<lparr>mh_handles := drop_handles s rs (mh_handles h), mh_byteSize := b, mh_items := ks\<rparr>)
           (invalidate_all rs s)"
    and "frame (ptrs rs) s (invalidate_all rs s)"
proof -
  let ?h = "h\<lparr>mh_handles := drop_handles s rs (mh_handles h), mh_byteSize := b, mh_items := ks\<rparr>"
  let ?s = "invalidate_all rs s"
  have lk: "\<exists>hdl. linked s x hdl" if "x \<in> set (mh_items h)" for x
    using mh_ownsD(4) [OF own that] owned_linked attached_def by blast
  then show f: "frame (ptrs rs) s ?s" by (intro frame_invalidate_all) (auto simp: rs_def)
  have out: "fi_ptr x \<notin> ptrs rs" if "x \<in> set ks" for x
    using that mh_ownsD(3) [OF own] unfolding ptrs_def rs_def ks_def distinct_map by (auto dest: inj_onD)
  show "mh_owns ?h ?s"
  proof (rule mh_ownsI)
    fix x assume "x \<in> set (mh_items ?h)"
    then have x: "x \<in> set ks" "x \<in> set (mh_items h)" by (simp_all add: ks_def)
    obtain hx where hx: "owned h s x hx" using mh_ownsD(4) [OF own x(2)] by blast
    have "Handle s y \<noteq> Some hx" if "y \<in> set rs" for y
    proof
      assume "Handle s y = Some hx"
      moreover have "y \<in> set (mh_items h)" using that by (simp add: rs_def)
      ultimately have "owned h s y hx" using mh_ownsD(4) [OF own] by (fastforce simp: owned_def)
      with hx have "x = y" by (rule owned_inj)
      with out [OF x(1)] ptrs_mem [OF that] show False by simp
    qed
    then have "mh_handles ?h hx = mh_handles h hx" by (auto simp: drop_handles_def)
    from owned_frame [OF hx f out [OF x(1)] this] show "\<exists>hdl. owned ?h ?s x hdl" ..
  next
    fix hdl assume "mh_handles ?h hdl \<noteq> None"
    then have n: "mh_handles h hdl \<noteq> None" "\<forall>x\<in>set rs. Handle s x \<noteq> Some hdl"
      by (auto simp: drop_handles_def split: if_splits)
    obtain x where x: "x \<in> set (mh_items h)" "Handle s x = Some hdl" using mh_ownsD(5) [OF own n(1)] by blast
    then have k: "x \<in> set ks" using n(2) by (auto simp: rs_def ks_def)
    have "Handle ?s x = Handle s x" using frameD(1) [OF f out [OF k]] by (simp add: Handle_def)
    with x k show "\<exists>it\<in>set (mh_items ?h). Handle ?s it = Some hdl" by auto
  qed (use mh_ownsD(1-3) [OF own] frameD(6,7) [OF f] in \<open>simp_all add: ks_def distinct_map_filter\<close>)
qed

lemma mh_indexedI: "(\<And>i. i < length (mh_items h) \<Longrightarrow> item_index s (mh_items h ! i) = Some i) \<Longrightarrow> mh_indexed h s"
  by (simp add: mh_indexed_def)

lemma mh_Cleanup_ok:
  assumes inv: "mh_invar h s"
  shows "\<exists>h' s'. mh_Cleanup h s P = (filter P (mh_items h), h', s') \<and> mh_invar h' s' \<and>
    mset (mh_items h') = mset (filter (\<lambda>x. \<not> P x) (mh_items h)) \<and> mh_comparator h' = mh_comparator h \<and>
    frame (ptrs (mh_items h)) s s' \<and>
    (\<forall>it\<in>set (filter P (mh_items h)). \<forall>hdl. Handle s it = Some hdl \<longrightarrow> IsInvalidated s' hdl)"
proof (cases "filter P (mh_items h) = []")
  case True
  then have "filter (\<lambda>x. \<not> P x) (mh_items h) = mh_items h" by (simp add: filter_empty_conv)
  with True inv show ?thesis
    by (simp add: mh_Cleanup_def mh_cleanup_from_eq drop_handles_def)
next
  case False
  let ?rs = "filter P (mh_items h)" and ?ks = "filter (\<lambda>x. \<not> P x) (mh_items h)"
  let ?b = "mh_byteSize h - bytes ?rs"
  let ?h2 = "h\<lparr>mh_handles := drop_handles s ?rs (mh_handles h), mh_byteSize := ?b, mh_items := ?ks\<rparr>"
  let ?s1 = "invalidate_all ?rs s"
  let ?s2 = "mh_reindex ?h2 0 ?ks ?s1"
  obtain h3 s3 where r: "mh_heapify (mh_comparator h) (?h2, ?s2) (length ?ks div 2) = (h3, s3)" by fastforce
  have eq: "mh_Cleanup h s P = (?rs, h3, s3)"
    using False r by (simp add: mh_Cleanup_def mh_cleanup_from_eq Let_def)
  note own1 = cleanup_kept_owns(1) [OF mh_invarD(1) [OF inv], of P ?b]
    cleanup_kept_owns(2) [OF mh_invarD(1) [OF inv], of P]
  have sub: "set ?ks \<subseteq> set (mh_items ?h2)" by simp
  note re = mh_reindex_ok [OF own1(1) sub, where i = 0]
  have "distinct ?ks" using mh_ownsD(3) [OF mh_invarD(1) [OF inv]] by (simp add: distinct_map)
  then have idx2: "mh_indexed ?h2 ?s2" by (intro mh_indexedI) (use re(4) in simp)
  have sw: "swaps (?h2, ?s2) (h3, s3)"
    unfolding r [symmetric] by (rule mh_heapify_swaps) simp
  note ok = swaps_ok [OF sw] and fl = swaps_fields [OF sw]
  have own3: "mh_owns h3 s3" "mh_indexed h3 s3" using ok(1,2) re(1) idx2 by simp_all
  have f3: "frame (ptrs ?ks) ?s1 s3" using frame_trans [OF re(2)] ok(3) re(1) by simp
  have sub: "ptrs ?ks \<subseteq> ptrs (mh_items h)" "ptrs ?rs \<subseteq> ptrs (mh_items h)"
    by (auto intro!: ptrs_subset)
  have fr: "frame (ptrs (mh_items h)) s s3"
    by (rule frame_trans [OF frame_mono [OF own1(2) sub(2)] frame_mono [OF f3 sub(1)]])
  have "bytes (mh_items h3) = ?b"
    using bytes_mset [of "mh_items h3" ?ks] fl(1) bytes_partition [of "mh_items h" P]
      mh_invarD(3) [OF inv] by simp
  then have "mh_invar h3 s3" using own3 fl(4) by (simp add: mh_invar_def)
  moreover have "IsInvalidated s3 hdl" if "it \<in> set ?rs" "Handle s it = Some hdl" for it hdl
  proof -
    have "it \<in> set (mh_items h)" using that(1) by simp
    then have lk: "linked s it hdl"
      using mh_ownsD(4) [OF mh_invarD(1) [OF inv]] owned_linked that(2)
      by (fastforce simp: attached_def linked_def)
    have "fi_ptr it \<notin> ptrs ?ks" using that(1) mh_ownsD(3) [OF mh_invarD(1) [OF inv]]
      unfolding ptrs_def distinct_map by (auto dest: inj_onD)
    from linked_frame [OF invalidate_all_linked [OF lk] f3 this] invalidate_all_invalid [OF that(1) lk]
    show ?thesis by (simp add: IsInvalidated_def)
  qed
  ultimately show ?thesis using eq fl fr by simp
qed

lemma mh_Drain_ok:
  assumes inv: "mh_invar h s"
  shows "\<exists>h' s'. mh_Drain h s = (mh_items h, h', s') \<and> mh_invar h' s' \<and> mh_items h' = [] \<and>
    mh_comparator h' = mh_comparator h \<and> frame (ptrs (mh_items h)) s s' \<and>
    (\<forall>it\<in>set (mh_items h). \<forall>hdl. Handle s it = Some hdl \<longrightarrow> IsInvalidated s' hdl)"
proof -
  note own = mh_invarD(1) [OF inv]
  have lk: "\<exists>hdl. linked s x hdl" if "x \<in> set (mh_items h)" for x
    using mh_ownsD(4) [OF own that] owned_linked attached_def by blast
  have f: "frame (ptrs (mh_items h)) s (invalidate_all (mh_items h) s)"
    using lk by (intro frame_invalidate_all) auto
  have "linked s it hdl" if "it \<in> set (mh_items h)" "Handle s it = Some hdl" for it hdl
    using lk [OF that(1)] that(2) by (auto simp: linked_def)
  then have "\<forall>it\<in>set (mh_items h). \<forall>hdl. Handle s it = Some hdl \<longrightarrow>
      IsInvalidated (invalidate_all (mh_items h) s) hdl"
    using invalidate_all_invalid by blast
  moreover have "mh_invar (h\<lparr>mh_items := [], mh_handles := (\<lambda>_. None), mh_byteSize := 0\<rparr>)
      (invalidate_all (mh_items h) s)"
    using mh_ownsD(1,2) [OF own] frameD(6,7) [OF f]
    by (simp add: mh_invar_def mh_owns_def mh_indexed_def)
  ultimately show ?thesis using f by (simp add: mh_Drain_def Let_def)
qed

section \<open>The contract\<close>

lemma mh_PeekTail_mem: "mh_items h \<noteq> [] \<Longrightarrow> \<exists>it\<in>set (mh_items h). mh_PeekTail h = Inr it"
  by (auto simp: mh_PeekTail_def Let_def intro!: bexI nth_mem) (auto simp: neq_Nil_conv)

interpretation mh: safe_queue mh_invar mh_items mh_Len mh_ByteSize mh_PeekHead mh_PeekTail
  mh_Add mh_Remove mh_Cleanup mh_Drain
proof (unfold_locales, goal_cases)
  case (1 q s) then show ?case by (simp add: mh_invar_def mh_owns_def)
next
  case (2 q s it) then show ?case using mh_ownsD(4) [OF mh_invarD(1)] owned_linked by blast
next
  case (3 q s A s') then show ?case by (rule mh_invar_frame)
next
  case (4 q s f c) then show ?case
    by (simp add: mh_invar_def mh_owns_def mh_indexed_def owned_def item_index_def Handle_def store_ok_def)
next
  case (12 q s it) then show ?case by (rule mh_Add_ok)
next
  case (15 q s it h) then show ?case using mh_Remove_ok by blast
next
  case (16 q s P) then show ?case using mh_Cleanup_ok by blast
next
  case (17 q s) then show ?case using mh_Drain_ok by blast
next
  case (9 q) then show ?case by (simp add: mh_PeekTail_def)
next
  case (10 q) then show ?case by (rule mh_PeekTail_mem)
qed (simp_all add: mh_Len_def mh_ByteSize_def mh_invar_def mh_PeekHead_def mh_Add_def mh_Remove_def)

end
