(* ===== verification/HeapOrder.thy ===== *)
theory HeapOrder
  imports HeapQueue
begin

text \<open>
  The order of the max-min heap. A node on a max level is not preceded by any of its children and
  grandchildren, a node on a min level precedes none of them. \<open>push\<close> establishes this for every
  strict weak order; the sift down, on which \<open>Remove\<close> of the head and the rebuilding in
  \<open>Cleanup\<close> rest, does so for comparators without ties.
\<close>

section \<open>Orders\<close>

definition strict_weak :: "('a \<Rightarrow> 'a \<Rightarrow> bool) \<Rightarrow> bool" where
  "strict_weak cmp \<longleftrightarrow> (\<forall>a b. cmp a b \<longrightarrow> \<not> cmp b a) \<and> (\<forall>a b c. cmp a c \<longrightarrow> cmp a b \<or> cmp b c)"

definition no_ties :: "('a \<Rightarrow> 'a \<Rightarrow> bool) \<Rightarrow> 'a list \<Rightarrow> bool" where
  "no_ties cmp xs \<longleftrightarrow> distinct xs \<and> (\<forall>a\<in>set xs. \<forall>b\<in>set xs. a \<noteq> b \<longrightarrow> cmp a b \<or> cmp b a)"

lemma strict_weakD:
  assumes "strict_weak cmp"
  shows "cmp a b \<Longrightarrow> \<not> cmp b a" and "\<not> cmp a b \<Longrightarrow> \<not> cmp b c \<Longrightarrow> \<not> cmp a c"
    and "cmp a b \<Longrightarrow> \<not> cmp c b \<Longrightarrow> cmp a c" and "\<not> cmp b a \<Longrightarrow> cmp b c \<Longrightarrow> cmp a c"
  using assms unfolding strict_weak_def by blast+

lemma strict_weak_flip: "strict_weak cmp \<Longrightarrow> strict_weak (\<lambda>a b. cmp b a)"
  unfolding strict_weak_def by blast

lemma no_ties_flip: "no_ties cmp xs \<Longrightarrow> no_ties (\<lambda>a b. cmp b a) xs"
  unfolding no_ties_def by blast

lemma no_ties_mset: "mset xs = mset ys \<Longrightarrow> no_ties cmp xs \<Longrightarrow> no_ties cmp ys"
  unfolding no_ties_def by (metis mset_eq_imp_distinct_iff mset_eq_setD)

section \<open>Positions\<close>

abbreviation (input) par :: "nat \<Rightarrow> nat" where "par i \<equiv> (i - 1) div 2"
abbreviation (input) gp :: "nat \<Rightarrow> nat" where "gp i \<equiv> ((i - 1) div 2 - 1) div 2"

definition alternates :: "(nat \<Rightarrow> bool) \<Rightarrow> bool" where
  "alternates lv \<longleftrightarrow> (\<forall>i. lv (2 * i + 1) = (\<not> lv i) \<and> lv (2 * i + 2) = (\<not> lv i))"

lemma alternates_isMinLevel: "alternates isMinLevel" "alternates (\<lambda>i. \<not> isMinLevel i)"
  by (auto simp: alternates_def isMinLevel_parent [of "Suc _"] isMinLevel_parent [of "Suc (Suc _)"])

lemma par_cases: "0 < i \<Longrightarrow> i = 2 * par i + 1 \<or> i = 2 * par i + 2"
  by arith

lemma gp_eq: "3 \<le> j \<Longrightarrow> gp j = (j - 3) div 4"
proof -
  assume "3 \<le> j"
  then have "par j - 1 = (j - 3) div 2" by arith
  then show ?thesis by (simp add: div_mult2_eq [symmetric])
qed

lemma desc_par_gp:
  "j \<in> descendants2 n a \<longleftrightarrow> j < n \<and> (0 < j \<and> a = par j \<or> 3 \<le> j \<and> a = gp j)"
proof -
  have "3 \<le> j \<and> a = gp j \<longleftrightarrow> 4 * a + 3 \<le> j \<and> j < 4 * a + 7"
  proof (cases "3 \<le> j")
    case True
    have "a = (j - 3) div 4 \<longleftrightarrow> 4 * a + 3 \<le> j \<and> j < 4 * a + 7" using True by arith
    with True gp_eq [OF True] show ?thesis by simp
  qed auto
  moreover have "0 < j \<and> a = par j \<longleftrightarrow> j = 2 * a + 1 \<or> j = 2 * a + 2" by auto
  ultimately show ?thesis unfolding descendants2_iff by blast
qed

lemma desc_less: "j \<in> descendants2 n a \<Longrightarrow> a < j \<and> j < n"
  by (auto simp: descendants2_iff)

lemma alternates_par: "alternates lv \<Longrightarrow> 0 < i \<Longrightarrow> lv i \<longleftrightarrow> \<not> lv (par i)"
  using par_cases [of i] unfolding alternates_def by metis

lemma alternates_gp: "alternates lv \<Longrightarrow> 3 \<le> i \<Longrightarrow> lv i \<longleftrightarrow> lv (gp i)"
  using alternates_par [of lv i] alternates_par [of lv "par i"] by simp

section \<open>Ordered pairs\<close>

definition pair_ok :: "('a \<Rightarrow> 'a \<Rightarrow> bool) \<Rightarrow> (nat \<Rightarrow> bool) \<Rightarrow> 'a list \<Rightarrow> nat \<Rightarrow> nat \<Rightarrow> bool" where
  "pair_ok cmp lv xs a j \<longleftrightarrow> (if lv a then \<not> cmp (xs ! a) (xs ! j) else \<not> cmp (xs ! j) (xs ! a))"

definition okfrom :: "('a \<Rightarrow> 'a \<Rightarrow> bool) \<Rightarrow> (nat \<Rightarrow> bool) \<Rightarrow> nat \<Rightarrow> 'a list \<Rightarrow> bool" where
  "okfrom cmp lv k xs \<longleftrightarrow> (\<forall>a j. k \<le> a \<longrightarrow> j \<in> descendants2 (length xs) a \<longrightarrow> pair_ok cmp lv xs a j)"

abbreviation heap_ordered :: "('a \<Rightarrow> 'a \<Rightarrow> bool) \<Rightarrow> 'a list \<Rightarrow> bool" where
  "heap_ordered cmp xs \<equiv> okfrom cmp isMinLevel 0 xs"

lemma pair_ok_flip: "pair_ok (\<lambda>a b. cmp b a) (\<lambda>i. \<not> lv i) = pair_ok cmp lv"
  by (intro ext) (simp add: pair_ok_def)

lemma okfrom_flip: "okfrom (\<lambda>a b. cmp b a) (\<lambda>i. \<not> lv i) = okfrom cmp lv"
  by (intro ext) (simp add: okfrom_def pair_ok_flip)

section \<open>Sifting up\<close>

text \<open>
  Everything is in order but possibly the pair of \<open>i\<close> and its grandparent, and what is below \<open>i\<close>
  is in order with that grandparent.
\<close>

definition up_inv :: "('a \<Rightarrow> 'a \<Rightarrow> bool) \<Rightarrow> (nat \<Rightarrow> bool) \<Rightarrow> 'a list \<Rightarrow> nat \<Rightarrow> bool" where
  "up_inv cmp lv xs i \<longleftrightarrow> i < length xs \<and> \<not> lv i \<and>
     (\<forall>a j. j \<in> descendants2 (length xs) a \<longrightarrow> \<not> (3 \<le> i \<and> j = i \<and> a = gp i) \<longrightarrow> pair_ok cmp lv xs a j) \<and>
     (3 \<le> i \<longrightarrow> (\<forall>j\<in>descendants2 (length xs) i. \<not> cmp (xs ! j) (xs ! gp i)))"

lemma up_inv_done:
  "up_inv cmp lv xs i \<Longrightarrow> alternates lv \<Longrightarrow> (3 \<le> i \<Longrightarrow> \<not> cmp (xs ! i) (xs ! gp i)) \<Longrightarrow> okfrom cmp lv 0 xs"
  unfolding up_inv_def okfrom_def using alternates_gp by (metis pair_ok_def)

lemma up_inv_step:
  assumes swo: "strict_weak cmp" and alt: "alternates lv" and inv: "up_inv cmp lv xs i"
    and i3: "3 \<le> i" and gt: "cmp (xs ! i) (xs ! gp i)"
  shows "up_inv cmp lv (list_swap xs i (gp i)) (gp i)"
proof -
  define n where "n = length xs"
  define g where "g = gp i"
  define p where "p = par i"
  define ys where "ys = list_swap xs i g"
  note le = strict_weakD [OF swo]
  have i: "i < n" "\<not> lv i" and g: "g < n" "g < i" and p: "p < n" "g < p" "p < i"
    using inv i3 by (auto simp: up_inv_def n_def g_def p_def)
  have lvg: "\<not> lv g" and lvp: "lv p"
    using i(2) alternates_gp [OF alt i3] alternates_par [OF alt, of i] i3 by (auto simp: g_def p_def)
  have gt: "cmp (xs ! i) (xs ! g)" using gt by (simp add: g_def)
  have ok: "pair_ok cmp lv xs a j" if "j \<in> descendants2 n a" "j \<noteq> i \<or> a \<noteq> g" for a j
    using inv that by (auto simp: up_inv_def n_def g_def)
  have below: "\<not> cmp (xs ! j) (xs ! g)" if "j \<in> descendants2 n i" for j
    using inv i3 that by (auto simp: up_inv_def n_def g_def)
  have ysi: "ys ! i = xs ! g" and ysg: "ys ! g = xs ! i"
    and yso: "\<And>k. k < n \<Longrightarrow> k \<noteq> i \<Longrightarrow> k \<noteq> g \<Longrightarrow> ys ! k = xs ! k"
    using i g by (auto simp: ys_def nth_list_swap n_def)
  have below_g: "\<not> cmp (xs ! j) (xs ! g)" if "j \<in> descendants2 n g" "j \<noteq> i" for j
    using ok [OF that(1)] that(2) lvg by (simp add: pair_ok_def)
  have pd: "p \<in> descendants2 n g" using p(1) i3 by (auto simp: desc_par_gp p_def g_def)
  have pairs: "pair_ok cmp lv ys a j" if d: "j \<in> descendants2 n a" and ex: "\<not> (3 \<le> g \<and> j = g \<and> a = gp g)" for a j
  proof -
    have jn: "j < n" "a < j" using d by (auto simp: desc_par_gp)
    have d': "0 < j \<and> a = par j \<or> 3 \<le> j \<and> a = gp j" using d by (simp only: desc_par_gp)
    have ji: "j = i \<Longrightarrow> a = p \<or> a = g" using d' unfolding p_def g_def by blast
    have jg: "j = g \<Longrightarrow> 0 < g \<and> a = par g" using d' ex by (metis not_gr_zero not_numeral_le_zero)
    consider "j = i" "a = p" | "j = i" "a = g" | "j = g" "a = par g" "0 < g" | "a = i" | "a = g" "j \<noteq> i"
      | "j \<noteq> i" "j \<noteq> g" "a \<noteq> i" "a \<noteq> g"
      using ji jg by blast
    then show ?thesis
    proof cases
      case 1
      then show ?thesis using lvp below_g [OF pd] p by (simp add: pair_ok_def ysi yso)
    next
      case 2
      then show ?thesis using lvg le(1) [OF gt] by (simp add: pair_ok_def ysi ysg)
    next
      case 3
      have "pair_ok cmp lv xs a g" using ok [OF d] 3(1) g by auto
      moreover have "lv a" using alternates_par [OF alt 3(3)] lvg 3(2) by simp
      ultimately have "\<not> cmp (xs ! a) (xs ! g)" by (simp add: pair_ok_def)
      then have "\<not> cmp (xs ! a) (xs ! i)" using le(2) le(1) [OF gt] by blast
      with \<open>lv a\<close> 3(1) jn g show ?thesis by (simp add: pair_ok_def ysg yso)
    next
      case 4
      with d have "\<not> cmp (xs ! j) (xs ! g)" using below by blast
      with 4 jn i g show ?thesis by (simp add: pair_ok_def ysi yso)
    next
      case 5
      with d have "\<not> cmp (xs ! j) (xs ! g)" using below_g by blast
      then have "\<not> cmp (xs ! j) (xs ! i)" using le(2) le(1) [OF gt] by blast
      with 5 jn g lvg show ?thesis by (simp add: pair_ok_def ysg yso)
    next
      case 6
      then show ?thesis using ok [OF d] jn by (simp add: pair_ok_def yso)
    qed
  qed
  have "\<not> cmp (ys ! j) (ys ! gp g)" if g3: "3 \<le> g" and d: "j \<in> descendants2 n g" for j
  proof -
    define gg where "gg = gp g"
    have gd: "g \<in> descendants2 n gg" "gg < g" using g(1) g3 by (auto simp: desc_par_gp gg_def)
    have "\<not> lv gg" using lvg alternates_gp [OF alt g3] by (simp add: gg_def)
    with ok [OF gd(1)] g have top: "\<not> cmp (xs ! g) (xs ! gg)" by (simp add: pair_ok_def)
    have j: "j < n" "g < j" using d by (auto simp: desc_par_gp)
    have "\<not> cmp (ys ! j) (xs ! gg)"
      using top le(2) [OF below_g [OF d] top] j by (cases "j = i") (simp_all add: ysi yso)
    with gd g show ?thesis unfolding gg_def [symmetric] by (simp add: yso)
  qed
  moreover have "length ys = n" by (simp add: ys_def n_def)
  ultimately have "up_inv cmp lv ys g" unfolding up_inv_def using pairs lvg g(1) by metis
  then show ?thesis unfolding ys_def g_def .
qed

lemma mh_upMax_ordered:
  assumes "strict_weak cmp" "alternates lv" "up_inv cmp lv (hs_items hs) i"
  shows "okfrom cmp lv 0 (hs_items (mh_upMax cmp hs i))"
  using assms
proof (induction cmp hs i rule: mh_upMax.induct)
  case (1 cmp hs i)
  show ?case
  proof (cases "3 \<le> i \<and> cmp (hs_items hs ! i) (hs_items hs ! gp i)")
    case True
    then have p: "par i \<noteq> 0" by auto
    have "up_inv cmp lv (hs_items (mh_swap hs i (gp i))) (gp i)"
      using up_inv_step [OF "1.prems"] True by simp
    from "1.IH" [OF refl p refl conjunct2 [OF True] "1.prems"(1,2) this] True p show ?thesis
      by (subst mh_upMax.simps) (simp only: Let_def if_False if_True simp_thms)
  next
    case False
    then have "par i = 0 \<or> \<not> cmp (hs_items hs ! i) (hs_items hs ! gp i)" by auto
    then have "mh_upMax cmp hs i = hs" by (subst mh_upMax.simps) (auto simp: Let_def)
    with up_inv_done [OF "1.prems"(3,2)] False show ?thesis by simp
  qed
qed

text \<open>The first exchange of \<open>up\<close>: a last item that is on the wrong side of its parent.\<close>

lemma last_no_desc: "length xs = Suc i \<Longrightarrow> descendants2 (length xs) i = {}"
  by (auto simp: desc_par_gp)

lemma up_inv_last:
  assumes alt: "alternates lv" and n: "length xs = Suc i" and lv: "\<not> lv i" and i0: "0 < i"
    and old: "okfrom cmp lv 0 (butlast xs)" and par: "\<not> cmp (xs ! par i) (xs ! i)"
  shows "up_inv cmp lv xs i"
proof -
  have "pair_ok cmp lv xs a j" if d: "j \<in> descendants2 (length xs) a" and ex: "\<not> (3 \<le> i \<and> j = i \<and> a = gp i)" for a j
  proof (cases "j = i")
    case True
    then have "a = par i" using d ex by (auto simp: desc_par_gp)
    then show ?thesis using par True alternates_par [OF alt i0] lv by (simp add: pair_ok_def)
  next
    case False
    then have j: "j \<in> descendants2 (length (butlast xs)) a" using d n by (auto simp: desc_par_gp)
    then have "pair_ok cmp lv (butlast xs) a j" using old by (auto simp: okfrom_def)
    moreover have "a < i" "j < i" using j n by (auto simp: desc_par_gp)
    ultimately show ?thesis using n by (simp add: pair_ok_def nth_butlast split: if_splits)
  qed
  then show ?thesis using last_no_desc [OF n] n lv unfolding up_inv_def by auto
qed

lemma up_inv_exchange:
  assumes swo: "strict_weak cmp" and alt: "alternates lv" and n: "length xs = Suc i" and lv: "lv i" and i0: "0 < i"
    and old: "okfrom cmp lv 0 (butlast xs)" and gt: "cmp (xs ! i) (xs ! par i)"
  shows "up_inv cmp lv (list_swap xs i (par i)) (par i)"
proof -
  define p where "p = par i"
  define ys where "ys = list_swap xs i p"
  note le = strict_weakD [OF swo]
  have p: "p < i" using i0 by (auto simp: p_def)
  have lvp: "\<not> lv p" using alternates_par [OF alt i0] lv by (simp add: p_def)
  have gt: "cmp (xs ! i) (xs ! p)" using gt by (simp add: p_def)
  have ok: "pair_ok cmp lv xs a j" if "j \<in> descendants2 i a" for a j
  proof -
    have "pair_ok cmp lv (butlast xs) a j" using old that n by (auto simp: okfrom_def)
    moreover have "a < i" "j < i" using that by (auto simp: desc_par_gp)
    ultimately show ?thesis using n by (simp add: pair_ok_def nth_butlast split: if_splits)
  qed
  have ysi: "ys ! i = xs ! p" and ysp: "ys ! p = xs ! i"
    and yso: "\<And>k. k < i \<Longrightarrow> k \<noteq> p \<Longrightarrow> ys ! k = xs ! k"
    using n p by (auto simp: ys_def nth_list_swap)
  have gd: "par p < p \<and> lv (par p) \<and> \<not> cmp (xs ! par p) (xs ! p)" if "0 < p"
  proof -
    have "p \<in> descendants2 i (par p)" using that p by (simp add: desc_par_gp)
    with ok have "pair_ok cmp lv xs (par p) p" .
    moreover have "lv (par p)" using alternates_par [OF alt that] lvp by simp
    ultimately show ?thesis using that by (simp add: pair_ok_def)
  qed
  have below: "\<not> cmp (xs ! j) (xs ! p)" if "j \<in> descendants2 i p" for j
    using ok [OF that] lvp by (simp add: pair_ok_def)
  have pairs: "pair_ok cmp lv ys a j" if d: "j \<in> descendants2 (Suc i) a" and ex: "\<not> (3 \<le> p \<and> j = p \<and> a = gp p)" for a j
  proof -
    have d': "0 < j \<and> a = par j \<or> 3 \<le> j \<and> a = gp j" and jn: "j < Suc i" "a < j" using d by (auto simp: desc_par_gp)
    have pp: "3 \<le> i \<Longrightarrow> 0 < p" using p_def by simp
    have ji: "j = i \<Longrightarrow> a = p \<or> 0 < p \<and> a = par p" using d' pp unfolding p_def by blast
    have jp: "j = p \<Longrightarrow> 0 < p \<and> a = par p" using d' ex by (metis not_gr_zero not_numeral_le_zero)
    have dj: "j \<noteq> i \<Longrightarrow> j \<in> descendants2 i a" using d by (simp add: desc_par_gp)
    consider "j = i" "a = p" | "j = i" "a = par p" "0 < p" | "j = p" "a = par p" "0 < p" | "a = p" "j \<noteq> i"
      | "j \<noteq> i" "j \<noteq> p" "a \<noteq> p"
      using ji jp by blast
    then show ?thesis
    proof cases
      case 1
      then show ?thesis using lvp le(1) [OF gt] by (simp add: pair_ok_def ysi ysp)
    next
      case 2
      then show ?thesis using gd p by (simp add: pair_ok_def ysi yso)
    next
      case 3
      then have "\<not> cmp (xs ! par p) (xs ! i)" using gd le(2) le(1) [OF gt] by blast
      with 3 show ?thesis using gd p by (simp add: pair_ok_def ysp yso)
    next
      case 4
      then have "\<not> cmp (xs ! j) (xs ! i)" using below dj le(2) le(1) [OF gt] by blast
      with 4 jn lvp show ?thesis by (simp add: pair_ok_def ysp yso)
    next
      case 5
      then show ?thesis using ok dj jn by (simp add: pair_ok_def yso)
    qed
  qed
  have "\<not> cmp (ys ! j) (ys ! gp p)" if p3: "3 \<le> p" and d: "j \<in> descendants2 (Suc i) p" for j
  proof -
    define gg where "gg = gp p"
    have gg: "p \<in> descendants2 i gg" "gg < p" using p p3 by (auto simp: desc_par_gp gg_def)
    have "\<not> lv gg" using lvp alternates_gp [OF alt p3] by (simp add: gg_def)
    with ok [OF gg(1)] have top: "\<not> cmp (xs ! p) (xs ! gg)" by (simp add: pair_ok_def)
    have j: "j < Suc i" "p < j" using d by (auto simp: desc_par_gp)
    have "\<not> cmp (xs ! j) (xs ! gg)" if "j \<noteq> i"
      using that d by (intro le(2) [OF below top]) (simp add: desc_par_gp)
    then have "\<not> cmp (ys ! j) (xs ! gg)" using top j by (cases "j = i") (simp_all add: ysi yso)
    with gg p show ?thesis unfolding gg_def [symmetric] by (simp add: yso)
  qed
  moreover have "length ys = Suc i" by (simp add: ys_def n)
  ultimately have "up_inv cmp lv ys p" unfolding up_inv_def using pairs lvp p by (metis less_SucI)
  then show ?thesis unfolding ys_def p_def .
qed

lemma mh_up_ordered:
  assumes swo: "strict_weak cmp" and n: "length (hs_items hs) = Suc i"
    and old: "heap_ordered cmp (butlast (hs_items hs))"
  shows "heap_ordered cmp (hs_items (mh_up cmp hs i))"
proof (cases "i = 0")
  case True
  then show ?thesis using n by (auto simp: mh_up_def okfrom_def desc_par_gp)
next
  case False
  then have i0: "0 < i" by simp
  note alt = alternates_isMinLevel and swo' = strict_weak_flip [OF swo]
  have old': "okfrom (\<lambda>a b. cmp b a) (\<lambda>i. \<not> isMinLevel i) 0 (butlast (hs_items hs))"
    using old by (simp add: okfrom_flip)
  let ?x = "\<lambda>k. hs_items hs ! k"
  consider (a) "isMinLevel i" "cmp (?x i) (?x (par i))" | (b) "isMinLevel i" "\<not> cmp (?x i) (?x (par i))"
    | (c) "\<not> isMinLevel i" "cmp (?x (par i)) (?x i)" | (d) "\<not> isMinLevel i" "\<not> cmp (?x (par i)) (?x i)" by blast
  then show ?thesis
  proof cases
    case a
    from mh_upMax_ordered [OF swo alt(1), of "mh_swap hs i (par i)"]
      up_inv_exchange [OF swo alt(1) n a(1) i0 old a(2)] a i0 show ?thesis by (simp add: mh_up_def Let_def)
  next
    case b
    have "up_inv (\<lambda>a b. cmp b a) (\<lambda>i. \<not> isMinLevel i) (hs_items hs) i"
      using up_inv_last [OF alt(2) n _ i0 old'] b by simp
    from mh_upMax_ordered [OF swo' alt(2) this] b i0 show ?thesis
      by (simp add: mh_up_def Let_def mh_upMin_flip okfrom_flip)
  next
    case c
    from mh_upMax_ordered [OF swo' alt(2), of "mh_swap hs i (par i)"]
      up_inv_exchange [OF swo' alt(2) n _ i0 old'] c i0 show ?thesis
      by (simp add: mh_up_def Let_def mh_upMin_flip okfrom_flip)
  next
    case d
    from mh_upMax_ordered [OF swo alt(1)] up_inv_last [OF alt(1) n d(1) i0 old d(2)] d i0
    show ?thesis by (simp add: mh_up_def Let_def)
  qed
qed

section \<open>Sifting down\<close>

lemma fold_choose_max:
  assumes swo: "strict_weak cmp"
  shows "j \<in> insert m (set js) \<Longrightarrow>
    \<not> cmp (xs ! j) (xs ! fold (\<lambda>j m. if cmp (xs ! j) (xs ! m) then j else m) js m)"
proof (induction js arbitrary: m j)
  case Nil
  then show ?case using strict_weakD(1) [OF swo] by auto
next
  case (Cons a js)
  let ?m = "if cmp (xs ! a) (xs ! m) then a else m"
  let ?r = "fold (\<lambda>j m. if cmp (xs ! j) (xs ! m) then j else m) js ?m"
  note le = strict_weakD [OF swo]
  have m: "\<not> cmp (xs ! ?m) (xs ! ?r)" by (rule Cons.IH) simp
  consider "j = a" | "j = m" | "j \<in> set js" using Cons.prems by auto
  then have "\<not> cmp (xs ! j) (xs ! ?r)"
  proof cases
    case 1
    then have "\<not> cmp (xs ! j) (xs ! ?m)" using le(1) by auto
    then show ?thesis using m by (rule le(2))
  next
    case 2
    then have "\<not> cmp (xs ! j) (xs ! ?m)" using le(1) by auto
    then show ?thesis using m by (rule le(2))
  next
    case 3
    then show ?thesis by (intro Cons.IH) simp
  qed
  then show ?case by simp
qed

lemma findLargest_max:
  assumes swo: "strict_weak cmp" and f: "findLargestChildOrGrandchild cmp xs i = Some m"
    and j: "j \<in> descendants2 (length xs) i"
  shows "\<not> cmp (xs ! j) (xs ! m)"
proof -
  let ?js = "[2 * (2 * i + 1) + 1 ..< min (2 * (2 * i + 1) + 1 + 4) (length xs)]"
  let ?l = "2 * i + 1" and ?r = "2 * i + 2"
  let ?m0 = "if ?r < length xs \<and> cmp (xs ! ?r) (xs ! ?l) then ?r else ?l"
  note le = strict_weakD [OF swo]
  have l: "?l < length xs" and m: "m = fold (\<lambda>j m. if cmp (xs ! j) (xs ! m) then j else m) ?js ?m0"
    using f by (auto simp: findLargestChildOrGrandchild_def Let_def split: if_splits)
  have mx: "\<not> cmp (xs ! k) (xs ! m)" if "k \<in> insert ?m0 (set ?js)" for k
    unfolding m by (rule fold_choose_max [OF swo that])
  have "\<not> cmp (xs ! k) (xs ! ?m0)" if "k = ?l \<or> k = ?r \<and> ?r < length xs" for k
    using that le(1) by auto
  then have two: "\<not> cmp (xs ! k) (xs ! m)" if "k = ?l \<or> k = ?r \<and> ?r < length xs" for k
    using that le(2) mx [of ?m0] by blast
  show ?thesis using j two mx by (auto simp: descendants2_iff)
qed

lemma findLargest_None: "findLargestChildOrGrandchild cmp xs i = None \<Longrightarrow> descendants2 (length xs) i = {}"
  by (auto simp: findLargestChildOrGrandchild_def Let_def descendants2_iff split: if_splits)

text \<open>
  From \<open>k\<close> on everything is in order but possibly what is below \<open>i\<close>, and what is below \<open>i\<close> is in
  order with the grandparent of \<open>i\<close>.
\<close>

definition down_inv :: "('a \<Rightarrow> 'a \<Rightarrow> bool) \<Rightarrow> (nat \<Rightarrow> bool) \<Rightarrow> nat \<Rightarrow> 'a list \<Rightarrow> nat \<Rightarrow> bool" where
  "down_inv cmp lv k xs i \<longleftrightarrow> i < length xs \<and> \<not> lv i \<and> k \<le> i \<and>
     (\<forall>a j. k \<le> a \<longrightarrow> a \<noteq> i \<longrightarrow> j \<in> descendants2 (length xs) a \<longrightarrow> pair_ok cmp lv xs a j) \<and>
     (3 \<le> i \<longrightarrow> k \<le> gp i \<longrightarrow> (\<forall>j\<in>descendants2 (length xs) i. \<not> cmp (xs ! j) (xs ! gp i)))"

lemma down_invD:
  assumes "down_inv cmp lv k xs i"
  shows "i < length xs" "\<not> lv i" "k \<le> i"
    and "k \<le> a \<Longrightarrow> a \<noteq> i \<Longrightarrow> j \<in> descendants2 (length xs) a \<Longrightarrow> pair_ok cmp lv xs a j"
    and "3 \<le> i \<Longrightarrow> k \<le> gp i \<Longrightarrow> j \<in> descendants2 (length xs) i \<Longrightarrow> \<not> cmp (xs ! j) (xs ! gp i)"
  using assms unfolding down_inv_def by blast+

lemma down_inv_start:
  "okfrom cmp lv (Suc i) xs \<Longrightarrow> i < length xs \<Longrightarrow> \<not> lv i \<Longrightarrow> down_inv cmp lv i xs i"
  unfolding down_inv_def okfrom_def by (auto simp: Suc_le_eq)

lemma down_inv_done:
  "down_inv cmp lv k xs i \<Longrightarrow> (\<And>j. j \<in> descendants2 (length xs) i \<Longrightarrow> \<not> cmp (xs ! j) (xs ! i)) \<Longrightarrow>
   okfrom cmp lv k xs"
  unfolding down_inv_def okfrom_def pair_ok_def by metis

text \<open>The pairs above \<open>i\<close> when a larger value of the second generation moves to \<open>i\<close>.\<close>

lemma down_above:
  assumes swo: "strict_weak cmp" and alt: "alternates lv" and inv: "down_inv cmp lv k xs i"
    and m: "m \<in> descendants2 (length xs) i" and gt: "cmp (xs ! m) (xs ! i)"
    and d: "i \<in> descendants2 (length xs) a" and k: "k \<le> a"
  shows "if lv a then \<not> cmp (xs ! a) (xs ! m) else \<not> cmp (xs ! m) (xs ! a)"
proof (cases "0 < i \<and> a = par i")
  case True
  then have lva: "lv a" using alternates_par [OF alt] down_invD(2) [OF inv] by blast
  have "a \<noteq> i" using True by auto
  with down_invD(4) [OF inv k _ d] lva have "\<not> cmp (xs ! a) (xs ! i)" by (simp add: pair_ok_def)
  with strict_weakD(2) [OF swo] strict_weakD(1) [OF swo gt] lva show ?thesis by auto
next
  case False
  then have i3: "3 \<le> i" and a: "a = gp i" using d by (auto simp: desc_par_gp)
  have "\<not> lv a" using alternates_gp [OF alt i3] down_invD(2) [OF inv] a by blast
  with down_invD(5) [OF inv i3 _ m] k a show ?thesis by simp
qed

lemma down_child:
  assumes swo: "strict_weak cmp" and alt: "alternates lv" and nt: "no_ties cmp xs"
    and inv: "down_inv cmp lv k xs i" and m: "0 < m" "m < length xs" "par m = i"
    and mx: "\<And>j. j \<in> descendants2 (length xs) i \<Longrightarrow> \<not> cmp (xs ! j) (xs ! m)"
    and gt: "cmp (xs ! m) (xs ! i)"
  shows "descendants2 (length xs) m = {}" and "okfrom cmp lv k (list_swap xs i m)"
proof -
  define n where "n = length xs"
  define ys where "ys = list_swap xs i m"
  note le = strict_weakD [OF swo] and D = down_invD [OF inv, folded n_def]
  have mn: "m < n" and im: "i < m" "m \<noteq> i" using m by (auto simp: n_def)
  have md: "m \<in> descendants2 n i" using m by (auto simp: desc_par_gp n_def)
  have lvm: "lv m" using alternates_par [OF alt m(1)] m(3) D(2) by simp
  show nodesc: "descendants2 (length xs) m = {}"
  proof (rule ccontr)
    assume "descendants2 (length xs) m \<noteq> {}"
    then have "2 * m + 1 < n" by (auto simp: descendants2_iff n_def)
    then have c: "2 * m + 1 \<in> descendants2 n m" "2 * m + 1 \<in> descendants2 n i"
      using m by (auto simp: desc_par_gp)
    have "\<not> cmp (xs ! m) (xs ! (2 * m + 1))" using D(4) [OF _ im(2) c(1)] D(3) im lvm by (simp add: pair_ok_def)
    moreover have "\<not> cmp (xs ! (2 * m + 1)) (xs ! m)" using mx c(2) by (simp add: n_def)
    moreover have "xs ! (2 * m + 1) \<noteq> xs ! m"
      using nt \<open>2 * m + 1 < n\<close> by (auto simp: no_ties_def n_def nth_eq_iff_index_eq)
    ultimately show False using nt \<open>2 * m + 1 < n\<close> mn unfolding no_ties_def n_def by (metis nth_mem)
  qed
  have ysi: "ys ! i = xs ! m" and ysm: "ys ! m = xs ! i"
    and yso: "\<And>j. j < n \<Longrightarrow> j \<noteq> i \<Longrightarrow> j \<noteq> m \<Longrightarrow> ys ! j = xs ! j"
    using mn D(1) by (auto simp: ys_def nth_list_swap n_def)
  have pairs: "pair_ok cmp lv ys a j" if ka: "k \<le> a" and d: "j \<in> descendants2 n a" for a j
  proof -
    have jn: "j < n" "a < j" using d by (auto simp: desc_par_gp)
    have am: "a \<noteq> m" using d nodesc by (auto simp: n_def)
    consider "a = i" "j = m" | "a = i" "j \<noteq> m" | "a \<noteq> i" "j = i" | "a \<noteq> i" "j = m" | "a \<noteq> i" "j \<noteq> i" "j \<noteq> m" by blast
    then show ?thesis
    proof cases
      case 1
      then show ?thesis using D(2) le(1) [OF gt] by (simp add: pair_ok_def ysi ysm)
    next
      case 2
      then show ?thesis using D(2) mx d jn by (simp add: pair_ok_def ysi yso n_def)
    next
      case 3
      have "if lv a then \<not> cmp (xs ! a) (xs ! m) else \<not> cmp (xs ! m) (xs ! a)"
        by (rule down_above [OF swo alt inv md [unfolded n_def] gt _ ka]) (use d 3 in \<open>simp add: n_def\<close>)
      with 3 jn im mn show ?thesis by (simp add: pair_ok_def ysi yso split: if_splits)
    next
      case 4
      have i0: "0 < i" and a: "a = par i" using d 4 m(3) by (auto simp: desc_par_gp)
      then have "i \<in> descendants2 n a" using D(1) by (simp add: desc_par_gp)
      from D(4) [OF ka 4(1) this] have "pair_ok cmp lv xs a i" .
      moreover have "lv a" using alternates_par [OF alt i0] D(2) a by simp
      ultimately show ?thesis using 4 jn am by (simp add: pair_ok_def ysm yso)
    next
      case 5
      then show ?thesis using D(4) [OF ka 5(1) d] jn am by (simp add: pair_ok_def yso)
    qed
  qed
  then show "okfrom cmp lv k (list_swap xs i m)" by (auto simp: okfrom_def ys_def n_def)
qed

lemma down_grandchild:
  assumes swo: "strict_weak cmp" and alt: "alternates lv"
    and inv: "down_inv cmp lv k xs i" and m: "m \<in> descendants2 (length xs) i" "par m \<noteq> i"
    and mx: "\<And>j. j \<in> descendants2 (length xs) i \<Longrightarrow> \<not> cmp (xs ! j) (xs ! m)"
    and gt: "cmp (xs ! m) (xs ! i)"
  defines "ys \<equiv> list_swap xs i m"
  shows "down_inv cmp lv k (if cmp (ys ! par m) (ys ! m) then list_swap ys m (par m) else ys) m"
proof -
  define n where "n = length xs"
  define p where "p = par m"
  define zs where "zs = (if cmp (ys ! p) (ys ! m) then list_swap ys m p else ys)"
  note le = strict_weakD [OF swo] and D = down_invD [OF inv, folded n_def]
  have m3: "3 \<le> m" and gpm: "gp m = i" and mn: "m < n" using m by (auto simp: desc_par_gp n_def)
  have pi: "par p = i" "0 < p" using gpm m3 by (auto simp: p_def)
  have ip: "i < p" "p < m" "p < n" using m3 mn pi by (auto simp: p_def)
  have pd: "p \<in> descendants2 n i" and md: "m \<in> descendants2 n i" and mp: "m \<in> descendants2 n p"
    using ip pi m3 mn m by (auto simp: desc_par_gp p_def n_def)
  have lvp: "lv p" using alternates_par [OF alt pi(2)] pi(1) D(2) by simp
  have lvm: "\<not> lv m" using alternates_gp [OF alt m3] gpm D(2) by simp
  have pm: "\<not> cmp (xs ! p) (xs ! m)" using mx pd by (simp add: n_def)
  have yi: "ys ! i = xs ! m" and ym: "ys ! m = xs ! i" and yp: "ys ! p = xs ! p"
    and yo: "\<And>j. j < n \<Longrightarrow> j \<noteq> i \<Longrightarrow> j \<noteq> m \<Longrightarrow> ys ! j = xs ! j"
    using mn D(1) ip by (auto simp: ys_def nth_list_swap n_def)
  have zi: "zs ! i = xs ! m"
    and zo: "\<And>j. j < n \<Longrightarrow> j \<noteq> i \<Longrightarrow> j \<noteq> m \<Longrightarrow> j \<noteq> p \<Longrightarrow> zs ! j = xs ! j"
    using mn D(1) ip yi yo by (auto simp: zs_def nth_list_swap ys_def n_def)
  have zpm: "zs ! p = xs ! i \<and> zs ! m = xs ! p \<and> cmp (xs ! p) (xs ! i) \<or>
      zs ! p = xs ! p \<and> zs ! m = xs ! i \<and> \<not> cmp (xs ! p) (xs ! i)"
    using mn ip yp ym by (auto simp: zs_def nth_list_swap ys_def n_def)
  have zm: "\<not> cmp (zs ! m) (xs ! m)" and zp: "\<not> cmp (zs ! p) (xs ! m)" and zpm': "\<not> cmp (zs ! p) (zs ! m)"
    and zpp: "\<not> cmp (zs ! p) (xs ! p)"
    using zpm pm le(1) [OF gt] le(1) [of "xs ! p" "xs ! i"] le(1) [of "xs ! p" "xs ! p"] by auto
  have pairs: "pair_ok cmp lv zs a j" if ka: "k \<le> a" and an: "a \<noteq> m" and d: "j \<in> descendants2 n a" for a j
  proof -
    have jn: "j < n" "a < j" using d by (auto simp: desc_par_gp)
    have d': "0 < j \<and> a = par j \<or> 3 \<le> j \<and> a = gp j" using d by (simp only: desc_par_gp)
    have jm: "j = m \<Longrightarrow> a = p \<or> a = i" using d' gpm unfolding p_def by blast
    have "j = p \<Longrightarrow> a = i \<or> a = par i" using d' pi(1) by metis
    then have jp: "j = p \<Longrightarrow> a = i \<or> 0 < i \<and> a = par i" by (cases "i = 0") auto
    consider "a = i" | "a = p" "j = m" | "a = p" "j \<noteq> m" | "a \<noteq> i" "j = i" | "a = par i" "j = p" "0 < i"
      | "a \<noteq> i" "a \<noteq> p" "j \<noteq> i" "j \<noteq> m" "j \<noteq> p"
      using jm jp by blast
    then show ?thesis
    proof cases
      case 1
      then have "\<not> cmp (zs ! j) (xs ! m)"
        using zm zp mx d jn by (cases "j = m \<or> j = p") (auto simp: zo n_def)
      with 1 D(2) show ?thesis by (simp add: pair_ok_def zi)
    next
      case 2
      then show ?thesis using lvp zpm' by (simp add: pair_ok_def)
    next
      case 3
      then have "\<not> cmp (xs ! p) (xs ! j)" using D(4) [OF ka _ d] ip lvp by (simp add: pair_ok_def)
      with zpp have "\<not> cmp (zs ! p) (xs ! j)" using le(2) by blast
      with 3 jn ip lvp show ?thesis by (simp add: pair_ok_def zo)
    next
      case 4
      have "if lv a then \<not> cmp (xs ! a) (xs ! m) else \<not> cmp (xs ! m) (xs ! a)"
        by (rule down_above [OF swo alt inv md [unfolded n_def] gt _ ka]) (use d 4 in \<open>simp add: n_def\<close>)
      moreover have "zs ! a = xs ! a" using 4 jn ip by (intro zo) auto
      ultimately show ?thesis using 4 by (simp add: pair_ok_def zi split: if_splits)
    next
      case 5
      have lva: "lv a" using alternates_par [OF alt 5(3)] D(2) 5(1) by simp
      have di: "i \<in> descendants2 n a" and ai: "a < i" using D(1) 5 by (auto simp: desc_par_gp)
      have "\<not> cmp (xs ! a) (xs ! i)" using D(4) [OF ka _ di] ai lva by (simp add: pair_ok_def)
      moreover have "\<not> cmp (xs ! a) (xs ! p)" using D(4) [OF ka _ d] ai 5(2) lva by (simp add: pair_ok_def)
      moreover have "zs ! a = xs ! a" using ai ip D(1) by (intro zo) auto
      ultimately show ?thesis using lva 5(2) zpm by (auto simp: pair_ok_def)
    next
      case 6
      then show ?thesis using D(4) [OF ka 6(1) d] jn an by (simp add: pair_ok_def zo)
    qed
  qed
  have "\<not> cmp (zs ! j) (zs ! i)" if "j \<in> descendants2 n m" for j
  proof -
    have "\<not> cmp (xs ! j) (xs ! m)" using D(4) [OF _ _ that] D(3) ip lvm by (simp add: pair_ok_def)
    moreover have "j < n" "m < j" using that by (auto simp: desc_par_gp)
    ultimately show ?thesis using ip by (simp add: zi zo)
  qed
  then have cl: "\<forall>j\<in>descendants2 n m. \<not> cmp (zs ! j) (zs ! gp m)" unfolding gpm by blast
  have len: "length zs = n" by (simp add: zs_def ys_def n_def)
  have "down_inv cmp lv k zs m"
    unfolding down_inv_def len using mn lvm D(3) ip pairs cl by (meson less_imp_le le_trans)
  then show ?thesis unfolding zs_def p_def .
qed

lemma mh_downMax_leaf: "descendants2 (length (hs_items hs)) i = {} \<Longrightarrow> mh_downMax cmp hs i = hs"
  using findLargest_mem [of cmp "hs_items hs" i] by (subst mh_downMax.simps) (auto split: option.split)

lemma mh_downMax_ordered:
  assumes "strict_weak cmp" "alternates lv" "no_ties cmp (hs_items hs)" "down_inv cmp lv k (hs_items hs) i"
  shows "okfrom cmp lv k (hs_items (mh_downMax cmp hs i))"
  using assms
proof (induction cmp hs i rule: mh_downMax.induct)
  case (1 cmp hs i)
  let ?xs = "hs_items hs"
  note le = strict_weakD [OF "1.prems"(1)]
  show ?case
  proof (cases "findLargestChildOrGrandchild cmp ?xs i")
    case None
    with findLargest_None [OF None] down_inv_done [OF "1.prems"(4)] show ?thesis
      by (simp add: mh_downMax_leaf)
  next
    case (Some m)
    note mx = findLargest_max [OF "1.prems"(1) Some]
    have m: "m \<in> descendants2 (length ?xs) i" "m < length ?xs" "0 < m"
      using findLargest_mem [OF Some] by (auto simp: descendants2_iff)
    show ?thesis
    proof (cases "cmp (?xs ! m) (?xs ! i)")
      case False
      have "okfrom cmp lv k ?xs"
        by (rule down_inv_done [OF "1.prems"(4)]) (use mx False le(2) in blast)
      moreover have "mh_downMax cmp hs i = hs" by (subst mh_downMax.simps) (simp add: Some False)
      ultimately show ?thesis by simp
    next
      case True
      let ?hs1 = "mh_swap hs i m"
      let ?hs2 = "if par m \<noteq> i \<and> cmp (hs_items ?hs1 ! par m) (hs_items ?hs1 ! m) then mh_swap ?hs1 m (par m) else ?hs1"
      have step: "mh_downMax cmp hs i = mh_downMax cmp ?hs2 m"
        by (subst mh_downMax.simps) (simp only: Some True option.case if_True Let_def)
      show ?thesis
      proof (cases "par m = i")
        case True
        note c = down_child [OF "1.prems"(1-4) m(3,2) True mx \<open>cmp (?xs ! m) (?xs ! i)\<close>]
        from True c show ?thesis unfolding step by (simp add: mh_downMax_leaf)
      next
        case False
        note g = down_grandchild [OF "1.prems"(1,2,4) m(1) False mx True]
        have items: "hs_items ?hs2 =
          (if cmp (list_swap ?xs i m ! par m) (list_swap ?xs i m ! m)
           then list_swap (list_swap ?xs i m) m (par m) else list_swap ?xs i m)"
          using False by simp
        have "mset (hs_items ?hs2) = mset ?xs"
          unfolding items using m down_invD(1) [OF "1.prems"(4)] by simp
        then have nt: "no_ties cmp (hs_items ?hs2)" using no_ties_mset "1.prems"(3) by metis
        show ?thesis unfolding step
          by (rule "1.IH" [OF Some True refl refl refl "1.prems"(1,2) nt]) (use g items in \<open>simp only:\<close>)
      qed
    qed
  qed
qed

lemma mh_down_ordered:
  assumes swo: "strict_weak cmp" and nt: "no_ties cmp (hs_items hs)"
    and ok: "okfrom cmp isMinLevel (Suc i) (hs_items hs)" and i: "i < length (hs_items hs)"
  shows "okfrom cmp isMinLevel i (hs_items (mh_down cmp hs i))"
proof (cases "isMinLevel i")
  case True
  let ?c = "\<lambda>a b. cmp b a" and ?l = "\<lambda>i. \<not> isMinLevel i"
  have "down_inv ?c ?l i (hs_items hs) i"
    by (rule down_inv_start) (use True i ok in \<open>simp_all add: okfrom_flip\<close>)
  from mh_downMax_ordered [OF strict_weak_flip [OF swo] alternates_isMinLevel(2) no_ties_flip [OF nt] this] True
  show ?thesis by (simp add: mh_down_def mh_downMin_flip okfrom_flip)
next
  case False
  from mh_downMax_ordered [OF swo alternates_isMinLevel(1) nt down_inv_start [OF ok i False]] False
  show ?thesis by (simp add: mh_down_def)
qed

lemma mh_heapify_ordered:
  assumes swo: "strict_weak cmp"
  shows "no_ties cmp (hs_items hs) \<Longrightarrow> okfrom cmp isMinLevel k (hs_items hs) \<Longrightarrow> k \<le> length (hs_items hs) \<Longrightarrow>
    heap_ordered cmp (hs_items (mh_heapify cmp hs k))"
proof (induction k arbitrary: hs)
  case (Suc k)
  have sw: "swaps hs (mh_down cmp hs k)" using Suc.prems by (intro mh_down_swaps) simp
  have "no_ties cmp (hs_items (mh_down cmp hs k))"
    using no_ties_mset swaps_fields(1) [OF sw] Suc.prems(1) by metis
  moreover have "okfrom cmp isMinLevel k (hs_items (mh_down cmp hs k))"
    using Suc.prems by (intro mh_down_ordered [OF swo]) simp_all
  ultimately show ?case using Suc.IH swaps_fields(2) [OF sw] Suc.prems(3) by simp
qed simp

lemma okfrom_half: "okfrom cmp lv (length xs div 2) xs"
  by (auto simp: okfrom_def desc_par_gp)

section \<open>The head and the tail\<close>

lemma ordered_root:
  assumes swo: "strict_weak cmp" and ok: "heap_ordered cmp xs"
  shows "j < length xs \<Longrightarrow> \<not> cmp (xs ! j) (xs ! 0)"
proof (induction j rule: less_induct)
  case (less j)
  note le = strict_weakD [OF swo] and alt = alternates_isMinLevel(1)
  have up: "\<not> cmp (xs ! j) (xs ! a) \<and> a < j" if "j \<in> descendants2 (length xs) a" "\<not> isMinLevel a" for a
    using ok that by (auto simp: okfrom_def pair_ok_def desc_par_gp)
  consider "j = 0" | "isMinLevel j" "0 < j" | "\<not> isMinLevel j" "3 \<le> j" | "\<not> isMinLevel j" "0 < j" "j < 3" by linarith
  then show ?case
  proof cases
    case 1
    then show ?thesis using le(1) by blast
  next
    case 2
    then have "\<not> cmp (xs ! j) (xs ! par j) \<and> par j < j"
      by (intro up) (use less.prems alternates_par [OF alt] in \<open>auto simp: desc_par_gp\<close>)
    then show ?thesis using less.IH [of "par j"] less.prems le(2) by (meson less_trans)
  next
    case 3
    then have "\<not> cmp (xs ! j) (xs ! gp j) \<and> gp j < j"
      by (intro up) (use less.prems alternates_gp [OF alt] in \<open>auto simp: desc_par_gp\<close>)
    then show ?thesis using less.IH [of "gp j"] less.prems le(2) by (meson less_trans)
  next
    case 4
    then have "j = 1 \<or> j = 2" by auto
    then show ?thesis using 4 alternates_par [OF alt, of j] by auto
  qed
qed

lemma ordered_bottom:
  assumes swo: "strict_weak cmp" and ok: "heap_ordered cmp xs"
  shows "j < length xs \<Longrightarrow> 3 \<le> length xs \<Longrightarrow> \<exists>k\<in>{1, 2}. \<not> cmp (xs ! k) (xs ! j)"
proof (induction j rule: less_induct)
  case (less j)
  note le = strict_weakD [OF swo] and alt = alternates_isMinLevel(1)
  have lv1: "isMinLevel 1" "isMinLevel 2" using alternates_par [OF alt, of 1] alternates_par [OF alt, of 2] by simp_all
  have up: "\<not> cmp (xs ! a) (xs ! j) \<and> a < j" if "j \<in> descendants2 (length xs) a" "isMinLevel a" for a
    using ok that by (auto simp: okfrom_def pair_ok_def desc_par_gp)
  consider "j = 0" | "j = 1 \<or> j = 2" | "isMinLevel j" "3 \<le> j" | "\<not> isMinLevel j" "3 \<le> j" by linarith
  then show ?case
  proof cases
    case 1
    have "1 \<in> descendants2 (length xs) 0" using less.prems by (simp add: descendants2_iff)
    then have "\<not> cmp (xs ! 1) (xs ! 0)" using ok by (auto simp: okfrom_def pair_ok_def)
    then show ?thesis using 1 by auto
  next
    case 2
    then show ?thesis using le(1) by blast
  next
    case 3
    then have "\<not> cmp (xs ! gp j) (xs ! j) \<and> gp j < j"
      by (intro up) (use less.prems alternates_gp [OF alt] in \<open>auto simp: desc_par_gp\<close>)
    then show ?thesis using less.IH [of "gp j"] less.prems le(2) by (meson less_trans)
  next
    case 4
    then have "\<not> cmp (xs ! par j) (xs ! j) \<and> par j < j"
      by (intro up) (use less.prems alternates_par [OF alt, of j] in \<open>auto simp: desc_par_gp\<close>)
    then show ?thesis using less.IH [of "par j"] less.prems le(2) by (meson less_trans)
  qed
qed

section \<open>The operations\<close>

definition mh_ordered :: "maxMinHeap \<Rightarrow> bool" where
  "mh_ordered h \<longleftrightarrow> strict_weak (mh_comparator h) \<and> heap_ordered (mh_comparator h) (mh_items h)"

lemma mh_ordered_new: "strict_weak cmp \<Longrightarrow> mh_ordered (newMaxMinHeap cmp)"
  by (simp add: mh_ordered_def newMaxMinHeap_def okfrom_def desc_par_gp)

lemma mh_PeekHead_best:
  assumes "mh_ordered h" "mh_PeekHead h = Inr it" "x \<in> set (mh_items h)"
  shows "\<not> mh_comparator h x it"
proof -
  obtain j where "j < length (mh_items h)" "x = mh_items h ! j" using assms(3) by (auto simp: in_set_conv_nth)
  moreover have "it = mh_items h ! 0" using assms(2) by (auto simp: mh_PeekHead_def split: if_splits)
  ultimately show ?thesis using ordered_root assms(1) by (auto simp: mh_ordered_def)
qed

lemma mh_PeekTail_worst:
  assumes ord: "mh_ordered h" and tail: "mh_PeekTail h = Inr it" and x: "x \<in> set (mh_items h)"
  shows "\<not> mh_comparator h it x"
proof -
  let ?c = "mh_comparator h" and ?xs = "mh_items h"
  have swo: "strict_weak ?c" and ok: "heap_ordered ?c ?xs" using ord by (simp_all add: mh_ordered_def)
  note le = strict_weakD [OF swo]
  obtain j where j: "j < length ?xs" "x = ?xs ! j" using x by (auto simp: in_set_conv_nth)
  consider "length ?xs = 1" | "length ?xs = 2" | "3 \<le> length ?xs" using j by linarith
  then show ?thesis
  proof cases
    case 1
    then show ?thesis using tail j le(1) by (auto simp: mh_PeekTail_def)
  next
    case 2
    have "1 \<in> descendants2 (length ?xs) 0" using 2 by (simp add: descendants2_iff)
    then have "\<not> ?c (?xs ! 1) (?xs ! 0)" using ok by (auto simp: okfrom_def pair_ok_def)
    moreover have "j = 0 \<or> j = 1" "it = ?xs ! 1" using 2 j tail by (auto simp: mh_PeekTail_def)
    ultimately show ?thesis using j le(1) by auto
  next
    case 3
    then have it: "it = (if ?c (?xs ! 1) (?xs ! 2) then ?xs ! 2 else ?xs ! 1)"
      using tail by (auto simp: mh_PeekTail_def Let_def split: if_splits)
    obtain k where "k \<in> {1, 2}" "\<not> ?c (?xs ! k) x" using ordered_bottom [OF swo ok j(1) 3] j(2) by blast
    moreover have "\<not> ?c it (?xs ! 1)" "\<not> ?c it (?xs ! 2)" using it le(1) by (auto split: if_splits)
    ultimately show ?thesis using le(2) by blast
  qed
qed

lemma mh_Add_ordered:
  assumes ord: "mh_ordered h" and add: "mh_Add h s (Some it) = (None, h', s')"
  shows "mh_ordered h'" and "mh_comparator h' = mh_comparator h"
proof -
  obtain h1 s1 where p: "mh_push h s it = (h1, s1)" by fastforce
  then have up: "mh_up (mh_comparator h) (pushed h s it) (length (mh_items h)) = (h1, s1)"
    by (simp add: mh_push_pushed)
  have "heap_ordered (mh_comparator h) (hs_items (mh_up (mh_comparator h) (pushed h s it) (length (mh_items h))))"
    by (rule mh_up_ordered) (use ord in \<open>simp_all add: mh_ordered_def\<close>)
  then have "heap_ordered (mh_comparator h) (mh_items h1)" by (simp add: up)
  moreover have "mh_comparator h1 = mh_comparator h"
    using swaps_fields(5) [OF mh_up_swaps [of "length (mh_items h)" "pushed h s it" "mh_comparator h"]] up
    by (simp add: pushed_def)
  ultimately show "mh_ordered h'" "mh_comparator h' = mh_comparator h"
    using add p ord by (auto simp: mh_Add_def mh_ordered_def)
qed

lemma okfrom_butlast: "okfrom cmp lv k xs \<Longrightarrow> okfrom cmp lv k (butlast xs)"
proof -
  assume ok: "okfrom cmp lv k xs"
  have "pair_ok cmp lv (butlast xs) a j" if "k \<le> a" "j \<in> descendants2 (length (butlast xs)) a" for a j
  proof -
    have "a < length (butlast xs)" "j < length (butlast xs)" "j \<in> descendants2 (length xs) a"
      using desc_less [OF that(2)] that(2) by (auto simp: descendants2_iff)
    with ok that(1) show ?thesis by (auto simp: okfrom_def pair_ok_def nth_butlast)
  qed
  then show ?thesis by (simp add: okfrom_def)
qed

abbreviation total_order_on :: "('a \<Rightarrow> 'a \<Rightarrow> bool) \<Rightarrow> 'a list \<Rightarrow> bool" where
  "total_order_on cmp xs \<equiv> \<forall>x\<in>set xs. \<forall>y\<in>set xs. x \<noteq> y \<longrightarrow> cmp x y \<or> cmp y x"

lemma no_ties_sub: "total_order_on cmp xs \<Longrightarrow> distinct ys \<Longrightarrow> set ys \<subseteq> set xs \<Longrightarrow> no_ties cmp ys"
  unfolding no_ties_def by blast

lemma okfrom_root_replaced:
  assumes ok: "heap_ordered cmp xs" and n: "length xs = Suc m"
  shows "okfrom cmp isMinLevel (Suc 0) (butlast (list_swap xs 0 m))"
proof -
  have "pair_ok cmp isMinLevel (butlast (list_swap xs 0 m)) a j"
    if "Suc 0 \<le> a" "j \<in> descendants2 m a" for a j
  proof -
    have aj: "0 < a" "a < j" "j < m" using that desc_less by auto
    have "j \<in> descendants2 (length xs) a" using that(2) n by (auto simp: descendants2_iff)
    then have "pair_ok cmp isMinLevel xs a j" using ok by (simp add: okfrom_def)
    with aj n show ?thesis by (simp add: pair_ok_def nth_butlast nth_list_swap split: if_splits)
  qed
  then show ?thesis using n by (simp add: okfrom_def)
qed

lemma mh_Remove_head_ordered:
  assumes inv: "mh_invar h s" and ord: "mh_ordered h"
    and tot: "total_order_on (mh_comparator h) (mh_items h)"
    and head: "mh_PeekHead h = Inr it" and hdl: "Handle s it = Some hdl"
    and rem: "mh_Remove h s (Some hdl) = (Inr it, h', s')"
  shows "mh_ordered h'" and "mh_comparator h' = mh_comparator h"
proof -
  let ?xs = "mh_items h" and ?c = "mh_comparator h"
  have ne: "?xs \<noteq> []" and it0: "it = ?xs ! 0" using head by (auto simp: mh_PeekHead_def split: if_splits)
  then have it: "it \<in> set ?xs" by simp
  note own = mh_invarD(1,2) [OF inv]
  have dist: "distinct ?xs" using mh_ownsD(3) [OF own(1)] by (simp add: distinct_map)
  show cmp': "mh_comparator h' = ?c" using mh_Remove_ok [OF inv it hdl] rem by auto
  obtain i h1 s1 where i: "i < length ?xs" "?xs ! i = it"
    and hs1: "(h1, s1) = (if i < length ?xs - 1 then mh_swap (h, s) i (length ?xs - 1) else (h, s))"
    and eq: "mh_Remove h s (Some hdl) =
       (let hs2 = (cut h1 (butlast (mh_items h1)) hdl (mh_byteSize h - itemByteSize it), s1);
            (h3, s3) = (if i < length ?xs - 1 then mh_down ?c hs2 i else hs2)
        in (Inr it, h3, Invalidate hdl s3))"
    by (rule mh_Remove_eq [OF own it hdl])
  have i0: "i = 0" using i it0 ne dist nth_eq_iff_index_eq [of ?xs i 0] by simp
  obtain m where m: "length ?xs = Suc m" using ne by (cases ?xs) auto
  have "heap_ordered ?c (mh_items h')"
  proof (cases m)
    case 0
    then have "mh_items h' = []" using rem eq hs1 m i0 by (cases ?xs) (auto simp: cut_def)
    then show ?thesis by (simp add: okfrom_def desc_par_gp)
  next
    case (Suc k)
    let ?hs2 = "(cut h1 (butlast (mh_items h1)) hdl (mh_byteSize h - itemByteSize it), s1)"
    have "h1 = fst (mh_swap (h, s) 0 m)"
      using hs1 i0 m Suc by (simp add: prod_eq_iff del: mh_swap.simps)
    then have x1: "mh_items h1 = list_swap ?xs 0 m" using hs_items_swap [of "(h, s)" 0 m] by simp
    have x2: "hs_items ?hs2 = butlast (list_swap ?xs 0 m)" by (simp add: cut_def x1)
    have "mset (list_swap ?xs 0 m) = mset ?xs" using m by (intro mset_list_swap) auto
    then have "distinct (list_swap ?xs 0 m)" "set (list_swap ?xs 0 m) = set ?xs"
      using dist by (metis mset_eq_imp_distinct_iff, metis set_mset_mset)
    then have "no_ties ?c (hs_items ?hs2)"
      unfolding x2 by (intro no_ties_sub [OF tot] distinct_butlast) (auto dest: in_set_butlastD)
    then have "heap_ordered ?c (hs_items (mh_down ?c ?hs2 0))"
      by (rule mh_down_ordered [rotated])
        (use ord m Suc okfrom_root_replaced [OF _ m] in \<open>simp_all add: x2 mh_ordered_def del: fst_conv\<close>)
    moreover have "h' = fst (mh_down ?c ?hs2 0)"
      using rem eq i0 m Suc by (cases "mh_down ?c ?hs2 0") simp
    ultimately show ?thesis by simp
  qed
  with ord cmp' show "mh_ordered h'" by (simp add: mh_ordered_def)
qed

lemma mh_Cleanup_ordered:
  assumes inv: "mh_invar h s" and ord: "mh_ordered h"
    and tot: "total_order_on (mh_comparator h) (mh_items h)"
    and cl: "mh_Cleanup h s P = (rs, h', s')"
  shows "mh_ordered h'" and "mh_comparator h' = mh_comparator h"
proof -
  let ?xs = "mh_items h" and ?c = "mh_comparator h"
  let ?ks = "filter (\<lambda>x. \<not> P x) ?xs"
  have dist: "distinct ?xs" using mh_ownsD(3) [OF mh_invarD(1) [OF inv]] by (simp add: distinct_map)
  show cmp': "mh_comparator h' = ?c" using mh_Cleanup_ok [OF inv, of P] cl by auto
  have "heap_ordered ?c (mh_items h')"
  proof (cases "filter P ?xs = []")
    case True
    then show ?thesis using cl ord by (auto simp: mh_Cleanup_def mh_cleanup_from_eq mh_ordered_def)
  next
    case False
    obtain h2 s2 where h2: "mh_items h2 = ?ks" and h': "h' = fst (mh_heapify ?c (h2, s2) (length ?ks div 2))"
    proof -
      let ?h2 = "h\<lparr>mh_handles := drop_handles s (filter P ?xs) (mh_handles h),
        mh_byteSize := mh_byteSize h - bytes (filter P ?xs), mh_items := ?ks\<rparr>"
      have "h' = fst (mh_heapify ?c (?h2, mh_reindex ?h2 0 ?ks (invalidate_all (filter P ?xs) s)) (length ?ks div 2))"
        using cl False by (auto simp: mh_Cleanup_def mh_cleanup_from_eq Let_def split: prod.splits)
      then show thesis by (rule that [rotated]) simp
    qed
    have "no_ties ?c ?ks" using dist by (intro no_ties_sub [OF tot]) auto
    then show ?thesis unfolding h'
      by (intro mh_heapify_ordered) (use ord okfrom_half [of ?c isMinLevel ?ks] in \<open>simp_all add: h2 mh_ordered_def\<close>)
  qed
  with ord cmp' show "mh_ordered h'" by (simp add: mh_ordered_def)
qed

interpretation mhp: priority_queue mh_invar mh_items mh_Len mh_ByteSize mh_PeekHead mh_PeekTail
  mh_Add mh_Remove mh_Cleanup mh_Drain mh_ordered mh_comparator
proof (unfold_locales, goal_cases)
  case (1 q it x) then show ?case by (rule mh_PeekHead_best)
next
  case (2 q it x) then show ?case by (rule mh_PeekTail_worst)
next
  case (3 q s it q' s') then show ?case using mh_Add_ordered by blast
next
  case (4 q s it h q' s') then show ?case using mh_Remove_head_ordered by blast
next
  case (5 q s P xs q' s') then show ?case using mh_Cleanup_ordered by blast
qed

end
