(* ===== verification/ListQueue.thy ===== *)
theory ListQueue
  imports QueueContract
begin

unbundle bit_operations_syntax

text \<open>
  \<^verbatim>\<open>framework/plugins/queue/listqueue/listqueue.go\<close>: the FIFO queue over \<open>container/list\<close>. The
  linked list is the list of its elements from front to back; every operation is the body of
  the Go method under its mutex. The theory ends with the interpretation of the queue
  contract and of its FIFO extension.
\<close>

section \<open>State and operations\<close>

record listQueue =
  lq_ptr :: nat
  requests :: "element list"
  lq_byteSize :: uint64

definition newListQueue :: "nat \<Rightarrow> listQueue" where
  "newListQueue p = \<lparr>lq_ptr = p, requests = [], lq_byteSize = 0\<rparr>"

definition lq_Add :: "listQueue \<Rightarrow> store \<Rightarrow> flowItem option \<Rightarrow> goError option \<times> listQueue \<times> store" where
  "lq_Add lq s item =
     (case item of
        None \<Rightarrow> (Some (Sentinel ErrNilQueueItem), lq, s)
      | Some it \<Rightarrow>
          let element = \<lparr>e_ptr = st_next s, e_Value = it\<rparr>;
              s1 = s\<lparr>st_next := Suc (st_next s)\<rparr>;
              lq1 = lq\<lparr>requests := requests lq @ [element],
                       lq_byteSize := lq_byteSize lq + itemByteSize it\<rparr>;
              (h, s2) = alloc (ListItemHandle
                 \<lparr>lh_element = element, lh_owner = lq_ptr lq, lh_isInvalidated = False\<rparr>) s1
          in (None, lq1, SetHandle it h s2))"

definition lq_Remove :: "listQueue \<Rightarrow> store \<Rightarrow> nat option \<Rightarrow> (goError + flowItem) \<times> listQueue \<times> store" where
  "lq_Remove lq s handle =
     (case handle of
        None \<Rightarrow> (Inl (Sentinel ErrInvalidQueueItemHandle), lq, s)
      | Some h \<Rightarrow>
          if IsInvalidated s h then (Inl (Sentinel ErrInvalidQueueItemHandle), lq, s)
          else case st_obj s h of
            Some (ListItemHandle lh) \<Rightarrow>
              if lh_owner lh \<noteq> lq_ptr lq then (Inl (Sentinel ErrQueueItemNotFound), lq, s)
              else let item = e_Value (lh_element lh) in
                (Inr item,
                 lq\<lparr>requests := remove1 (lh_element lh) (requests lq),
                    lq_byteSize := lq_byteSize lq + (NOT (itemByteSize item) + 1)\<rparr>,
                 Invalidate h s)
          | _ \<Rightarrow> (Inl (Sentinel ErrInvalidQueueItemHandle), lq, s))"

fun lq_cleanup_from ::
  "(flowItem \<Rightarrow> bool) \<Rightarrow> element list \<Rightarrow> listQueue \<Rightarrow> store \<Rightarrow> flowItem list \<Rightarrow>
   flowItem list \<times> listQueue \<times> store" where
  "lq_cleanup_from predicate [] lq s removedItems = (removedItems, lq, s)"
| "lq_cleanup_from predicate (e # next) lq s removedItems =
     (let item = e_Value e in
      if predicate item then
        lq_cleanup_from predicate next
          (lq\<lparr>requests := remove1 e (requests lq),
              lq_byteSize := lq_byteSize lq + (NOT (itemByteSize item) + 1)\<rparr>)
          (InvalidateItem item s) (removedItems @ [item])
      else lq_cleanup_from predicate next lq s removedItems)"

definition lq_Cleanup :: "listQueue \<Rightarrow> store \<Rightarrow> (flowItem \<Rightarrow> bool) \<Rightarrow> flowItem list \<times> listQueue \<times> store" where
  "lq_Cleanup lq s predicate = lq_cleanup_from predicate (requests lq) lq s []"

definition lq_Drain :: "listQueue \<Rightarrow> store \<Rightarrow> flowItem list \<times> listQueue \<times> store" where
  "lq_Drain lq s =
     (let removedItems = map e_Value (requests lq) in
      (removedItems, lq\<lparr>requests := [], lq_byteSize := 0\<rparr>, invalidate_all removedItems s))"

definition lq_Name :: "listQueue \<Rightarrow> string" where "lq_Name lq = ''ListQueue''"

definition lq_Capabilities :: "listQueue \<Rightarrow> QueueCapability list" where
  "lq_Capabilities lq = [CapabilityFIFO]"

definition lq_Len :: "listQueue \<Rightarrow> nat" where "lq_Len lq = length (requests lq)"

definition lq_ByteSize :: "listQueue \<Rightarrow> uint64" where "lq_ByteSize lq = lq_byteSize lq"

definition lq_PeekHead :: "listQueue \<Rightarrow> goError + flowItem" where
  "lq_PeekHead lq = (case requests lq of [] \<Rightarrow> Inl (Sentinel ErrQueueEmpty) | e # _ \<Rightarrow> Inr (e_Value e))"

definition lq_PeekTail :: "listQueue \<Rightarrow> goError + flowItem" where
  "lq_PeekTail lq =
     (if requests lq = [] then Inl (Sentinel ErrQueueEmpty) else Inr (e_Value (last (requests lq))))"

section \<open>Contents and invariant\<close>

definition lq_contents :: "listQueue \<Rightarrow> flowItem list" where
  "lq_contents lq = map e_Value (requests lq)"

text \<open>The handle of every queued item is a live handle of this queue that points at its element.\<close>

definition lq_handled :: "listQueue \<Rightarrow> store \<Rightarrow> element \<Rightarrow> bool" where
  "lq_handled lq s e \<longleftrightarrow>
     (\<exists>h. Handle s (e_Value e) = Some h \<and>
        st_obj s h = Some (ListItemHandle
          \<lparr>lh_element = e, lh_owner = lq_ptr lq, lh_isInvalidated = False\<rparr>))"

definition lq_invar :: "listQueue \<Rightarrow> store \<Rightarrow> bool" where
  "lq_invar lq s \<longleftrightarrow> store_ok s \<and> \<not> st_panicked s \<and> distinct (map fi_ptr (lq_contents lq)) \<and>
     lq_byteSize lq = bytes (lq_contents lq) \<and> (\<forall>e\<in>set (requests lq). lq_handled lq s e)"

lemma lq_invarI:
  "store_ok s \<Longrightarrow> \<not> st_panicked s \<Longrightarrow> distinct (map fi_ptr (lq_contents lq)) \<Longrightarrow>
   lq_byteSize lq = bytes (lq_contents lq) \<Longrightarrow> (\<And>e. e \<in> set (requests lq) \<Longrightarrow> lq_handled lq s e) \<Longrightarrow>
   lq_invar lq s"
  by (simp add: lq_invar_def)

lemma lq_invar_distinct: "lq_invar lq s \<Longrightarrow> distinct (requests lq)"
  by (auto simp: lq_invar_def lq_contents_def distinct_map)

lemma lq_handled_attached: "lq_handled lq s e \<Longrightarrow> \<exists>h. attached s (e_Value e) h"
  by (auto simp: lq_handled_def attached_def linked_def IsInvalidated_def)

lemma lq_handled_frame:
  assumes "lq_handled lq s e" "frame A s s'" "fi_ptr (e_Value e) \<notin> A" "lq_ptr lq' = lq_ptr lq"
  shows "lq_handled lq' s' e"
proof -
  from assms(1) obtain h where h: "Handle s (e_Value e) = Some h"
    "st_obj s h = Some (ListItemHandle
      \<lparr>lh_element = e, lh_owner = lq_ptr lq, lh_isInvalidated = False\<rparr>)"
    by (auto simp: lq_handled_def)
  from linked_frame [of s "e_Value e" h A s'] h assms(2,3) h assms(4) show ?thesis
    by (auto simp: lq_handled_def linked_def)
qed

lemma lq_invar_new: "store_ok s \<Longrightarrow> \<not> st_panicked s \<Longrightarrow> lq_invar (newListQueue p) s"
  by (simp add: lq_invar_def newListQueue_def lq_contents_def)

lemma lq_contents_new [simp]: "lq_contents (newListQueue p) = []"
  by (simp add: newListQueue_def lq_contents_def)

section \<open>Each operation against the contract\<close>

lemma lq_Add_ok:
  assumes inv: "lq_invar lq s" and new: "fi_ptr it \<notin> ptrs (lq_contents lq)"
  shows "\<exists>lq' s'. lq_Add lq s (Some it) = (None, lq', s') \<and> lq_invar lq' s' \<and>
    lq_contents lq' = lq_contents lq @ [it] \<and> frame {fi_ptr it} s s'"
proof -
  let ?e = "\<lparr>e_ptr = st_next s, e_Value = it\<rparr>"
  let ?s1 = "s\<lparr>st_next := Suc (st_next s)\<rparr>"
  let ?ob = "ListItemHandle \<lparr>lh_element = ?e, lh_owner = lq_ptr lq, lh_isInvalidated = False\<rparr>"
  let ?s2 = "snd (alloc ?ob ?s1)"
  let ?s3 = "SetHandle it (Suc (st_next s)) ?s2"
  let ?q = "lq\<lparr>requests := requests lq @ [?e], lq_byteSize := lq_byteSize lq + itemByteSize it\<rparr>"
  have eq: "lq_Add lq s (Some it) = (None, ?q, ?s3)"
    by (simp add: lq_Add_def alloc_def Let_def)
  have f1: "frame {fi_ptr it} s ?s1" using inv by (auto simp: frame_def store_ok_def lq_invar_def)
  then have "frame {fi_ptr it} s ?s2"
    using inv by (intro frame_trans [OF f1] frame_alloc) (auto simp: frameD(7) lq_invar_def)
  then have f3: "frame {fi_ptr it} s ?s3"
    by (rule frame_trans) (simp add: frame_SetHandle)
  have "lq_invar ?q ?s3"
  proof (rule lq_invarI)
    fix e assume e: "e \<in> set (requests ?q)"
    show "lq_handled ?q ?s3 e"
    proof (cases "e = ?e")
      case True
      then show ?thesis by (simp add: lq_handled_def Handle_def SetHandle_def alloc_def)
    next
      case False
      with e have e': "e \<in> set (requests lq)" by simp
      then have "fi_ptr (e_Value e) \<in> ptrs (lq_contents lq)" by (simp add: lq_contents_def ptrs_def)
      then have "fi_ptr (e_Value e) \<notin> {fi_ptr it}" using new by auto
      moreover have "lq_handled lq s e" using inv e' by (simp add: lq_invar_def)
      ultimately show ?thesis by (intro lq_handled_frame [OF _ f3]) simp_all
    qed
  next
    show "store_ok ?s3" "\<not> st_panicked ?s3"
      using inv frameD(6,7) [OF f3] by (simp_all add: lq_invar_def)
  qed (use inv new in \<open>auto simp: lq_invar_def lq_contents_def ptrs_def\<close>)
  with eq f3 show ?thesis by (auto simp: lq_contents_def)
qed

lemma lq_Remove_ok:
  assumes inv: "lq_invar lq s" and mem: "it \<in> set (lq_contents lq)" and hd: "Handle s it = Some h"
  shows "\<exists>lq' s'. lq_Remove lq s (Some h) = (Inr it, lq', s') \<and> lq_invar lq' s' \<and>
    lq_contents lq' = remove1 it (lq_contents lq) \<and> frame {fi_ptr it} s s' \<and> IsInvalidated s' h"
proof -
  from mem obtain e where e: "e \<in> set (requests lq)" "e_Value e = it" by (auto simp: lq_contents_def)
  let ?lh = "\<lparr>lh_element = e, lh_owner = lq_ptr lq, lh_isInvalidated = False\<rparr>"
  from e inv have "lq_handled lq s e" by (simp add: lq_invar_def)
  with e hd have ob: "st_obj s h = Some (ListItemHandle ?lh)" by (auto simp: lq_handled_def)
  let ?q = "lq\<lparr>requests := remove1 e (requests lq), lq_byteSize := lq_byteSize lq - itemByteSize it\<rparr>"
  have eq: "lq_Remove lq s (Some h) = (Inr it, ?q, Invalidate h s)"
    using e ob by (simp add: lq_Remove_def IsInvalidated_def Let_def)
  have f: "frame {fi_ptr it} s (Invalidate h s)"
    using ob e by (intro frame_Invalidate) auto
  have inj: "inj_on (fi_ptr \<circ> e_Value) (set (requests lq))"
    using inv by (simp add: lq_invar_def lq_contents_def distinct_map)
  have c: "lq_contents ?q = remove1 it (lq_contents lq)"
  proof -
    have "inj_on e_Value (set (requests lq))"
      using inj by (meson inj_on_imageI2)
    then have "map e_Value (remove1 e (requests lq)) = remove1 (e_Value e) (map e_Value (requests lq))"
      using e(1) by (rule map_remove1_inj)
    then show ?thesis using e(2) by (simp add: lq_contents_def)
  qed
  have "lq_invar ?q (Invalidate h s)"
  proof (rule lq_invarI)
    fix e' assume "e' \<in> set (requests ?q)"
    then have e': "e' \<in> set (requests lq)" "e' \<noteq> e"
      using lq_invar_distinct [OF inv] by auto
    then have "fi_ptr (e_Value e') \<notin> {fi_ptr it}" using inj e by (auto simp: inj_on_def)
    moreover have "lq_handled lq s e'" using inv e' by (simp add: lq_invar_def)
    ultimately show "lq_handled ?q (Invalidate h s) e'" by (intro lq_handled_frame [OF _ f]) simp_all
  next
    have "distinct (map fi_ptr (remove1 it (lq_contents lq)))"
      using inv by (auto simp: lq_invar_def distinct_map intro: inj_on_subset dest: set_mp [OF set_remove1_subset])
    then show "distinct (map fi_ptr (lq_contents ?q))" by (simp add: c)
    have "bytes (remove1 it (lq_contents lq)) = bytes (lq_contents lq) - itemByteSize it"
      by (rule bytes_remove [OF mem]) simp
    then show "lq_byteSize ?q = bytes (lq_contents ?q)"
      using inv by (subst c) (simp add: lq_invar_def)
  qed (use inv frameD(6,7) [OF f] in \<open>simp_all add: lq_invar_def\<close>)
  with eq c f ob show ?thesis by (auto simp: IsInvalidated_def Invalidate_def)
qed

text \<open>The cleanup loop, started at any suffix of the list.\<close>

lemma lq_cleanup_from_eq:
  assumes "requests lq = pre @ es" "distinct (requests lq)"
  shows "lq_cleanup_from P es lq s acc =
    (acc @ filter P (map e_Value es),
     lq\<lparr>requests := pre @ filter (\<lambda>e. \<not> P (e_Value e)) es,
        lq_byteSize := lq_byteSize lq - bytes (filter P (map e_Value es))\<rparr>,
     invalidate_all (filter P (map e_Value es)) s)"
  using assms
proof (induction es arbitrary: lq s acc pre)
  case (Cons e es)
  show ?case
  proof (cases "P (e_Value e)")
    case True
    let ?q = "lq\<lparr>requests := remove1 e (requests lq),
                 lq_byteSize := lq_byteSize lq - itemByteSize (e_Value e)\<rparr>"
    have "requests ?q = pre @ es" "distinct (requests ?q)"
      using Cons.prems by (auto simp: remove1_append)
    from Cons.IH [OF this] True show ?thesis
      by (simp add: Let_def diff_diff_eq)
  next
    case False
    have "requests lq = (pre @ [e]) @ es" using Cons.prems by simp
    from Cons.IH [OF this Cons.prems(2)] False show ?thesis by simp
  qed
qed (cases lq, simp)

lemma lq_Cleanup_eq:
  assumes "lq_invar lq s"
  shows "lq_Cleanup lq s P =
    (filter P (lq_contents lq),
     lq\<lparr>requests := filter (\<lambda>e. \<not> P (e_Value e)) (requests lq),
        lq_byteSize := lq_byteSize lq - bytes (filter P (lq_contents lq))\<rparr>,
     invalidate_all (filter P (lq_contents lq)) s)"
  using lq_cleanup_from_eq [of lq "[]" "requests lq" P s "[]"] lq_invar_distinct [OF assms]
  by (simp add: lq_Cleanup_def lq_contents_def)

lemma lq_linked: "lq_invar lq s \<Longrightarrow> it \<in> set (lq_contents lq) \<Longrightarrow> \<exists>h. attached s it h"
  using lq_handled_attached by (fastforce simp: lq_invar_def lq_contents_def)

lemma lq_frame_invalidate:
  assumes "lq_invar lq s" "set xs \<subseteq> set (lq_contents lq)"
  shows "frame (ptrs xs) s (invalidate_all xs s)"
  using lq_linked [OF assms(1)] assms(2) by (intro frame_invalidate_all) (auto simp: attached_def)

lemma lq_Cleanup_ok:
  assumes inv: "lq_invar lq s"
  shows "\<exists>lq' s'. lq_Cleanup lq s P = (filter P (lq_contents lq), lq', s') \<and> lq_invar lq' s' \<and>
    lq_contents lq' = filter (\<lambda>x. \<not> P x) (lq_contents lq) \<and>
    frame (ptrs (filter P (lq_contents lq))) s s' \<and>
    (\<forall>it\<in>set (filter P (lq_contents lq)). \<forall>h. Handle s it = Some h \<longrightarrow> IsInvalidated s' h)"
proof -
  let ?xs = "filter P (lq_contents lq)"
  let ?q = "lq\<lparr>requests := filter (\<lambda>e. \<not> P (e_Value e)) (requests lq),
               lq_byteSize := lq_byteSize lq - bytes ?xs\<rparr>"
  let ?s = "invalidate_all ?xs s"
  have f: "frame (ptrs ?xs) s ?s" by (rule lq_frame_invalidate [OF inv]) auto
  have c: "lq_contents ?q = filter (\<lambda>x. \<not> P x) (lq_contents lq)"
    by (simp add: lq_contents_def filter_map comp_def)
  have "lq_invar ?q ?s"
  proof (rule lq_invarI)
    fix e assume "e \<in> set (requests ?q)"
    then have e: "e \<in> set (requests lq)" "\<not> P (e_Value e)" by auto
    have "fi_ptr (e_Value e) \<notin> ptrs ?xs"
      using inv e by (force simp: ptrs_def lq_invar_def lq_contents_def distinct_map inj_on_def)
    moreover have "lq_handled lq s e" using inv e by (simp add: lq_invar_def)
    ultimately show "lq_handled ?q ?s e" by (intro lq_handled_frame [OF _ f]) simp_all
  next
    show "distinct (map fi_ptr (lq_contents ?q))"
      using inv unfolding c by (auto simp: lq_invar_def distinct_map intro: inj_on_subset)
    show "lq_byteSize ?q = bytes (lq_contents ?q)"
      using inv bytes_partition [of "lq_contents lq" P] unfolding c by (simp add: lq_invar_def)
  qed (use inv frameD(6,7) [OF f] in \<open>simp_all add: lq_invar_def\<close>)
  moreover have "IsInvalidated ?s h" if "it \<in> set ?xs" "Handle s it = Some h" for it h
    using that lq_linked [OF inv, of it] by (intro invalidate_all_invalid) (auto simp: attached_def linked_def)
  ultimately show ?thesis using lq_Cleanup_eq [OF inv, of P] c f by auto
qed

lemma lq_Drain_ok:
  assumes inv: "lq_invar lq s"
  shows "\<exists>lq' s'. lq_Drain lq s = (lq_contents lq, lq', s') \<and> lq_invar lq' s' \<and> lq_contents lq' = [] \<and>
    frame (ptrs (lq_contents lq)) s s' \<and>
    (\<forall>it\<in>set (lq_contents lq). \<forall>h. Handle s it = Some h \<longrightarrow> IsInvalidated s' h)"
proof -
  let ?xs = "lq_contents lq"
  let ?s = "invalidate_all ?xs s"
  have f: "frame (ptrs ?xs) s ?s" by (rule lq_frame_invalidate [OF inv]) auto
  have "lq_invar (lq\<lparr>requests := [], lq_byteSize := 0\<rparr>) ?s"
    using inv f by (auto simp: lq_invar_def lq_contents_def frameD(6,7))
  moreover have "IsInvalidated ?s h" if "it \<in> set ?xs" "Handle s it = Some h" for it h
    using that lq_linked [OF inv, of it] by (intro invalidate_all_invalid) (auto simp: attached_def linked_def)
  ultimately show ?thesis using f by (auto simp: lq_Drain_def Let_def lq_contents_def)
qed

lemma lq_Peek:
  "lq_PeekHead lq = (if lq_contents lq = [] then Inl (Sentinel ErrQueueEmpty) else Inr (hd (lq_contents lq)))"
  "lq_PeekTail lq = (if lq_contents lq = [] then Inl (Sentinel ErrQueueEmpty) else Inr (last (lq_contents lq)))"
  by (auto simp: lq_PeekHead_def lq_PeekTail_def lq_contents_def hd_map last_map split: list.split)

lemma lq_Remove_invalidated:
  "IsInvalidated s h \<Longrightarrow> lq_Remove lq s (Some h) = (Inl (Sentinel ErrInvalidQueueItemHandle), lq, s)"
  by (simp add: lq_Remove_def)

section \<open>The list queue is a FIFO queue\<close>

interpretation lq: safe_queue lq_invar lq_contents lq_Len lq_ByteSize lq_PeekHead lq_PeekTail
  lq_Add lq_Remove lq_Cleanup lq_Drain
proof (unfold_locales, goal_cases)
  case (1 q s) then show ?case by (simp add: lq_invar_def)
next
  case (2 q s it) then show ?case by (rule lq_linked)
next
  case (3 q s A s')
  show ?case
  proof (rule lq_invarI)
    fix e assume e: "e \<in> set (requests q)"
    then have "fi_ptr (e_Value e) \<in> ptrs (lq_contents q)" by (simp add: ptrs_def lq_contents_def)
    with 3(3) have "fi_ptr (e_Value e) \<notin> A" by blast
    moreover have "lq_handled q s e" using e 3(1) by (simp add: lq_invar_def)
    ultimately show "lq_handled q s' e" by (intro lq_handled_frame [OF _ 3(2)]) simp_all
  qed (use 3(1) frameD(6,7) [OF 3(2)] in \<open>simp_all add: lq_invar_def\<close>)
next
  case (4 q s f c) then show ?case
    by (simp add: lq_invar_def lq_handled_def Handle_def store_ok_def)
next
  case (5 q) then show ?case by (simp add: lq_Len_def lq_contents_def)
next
  case (6 q s) then show ?case by (simp add: lq_ByteSize_def lq_invar_def)
next
  case (12 q s it)
  then show ?case using lq_Add_ok [OF 12] by (fastforce intro: frame_mono)
next
  case (15 q s it h)
  then show ?case using lq_Remove_ok [OF 15] by (fastforce intro: frame_mono simp: ptrs_mem)
next
  case (16 q s P)
  have "ptrs (filter P (lq_contents q)) \<subseteq> ptrs (lq_contents q)" by (rule ptrs_subset) auto
  with lq_Cleanup_ok [OF 16, of P] show ?case by (fastforce intro: frame_mono)
next
  case (17 q s) then show ?case by (rule lq_Drain_ok)
qed (auto simp: lq_Peek lq_Add_def lq_Remove_def)

interpretation lqf: fifo_queue lq_invar lq_contents lq_Len lq_ByteSize lq_PeekHead lq_PeekTail
  lq_Add lq_Remove lq_Cleanup lq_Drain
proof (unfold_locales, goal_cases)
  case (3 q s it q' s')
  then show ?case by (auto simp: lq_Add_def Let_def lq_contents_def alloc_def)
next
  case (4 q s it h q' s')
  with lq_Remove_ok [OF 4(1-3)] show ?case by auto
next
  case (5 q s P xs q' s')
  with lq_Cleanup_ok [OF 5(1), of P] show ?case by auto
qed (auto simp: lq_Peek)

end
