(* ===== verification/ManagedQueue.thy ===== *)
theory ManagedQueue
  imports ListQueue HeapOrder
begin

text \<open>
  Item comparators, the registered queue implementations behind the \<open>SafeQueue\<close> interface
  (\<open>queue/factory.go\<close>), the FCFS intra-flow policy, and the statistics-keeping wrapper
  \<open>managedQueue\<close> of \<open>registry/managedqueue.go\<close>. The call a wrapper makes to its parent's
  reconciler is an output of the operation.
\<close>

section \<open>Comparators\<close>

record ItemComparator =
  ic_Func :: "flowItem option \<Rightarrow> flowItem option \<Rightarrow> bool"
  ic_ScoreType :: string

definition enqueueTimeComparator_Func :: "flowItem option \<Rightarrow> flowItem option \<Rightarrow> bool" where
  "enqueueTimeComparator_Func a b =
     (if a = None \<and> b = None then False
      else case a of
        None \<Rightarrow> False
      | Some x \<Rightarrow> (case b of None \<Rightarrow> True | Some y \<Rightarrow> EnqueueTime x < EnqueueTime y))"

definition enqueueTimeComparator :: ItemComparator where
  "enqueueTimeComparator = \<lparr>ic_Func = enqueueTimeComparator_Func, ic_ScoreType = ''enqueue_time_ns_asc''\<rparr>"

section \<open>The implementations of SafeQueue\<close>

datatype safeQueue = LQ listQueue | HQ maxMinHeap

fun sq_Name :: "safeQueue \<Rightarrow> string" where
  "sq_Name (LQ q) = lq_Name q" | "sq_Name (HQ q) = mh_Name q"

fun sq_Capabilities :: "safeQueue \<Rightarrow> QueueCapability list" where
  "sq_Capabilities (LQ q) = lq_Capabilities q" | "sq_Capabilities (HQ q) = mh_Capabilities q"

fun sq_Len :: "safeQueue \<Rightarrow> nat" where
  "sq_Len (LQ q) = lq_Len q" | "sq_Len (HQ q) = mh_Len q"

fun sq_ByteSize :: "safeQueue \<Rightarrow> uint64" where
  "sq_ByteSize (LQ q) = lq_ByteSize q" | "sq_ByteSize (HQ q) = mh_ByteSize q"

fun sq_PeekHead :: "safeQueue \<Rightarrow> goError + flowItem" where
  "sq_PeekHead (LQ q) = lq_PeekHead q" | "sq_PeekHead (HQ q) = mh_PeekHead q"

fun sq_PeekTail :: "safeQueue \<Rightarrow> goError + flowItem" where
  "sq_PeekTail (LQ q) = lq_PeekTail q" | "sq_PeekTail (HQ q) = mh_PeekTail q"

definition with_queue :: "('q \<Rightarrow> safeQueue) \<Rightarrow> 'r \<times> 'q \<times> store \<Rightarrow> 'r \<times> safeQueue \<times> store" where
  "with_queue C = (\<lambda>(r, q, s). (r, C q, s))"

fun sq_Add :: "safeQueue \<Rightarrow> store \<Rightarrow> flowItem option \<Rightarrow> goError option \<times> safeQueue \<times> store" where
  "sq_Add (LQ q) s it = with_queue LQ (lq_Add q s it)"
| "sq_Add (HQ q) s it = with_queue HQ (mh_Add q s it)"

fun sq_Remove :: "safeQueue \<Rightarrow> store \<Rightarrow> nat option \<Rightarrow> (goError + flowItem) \<times> safeQueue \<times> store" where
  "sq_Remove (LQ q) s h = with_queue LQ (lq_Remove q s h)"
| "sq_Remove (HQ q) s h = with_queue HQ (mh_Remove q s h)"

fun sq_Cleanup :: "safeQueue \<Rightarrow> store \<Rightarrow> (flowItem \<Rightarrow> bool) \<Rightarrow> flowItem list \<times> safeQueue \<times> store" where
  "sq_Cleanup (LQ q) s P = with_queue LQ (lq_Cleanup q s P)"
| "sq_Cleanup (HQ q) s P = with_queue HQ (mh_Cleanup q s P)"

fun sq_Drain :: "safeQueue \<Rightarrow> store \<Rightarrow> flowItem list \<times> safeQueue \<times> store" where
  "sq_Drain (LQ q) s = with_queue LQ (lq_Drain q s)"
| "sq_Drain (HQ q) s = with_queue HQ (mh_Drain q s)"

fun sq_contents :: "safeQueue \<Rightarrow> flowItem list" where
  "sq_contents (LQ q) = lq_contents q" | "sq_contents (HQ q) = mh_items q"

fun sq_invar :: "safeQueue \<Rightarrow> store \<Rightarrow> bool" where
  "sq_invar (LQ q) s = lq_invar q s" | "sq_invar (HQ q) s = mh_invar q s"

lemmas lq_laws = lq.distinct_ptrs lq.invar_attached lq.invar_frame lq.invar_final lq.Len lq.ByteSize
  lq.PeekHead_empty lq.PeekHead_mem lq.PeekTail_empty lq.PeekTail_mem lq.Add_nil lq.Add_ok
  lq.Remove_nil lq.Remove_invalidated lq.Remove_ok lq.Cleanup_ok lq.Drain_ok

lemmas mh_laws = mh.distinct_ptrs mh.invar_attached mh.invar_frame mh.invar_final mh.Len mh.ByteSize
  mh.PeekHead_empty mh.PeekHead_mem mh.PeekTail_empty mh.PeekTail_mem mh.Add_nil mh.Add_ok
  mh.Remove_nil mh.Remove_invalidated mh.Remove_ok mh.Cleanup_ok mh.Drain_ok

lemma with_queue_ex:
  "(\<exists>q' s'. with_queue C r = (x, q', s') \<and> P q' s') \<longleftrightarrow> (\<exists>q' s'. r = (x, q', s') \<and> P (C q') s')"
  by (cases r) (auto simp: with_queue_def)

interpretation sq: safe_queue sq_invar sq_contents sq_Len sq_ByteSize sq_PeekHead sq_PeekTail
  sq_Add sq_Remove sq_Cleanup sq_Drain
proof (unfold_locales, goal_cases)
  case (1 q s) then show ?case by (cases q) (simp_all add: lq_laws(1) mh_laws(1))
next
  case (2 q s it) then show ?case by (cases q) (simp_all add: lq_laws(2) mh_laws(2))
next
  case (3 q s A s') then show ?case by (cases q) (auto intro: lq_laws(3) mh_laws(3))
next
  case (4 q s f c) then show ?case by (cases q) (simp_all add: lq_laws(4) mh_laws(4))
next
  case (5 q) then show ?case by (cases q) (simp_all add: lq_laws(5) mh_laws(5))
next
  case (6 q s) then show ?case by (cases q) (simp_all add: lq_laws(6) mh_laws(6))
next
  case (7 q) then show ?case by (cases q) (simp_all add: lq_laws(7) mh_laws(7))
next
  case (8 q) then show ?case by (cases q) (simp_all add: lq_laws(8) mh_laws(8))
next
  case (9 q) then show ?case by (cases q) (simp_all add: lq_laws(9) mh_laws(9))
next
  case (10 q) then show ?case by (cases q) (simp_all add: lq_laws(10) mh_laws(10))
next
  case (11 q s) then show ?case by (cases q) (simp_all add: lq_laws(11) mh_laws(11) with_queue_def)
next
  case (12 q s it) then show ?case by (cases q) (simp_all add: lq_laws(12) mh_laws(12) with_queue_ex)
next
  case (13 q s) then show ?case by (cases q) (simp_all add: lq_laws(13) mh_laws(13) with_queue_def)
next
  case (14 s h q) then show ?case by (cases q) (simp_all add: lq_laws(14) mh_laws(14) with_queue_def)
next
  case (15 q s it h) then show ?case by (cases q) (simp_all add: lq_laws(15) mh_laws(15) with_queue_ex)
next
  case (16 q s P)
  then show ?case using lq_laws(16) [of _ s P] mh_laws(16) [of _ s P] by (cases q) (simp_all add: with_queue_ex)
next
  case (17 q s)
  then show ?case using lq_laws(17) [of _ s] mh_laws(17) [of _ s] by (cases q) (simp_all add: with_queue_ex)
qed

section \<open>The queue factory\<close>

type_synonym queueConstructor = "ItemComparator option \<Rightarrow> nat \<Rightarrow> goError + safeQueue"

text \<open>A registration under a name that is taken panics (\<open>None\<close>).\<close>

definition MustRegisterQueue ::
  "string \<Rightarrow> queueConstructor \<Rightarrow> (string \<rightharpoonup> queueConstructor) \<Rightarrow> (string \<rightharpoonup> queueConstructor) option" where
  "MustRegisterQueue name constructor registered =
     (case registered name of Some c \<Rightarrow> None | None \<Rightarrow> Some (registered(name \<mapsto> constructor)))"

definition listQueueConstructor :: queueConstructor where
  "listQueueConstructor comparator p = Inr (LQ (newListQueue p))"

text \<open>A heap made with a nil comparator has no order: comparing through it panics.\<close>

definition maxMinHeapConstructor :: queueConstructor where
  "maxMinHeapConstructor comparator p =
     Inr (HQ (newMaxMinHeap (case comparator of
       None \<Rightarrow> (\<lambda>a b. undefined)
     | Some c \<Rightarrow> (\<lambda>a b. ic_Func c (Some a) (Some b)))))"

text \<open>The two \<open>init\<close> functions.\<close>

definition RegisteredQueues :: "string \<rightharpoonup> queueConstructor" where
  "RegisteredQueues = [''ListQueue'' \<mapsto> listQueueConstructor, ''MaxMinHeap'' \<mapsto> maxMinHeapConstructor]"

lemma RegisteredQueues_init:
  "Option.bind (MustRegisterQueue ''ListQueue'' listQueueConstructor Map.empty)
     (MustRegisterQueue ''MaxMinHeap'' maxMinHeapConstructor) = Some RegisteredQueues"
  by (simp add: MustRegisterQueue_def RegisteredQueues_def)

definition NewQueueFromName :: "string \<Rightarrow> ItemComparator option \<Rightarrow> nat \<Rightarrow> goError + safeQueue" where
  "NewQueueFromName name comparator p =
     (case RegisteredQueues name of
        None \<Rightarrow> Inl (Errorf ''no framework.SafeQueue registered with name'' [])
      | Some constructor \<Rightarrow> constructor comparator p)"

section \<open>The FCFS policy\<close>

datatype IntraFlowDispatchPolicy = Fcfs

fun intra_Name :: "IntraFlowDispatchPolicy \<Rightarrow> string" where "intra_Name Fcfs = ''FCFS''"

fun intra_Comparator :: "IntraFlowDispatchPolicy \<Rightarrow> ItemComparator" where
  "intra_Comparator Fcfs = enqueueTimeComparator"

fun intra_RequiredQueueCapabilities :: "IntraFlowDispatchPolicy \<Rightarrow> QueueCapability list" where
  "intra_RequiredQueueCapabilities Fcfs = [CapabilityFIFO]"

definition intra_NewPolicyFromName :: "string \<Rightarrow> goError + IntraFlowDispatchPolicy" where
  "intra_NewPolicyFromName name =
     (if name = ''FCFS'' then Inr Fcfs
      else Inl (Errorf ''no IntraFlowDispatchPolicy registered with name'' []))"

section \<open>The managed queue\<close>

record managedQueue =
  mq_queue :: safeQueue
  mq_dispatchPolicy :: IntraFlowDispatchPolicy
  mq_flowKey :: FlowKey
  mq_byteSize :: uint64
  mq_len :: uint64

type_synonym reconcileCall = "(int64 \<times> int64) option"

definition newManagedQueue :: "safeQueue \<Rightarrow> IntraFlowDispatchPolicy \<Rightarrow> FlowKey \<Rightarrow> managedQueue" where
  "newManagedQueue queue policy key =
     \<lparr>mq_queue = queue, mq_dispatchPolicy = policy, mq_flowKey = key, mq_byteSize = 0, mq_len = 0\<rparr>"

definition mq_reconcileStats :: "int64 \<Rightarrow> int64 \<Rightarrow> managedQueue \<Rightarrow> managedQueue \<times> reconcileCall" where
  "mq_reconcileStats lenDelta byteSizeDelta mq =
     (mq\<lparr>mq_len := mq_len mq + lenDelta, mq_byteSize := mq_byteSize mq + byteSizeDelta\<rparr>,
      Some (lenDelta, byteSizeDelta))"

definition mq_Add ::
  "managedQueue \<Rightarrow> store \<Rightarrow> flowItem \<Rightarrow> goError option \<times> managedQueue \<times> store \<times> reconcileCall" where
  "mq_Add mq s item =
     (case sq_Add (mq_queue mq) s (Some item) of
        (Some err, q, s1) \<Rightarrow> (Some err, mq\<lparr>mq_queue := q\<rparr>, s1, None)
      | (None, q, s1) \<Rightarrow>
          let (mq1, call) = mq_reconcileStats 1 (itemByteSize item) (mq\<lparr>mq_queue := q\<rparr>)
          in (None, mq1, s1, call))"

definition mq_Remove ::
  "managedQueue \<Rightarrow> store \<Rightarrow> nat option \<Rightarrow> (goError + flowItem) \<times> managedQueue \<times> store \<times> reconcileCall" where
  "mq_Remove mq s handle =
     (case sq_Remove (mq_queue mq) s handle of
        (Inl err, q, s1) \<Rightarrow> (Inl err, mq\<lparr>mq_queue := q\<rparr>, s1, None)
      | (Inr removedItem, q, s1) \<Rightarrow>
          let (mq1, call) = mq_reconcileStats (- 1) (- itemByteSize removedItem) (mq\<lparr>mq_queue := q\<rparr>)
          in (Inr removedItem, mq1, s1, call))"

text \<open>The loop that adds up the deltas of the removed items.\<close>

definition removal_deltas :: "flowItem list \<Rightarrow> int64 \<times> int64" where
  "removal_deltas items = fold (\<lambda>item (l, b). (l - 1, b - itemByteSize item)) items (0, 0)"

definition mq_Cleanup ::
  "managedQueue \<Rightarrow> store \<Rightarrow> (flowItem \<Rightarrow> bool) \<Rightarrow> flowItem list \<times> managedQueue \<times> store \<times> reconcileCall" where
  "mq_Cleanup mq s predicate =
     (case sq_Cleanup (mq_queue mq) s predicate of
        (cleanedItems, q, s1) \<Rightarrow>
          if cleanedItems = [] then (cleanedItems, mq\<lparr>mq_queue := q\<rparr>, s1, None)
          else let (lenDelta, byteSizeDelta) = removal_deltas cleanedItems;
                   (mq1, call) = mq_reconcileStats lenDelta byteSizeDelta (mq\<lparr>mq_queue := q\<rparr>)
               in (cleanedItems, mq1, s1, call))"

definition mq_Drain :: "managedQueue \<Rightarrow> store \<Rightarrow> flowItem list \<times> managedQueue \<times> store \<times> reconcileCall" where
  "mq_Drain mq s =
     (case sq_Drain (mq_queue mq) s of
        (drainedItems, q, s1) \<Rightarrow>
          if drainedItems = [] then (drainedItems, mq\<lparr>mq_queue := q\<rparr>, s1, None)
          else let (lenDelta, byteSizeDelta) = removal_deltas drainedItems;
                   (mq1, call) = mq_reconcileStats lenDelta byteSizeDelta (mq\<lparr>mq_queue := q\<rparr>)
               in (drainedItems, mq1, s1, call))"

definition mq_Name :: "managedQueue \<Rightarrow> string" where "mq_Name mq = sq_Name (mq_queue mq)"

definition mq_Capabilities :: "managedQueue \<Rightarrow> QueueCapability list" where
  "mq_Capabilities mq = sq_Capabilities (mq_queue mq)"

definition mq_Len :: "managedQueue \<Rightarrow> int" where "mq_Len mq = sint (mq_len mq)"

definition mq_ByteSize :: "managedQueue \<Rightarrow> uint64" where "mq_ByteSize mq = mq_byteSize mq"

definition mq_PeekHead :: "managedQueue \<Rightarrow> goError + flowItem" where
  "mq_PeekHead mq = sq_PeekHead (mq_queue mq)"

definition mq_PeekTail :: "managedQueue \<Rightarrow> goError + flowItem" where
  "mq_PeekTail mq = sq_PeekTail (mq_queue mq)"

definition mq_Comparator :: "managedQueue \<Rightarrow> ItemComparator" where
  "mq_Comparator mq = intra_Comparator (mq_dispatchPolicy mq)"

text \<open>\<open>SelectItem\<close> of the FCFS policy, on the queue accessor (\<open>None\<close> is the nil accessor).\<close>

fun intra_SelectItem :: "IntraFlowDispatchPolicy \<Rightarrow> managedQueue option \<Rightarrow> goError + flowItem option" where
  "intra_SelectItem Fcfs None = Inr None"
| "intra_SelectItem Fcfs (Some queue) =
     (case mq_PeekHead queue of
        Inl err \<Rightarrow> if errors_Is err ErrQueueEmpty then Inr None else Inl err
      | Inr item \<Rightarrow> Inr (Some item))"

section \<open>The statistics are those of the contents\<close>

definition mq_contents :: "managedQueue \<Rightarrow> flowItem list" where
  "mq_contents mq = sq_contents (mq_queue mq)"

definition mq_invar :: "managedQueue \<Rightarrow> store \<Rightarrow> bool" where
  "mq_invar mq s \<longleftrightarrow> sq_invar (mq_queue mq) s \<and> mq_len mq = of_nat (length (mq_contents mq)) \<and>
     mq_byteSize mq = bytes (mq_contents mq)"

lemma mq_invarD:
  assumes "mq_invar mq s"
  shows "sq_invar (mq_queue mq) s" "mq_len mq = of_nat (length (mq_contents mq))"
    "mq_byteSize mq = bytes (mq_contents mq)"
  using assms by (simp_all add: mq_invar_def)

lemma removal_deltas_eq: "removal_deltas xs = (- of_nat (length xs), - bytes xs)"
proof -
  have "fold (\<lambda>item (l, b). (l - 1, b - itemByteSize item)) xs (l, b) = (l - of_nat (length xs), b - bytes xs)" for l b :: int64
    by (induction xs arbitrary: l b) (simp_all add: diff_diff_eq)
  from this [of 0 0] show ?thesis by (simp add: removal_deltas_def)
qed

lemma mq_Add_ok:
  assumes inv: "mq_invar mq s" and new: "fi_ptr it \<notin> ptrs (mq_contents mq)"
  shows "\<exists>mq' s'. mq_Add mq s it = (None, mq', s', Some (1, itemByteSize it)) \<and> mq_invar mq' s' \<and>
    mset (mq_contents mq') = add_mset it (mset (mq_contents mq)) \<and> mq_flowKey mq' = mq_flowKey mq \<and>
    mq_dispatchPolicy mq' = mq_dispatchPolicy mq \<and>
    frame (insert (fi_ptr it) (ptrs (mq_contents mq))) s s'"
proof -
  obtain q s' where r: "sq_Add (mq_queue mq) s (Some it) = (None, q, s')" "sq_invar q s'"
      "mset (sq_contents q) = add_mset it (mset (mq_contents mq))"
      "frame (insert (fi_ptr it) (ptrs (mq_contents mq))) s s'"
    using sq.Add_ok [OF mq_invarD(1) [OF inv], of it] new unfolding mq_contents_def by blast
  have "length (sq_contents q) = Suc (length (mq_contents mq))" using r(3) by (metis size_add_mset size_mset)
  moreover have "bytes (sq_contents q) = itemByteSize it + bytes (mq_contents mq)"
    using bytes_mset [of "sq_contents q" "it # mq_contents mq"] r(3) by simp
  ultimately show ?thesis
    using r mq_invarD(2,3) [OF inv]
    by (simp add: mq_Add_def mq_reconcileStats_def mq_invar_def mq_contents_def add.commute)
qed

lemma mq_Remove_ok:
  assumes inv: "mq_invar mq s" and it: "it \<in> set (mq_contents mq)" and h: "Handle s it = Some h"
  shows "\<exists>mq' s'. mq_Remove mq s (Some h) = (Inr it, mq', s', Some (- 1, - itemByteSize it)) \<and>
    mq_invar mq' s' \<and> mset (mq_contents mq') = mset (mq_contents mq) - {#it#} \<and>
    mq_flowKey mq' = mq_flowKey mq \<and> mq_dispatchPolicy mq' = mq_dispatchPolicy mq \<and>
    frame (ptrs (mq_contents mq)) s s' \<and> IsInvalidated s' h"
proof -
  obtain q s' where r: "sq_Remove (mq_queue mq) s (Some h) = (Inr it, q, s')" "sq_invar q s'"
      "mset (sq_contents q) = mset (mq_contents mq) - {#it#}" "frame (ptrs (mq_contents mq)) s s'" "IsInvalidated s' h"
    using sq.Remove_ok [OF mq_invarD(1) [OF inv], of it h] it h unfolding mq_contents_def by blast
  have "Suc (length (sq_contents q)) = length (mq_contents mq)" using it r(3) by (rule length_mset_remove)
  then have l: "(of_nat (length (mq_contents mq)) :: uint64) - 1 = of_nat (length (sq_contents q))"
    by (metis add_diff_cancel_left' of_nat_Suc)
  have "bytes (sq_contents q) = bytes (mq_contents mq) - itemByteSize it" using it r(3) by (rule bytes_remove)
  with l show ?thesis
    using r mq_invarD(2,3) [OF inv]
    by (simp add: mq_Remove_def mq_reconcileStats_def mq_invar_def mq_contents_def)
qed

lemma mq_Remove_invalidated:
  "IsInvalidated s h \<Longrightarrow> mq_Remove mq s (Some h) = (Inl (Sentinel ErrInvalidQueueItemHandle), mq, s, None)"
  using sq.Remove_invalidated [of s h "mq_queue mq"] by (simp add: mq_Remove_def)

text \<open>The reconciliation of a bulk removal; there is no call when nothing was removed.\<close>

definition removal_call :: "flowItem list \<Rightarrow> reconcileCall" where
  "removal_call xs = (if xs = [] then None else Some (- of_nat (length xs), - bytes xs))"

lemma mq_Cleanup_ok:
  fixes P :: "flowItem \<Rightarrow> bool"
  assumes inv: "mq_invar mq s"
  defines "rs \<equiv> filter P (mq_contents mq)"
  shows "\<exists>mq' s'. mq_Cleanup mq s P = (rs, mq', s', removal_call rs) \<and> mq_invar mq' s' \<and>
    mset (mq_contents mq') = mset (filter (\<lambda>x. \<not> P x) (mq_contents mq)) \<and> mq_flowKey mq' = mq_flowKey mq \<and>
    mq_dispatchPolicy mq' = mq_dispatchPolicy mq \<and> frame (ptrs (mq_contents mq)) s s'"
proof -
  let ?ks = "filter (\<lambda>x. \<not> P x) (mq_contents mq)"
  obtain q s' where r: "sq_Cleanup (mq_queue mq) s P = (rs, q, s')" "sq_invar q s'"
      "mset (sq_contents q) = mset ?ks" "frame (ptrs (mq_contents mq)) s s'"
    using sq.Cleanup_ok [OF mq_invarD(1) [OF inv], of P] unfolding mq_contents_def rs_def by blast
  have "length (mq_contents mq) = length rs + length ?ks"
    unfolding rs_def using sum_length_filter_compl [of P "mq_contents mq"] by simp
  then have "(of_nat (length (mq_contents mq)) :: uint64) - of_nat (length rs) = of_nat (length (sq_contents q))"
    using r(3) by (metis add_diff_cancel_left' of_nat_add size_mset)
  moreover have "bytes (mq_contents mq) - bytes rs = bytes (sq_contents q)"
    using bytes_partition [of "mq_contents mq" P] bytes_mset [OF r(3)] by (simp add: rs_def)
  ultimately show ?thesis
    using r mq_invarD(2,3) [OF inv]
    by (cases "rs = []") (simp_all add: mq_Cleanup_def mq_reconcileStats_def removal_deltas_eq removal_call_def
        mq_invar_def mq_contents_def)
qed

lemma mq_Drain_ok:
  assumes inv: "mq_invar mq s"
  shows "\<exists>mq' s'. mq_Drain mq s = (mq_contents mq, mq', s', removal_call (mq_contents mq)) \<and> mq_invar mq' s' \<and>
    mq_contents mq' = [] \<and> mq_flowKey mq' = mq_flowKey mq \<and> mq_dispatchPolicy mq' = mq_dispatchPolicy mq \<and>
    frame (ptrs (mq_contents mq)) s s'"
proof -
  obtain q s' where r: "sq_Drain (mq_queue mq) s = (mq_contents mq, q, s')" "sq_invar q s'"
      "sq_contents q = []" "frame (ptrs (mq_contents mq)) s s'"
    using sq.Drain_ok [OF mq_invarD(1) [OF inv]] unfolding mq_contents_def by blast
  then show ?thesis
    using mq_invarD(2,3) [OF inv]
    by (cases "mq_contents mq = []") (simp_all add: mq_Drain_def mq_reconcileStats_def removal_deltas_eq
        removal_call_def mq_invar_def mq_contents_def)
qed

lemma mq_invar_frame:
  "mq_invar mq s \<Longrightarrow> frame A s s' \<Longrightarrow> A \<inter> ptrs (mq_contents mq) = {} \<Longrightarrow> mq_invar mq s'"
  unfolding mq_invar_def mq_contents_def using sq.invar_frame by blast

lemma mq_invar_final: "mq_invar mq s \<Longrightarrow> mq_invar mq (s\<lparr>st_final := f, st_ctxErr := c\<rparr>)"
  unfolding mq_invar_def using sq.invar_final by blast

lemma mq_PeekHead_cases:
  "mq_PeekHead mq = Inl (Sentinel ErrQueueEmpty) \<and> mq_contents mq = [] \<or>
   (\<exists>it\<in>set (mq_contents mq). mq_PeekHead mq = Inr it)"
  unfolding mq_PeekHead_def mq_contents_def using sq.PeekHead_empty sq.PeekHead_mem by blast

text \<open>The length a client reads is exact as long as the queue has fewer than $2^{63}$ items.\<close>

lemma mq_Len_exact:
  assumes "mq_invar mq s" "length (mq_contents mq) < 2 ^ 63"
  shows "mq_Len mq = int (length (mq_contents mq))"
proof -
  have "sint (of_nat (length (mq_contents mq)) :: uint64) = signed_take_bit 63 (int (length (mq_contents mq)))"
    by (simp add: signed_of_nat)
  also have "\<dots> = int (length (mq_contents mq))"
    using assms(2) by (intro signed_take_bit_int_eq_self) auto
  finally show ?thesis using mq_invarD(2) [OF assms(1)] by (simp add: mq_Len_def)
qed

end
