(* ===== verification/QueueServing.thy ===== *)
theory QueueServing
  imports HeapOrder ManagedQueue
begin

text \<open>
  What a client sees of a queue over a whole run: items are added one after the other and served
  from the head. The runs are analysed once for each contract; the theorems are their instances
  on the two queues of the program.
\<close>

fun add_all ::
  "('q \<Rightarrow> store \<Rightarrow> flowItem option \<Rightarrow> goError option \<times> 'q \<times> store) \<Rightarrow> flowItem list \<Rightarrow> 'q \<Rightarrow> store \<Rightarrow> 'q \<times> store" where
  "add_all add [] q s = (q, s)"
| "add_all add (it # its) q s = (case add q s (Some it) of (_, q', s') \<Rightarrow> add_all add its q' s')"

context safe_queue
begin

lemma add_all_ok:
  assumes "invar q s" "distinct (map fi_ptr its)" "ptrs its \<inter> ptrs (contents q) = {}" "add_all Add its q s = (q', s')"
  shows "invar q' s' \<and> mset (contents q') = mset (contents q) + mset its"
  using assms
proof (induction its arbitrary: q s)
  case (Cons it its)
  obtain q1 s1 where 1: "Add q s (Some it) = (None, q1, s1)" "invar q1 s1" "mset (contents q1) = add_mset it (mset (contents q))"
    using Add_ok [OF Cons.prems(1), of it] Cons.prems(3) by auto
  have "mset (contents q1) = mset (it # contents q)" using 1(3) by simp
  note p = ptrs_mset [OF this]
  have n: "fi_ptr it \<notin> ptrs its" using Cons.prems by (simp add: ptrs_def)
  have "invar q' s' \<and> mset (contents q') = mset (contents q1) + mset its"
    by (rule Cons.IH [OF 1(2)]) (use Cons.prems 1(1) in \<open>auto simp: p n\<close>)
  then show ?case by (simp add: 1(3))
qed simp

end

context fifo_queue
begin

lemma add_all_order:
  assumes "invar q s" "distinct (map fi_ptr its)" "ptrs its \<inter> ptrs (contents q) = {}" "add_all Add its q s = (q', s')"
  shows "contents q' = contents q @ its"
  using assms
proof (induction its arbitrary: q s)
  case (Cons it its)
  obtain q1 s1 where 1: "Add q s (Some it) = (None, q1, s1)" "invar q1 s1"
    using Add_ok [OF Cons.prems(1), of it] Cons.prems(3) by auto
  note c = Add_order [OF 1(1)]
  have n: "fi_ptr it \<notin> ptrs its" using Cons.prems by (simp add: ptrs_def)
  have "contents q' = contents q1 @ its"
    by (rule Cons.IH [OF 1(2)]) (use Cons.prems 1(1) in \<open>auto simp: c n\<close>)
  then show ?case by (simp add: c)
qed simp

end

context priority_queue
begin

lemma add_all_ordered:
  assumes "invar q s" "ordered q" "distinct (map fi_ptr its)" "ptrs its \<inter> ptrs (contents q) = {}" "add_all Add its q s = (q', s')"
  shows "ordered q' \<and> before q' = before q"
  using assms
proof (induction its arbitrary: q s)
  case (Cons it its)
  obtain q1 s1 where 1: "Add q s (Some it) = (None, q1, s1)" "invar q1 s1" "mset (contents q1) = add_mset it (mset (contents q))"
    using Add_ok [OF Cons.prems(1), of it] Cons.prems(4) by auto
  have "mset (contents q1) = mset (it # contents q)" using 1(3) by simp
  note p = ptrs_mset [OF this]
  note o = Add_ordered [OF Cons.prems(2) 1(1)]
  have n: "fi_ptr it \<notin> ptrs its" using Cons.prems by (simp add: ptrs_def)
  have "ordered q' \<and> before q' = before q1"
    by (rule Cons.IH [OF 1(2)]) (use Cons.prems 1(1) o in \<open>auto simp: p n\<close>)
  then show ?case using o by simp
qed simp

end

lemma sorted_wrt_strict:
  "sorted_wrt (\<lambda>a b. \<not> cmp b a) xs \<Longrightarrow> distinct xs \<Longrightarrow> \<forall>x\<in>set xs. \<forall>y\<in>set xs. x \<noteq> y \<longrightarrow> cmp x y \<or> cmp y x \<Longrightarrow>
   sorted_wrt cmp xs"
  by (induction xs) auto

text \<open>
  A list queue is first in, first out: if items with distinct identities are added to a new
  list queue, then serving $n$ times from the head returns the first $n$ of them in the order in
  which they were added, and the rest stays queued in that order.
\<close>

lemma listQueue_fifo:
  assumes "store_ok s" "\<not> st_panicked s" "distinct (map fi_ptr its)" "add_all lq_Add its (newListQueue p) s = (q, s1)"
  shows "\<exists>q' s'. serve lq_PeekHead lq_Remove n q s1 = (take n its, q', s') \<and> lq_contents q' = drop n its"
proof -
  note new = lq_invar_new [OF assms(1,2), of p]
  have "lq_contents q = its" using lqf.add_all_order [OF new assms(3) _ assms(4)] by simp
  moreover have "lq_invar q s1" using lq.add_all_ok [OF new assms(3) _ assms(4)] by simp
  ultimately show ?thesis using lqf.serve_in_order [of q s1 n] by auto
qed

text \<open>
  C22. The max-min heap sorts: if items with distinct identities, no two of them tied, are added to a
  new heap in any order, then serving it empty from the head returns all of them, each once, in the
  order of the comparator.
\<close>

theorem maxMinHeap_sorts:
  assumes "store_ok s" "\<not> st_panicked s" "distinct (map fi_ptr its)" "strict_weak cmp"
    "\<forall>x\<in>set its. \<forall>y\<in>set its. x \<noteq> y \<longrightarrow> cmp x y \<or> cmp y x"
    "add_all mh_Add its (newMaxMinHeap cmp) s = (h, s1)"
  shows "\<exists>xs h' s'. serve mh_PeekHead mh_Remove (length its) h s1 = (xs, h', s') \<and> mh_items h' = [] \<and>
    mset xs = mset its \<and> sorted_wrt cmp xs"
proof -
  note new = mh_invar_new [OF assms(1,2), of cmp]
  have e: "ptrs its \<inter> ptrs (mh_items (newMaxMinHeap cmp)) = {}" by (simp add: newMaxMinHeap_def)
  have i: "mh_invar h s1" "mset (mh_items h) = mset its"
    using mh.add_all_ok [OF new assms(3) e assms(6)] by (simp_all add: newMaxMinHeap_def)
  have o: "mh_ordered h" "mh_comparator h = cmp"
    using mhp.add_all_ordered [OF new mh_ordered_new [OF assms(4)] assms(3) e assms(6)] by (simp_all add: newMaxMinHeap_def)
  have st: "set (mh_items h) = set its" using arg_cong [OF i(2), of set_mset] by simp
  have l: "length its = length (mh_items h)" using arg_cong [OF i(2), of size] by simp
  obtain xs h' s' where r: "serve mh_PeekHead mh_Remove (length its) h s1 = (xs, h', s')" "mh_items h' = []"
      "mset xs = mset (mh_items h)" "sorted_wrt (\<lambda>a b. \<not> cmp b a) xs"
    using mhp.serve_sorted [OF i(1) o(1) l] assms(5) unfolding o(2) st by blast
  have d: "distinct (map fi_ptr xs)" using assms(3) r(3) i(2) by (metis mset_map mset_eq_imp_distinct_iff)
  have "set xs = set its" using arg_cong [OF r(3), of set_mset] st by simp
  then have "sorted_wrt cmp xs"
    using sorted_wrt_strict [OF r(4)] d assms(5) by (auto simp: distinct_map)
  then show ?thesis using r i(2) by auto
qed

text \<open>
  C23. Whichever queue is configured, an item that was added can be taken out again through its
  handle; then the queue has the items it had before and the handle is spent: a second removal
  fails with the invalid-handle error and changes nothing.
\<close>

theorem queue_Add_Remove:
  assumes "sq_invar q s" "fi_ptr it \<notin> ptrs (sq_contents q)" "sq_Add q s (Some it) = (e, q1, s1)"
  shows "e = None \<and> (\<exists>h q2 s2. Handle s1 it = Some h \<and> sq_Remove q1 s1 (Some h) = (Inr it, q2, s2) \<and>
    mset (sq_contents q2) = mset (sq_contents q) \<and> sq_invar q2 s2 \<and> sq_ByteSize q2 = sq_ByteSize q \<and>
    sq_Remove q2 s2 (Some h) = (Inl (Sentinel ErrInvalidQueueItemHandle), q2, s2))"
proof -
  obtain h q2 s2 where r: "Handle s1 it = Some h" "sq_Remove q1 s1 (Some h) = (Inr it, q2, s2)"
      "mset (sq_contents q2) = mset (sq_contents q)" "sq_invar q2 s2"
      "sq_Remove q2 s2 (Some h) = (Inl (Sentinel ErrInvalidQueueItemHandle), q2, s2)"
    using sq.Add_Remove [OF assms] by blast
  have "sq_ByteSize q2 = sq_ByteSize q"
    using sq.ByteSize [OF r(4)] sq.ByteSize [OF assms(1)] bytes_mset [OF r(3)] by simp
  moreover have "e = None" using sq.Add_ok [OF assms(1,2)] assms(3) by auto
  ultimately show ?thesis using r by blast
qed

section \<open>Concrete runs\<close>

definition wTimed :: "nat \<Rightarrow> flowItem" where
  "wTimed n = \<lparr>fi_ptr = n, EnqueueTime = int n, EffectiveTTL = 0, OriginalRequest =
     \<lparr>req_ID = ''r'', req_FlowKey = FlowKey ''f'' 1, req_ByteSize = 5, req_InitialEffectiveTTL = 0\<rparr>\<rparr>"

definition earlier :: "flowItem \<Rightarrow> flowItem \<Rightarrow> bool" where
  "earlier a b = (EnqueueTime a < EnqueueTime b)"

lemma wTimed_simps [simp]: "fi_ptr (wTimed n) = n" "EnqueueTime (wTimed n) = int n" "wTimed m = wTimed n \<longleftrightarrow> m = n"
  by (simp_all add: wTimed_def)

lemma earlier_strict: "strict_weak earlier"
  by (auto simp: strict_weak_def earlier_def)

lemma listQueue_fifo_witness:
  "\<exists>q s1. add_all lq_Add [wTimed 3, wTimed 1, wTimed 2] (newListQueue 0) emptyStore = (q, s1) \<and>
     fst (serve lq_PeekHead lq_Remove 2 q s1) = [wTimed 3, wTimed 1]"
proof -
  obtain q s1 where a: "add_all lq_Add [wTimed 3, wTimed 1, wTimed 2] (newListQueue 0) emptyStore = (q, s1)" by force
  have p: "store_ok emptyStore" "\<not> st_panicked emptyStore" by (rule store_ok_empty) (simp add: emptyStore_def)
  have "\<exists>q' s'. serve lq_PeekHead lq_Remove 2 q s1 = ([wTimed 3, wTimed 1], q', s')"
    using listQueue_fifo [OF p _ a, of 2] by auto
  then show ?thesis using a by auto
qed

theorem maxMinHeap_sorts_witness:
  "\<exists>h s1. add_all mh_Add [wTimed 3, wTimed 1, wTimed 2] (newMaxMinHeap earlier) emptyStore = (h, s1) \<and>
     fst (serve mh_PeekHead mh_Remove 3 h s1) = [wTimed 1, wTimed 2, wTimed 3]"
proof -
  obtain h s1 where a: "add_all mh_Add [wTimed 3, wTimed 1, wTimed 2] (newMaxMinHeap earlier) emptyStore = (h, s1)" by force
  have p: "store_ok emptyStore" "\<not> st_panicked emptyStore" by (rule store_ok_empty) (simp add: emptyStore_def)
  obtain xs h' s' where r: "serve mh_PeekHead mh_Remove 3 h s1 = (xs, h', s')" "mset xs = mset [wTimed 3, wTimed 1, wTimed 2]"
      "sorted_wrt earlier xs"
    using maxMinHeap_sorts [OF p _ earlier_strict _ a] by (auto simp: earlier_def numeral_3_eq_3 simp del: serve.simps)
  have l: "length xs = 3" using arg_cong [OF r(2), of size] by simp
  then obtain x y z where x: "xs = [x, y, z]" by (auto simp: numeral_3_eq_3 length_Suc_conv)
  have st: "{x, y, z} = {wTimed 3, wTimed 1, wTimed 2}" using arg_cong [OF r(2), of set_mset] by (simp add: x)
  have "x \<in> {wTimed 3, wTimed 1, wTimed 2}" "y \<in> {wTimed 3, wTimed 1, wTimed 2}" "z \<in> {wTimed 3, wTimed 1, wTimed 2}"
    unfolding st [symmetric] by simp_all
  with r(3) have "xs = [wTimed 1, wTimed 2, wTimed 3]" by (auto simp: x earlier_def)
  then show ?thesis using a r(1) by auto
qed

theorem queue_Add_Remove_witness:
  "\<exists>q1 s1 h q2 s2. sq_Add (HQ (newMaxMinHeap earlier)) emptyStore (Some (wTimed 1)) = (None, q1, s1) \<and>
     Handle s1 (wTimed 1) = Some h \<and> sq_Remove q1 s1 (Some h) = (Inr (wTimed 1), q2, s2) \<and> sq_contents q2 = []"
proof -
  have p: "store_ok emptyStore" "\<not> st_panicked emptyStore" by (rule store_ok_empty) (simp add: emptyStore_def)
  have i: "sq_invar (HQ (newMaxMinHeap earlier)) emptyStore" using mh_invar_new [OF p] by simp
  have n: "fi_ptr (wTimed 1) \<notin> ptrs (sq_contents (HQ (newMaxMinHeap earlier)))" by (simp add: newMaxMinHeap_def)
  obtain e q1 s1 where a: "sq_Add (HQ (newMaxMinHeap earlier)) emptyStore (Some (wTimed 1)) = (e, q1, s1)" by (metis prod_cases3)
  show ?thesis using queue_Add_Remove [OF i n a] a by (fastforce simp: newMaxMinHeap_def)
qed

end
