(* ===== verification/HeapArray.thy ===== *)
theory HeapArray
  imports QueueServing
begin

text \<open>
  The items of a max-min heap evolve independently of its handles: the array alone determines
  where the sift loops move things. This gives a small reference description of the heap as an
  array, used to run it on concrete inputs.
\<close>

definition bare :: "flowItem list \<Rightarrow> heapState" where
  "bare xs = (\<lparr>mh_items = xs, mh_handles = Map.empty, mh_byteSize = 0, mh_comparator = (\<lambda>_ _. False)\<rparr>, emptyStore)"

lemma bare_items [simp]: "hs_items (bare xs) = xs"
  by (simp add: bare_def)

lemma upMin_items: "hs_items hs = hs_items hs' \<Longrightarrow> hs_items (mh_upMin cmp hs i) = hs_items (mh_upMin cmp hs' i)"
proof (induction cmp hs i arbitrary: hs' rule: mh_upMin.induct)
  case (1 cmp hs i)
  then show ?case by (simp add: mh_upMin.simps [of cmp hs] mh_upMin.simps [of cmp hs'] Let_def del: mh_swap.simps)
qed

lemma upMax_items: "hs_items hs = hs_items hs' \<Longrightarrow> hs_items (mh_upMax cmp hs i) = hs_items (mh_upMax cmp hs' i)"
proof (induction cmp hs i arbitrary: hs' rule: mh_upMax.induct)
  case (1 cmp hs i)
  then show ?case by (simp add: mh_upMax.simps [of cmp hs] mh_upMax.simps [of cmp hs'] Let_def del: mh_swap.simps)
qed

lemma up_items: "hs_items hs = hs_items hs' \<Longrightarrow> hs_items (mh_up cmp hs i) = hs_items (mh_up cmp hs' i)"
proof -
  assume e: "hs_items hs = hs_items hs'"
  have "hs_items (mh_upMin cmp (mh_swap hs j k) l) = hs_items (mh_upMin cmp (mh_swap hs' j k) l)"
    "hs_items (mh_upMax cmp (mh_swap hs j k) l) = hs_items (mh_upMax cmp (mh_swap hs' j k) l)" for j k l
    by (rule upMin_items upMax_items, simp add: e del: mh_swap.simps)+
  with upMin_items [OF e] upMax_items [OF e] e show ?thesis by (simp add: mh_up_def Let_def del: mh_swap.simps)
qed

lemma downMin_items: "hs_items hs = hs_items hs' \<Longrightarrow> hs_items (mh_downMin cmp hs i) = hs_items (mh_downMin cmp hs' i)"
proof (induction cmp hs i arbitrary: hs' rule: mh_downMin.induct)
  case (1 cmp hs i)
  show ?case
  proof (cases "findSmallestChildOrGrandchild cmp (hs_items hs) i")
    case None
    then show ?thesis using "1.prems" by (simp add: mh_downMin.simps [of cmp hs] mh_downMin.simps [of cmp hs'])
  next
    case (Some m)
    define g where "g = (\<lambda>hs. let hs1 = mh_swap hs i m; p = (m - 1) div 2 in
      if p \<noteq> i \<and> cmp (hs_items hs1 ! m) (hs_items hs1 ! p) then mh_swap hs1 m p else hs1)"
    have e: "hs_items (g hs) = hs_items (g hs')" using "1.prems" by (simp add: g_def Let_def del: mh_swap.simps)
    have l: "mh_downMin cmp hs i = (if cmp (hs_items hs ! i) (hs_items hs ! m) then mh_downMin cmp (g hs) m else hs)"
      by (simp only: mh_downMin.simps [of cmp hs i] Some Let_def option.case g_def)
    have r: "mh_downMin cmp hs' i = (if cmp (hs_items hs ! i) (hs_items hs ! m) then mh_downMin cmp (g hs') m else hs')"
      by (simp only: mh_downMin.simps [of cmp hs' i] Some "1.prems" [symmetric] Let_def option.case g_def)
    have "hs_items (mh_downMin cmp (g hs) m) = hs_items (mh_downMin cmp (g hs') m)" if c: "cmp (hs_items hs ! i) (hs_items hs ! m)"
      by (rule "1.IH" [OF Some c refl refl _ e]) (simp only: g_def Let_def)
    then show ?thesis unfolding l r using "1.prems" by simp
  qed
qed

lemma downMax_items: "hs_items hs = hs_items hs' \<Longrightarrow> hs_items (mh_downMax cmp hs i) = hs_items (mh_downMax cmp hs' i)"
proof (induction cmp hs i arbitrary: hs' rule: mh_downMax.induct)
  case (1 cmp hs i)
  show ?case
  proof (cases "findLargestChildOrGrandchild cmp (hs_items hs) i")
    case None
    then show ?thesis using "1.prems" by (simp add: mh_downMax.simps [of cmp hs] mh_downMax.simps [of cmp hs'])
  next
    case (Some m)
    define g where "g = (\<lambda>hs. let hs1 = mh_swap hs i m; p = (m - 1) div 2 in
      if p \<noteq> i \<and> cmp (hs_items hs1 ! p) (hs_items hs1 ! m) then mh_swap hs1 m p else hs1)"
    have e: "hs_items (g hs) = hs_items (g hs')" using "1.prems" by (simp add: g_def Let_def del: mh_swap.simps)
    have l: "mh_downMax cmp hs i = (if cmp (hs_items hs ! m) (hs_items hs ! i) then mh_downMax cmp (g hs) m else hs)"
      by (simp only: mh_downMax.simps [of cmp hs i] Some Let_def option.case g_def)
    have r: "mh_downMax cmp hs' i = (if cmp (hs_items hs ! m) (hs_items hs ! i) then mh_downMax cmp (g hs') m else hs')"
      by (simp only: mh_downMax.simps [of cmp hs' i] Some "1.prems" [symmetric] Let_def option.case g_def)
    have "hs_items (mh_downMax cmp (g hs) m) = hs_items (mh_downMax cmp (g hs') m)" if c: "cmp (hs_items hs ! m) (hs_items hs ! i)"
      by (rule "1.IH" [OF Some c refl refl _ e]) (simp only: g_def Let_def)
    then show ?thesis unfolding l r using "1.prems" by simp
  qed
qed

lemma down_items: "hs_items hs = hs_items hs' \<Longrightarrow> hs_items (mh_down cmp hs i) = hs_items (mh_down cmp hs' i)"
  unfolding mh_down_def using downMin_items [of hs hs' cmp i] downMax_items [of hs hs' cmp i] by (cases "isMinLevel i") simp_all

section \<open>The heap as an array\<close>

definition arr_Add :: "comparatorFunc \<Rightarrow> flowItem \<Rightarrow> flowItem list \<Rightarrow> flowItem list" where
  "arr_Add cmp it xs = hs_items (mh_up cmp (bare (xs @ [it])) (length xs))"

definition arr_Remove :: "comparatorFunc \<Rightarrow> nat \<Rightarrow> flowItem list \<Rightarrow> flowItem list" where
  "arr_Remove cmp i xs =
     (let n = length xs - 1 in
      if i < n then hs_items (mh_down cmp (bare (butlast (list_swap xs i n))) i) else butlast xs)"

fun arr_serve :: "comparatorFunc \<Rightarrow> nat \<Rightarrow> flowItem list \<Rightarrow> flowItem list" where
  "arr_serve cmp 0 xs = []"
| "arr_serve cmp (Suc n) xs = (if xs = [] then [] else hd xs # arr_serve cmp n (arr_Remove cmp 0 xs))"

lemma mh_Add_items:
  assumes "mh_Add h s (Some it) = (e, h', s')"
  shows "mh_items h' = arr_Add (mh_comparator h) it (mh_items h)" "mh_comparator h' = mh_comparator h"
proof -
  obtain h1 s1 where p: "mh_push h s it = (h1, s1)" by force
  have u: "(h1, s1) = mh_up (mh_comparator h) (pushed h s it) (length (mh_items h))" using p by (simp add: mh_push_pushed)
  have h': "mh_items h' = mh_items h1" "mh_comparator h' = mh_comparator h1" using assms p by (auto simp: mh_Add_def)
  show "mh_items h' = arr_Add (mh_comparator h) it (mh_items h)"
    using up_items [of "pushed h s it" "bare (mh_items h @ [it])"] u by (simp add: arr_Add_def h' prod_eq_iff)
  show "mh_comparator h' = mh_comparator h"
    using swaps_fields(5) [OF mh_up_swaps [of "length (mh_items h)" "pushed h s it" "mh_comparator h"]] u
    by (simp add: pushed_def h' prod_eq_iff)
qed

lemma mh_Remove_items:
  assumes inv: "mh_invar h s" and it: "it \<in> set (mh_items h)" and hdl: "Handle s it = Some hdl"
    and i: "i < length (mh_items h)" "mh_items h ! i = it"
  shows "\<exists>h' s'. mh_Remove h s (Some hdl) = (Inr it, h', s') \<and> mh_invar h' s' \<and>
    mh_items h' = arr_Remove (mh_comparator h) i (mh_items h) \<and> mh_comparator h' = mh_comparator h"
proof -
  let ?xs = "mh_items h" and ?n = "length (mh_items h) - 1"
  note own = mh_invarD(1,2) [OF inv]
  have dist: "distinct ?xs" using mh_ownsD(3) [OF own(1)] by (simp add: distinct_map)
  obtain h' s' where r: "mh_Remove h s (Some hdl) = (Inr it, h', s')" "mh_invar h' s'" "mh_comparator h' = mh_comparator h"
    using mh_Remove_ok [OF inv it hdl] by blast
  obtain j h1 s1 where j: "j < length ?xs" "?xs ! j = it"
    and hs1: "(h1, s1) = (if j < ?n then mh_swap (h, s) j ?n else (h, s))"
    and eq: "mh_Remove h s (Some hdl) =
       (let hs2 = (cut h1 (butlast (mh_items h1)) hdl (mh_byteSize h - itemByteSize it), s1);
            (h3, s3) = (if j < ?n then mh_down (mh_comparator h) hs2 j else hs2)
        in (Inr it, h3, Invalidate hdl s3))"
    by (rule mh_Remove_eq [OF own it hdl])
  have ji: "j = i" using i j dist nth_eq_iff_index_eq by blast
  have "mh_items h' = arr_Remove (mh_comparator h) i ?xs"
  proof (cases "i < ?n")
    case True
    let ?hs2 = "(cut h1 (butlast (mh_items h1)) hdl (mh_byteSize h - itemByteSize it), s1)"
    have "h1 = fst (mh_swap (h, s) i ?n)" using hs1 ji True by (simp add: prod_eq_iff del: mh_swap.simps)
    then have x: "hs_items ?hs2 = butlast (list_swap ?xs i ?n)" using hs_items_swap [of "(h, s)" i ?n] by (simp add: cut_def)
    have "h' = fst (mh_down (mh_comparator h) ?hs2 i)" using r(1) eq ji True by (cases "mh_down (mh_comparator h) ?hs2 i") simp
    then show ?thesis using down_items [of ?hs2 "bare (butlast (list_swap ?xs i ?n))"] x True by (simp add: arr_Remove_def)
  next
    case False
    then show ?thesis using r(1) eq hs1 ji by (auto simp: arr_Remove_def cut_def)
  qed
  with r show ?thesis by blast
qed

lemma add_all_items:
  "add_all mh_Add its h s = (h', s') \<Longrightarrow>
   mh_items h' = fold (arr_Add (mh_comparator h)) its (mh_items h) \<and> mh_comparator h' = mh_comparator h"
proof (induction its arbitrary: h s)
  case (Cons it its)
  obtain e h1 s1 where 1: "mh_Add h s (Some it) = (e, h1, s1)" by (metis prod_cases3)
  with Cons show ?case using mh_Add_items [OF 1] by simp
qed simp

lemma serve_items:
  "mh_invar h s \<Longrightarrow> fst (serve mh_PeekHead mh_Remove n h s) = arr_serve (mh_comparator h) n (mh_items h)"
proof (induction n arbitrary: h s)
  case (Suc n)
  show ?case
  proof (cases "mh_items h")
    case Nil
    then show ?thesis by (simp add: mh_PeekHead_def)
  next
    case (Cons it xs)
    then obtain hdl where hdl: "Handle s it = Some hdl"
      using mh.invar_attached [OF Suc.prems, of it] by (auto simp: attached_def linked_def)
    obtain h' s' where r: "mh_Remove h s (Some hdl) = (Inr it, h', s')" "mh_invar h' s'"
        "mh_items h' = arr_Remove (mh_comparator h) 0 (mh_items h)" "mh_comparator h' = mh_comparator h"
      using mh_Remove_items [OF Suc.prems _ hdl, of 0] Cons by auto
    have "mh_PeekHead h = Inr it" using Cons by (simp add: mh_PeekHead_def)
    then show ?thesis using Suc.IH [OF r(2)] r Cons hdl by (cases "serve mh_PeekHead mh_Remove n h' s'") simp
  qed
qed simp

section \<open>Removing from the middle of the heap\<close>

definition wTimes :: "flowItem list" where
  "wTimes = map wTimed [8, 4, 3, 9, 2, 7, 6, 5, 10, 11, 1]"

lemma wArray: "fold (arr_Add earlier) wTimes [] = map wTimed [1, 11, 7, 5, 2, 4, 6, 8, 9, 10, 3]"
  by code_simp

lemma wArray_broken:
  "arr_serve earlier 4 (arr_Remove earlier 7 (map wTimed [1, 11, 7, 5, 2, 4, 6, 8, 9, 10, 3])) = map wTimed [1, 2, 4, 3]"
  by code_simp

text \<open>
  C38. Only the head may be removed if the order is to be kept: there is a heap, in order and without
  ties, from which an item other than the head is removed through its handle, as the interface
  allows, and which then serves an item before one that precedes it.
\<close>

theorem mh_Remove_breaks_order:
  "\<exists>h s it hdl h' s' a b c d. mh_invar h s \<and> mh_ordered h \<and> no_ties (mh_comparator h) (mh_items h) \<and>
     it \<in> set (mh_items h) \<and> Handle s it = Some hdl \<and> mh_Remove h s (Some hdl) = (Inr it, h', s') \<and>
     fst (serve mh_PeekHead mh_Remove 4 h' s') = [a, b, c, d] \<and> mh_comparator h d c"
proof -
  have p: "store_ok emptyStore" "\<not> st_panicked emptyStore" by (rule store_ok_empty) (simp add: emptyStore_def)
  note new = mh_invar_new [OF p, of earlier]
  obtain h s where a: "add_all mh_Add wTimes (newMaxMinHeap earlier) emptyStore = (h, s)" by force
  have e: "ptrs wTimes \<inter> ptrs (mh_items (newMaxMinHeap earlier)) = {}" by (simp add: newMaxMinHeap_def)
  have d: "distinct (map fi_ptr wTimes)" by (simp add: wTimes_def)
  have i: "mh_invar h s" using mh.add_all_ok [OF new d e a] by simp
  have o: "mh_ordered h" "mh_comparator h = earlier"
    using mhp.add_all_ordered [OF new mh_ordered_new [OF earlier_strict] d e a] by (simp_all add: newMaxMinHeap_def)
  have x: "mh_items h = map wTimed [1, 11, 7, 5, 2, 4, 6, 8, 9, 10, 3]"
    using add_all_items [OF a] wArray by (simp add: newMaxMinHeap_def)
  have nt: "no_ties earlier (mh_items h)" by (simp add: x no_ties_def earlier_def)
  have mem: "wTimed 8 \<in> set (mh_items h)" by (simp add: x)
  obtain hdl where hdl: "Handle s (wTimed 8) = Some hdl"
    using mh.invar_attached [OF i mem] by (auto simp: attached_def linked_def)
  have "7 < length (mh_items h)" "mh_items h ! 7 = wTimed 8" by (simp_all add: x)
  then obtain h' s' where r: "mh_Remove h s (Some hdl) = (Inr (wTimed 8), h', s')" "mh_invar h' s'"
      "mh_items h' = arr_Remove earlier 7 (mh_items h)" "mh_comparator h' = earlier"
    using mh_Remove_items [OF i mem hdl, of 7] o(2) by auto
  have "fst (serve mh_PeekHead mh_Remove 4 h' s') = [wTimed 1, wTimed 2, wTimed 4, wTimed 3]"
    using serve_items [OF r(2), of 4] wArray_broken by (simp add: r(3,4) x del: arr_serve.simps)
  moreover have "earlier (wTimed 3) (wTimed 4)" by (simp add: earlier_def)
  ultimately show ?thesis using i o(1) nt mem hdl r(1) unfolding o(2) [symmetric] by blast
qed

end
