(* ===== verification/RegistryConfig.thy ===== *)
theory RegistryConfig
  imports ManagedQueue
begin

text \<open>
  The configuration of the flow registry (\<open>registry/config.go\<close>): its partitioning into shards,
  its validation and its defaults.
\<close>

record PriorityBandConfig =
  pbc_Priority :: nat
  pbc_PriorityName :: string
  pbc_IntraFlowDispatchPolicy :: string
  pbc_InterFlowDispatchPolicy :: string
  pbc_Queue :: string
  pbc_MaxBytes :: uint64

record Config =
  cfg_MaxBytes :: uint64
  cfg_PriorityBands :: "PriorityBandConfig list"

section \<open>Partitioning\<close>

definition partitionValue :: "int \<Rightarrow> int \<Rightarrow> uint64 \<Rightarrow> uint64" where
  "partitionValue shardIndex totalShards tot =
     (if tot = 0 then 0
      else let base = tot div word_of_int totalShards;
               remainder = tot mod word_of_int totalShards
           in if word_of_int shardIndex < remainder then base + 1 else base)"

definition partition_config :: "Config \<Rightarrow> int \<Rightarrow> int \<Rightarrow> goError + Config" where
  "partition_config c shardIndex totalShards =
     (if totalShards \<le> 0 \<or> shardIndex < 0 \<or> shardIndex \<ge> totalShards
      then Inl (Errorf ''invalid shard partitioning arguments'' [])
      else Inr \<lparr>cfg_MaxBytes = partitionValue shardIndex totalShards (cfg_MaxBytes c),
                cfg_PriorityBands =
                  map (\<lambda>band. band\<lparr>pbc_MaxBytes := partitionValue shardIndex totalShards (pbc_MaxBytes band)\<rparr>)
                    (cfg_PriorityBands c)\<rparr>)"

section \<open>Validation and defaults\<close>

fun missing_capability :: "QueueCapability list \<Rightarrow> QueueCapability list \<Rightarrow> QueueCapability option" where
  "missing_capability [] capabilitySet = None"
| "missing_capability (req # reqs) capabilitySet =
     (if req \<notin> set capabilitySet then Some req else missing_capability reqs capabilitySet)"

definition validateBandCompatibility :: "PriorityBandConfig \<Rightarrow> goError option" where
  "validateBandCompatibility band =
     (case intra_NewPolicyFromName (pbc_IntraFlowDispatchPolicy band) of
        Inl err \<Rightarrow> Some (Errorf ''failed to validate policy for priority band'' [err])
      | Inr policy \<Rightarrow>
          let requiredCapabilities = intra_RequiredQueueCapabilities policy in
          if requiredCapabilities = [] then None
          else case NewQueueFromName (pbc_Queue band) None 0 of
            Inl err \<Rightarrow> Some (Errorf ''failed to inspect queue type for priority band'' [err])
          | Inr tempQueue \<Rightarrow>
              (case missing_capability requiredCapabilities (sq_Capabilities tempQueue) of
                 Some req \<Rightarrow> Some (Errorf ''policy is not compatible with queue: missing capability''
                               [Sentinel ErrPolicyQueueIncompatible])
               | None \<Rightarrow> None))"

definition applyBandDefaults :: "PriorityBandConfig \<Rightarrow> PriorityBandConfig" where
  "applyBandDefaults band =
     (let b1 = (if pbc_IntraFlowDispatchPolicy band = '''' then band\<lparr>pbc_IntraFlowDispatchPolicy := ''FCFS''\<rparr> else band);
          b2 = (if pbc_InterFlowDispatchPolicy b1 = '''' then b1\<lparr>pbc_InterFlowDispatchPolicy := ''BestHead''\<rparr> else b1)
      in if pbc_Queue b2 = '''' then b2\<lparr>pbc_Queue := ''ListQueue''\<rparr> else b2)"

text \<open>The loop over the bands: the bands before the current one are already defaulted in place.\<close>

fun validate_bands ::
  "nat set \<Rightarrow> PriorityBandConfig list \<Rightarrow> PriorityBandConfig list \<Rightarrow> goError option \<times> PriorityBandConfig list" where
  "validate_bands priorities before [] = (None, before)"
| "validate_bands priorities before (band # rest) =
     (if pbc_Priority band \<in> priorities
      then (Some (Errorf ''config validation failed: duplicate priority level'' []), before @ band # rest)
      else if pbc_PriorityName band = ''''
      then (Some (Errorf ''config validation failed: PriorityName is required for all priority bands'' []),
            before @ band # rest)
      else let band' = applyBandDefaults band in
        case validateBandCompatibility band' of
          Some err \<Rightarrow> (Some err, before @ band' # rest)
        | None \<Rightarrow> validate_bands (insert (pbc_Priority band) priorities) (before @ [band']) rest)"

definition validateAndApplyDefaults :: "Config \<Rightarrow> goError option \<times> Config" where
  "validateAndApplyDefaults c =
     (if length (cfg_PriorityBands c) = 0
      then (Some (Errorf ''config validation failed: at least one priority band must be defined'' []), c)
      else case validate_bands {} [] (cfg_PriorityBands c) of
        (err, bands) \<Rightarrow> (err, c\<lparr>cfg_PriorityBands := bands\<rparr>))"

section \<open>Partitioning splits the capacity exactly and evenly\<close>

lemma partitionValue_unat:
  assumes "0 < n" "n < 2 ^ 63" "i < n"
  shows "unat (partitionValue (int i) (int n) tot) =
    unat tot div n + (if i < unat tot mod n then 1 else 0)"
proof -
  have wn: "unat (word_of_nat n :: uint64) = n" and wi: "unat (word_of_nat i :: uint64) = i"
    using assms by (simp_all add: unsigned_of_nat take_bit_nat_eq_self)
  let ?t = "unat tot"
  have d: "unat (tot div word_of_nat n) = ?t div n" and m: "unat (tot mod word_of_nat n) = ?t mod n"
    by (simp_all add: unat_div unat_mod wn)
  have lt: "(word_of_nat i < tot mod word_of_nat n) \<longleftrightarrow> i < ?t mod n"
    by (simp add: word_less_nat_alt wi m)
  have "?t div n + 1 < 2 ^ 64" if "i < ?t mod n"
  proof -
    have "n \<noteq> 1" using that by auto
    then have "2 \<le> n" using assms(1) by linarith
    then have "?t div n \<le> ?t div 2" by (simp add: div_le_mono2)
    moreover have "?t < 2 ^ 64" using unsigned_less [of tot] by simp
    ultimately have "?t div n < 2 ^ 63" by auto
    then show ?thesis by simp
  qed
  then show ?thesis
    unfolding partitionValue_def Let_def using lt d
    by (auto simp: unat_word_ariths)
qed

lemma sum_partition_nat:
  fixes t n :: nat
  assumes "0 < n"
  shows "(\<Sum>i<n. t div n + (if i < t mod n then 1 else 0)) = t"
proof -
  have "t mod n < n" using assms by simp
  then have "{..<n} \<inter> {i. i < t mod n} = {..<t mod n}" by auto
  then have "(\<Sum>i<n. (if i < t mod n then 1 else 0 :: nat)) = t mod n"
    by (simp add: sum.If_cases)
  then show ?thesis by (simp add: sum.distrib)
qed

section \<open>What validation guarantees\<close>

definition band_valid :: "PriorityBandConfig \<Rightarrow> bool" where
  "band_valid b \<longleftrightarrow> pbc_PriorityName b \<noteq> '''' \<and> pbc_IntraFlowDispatchPolicy b = ''FCFS'' \<and>
     pbc_InterFlowDispatchPolicy b \<noteq> '''' \<and> pbc_Queue b = ''ListQueue''"

lemma validateBandCompatibility_iff:
  "validateBandCompatibility b = None \<longleftrightarrow>
     pbc_IntraFlowDispatchPolicy b = ''FCFS'' \<and> pbc_Queue b = ''ListQueue''"
  by (auto simp: validateBandCompatibility_def intra_NewPolicyFromName_def NewQueueFromName_def
      RegisteredQueues_def listQueueConstructor_def maxMinHeapConstructor_def Let_def lq_Capabilities_def
      mh_Capabilities_def)

lemma applyBandDefaults_fields [simp]:
  "pbc_Priority (applyBandDefaults b) = pbc_Priority b"
  "pbc_PriorityName (applyBandDefaults b) = pbc_PriorityName b"
  "pbc_MaxBytes (applyBandDefaults b) = pbc_MaxBytes b"
  by (simp_all add: applyBandDefaults_def Let_def)

lemma applyBandDefaults_inter: "pbc_InterFlowDispatchPolicy (applyBandDefaults b) \<noteq> ''''"
  by (simp add: applyBandDefaults_def Let_def)

lemma applyBandDefaults_valid: "band_valid b \<Longrightarrow> applyBandDefaults b = b"
  by (simp add: band_valid_def applyBandDefaults_def)

lemma validate_bands_ok:
  "validate_bands ps bs rest = (None, bands) \<Longrightarrow>
   bands = bs @ map applyBandDefaults rest \<and> (\<forall>b\<in>set rest. band_valid (applyBandDefaults b)) \<and>
   distinct (map pbc_Priority rest) \<and> pbc_Priority ` set rest \<inter> ps = {}"
proof (induction ps bs rest rule: validate_bands.induct)
  case (2 ps bs b rest)
  have ok: "pbc_Priority b \<notin> ps" "pbc_PriorityName b \<noteq> ''''" "validateBandCompatibility (applyBandDefaults b) = None"
    and step: "validate_bands (insert (pbc_Priority b) ps) (bs @ [applyBandDefaults b]) rest = (None, bands)"
    using "2.prems" by (auto simp: Let_def split: if_splits option.splits)
  have "band_valid (applyBandDefaults b)"
    using ok applyBandDefaults_inter by (simp add: band_valid_def validateBandCompatibility_iff)
  with "2.IH" [OF ok(1,2) refl ok(3) step] ok(1) show ?case by auto
qed simp

lemma validate_bands_complete:
  "(\<forall>b\<in>set rest. band_valid (applyBandDefaults b)) \<Longrightarrow> distinct (map pbc_Priority rest) \<Longrightarrow>
   pbc_Priority ` set rest \<inter> ps = {} \<Longrightarrow> validate_bands ps bs rest = (None, bs @ map applyBandDefaults rest)"
proof (induction ps bs rest rule: validate_bands.induct)
  case (2 ps bs b rest)
  have "pbc_PriorityName b \<noteq> ''''" "validateBandCompatibility (applyBandDefaults b) = None" "pbc_Priority b \<notin> ps"
    using "2.prems" by (auto simp: band_valid_def validateBandCompatibility_iff)
  with "2.IH" "2.prems" show ?case by (auto simp: Let_def)
qed simp


text \<open>
  Partitioning a configuration over n shards succeeds for every shard index and splits the
  capacities exactly: over all shards the global limits add up to the global limit and the limits
  of each band add up to the limit of that band.
\<close>

lemma partition_exact:
  assumes "0 < n" "n < 2 ^ 63"
  shows "\<exists>part. (\<forall>i<n. partition_config c (int i) (int n) = Inr (part i)) \<and>
    (\<Sum>i<n. unat (cfg_MaxBytes (part i))) = unat (cfg_MaxBytes c) \<and>
    (\<forall>k<length (cfg_PriorityBands c).
       (\<Sum>i<n. unat (pbc_MaxBytes (cfg_PriorityBands (part i) ! k))) = unat (pbc_MaxBytes (cfg_PriorityBands c ! k)))"
proof -
  let ?part = "\<lambda>i. projr (partition_config c (int i) (int n))"
  have ok: "partition_config c (int i) (int n) = Inr (?part i)" if "i < n" for i
    using that assms by (simp add: partition_config_def)
  have sum: "(\<Sum>i<n. unat (partitionValue (int i) (int n) t)) = unat t" for t
    using partitionValue_unat [OF assms] sum_partition_nat [OF assms(1), of "unat t"]
    by (simp cong: sum.cong_simp)
  have "(\<Sum>i<n. unat (cfg_MaxBytes (?part i))) = unat (cfg_MaxBytes c)"
    using sum [of "cfg_MaxBytes c"] by (simp add: partition_config_def cong: sum.cong_simp)
  moreover have "(\<Sum>i<n. unat (pbc_MaxBytes (cfg_PriorityBands (?part i) ! k))) = unat (pbc_MaxBytes (cfg_PriorityBands c ! k))"
    if "k < length (cfg_PriorityBands c)" for k
    using sum [of "pbc_MaxBytes (cfg_PriorityBands c ! k)"] that
    by (simp add: partition_config_def cong: sum.cong_simp)
  ultimately show ?thesis using ok by (intro exI [of _ ?part]) blast
qed

definition wBand :: PriorityBandConfig where
  "wBand = \<lparr>pbc_Priority = 1, pbc_PriorityName = ''Std'', pbc_IntraFlowDispatchPolicy = '''',
     pbc_InterFlowDispatchPolicy = '''', pbc_Queue = '''', pbc_MaxBytes = 100\<rparr>"

definition wConfig :: Config where
  "wConfig = \<lparr>cfg_MaxBytes = 10, cfg_PriorityBands = [wBand]\<rparr>"

lemma partition_exact_witness:
  "(0 :: nat) < 3 \<and> (3 :: nat) < 2 ^ 63 \<and>
   (\<exists>part. (\<forall>i<3. partition_config wConfig (int i) (int 3) = Inr (part i)) \<and>
     (\<Sum>i<3. unat (cfg_MaxBytes (part i))) = 10)"
  using partition_exact [of 3 wConfig] by (simp add: wConfig_def) blast

text \<open>
  When there are more shards than bytes in the global limit, some shard gets the limit 0,
  which the processor reads as no limit at all.
\<close>

lemma partition_unlimited_shard:
  assumes "unat (cfg_MaxBytes c) < n" "n < 2 ^ 63"
  shows "\<exists>part. partition_config c (int (n - 1)) (int n) = Inr part \<and> cfg_MaxBytes part = 0"
proof -
  have "unat (partitionValue (int (n - 1)) (int n) (cfg_MaxBytes c)) = 0"
    using partitionValue_unat [of n "n - 1" "cfg_MaxBytes c"] assms by simp
  then show ?thesis using assms by (simp add: partition_config_def unat_eq_0)
qed

lemma partition_unlimited_shard_witness:
  "unat (cfg_MaxBytes wConfig) < 11 \<and> (11 :: nat) < 2 ^ 63 \<and>
   (\<exists>part. partition_config wConfig (int (11 - 1)) (int 11) = Inr part \<and> cfg_MaxBytes part = 0)"
proof -
  have "unat (cfg_MaxBytes wConfig) < 11" by (simp add: wConfig_def)
  with partition_unlimited_shard [of wConfig 11] show ?thesis by simp
qed

end
