(* ===== verification/Policies.thy ===== *)
theory Policies
  imports RegistryConfig
begin

text \<open>
  The view of a priority band that the dispatch policies work on, its restriction to a subset of
  flows (\<open>controller/internal/filter.go\<close>), and the two inter-flow policies BestHead and
  RoundRobin. Iterating over a key without a queue would dereference a nil pointer; that panic is
  the result \<open>None\<close> of the iteration.
\<close>

section \<open>Band accessors\<close>

datatype PriorityBandAccessor =
    BandAccessor nat string "FlowKey list" "FlowKey \<rightharpoonup> managedQueue"
  | SubsetAccessor PriorityBandAccessor "FlowKey list"

fun acc_Priority :: "PriorityBandAccessor \<Rightarrow> nat" where
  "acc_Priority (BandAccessor p name ks qs) = p"
| "acc_Priority (SubsetAccessor original allowed) = acc_Priority original"

fun acc_PriorityName :: "PriorityBandAccessor \<Rightarrow> string" where
  "acc_PriorityName (BandAccessor p name ks qs) = name"
| "acc_PriorityName (SubsetAccessor original allowed) = acc_PriorityName original"

fun acc_FlowKeys :: "PriorityBandAccessor \<Rightarrow> FlowKey list" where
  "acc_FlowKeys (BandAccessor p name ks qs) = ks"
| "acc_FlowKeys (SubsetAccessor original allowed) = allowed"

fun acc_Queue :: "PriorityBandAccessor \<Rightarrow> string \<Rightarrow> managedQueue option" where
  "acc_Queue (BandAccessor p name ks qs) flowID = qs (FlowKey flowID p)"
| "acc_Queue (SubsetAccessor original allowed) flowID =
     (if FlowKey flowID (acc_Priority original) \<notin> set allowed then None else acc_Queue original flowID)"

text \<open>The callback returns whether to go on and its captured variables.\<close>

fun iterate_keys ::
  "(FlowKey \<rightharpoonup> managedQueue) \<Rightarrow> FlowKey list \<Rightarrow> (managedQueue \<Rightarrow> 'a \<Rightarrow> bool \<times> 'a) \<Rightarrow> 'a \<Rightarrow> 'a option" where
  "iterate_keys qs [] callback st = Some st"
| "iterate_keys qs (key # keys) callback st =
     (case qs key of
        None \<Rightarrow> None
      | Some mq \<Rightarrow>
          let (keepIterating, st') = callback mq st in
          if keepIterating then iterate_keys qs keys callback st' else Some st')"

fun acc_IterateQueues ::
  "PriorityBandAccessor \<Rightarrow> (managedQueue \<Rightarrow> 'a \<Rightarrow> bool \<times> 'a) \<Rightarrow> 'a \<Rightarrow> 'a option" where
  "acc_IterateQueues (BandAccessor p name ks qs) callback st = iterate_keys qs ks callback st"
| "acc_IterateQueues (SubsetAccessor original allowed) callback st =
     acc_IterateQueues original
       (\<lambda>queue st. if mq_flowKey queue \<in> set allowed then callback queue st else (True, st)) st"

definition newSubsetPriorityBandAccessor :: "PriorityBandAccessor \<Rightarrow> FlowKey list \<Rightarrow> PriorityBandAccessor" where
  "newSubsetPriorityBandAccessor original allowed = SubsetAccessor original allowed"

text \<open>A filter answers with a restricted band (\<open>None\<close>: no restriction) and whether to pause.\<close>

type_synonym BandFilter = "PriorityBandAccessor \<Rightarrow> PriorityBandAccessor option \<times> bool"

definition NewSaturationFilter :: "bool \<Rightarrow> BandFilter" where
  "NewSaturationFilter isSaturated band = (if isSaturated then (None, True) else (None, False))"

section \<open>The inter-flow policies\<close>

datatype InterFlowDispatchPolicy = BestHead | RoundRobin (lastSelected: "FlowKey option")

fun inter_Name :: "InterFlowDispatchPolicy \<Rightarrow> string" where
  "inter_Name BestHead = ''BestHead''" | "inter_Name (RoundRobin l) = ''RoundRobin''"

definition inter_NewPolicyFromName :: "string \<Rightarrow> goError + InterFlowDispatchPolicy" where
  "inter_NewPolicyFromName name =
     (if name = ''BestHead'' then Inr BestHead
      else if name = ''RoundRobin'' then Inr (RoundRobin None)
      else Inl (Errorf ''no InterFlowDispatchPolicy registered with name'' []))"

record bestHeadState =
  bestQueue :: "(managedQueue \<times> flowItem) option"
  iterationErr :: "goError option"

definition bestHead_visit :: "managedQueue \<Rightarrow> bestHeadState \<Rightarrow> bool \<times> bestHeadState" where
  "bestHead_visit queue st =
     (if mq_Len queue = 0 then (True, st)
      else case mq_PeekHead queue of
        Inl err \<Rightarrow> (True, st)
      | Inr item \<Rightarrow>
          (case bestQueue st of
             None \<Rightarrow> (True, st\<lparr>bestQueue := Some (queue, item)\<rparr>)
           | Some (best, bestItem) \<Rightarrow>
               if ic_ScoreType (mq_Comparator queue) \<noteq> ic_ScoreType (mq_Comparator best)
               then (False, st\<lparr>iterationErr := Some (Errorf ''expected score type, got''
                                [Sentinel ErrIncompatiblePriorityType])\<rparr>)
               else if ic_Func (mq_Comparator best) (Some item) (Some bestItem)
               then (True, st\<lparr>bestQueue := Some (queue, item)\<rparr>)
               else (True, st)))"

definition bestHead_SelectQueue :: "PriorityBandAccessor \<Rightarrow> (goError + managedQueue option) option" where
  "bestHead_SelectQueue band =
     map_option (\<lambda>st. case iterationErr st of
         Some err \<Rightarrow> Inl err
       | None \<Rightarrow> Inr (map_option fst (bestQueue st)))
       (acc_IterateQueues band bestHead_visit \<lparr>bestQueue = None, iterationErr = None\<rparr>)"

fun slices_Index :: "'a list \<Rightarrow> 'a \<Rightarrow> nat option" where
  "slices_Index [] k = None"
| "slices_Index (x # xs) k = (if x = k then Some 0 else map_option Suc (slices_Index xs k))"

text \<open>
  The selected queue, the new \<open>lastSelected\<close>, and the slice of keys after it was sorted in place.
\<close>

definition selectNextQueue ::
  "FlowKey option \<Rightarrow> PriorityBandAccessor \<Rightarrow> managedQueue option \<times> FlowKey option \<times> FlowKey list" where
  "selectNextQueue lastSel band =
     (let keys = acc_FlowKeys band in
      if length keys = 0 then (None, None, keys)
      else
        let keys = sort keys;
            startIndex = (case lastSel of
                            None \<Rightarrow> 0
                          | Some l \<Rightarrow> (case slices_Index keys l of
                                        None \<Rightarrow> 0
                                      | Some idx \<Rightarrow> (idx + 1) mod length keys));
            numFlows = length keys;
            queueAt = (\<lambda>i. acc_Queue band (ID (keys ! ((startIndex + i) mod numFlows))))
        in case find (\<lambda>i. case queueAt i of None \<Rightarrow> False | Some queue \<Rightarrow> mq_Len queue > 0) [0..<numFlows] of
             Some i \<Rightarrow> (queueAt i, Some (keys ! ((startIndex + i) mod numFlows)), keys)
           | None \<Rightarrow> (None, None, keys))"

text \<open>The outer \<open>None\<close> is the panic; the new policy state and the sorted keys come along.\<close>

fun inter_SelectQueue ::
  "InterFlowDispatchPolicy \<Rightarrow> PriorityBandAccessor \<Rightarrow>
   ((goError + managedQueue option) \<times> InterFlowDispatchPolicy \<times> FlowKey list) option" where
  "inter_SelectQueue BestHead band =
     map_option (\<lambda>r. (r, BestHead, acc_FlowKeys band)) (bestHead_SelectQueue band)"
| "inter_SelectQueue (RoundRobin lastSel) band =
     (case selectNextQueue lastSel band of (queue, lastSel', keys) \<Rightarrow> Some (Inr queue, RoundRobin lastSel', keys))"

section \<open>A subset view is the view of the subset\<close>

text \<open>The keys a view lets through.\<close>

fun acc_allows :: "PriorityBandAccessor \<Rightarrow> FlowKey \<Rightarrow> bool" where
  "acc_allows (BandAccessor p name ks qs) k = True"
| "acc_allows (SubsetAccessor original allowed) k = (k \<in> set allowed \<and> acc_allows original k)"

fun acc_base :: "PriorityBandAccessor \<Rightarrow> FlowKey list \<times> (FlowKey \<rightharpoonup> managedQueue)" where
  "acc_base (BandAccessor p name ks qs) = (ks, qs)"
| "acc_base (SubsetAccessor original allowed) = acc_base original"

text \<open>The queues an accessor shows, in the order of the iteration.\<close>

definition acc_view :: "PriorityBandAccessor \<Rightarrow> managedQueue list" where
  "acc_view a = filter (acc_allows a \<circ> mq_flowKey) (map (the \<circ> snd (acc_base a)) (fst (acc_base a)))"

definition acc_ok :: "PriorityBandAccessor \<Rightarrow> bool" where
  "acc_ok a \<longleftrightarrow> (\<forall>k\<in>set (fst (acc_base a)). snd (acc_base a) k \<noteq> None)"

fun iterate_list :: "managedQueue list \<Rightarrow> (managedQueue \<Rightarrow> 'a \<Rightarrow> bool \<times> 'a) \<Rightarrow> 'a \<Rightarrow> 'a" where
  "iterate_list [] callback st = st"
| "iterate_list (q # qs) callback st =
     (let (go, st') = callback q st in if go then iterate_list qs callback st' else st')"

lemma iterate_keys_list:
  "\<forall>k\<in>set ks. qs k \<noteq> None \<Longrightarrow> iterate_keys qs ks cb st = Some (iterate_list (map (the \<circ> qs) ks) cb st)"
  by (induction ks arbitrary: st) (auto simp: Let_def split: prod.split)

lemma iterate_list_filter:
  "iterate_list xs (\<lambda>q st. if P q then cb q st else (True, st)) st = iterate_list (filter P xs) cb st"
  by (induction xs arbitrary: st) (auto split: prod.split)

lemma acc_IterateQueues_view:
  "acc_ok a \<Longrightarrow> acc_IterateQueues a cb st = Some (iterate_list (acc_view a) cb st)"
proof (induction a arbitrary: cb)
  case (BandAccessor p name ks qs)
  then show ?case by (simp add: acc_ok_def acc_view_def iterate_keys_list comp_def)
next
  case (SubsetAccessor a allowed)
  have "acc_view (SubsetAccessor a allowed) = filter (\<lambda>q. mq_flowKey q \<in> set allowed) (acc_view a)"
    by (simp add: acc_view_def comp_def conj_commute)
  with SubsetAccessor show ?case by (simp add: acc_ok_def iterate_list_filter)
qed

section \<open>BestHead picks the earliest head\<close>

text \<open>The head a queue offers to the policy, if it has one.\<close>

definition offer :: "managedQueue \<Rightarrow> flowItem option" where
  "offer q = (if mq_Len q = 0 then None else case mq_PeekHead q of Inl e \<Rightarrow> None | Inr it \<Rightarrow> Some it)"

lemma intra_Comparator_eq: "intra_Comparator p = enqueueTimeComparator"
  by (cases p) simp

lemma bestHead_visit_offer:
  "bestHead_visit q st =
     (case offer q of
        None \<Rightarrow> (True, st)
      | Some it \<Rightarrow>
          (case bestQueue st of
             None \<Rightarrow> (True, st\<lparr>bestQueue := Some (q, it)\<rparr>)
           | Some (b, bestIt) \<Rightarrow>
               if EnqueueTime it < EnqueueTime bestIt then (True, st\<lparr>bestQueue := Some (q, it)\<rparr>) else (True, st)))"
  by (simp add: bestHead_visit_def offer_def mq_Comparator_def intra_Comparator_eq enqueueTimeComparator_def
      enqueueTimeComparator_Func_def split: sum.split option.split)

definition best_among :: "(managedQueue \<times> flowItem) option \<Rightarrow> managedQueue list \<Rightarrow> (managedQueue \<times> flowItem) option \<Rightarrow> bool" where
  "best_among b0 qs r \<longleftrightarrow>
     (case r of
        None \<Rightarrow> b0 = None \<and> (\<forall>q\<in>set qs. offer q = None)
      | Some (q, it) \<Rightarrow>
          (b0 = Some (q, it) \<or> q \<in> set qs \<and> offer q = Some it) \<and>
          (\<forall>q'\<in>set qs. \<forall>it'. offer q' = Some it' \<longrightarrow> EnqueueTime it \<le> EnqueueTime it') \<and>
          (\<forall>b. b0 = Some b \<longrightarrow> EnqueueTime it \<le> EnqueueTime (snd b)))"

lemma best_among_Cons_skip: "offer q = None \<Longrightarrow> best_among b0 qs r \<Longrightarrow> best_among b0 (q # qs) r"
  by (auto simp: best_among_def split: option.splits)

lemma best_among_Cons_keep:
  "offer q = Some it \<Longrightarrow> EnqueueTime (snd b) \<le> EnqueueTime it \<Longrightarrow> best_among (Some b) qs r \<Longrightarrow>
   best_among (Some b) (q # qs) r"
  by (auto simp: best_among_def split: option.splits)

lemma best_among_Cons_take:
  "offer q = Some it \<Longrightarrow> (\<And>b. b0 = Some b \<Longrightarrow> EnqueueTime it \<le> EnqueueTime (snd b)) \<Longrightarrow>
   best_among (Some (q, it)) qs r \<Longrightarrow> best_among b0 (q # qs) r"
  by (auto simp: best_among_def split: option.splits)

lemma bestHead_scan:
  "iterationErr st = None \<Longrightarrow>
   iterationErr (iterate_list qs bestHead_visit st) = None \<and>
   best_among (bestQueue st) qs (bestQueue (iterate_list qs bestHead_visit st))"
proof (induction qs arbitrary: st)
  case Nil
  then show ?case by (auto simp: best_among_def split: option.split)
next
  case (Cons q qs)
  consider "offer q = None" | it where "offer q = Some it" "bestQueue st = None"
    | it b where "offer q = Some it" "bestQueue st = Some b" "EnqueueTime it < EnqueueTime (snd b)"
    | it b where "offer q = Some it" "bestQueue st = Some b" "EnqueueTime (snd b) \<le> EnqueueTime it"
    by (metis linorder_not_le option.exhaust)
  then show ?case
  proof cases
    case 1
    with Cons show ?thesis by (simp add: bestHead_visit_offer best_among_Cons_skip)
  next
    case 2
    with Cons.IH [of "st\<lparr>bestQueue := Some (q, it)\<rparr>"] Cons.prems show ?thesis
      by (auto simp: bestHead_visit_offer intro!: best_among_Cons_take)
  next
    case 3
    then have "bestHead_visit q st = (True, st\<lparr>bestQueue := Some (q, it)\<rparr>)"
      by (cases b) (simp add: bestHead_visit_offer)
    with Cons.IH [of "st\<lparr>bestQueue := Some (q, it)\<rparr>"] Cons.prems 3 show ?thesis
      by (auto intro!: best_among_Cons_take [of q it])
  next
    case 4
    then have "bestHead_visit q st = (True, st)" by (cases b) (simp add: bestHead_visit_offer)
    with Cons.IH [of st] Cons.prems 4 show ?thesis by (auto intro: best_among_Cons_keep)
  qed
qed

lemma bestHead_SelectQueue_ok:
  assumes "acc_ok a"
  shows "\<exists>r. bestHead_SelectQueue a = Some (Inr (map_option fst r)) \<and> best_among None (acc_view a) r"
proof -
  let ?st = "iterate_list (acc_view a) bestHead_visit \<lparr>bestQueue = None, iterationErr = None\<rparr>"
  have "iterationErr ?st = None \<and> best_among None (acc_view a) (bestQueue ?st)"
    using bestHead_scan [of "\<lparr>bestQueue = None, iterationErr = None\<rparr>" "acc_view a"] by simp
  then show ?thesis
    by (auto simp: bestHead_SelectQueue_def acc_IterateQueues_view [OF assms])
qed

section \<open>RoundRobin goes round\<close>

text \<open>The keys the policy may select, in its order.\<close>

definition rr_serves :: "PriorityBandAccessor \<Rightarrow> FlowKey \<Rightarrow> bool" where
  "rr_serves a k = (case acc_Queue a (ID k) of None \<Rightarrow> False | Some queue \<Rightarrow> mq_Len queue > 0)"

definition rr_cycle :: "PriorityBandAccessor \<Rightarrow> FlowKey list" where
  "rr_cycle a = filter (rr_serves a) (sort (acc_FlowKeys a))"

lemma slices_Index_append: "k \<notin> set xs \<Longrightarrow> slices_Index (xs @ k # ys) k = Some (length xs)"
  by (induction xs) auto

lemma slices_Index_None: "k \<notin> set xs \<Longrightarrow> slices_Index xs k = None"
  by (induction xs) auto

lemma find_map: "find (P \<circ> f) xs = Some x \<Longrightarrow> find P (map f xs) = Some (f x)"
  "find (P \<circ> f) xs = None \<Longrightarrow> find P (map f xs) = None"
  by (induction xs) (auto split: if_splits)

lemma find_hd_filter: "find P xs = (if filter P xs = [] then None else Some (hd (filter P xs)))"
  by (induction xs) auto

lemma rotate_as_map: "map (\<lambda>i. xs ! ((m + i) mod length xs)) [0..<length xs] = rotate m xs"
  by (rule nth_equalityI) (simp_all add: nth_rotate)

text \<open>One selection: the first servable key of the sorted keys rotated to the start index.\<close>

definition rr_start :: "FlowKey option \<Rightarrow> FlowKey list \<Rightarrow> nat" where
  "rr_start lastSel keys =
     (case lastSel of None \<Rightarrow> 0 | Some l \<Rightarrow> (case slices_Index keys l of None \<Rightarrow> 0 | Some idx \<Rightarrow> (idx + 1) mod length keys))"

lemma selectNextQueue_rotate:
  "selectNextQueue lastSel a =
     (let keys = sort (acc_FlowKeys a) in
      case filter (rr_serves a) (rotate (rr_start lastSel keys) keys) of
        [] \<Rightarrow> (None, None, keys)
      | k # ks \<Rightarrow> (acc_Queue a (ID k), Some k, keys))"
proof -
  let ?keys = "sort (acc_FlowKeys a)"
  let ?n = "length ?keys"
  let ?f = "\<lambda>i. ?keys ! ((rr_start lastSel ?keys + i) mod ?n)"
  let ?P = "\<lambda>i. case acc_Queue a (ID (?f i)) of None \<Rightarrow> False | Some queue \<Rightarrow> mq_Len queue > 0"
  have P: "?P = rr_serves a \<circ> ?f" by (simp add: fun_eq_iff rr_serves_def)
  have rot: "map ?f [0..<?n] = rotate (rr_start lastSel ?keys) ?keys" by (rule rotate_as_map)
  show ?thesis
  proof (cases "acc_FlowKeys a = []")
    case True
    then show ?thesis by (simp add: selectNextQueue_def)
  next
    case False
    then have n: "length (acc_FlowKeys a) \<noteq> 0" by simp
    show ?thesis
    proof (cases "find ?P [0..<?n]")
      case None
      then have "find (rr_serves a) (map ?f [0..<?n]) = None" unfolding P by (rule find_map)
      then have "filter (rr_serves a) (rotate (rr_start lastSel ?keys) ?keys) = []"
        unfolding rot by (auto simp: find_hd_filter split: if_splits)
      with None n show ?thesis by (simp add: selectNextQueue_def Let_def rr_start_def)
    next
      case (Some i)
      then have "find (rr_serves a) (map ?f [0..<?n]) = Some (?f i)" unfolding P by (rule find_map)
      then obtain ks where "filter (rr_serves a) (rotate (rr_start lastSel ?keys) ?keys) = ?f i # ks"
        unfolding rot find_hd_filter by (auto simp: neq_Nil_conv split: if_splits)
      with Some n show ?thesis by (simp add: selectNextQueue_def Let_def rr_start_def)
    qed
  qed
qed

lemma rr_next:
  assumes dist: "distinct (acc_FlowKeys a)" and i: "i < length (rr_cycle a)" and last: "lastSel = Some (rr_cycle a ! i)"
  shows "fst (snd (selectNextQueue lastSel a)) = Some (rr_cycle a ! (Suc i mod length (rr_cycle a)))"
proof -
  let ?keys = "sort (acc_FlowKeys a)" and ?P = "rr_serves a"
  define k where "k = rr_cycle a ! i"
  have "k \<in> set (rr_cycle a)" using i by (simp add: k_def)
  then have kin: "k \<in> set ?keys" and pk: "?P k" by (auto simp: rr_cycle_def)
  obtain A B where AB: "?keys = A @ k # B" using kin by (meson split_list)
  have dk: "distinct ?keys" using dist by simp
  then have nA: "k \<notin> set A" using AB by (metis distinct_append not_distinct_conv_prefix distinct.simps(2) disjoint_iff list.set_intros(1))
  have start: "rr_start lastSel ?keys = Suc (length A) mod length ?keys"
    using last nA by (simp add: rr_start_def AB k_def [symmetric] slices_Index_append)
  have rot: "rotate (rr_start lastSel ?keys) ?keys = B @ A @ [k]"
    unfolding start rotate_conv_mod [symmetric] using rotate_append [of "A @ [k]" B] AB by simp
  have cyc: "rr_cycle a = filter ?P A @ k # filter ?P B" using AB pk by (simp add: rr_cycle_def)
  have "distinct (rr_cycle a)" using dk by (simp add: rr_cycle_def)
  moreover have "rr_cycle a ! length (filter ?P A) = k" "length (filter ?P A) < length (rr_cycle a)"
    by (simp_all add: cyc)
  ultimately have i: "i = length (filter ?P A)" using i k_def nth_eq_iff_index_eq by metis
  have "hd (filter ?P (B @ A @ [k])) = rr_cycle a ! (Suc i mod length (rr_cycle a))"
  proof (cases "filter ?P B")
    case Nil
    then have "Suc i = length (rr_cycle a)" using cyc i by simp
    then show ?thesis using Nil cyc pk by (cases "filter ?P A") simp_all
  next
    case (Cons b bs)
    then have "Suc i < length (rr_cycle a)" using cyc i by simp
    then show ?thesis using Cons cyc i by (simp add: nth_append)
  qed
  moreover have "filter ?P (B @ A @ [k]) \<noteq> []" using pk by simp
  ultimately show ?thesis
    unfolding selectNextQueue_rotate Let_def rot by (cases "filter ?P (B @ A @ [k])") simp_all
qed

lemma rr_first:
  "rr_cycle a \<noteq> [] \<Longrightarrow> fst (snd (selectNextQueue None a)) = Some (rr_cycle a ! 0)"
  unfolding selectNextQueue_rotate rr_cycle_def
  by (simp add: rr_start_def Let_def split: list.split)

lemma rr_iterate:
  assumes "distinct (acc_FlowKeys a)" "rr_cycle a \<noteq> []"
  shows "((\<lambda>l. fst (snd (selectNextQueue l a))) ^^ Suc n) None = Some (rr_cycle a ! (n mod length (rr_cycle a)))"
proof (induction n)
  case 0
  then show ?case using rr_first [OF assms(2)] by simp
next
  case (Suc n)
  let ?m = "length (rr_cycle a)"
  have "n mod ?m < ?m" using assms(2) by simp
  from rr_next [OF assms(1) this Suc.IH] show ?case by (simp add: mod_Suc_eq)
qed

section \<open>The correctness of the policies\<close>

text \<open>
  C21. On a band whose keys all have queues, BestHead returns a queue exactly when some visible
  queue offers an item, and the head of the queue it returns was enqueued no later than the head
  of any other visible queue.
\<close>

theorem bestHead_earliest:
  assumes "acc_ok a"
  shows "case bestHead_SelectQueue a of
      Some (Inr None) \<Rightarrow> \<forall>q\<in>set (acc_view a). offer q = None
    | Some (Inr (Some q)) \<Rightarrow> q \<in> set (acc_view a) \<and>
        (\<exists>it. offer q = Some it \<and>
          (\<forall>q'\<in>set (acc_view a). \<forall>it'. offer q' = Some it' \<longrightarrow> EnqueueTime it \<le> EnqueueTime it'))
    | _ \<Rightarrow> False"
proof -
  obtain r where r: "bestHead_SelectQueue a = Some (Inr (map_option fst r))" "best_among None (acc_view a) r"
    using bestHead_SelectQueue_ok [OF assms] by blast
  then show ?thesis by (cases r) (auto simp: best_among_def)
qed


definition wItemAt :: "nat \<Rightarrow> string \<Rightarrow> time \<Rightarrow> flowItem" where
  "wItemAt p f t = \<lparr>fi_ptr = p, EnqueueTime = t, EffectiveTTL = 0, OriginalRequest =
     \<lparr>req_ID = f, req_FlowKey = FlowKey f 1, req_ByteSize = 5, req_InitialEffectiveTTL = 0\<rparr>\<rparr>"

definition wQueue :: "nat \<Rightarrow> string \<Rightarrow> time \<Rightarrow> managedQueue" where
  "wQueue p f t =
     \<lparr>mq_queue = LQ \<lparr>lq_ptr = p, requests = [\<lparr>e_ptr = p, e_Value = wItemAt p f t\<rparr>], lq_byteSize = 5\<rparr>,
      mq_dispatchPolicy = Fcfs, mq_flowKey = FlowKey f 1, mq_byteSize = 5, mq_len = 1\<rparr>"

definition wAccessor :: PriorityBandAccessor where
  "wAccessor = BandAccessor 1 ''Std'' [FlowKey ''b'' 1, FlowKey ''a'' 1]
     [FlowKey ''a'' 1 \<mapsto> wQueue 0 ''a'' 7, FlowKey ''b'' 1 \<mapsto> wQueue 1 ''b'' 3]"

lemma wAccessor_ok: "acc_ok wAccessor" "distinct (acc_FlowKeys wAccessor)"
  by (simp_all add: wAccessor_def acc_ok_def)

lemma wQueue_offer: "offer (wQueue p f t) = Some (wItemAt p f t)" "0 < mq_Len (wQueue p f t)"
  by (simp_all add: offer_def wQueue_def mq_Len_def mq_PeekHead_def lq_PeekHead_def)

lemma wAccessor_view: "acc_view wAccessor = [wQueue 1 ''b'' 3, wQueue 0 ''a'' 7]"
  by (simp add: wAccessor_def acc_view_def)

lemma wItemAt_time: "EnqueueTime (wItemAt p f t) = t"
  by (simp add: wItemAt_def)

theorem bestHead_earliest_witness:
  "acc_ok wAccessor \<and> bestHead_SelectQueue wAccessor = Some (Inr (Some (wQueue 1 ''b'' 3)))"
proof -
  note spec = bestHead_earliest [OF wAccessor_ok(1), unfolded wAccessor_view]
  obtain r where r: "bestHead_SelectQueue wAccessor = Some (Inr r)"
    using spec by (auto split: option.splits sum.splits)
  obtain q where q: "r = Some q" using spec unfolding r by (cases r) (simp_all add: wQueue_offer)
  have "q \<in> set [wQueue 1 ''b'' 3, wQueue 0 ''a'' 7]"
    and "\<exists>it. offer q = Some it \<and> EnqueueTime it \<le> 3"
    using spec unfolding r q by (auto simp: wQueue_offer wItemAt_time)
  then have "q = wQueue 1 ''b'' 3" by (auto simp: wQueue_offer wItemAt_time)
  then show ?thesis using wAccessor_ok(1) r q by simp
qed


end
