(* ===== verification/RegistryShard.thy ===== *)
theory RegistryShard
  imports Policies
begin

text \<open>
  One shard of the flow registry (\<open>registry/shard.go\<close>): its priority bands with their queues and
  policies, the accessors the processor uses, and the statistics that its managed queues report.
  The calls to the reconciler of the parent registry are recorded in order.
\<close>

section \<open>State\<close>

record priorityBand =
  pb_config :: PriorityBandConfig
  pb_queues :: "FlowKey \<rightharpoonup> managedQueue"
  pb_flowKeys :: "FlowKey list"
  pb_byteSize :: uint64
  pb_len :: uint64
  pb_interFlowDispatchPolicy :: InterFlowDispatchPolicy
  pb_defaultIntraFlowDispatchPolicy :: IntraFlowDispatchPolicy

record registryShard =
  sh_id :: string
  sh_config :: Config
  sh_isActive :: bool
  sh_hasReconcileFun :: bool
  sh_reconcileCalls :: "(int64 \<times> int64) list"
  sh_priorityBands :: "nat \<rightharpoonup> priorityBand"
  sh_orderedPriorityLevels :: "nat list"
  sh_totalByteSize :: uint64
  sh_totalLen :: uint64

record PriorityBandStats =
  bs_Priority :: nat
  bs_PriorityName :: string
  bs_CapacityBytes :: uint64
  bs_ByteSize :: uint64
  bs_Len :: uint64

record ShardStats =
  ss_TotalCapacityBytes :: uint64
  ss_TotalByteSize :: uint64
  ss_TotalLen :: uint64
  ss_PerPriorityBandStats :: "nat \<rightharpoonup> PriorityBandStats"

section \<open>Operations\<close>

text \<open>The loop of \<open>newShard\<close> over the band configurations.\<close>

fun add_bands :: "PriorityBandConfig list \<Rightarrow> registryShard \<Rightarrow> goError + registryShard" where
  "add_bands [] s = Inr s"
| "add_bands (bandConfig # rest) s =
     (case inter_NewPolicyFromName (pbc_InterFlowDispatchPolicy bandConfig) of
        Inl err \<Rightarrow> Inl (Errorf ''failed to create inter-flow policy'' [err])
      | Inr interPolicy \<Rightarrow>
          (case intra_NewPolicyFromName (pbc_IntraFlowDispatchPolicy bandConfig) of
             Inl err \<Rightarrow> Inl (Errorf ''failed to create intra-flow policy'' [err])
           | Inr intraPolicy \<Rightarrow>
               add_bands rest
                 (s\<lparr>sh_priorityBands := (sh_priorityBands s)(pbc_Priority bandConfig \<mapsto>
                      \<lparr>pb_config = bandConfig, pb_queues = Map.empty, pb_flowKeys = [], pb_byteSize = 0,
                       pb_len = 0, pb_interFlowDispatchPolicy = interPolicy,
                       pb_defaultIntraFlowDispatchPolicy = intraPolicy\<rparr>),
                    sh_orderedPriorityLevels := sh_orderedPriorityLevels s @ [pbc_Priority bandConfig]\<rparr>)))"

definition newShard :: "string \<Rightarrow> Config \<Rightarrow> bool \<Rightarrow> goError + registryShard" where
  "newShard shardID partitionedConfig hasReconcile =
     (case add_bands (cfg_PriorityBands partitionedConfig)
             \<lparr>sh_id = shardID, sh_config = partitionedConfig, sh_isActive = True,
              sh_hasReconcileFun = hasReconcile, sh_reconcileCalls = [], sh_priorityBands = Map.empty,
              sh_orderedPriorityLevels = [], sh_totalByteSize = 0, sh_totalLen = 0\<rparr> of
        Inl err \<Rightarrow> Inl err
      | Inr s \<Rightarrow> Inr (s\<lparr>sh_orderedPriorityLevels := sort (sh_orderedPriorityLevels s)\<rparr>))"

definition sh_reconcileStats :: "nat \<Rightarrow> int64 \<Rightarrow> int64 \<Rightarrow> registryShard \<Rightarrow> registryShard" where
  "sh_reconcileStats priority lenDelta byteSizeDelta s =
     (let s1 = s\<lparr>sh_totalLen := sh_totalLen s + lenDelta, sh_totalByteSize := sh_totalByteSize s + byteSizeDelta\<rparr>;
          s2 = (case sh_priorityBands s1 priority of
                  Some band \<Rightarrow> s1\<lparr>sh_priorityBands := (sh_priorityBands s1)(priority \<mapsto>
                    band\<lparr>pb_len := pb_len band + lenDelta, pb_byteSize := pb_byteSize band + byteSizeDelta\<rparr>)\<rparr>
                | None \<Rightarrow> s1)
      in if sh_hasReconcileFun s2
         then s2\<lparr>sh_reconcileCalls := sh_reconcileCalls s2 @ [(lenDelta, byteSizeDelta)]\<rparr>
         else s2)"

definition sh_ManagedQueue :: "registryShard \<Rightarrow> FlowKey \<Rightarrow> goError + managedQueue" where
  "sh_ManagedQueue s key =
     (case sh_priorityBands s (Priority key) of
        None \<Rightarrow> Inl (Errorf ''failed to get managed queue for flow'' [Sentinel ErrPriorityBandNotFound])
      | Some band \<Rightarrow>
          (case pb_queues band key of
             None \<Rightarrow> Inl (Errorf ''failed to get managed queue for flow'' [Sentinel ErrFlowInstanceNotFound])
           | Some mq \<Rightarrow> Inr mq))"

definition sh_IntraFlowDispatchPolicy :: "registryShard \<Rightarrow> FlowKey \<Rightarrow> goError + IntraFlowDispatchPolicy" where
  "sh_IntraFlowDispatchPolicy s key =
     (case sh_priorityBands s (Priority key) of
        None \<Rightarrow> Inl (Errorf ''failed to get intra-flow policy for flow'' [Sentinel ErrPriorityBandNotFound])
      | Some band \<Rightarrow>
          (case pb_queues band key of
             None \<Rightarrow> Inl (Errorf ''failed to get intra-flow policy for flow'' [Sentinel ErrFlowInstanceNotFound])
           | Some mq \<Rightarrow> Inr (mq_dispatchPolicy mq)))"

definition sh_InterFlowDispatchPolicy :: "registryShard \<Rightarrow> nat \<Rightarrow> goError + InterFlowDispatchPolicy" where
  "sh_InterFlowDispatchPolicy s priority =
     (case sh_priorityBands s priority of
        None \<Rightarrow> Inl (Errorf ''failed to get inter-flow policy for priority'' [Sentinel ErrPriorityBandNotFound])
      | Some band \<Rightarrow> Inr (pb_interFlowDispatchPolicy band))"

definition sh_PriorityBandAccessor :: "registryShard \<Rightarrow> nat \<Rightarrow> goError + PriorityBandAccessor" where
  "sh_PriorityBandAccessor s priority =
     (case sh_priorityBands s priority of
        None \<Rightarrow> Inl (Errorf ''failed to get priority band accessor for priority'' [Sentinel ErrPriorityBandNotFound])
      | Some band \<Rightarrow>
          Inr (BandAccessor (pbc_Priority (pb_config band)) (pbc_PriorityName (pb_config band))
                 (pb_flowKeys band) (pb_queues band)))"

definition sh_AllOrderedPriorityLevels :: "registryShard \<Rightarrow> nat list" where
  "sh_AllOrderedPriorityLevels s = sh_orderedPriorityLevels s"

definition sh_Stats :: "registryShard \<Rightarrow> ShardStats" where
  "sh_Stats s =
     \<lparr>ss_TotalCapacityBytes = cfg_MaxBytes (sh_config s),
      ss_TotalByteSize = sh_totalByteSize s,
      ss_TotalLen = sh_totalLen s,
      ss_PerPriorityBandStats = (\<lambda>priority. map_option (\<lambda>band.
         \<lparr>bs_Priority = priority, bs_PriorityName = pbc_PriorityName (pb_config band),
          bs_CapacityBytes = pbc_MaxBytes (pb_config band), bs_ByteSize = pb_byteSize band,
          bs_Len = pb_len band\<rparr>) (sh_priorityBands s priority))\<rparr>"

text \<open>
  A managed queue is shared by reference: what an operation leaves of it is written back under
  its key, and the call to its reconciler reaches \<open>reconcileStats\<close> with the priority of the flow.
\<close>

definition set_queue :: "FlowKey \<Rightarrow> managedQueue \<Rightarrow> registryShard \<Rightarrow> registryShard" where
  "set_queue key mq s =
     (case sh_priorityBands s (Priority key) of
        None \<Rightarrow> s
      | Some band \<Rightarrow> s\<lparr>sh_priorityBands := (sh_priorityBands s)(Priority key \<mapsto>
                        band\<lparr>pb_queues := (pb_queues band)(key \<mapsto> mq)\<rparr>)\<rparr>)"

definition commit_queue :: "FlowKey \<Rightarrow> managedQueue \<Rightarrow> reconcileCall \<Rightarrow> registryShard \<Rightarrow> registryShard" where
  "commit_queue key mq call s =
     (case call of
        None \<Rightarrow> set_queue key mq s
      | Some (lenDelta, byteSizeDelta) \<Rightarrow>
          sh_reconcileStats (Priority key) lenDelta byteSizeDelta (set_queue key mq s))"

section \<open>The contents of a shard\<close>

definition queue_at :: "registryShard \<Rightarrow> FlowKey \<Rightarrow> managedQueue option" where
  "queue_at s key = Option.bind (sh_priorityBands s (Priority key)) (\<lambda>b. pb_queues b key)"

definition items_at :: "registryShard \<Rightarrow> FlowKey \<Rightarrow> flowItem list" where
  "items_at s key = (case queue_at s key of None \<Rightarrow> [] | Some mq \<Rightarrow> mq_contents mq)"

definition band_keys :: "registryShard \<Rightarrow> nat \<Rightarrow> FlowKey list" where
  "band_keys s p = (case sh_priorityBands s p of None \<Rightarrow> [] | Some b \<Rightarrow> pb_flowKeys b)"

definition shard_keys :: "registryShard \<Rightarrow> FlowKey list" where
  "shard_keys s = concat (map (band_keys s) (sh_orderedPriorityLevels s))"

definition band_items :: "registryShard \<Rightarrow> nat \<Rightarrow> flowItem list" where
  "band_items s p = concat (map (items_at s) (band_keys s p))"

definition shard_items :: "registryShard \<Rightarrow> flowItem list" where
  "shard_items s = concat (map (items_at s) (shard_keys s))"

text \<open>Counters that are those of a list of items.\<close>

definition counts :: "uint64 \<Rightarrow> uint64 \<Rightarrow> flowItem list \<Rightarrow> bool" where
  "counts n b xs \<longleftrightarrow> n = of_nat (length xs) \<and> b = bytes xs"

definition queue_ok :: "registryShard \<Rightarrow> store \<Rightarrow> FlowKey \<Rightarrow> managedQueue \<Rightarrow> bool" where
  "queue_ok sh s k mq \<longleftrightarrow> mq_flowKey mq = k \<and> mq_invar mq s \<and> (\<forall>it\<in>set (mq_contents mq). itemFlowKey it = k)"

definition band_ok :: "registryShard \<Rightarrow> nat \<Rightarrow> priorityBand \<Rightarrow> bool" where
  "band_ok sh p b \<longleftrightarrow> pbc_Priority (pb_config b) = p \<and> distinct (pb_flowKeys b) \<and>
     set (pb_flowKeys b) = dom (pb_queues b) \<and> (\<forall>k\<in>dom (pb_queues b). Priority k = p) \<and>
     counts (pb_len b) (pb_byteSize b) (band_items sh p)"

definition shard_ok :: "registryShard \<Rightarrow> store \<Rightarrow> bool" where
  "shard_ok sh s \<longleftrightarrow> store_ok s \<and> \<not> st_panicked s \<and>
     sorted (sh_orderedPriorityLevels sh) \<and> distinct (sh_orderedPriorityLevels sh) \<and>
     set (sh_orderedPriorityLevels sh) = dom (sh_priorityBands sh) \<and>
     (\<forall>p b. sh_priorityBands sh p = Some b \<longrightarrow> band_ok sh p b) \<and>
     (\<forall>k mq. queue_at sh k = Some mq \<longrightarrow> queue_ok sh s k mq) \<and>
     counts (sh_totalLen sh) (sh_totalByteSize sh) (shard_items sh) \<and>
     distinct (map fi_ptr (shard_items sh))"

section \<open>Writing a queue back\<close>

lemma mset_concat_update:
  assumes "distinct ks" "k \<in> set ks" "\<And>k'. k' \<in> set ks \<Longrightarrow> k' \<noteq> k \<Longrightarrow> g k' = f k'"
  shows "mset (concat (map g ks)) + mset (f k) = mset (concat (map f ks)) + mset (g k)"
  using assms
proof (induction ks)
  case (Cons x ks)
  show ?case
  proof (cases "x = k")
    case True
    then have "map g ks = map f ks" using Cons.prems by auto
    then have "concat (map g ks) = concat (map f ks)" by (rule arg_cong)
    with True show ?thesis by (simp add: ac_simps)
  next
    case False
    with Cons show ?thesis by (simp add: ac_simps)
  qed
qed simp

lemma counts_mset: "counts n b xs \<Longrightarrow> mset ys = mset xs \<Longrightarrow> counts n b ys"
  unfolding counts_def by (metis bytes_mset size_mset)

lemma counts_update:
  assumes c: "counts n b xs" and m: "mset xs' + mset old = mset xs + mset new"
    and l: "(of_nat (length new) :: uint64) = of_nat (length old) + ld" and d: "bytes new = bytes old + bd"
  shows "counts (n + ld) (b + bd) xs'"
proof -
  have "mset (xs' @ old) = mset (xs @ new)" using m by simp
  then have "length (xs' @ old) = length (xs @ new)" "bytes (xs' @ old) = bytes (xs @ new)"
    by (metis size_mset, rule bytes_mset)
  then have 1: "length xs' + length old = length xs + length new" and 2: "bytes xs' + bytes old = bytes xs + bytes new"
    by simp_all
  from 1 have "(of_nat (length xs') :: uint64) + of_nat (length old) = of_nat (length xs) + of_nat (length new)"
    by (metis of_nat_add)
  with 2 l d c show ?thesis by (simp add: counts_def)
qed

definition call_delta :: "reconcileCall \<Rightarrow> int64 \<times> int64" where
  "call_delta call = (case call of None \<Rightarrow> (0, 0) | Some d \<Rightarrow> d)"

lemma commit_queue_fields:
  assumes b: "sh_priorityBands sh (Priority k) = Some b"
  shows "sh_orderedPriorityLevels (commit_queue k mq call sh) = sh_orderedPriorityLevels sh" "sh_config (commit_queue k mq call sh) = sh_config sh"
    and "sh_totalLen (commit_queue k mq call sh) = sh_totalLen sh + fst (call_delta call)"
    and "sh_totalByteSize (commit_queue k mq call sh) = sh_totalByteSize sh + snd (call_delta call)"
    and "sh_priorityBands (commit_queue k mq call sh) = (sh_priorityBands sh)(Priority k \<mapsto>
      b\<lparr>pb_queues := (pb_queues b)(k \<mapsto> mq), pb_len := pb_len b + fst (call_delta call),
        pb_byteSize := pb_byteSize b + snd (call_delta call)\<rparr>)"
  using b unfolding commit_queue_def set_queue_def
  by (auto simp: sh_reconcileStats_def Let_def call_delta_def fun_eq_iff split: option.split prod.split)

lemma queue_at_commit:
  assumes "sh_priorityBands sh (Priority k) = Some b"
  shows "queue_at (commit_queue k mq call sh) = (queue_at sh)(k \<mapsto> mq)"
  by (rule ext) (auto simp: queue_at_def commit_queue_fields(5) [OF assms] assms)

lemma items_at_commit:
  assumes "sh_priorityBands sh (Priority k) = Some b"
  shows "items_at (commit_queue k mq call sh) = (items_at sh)(k := mq_contents mq)"
  by (rule ext) (simp add: items_at_def queue_at_commit [OF assms])

lemma band_keys_commit:
  assumes "sh_priorityBands sh (Priority k) = Some b"
  shows "band_keys (commit_queue k mq call sh) = band_keys sh"
  by (rule ext) (simp add: band_keys_def commit_queue_fields(5) [OF assms] assms)

lemma shard_keys_commit:
  assumes "sh_priorityBands sh (Priority k) = Some b"
  shows "shard_keys (commit_queue k mq call sh) = shard_keys sh"
  by (simp add: shard_keys_def band_keys_commit [OF assms] commit_queue_fields(1) [OF assms])

section \<open>The invariant\<close>

lemma shard_okD:
  assumes "shard_ok sh s"
  shows "store_ok s" "\<not> st_panicked s" "sorted (sh_orderedPriorityLevels sh)"
    "distinct (sh_orderedPriorityLevels sh)" "set (sh_orderedPriorityLevels sh) = dom (sh_priorityBands sh)"
    and "\<And>p b. sh_priorityBands sh p = Some b \<Longrightarrow> band_ok sh p b"
    and "\<And>k mq. queue_at sh k = Some mq \<Longrightarrow> queue_ok sh s k mq"
    and "counts (sh_totalLen sh) (sh_totalByteSize sh) (shard_items sh)" "distinct (map fi_ptr (shard_items sh))"
  using assms by (simp_all add: shard_ok_def)

lemma band_okD:
  assumes "band_ok sh p b"
  shows "pbc_Priority (pb_config b) = p" "distinct (pb_flowKeys b)" "set (pb_flowKeys b) = dom (pb_queues b)"
    "\<And>k. k \<in> dom (pb_queues b) \<Longrightarrow> Priority k = p" "counts (pb_len b) (pb_byteSize b) (band_items sh p)"
  using assms by (auto simp: band_ok_def)

lemma queue_okD:
  assumes "queue_ok sh s k mq"
  shows "mq_flowKey mq = k" "mq_invar mq s" "\<And>it. it \<in> set (mq_contents mq) \<Longrightarrow> itemFlowKey it = k"
  using assms by (auto simp: queue_ok_def)

lemma band_keys_priority:
  assumes ok: "shard_ok sh s" and k: "k \<in> set (band_keys sh p)"
  shows "Priority k = p" "\<exists>mq. queue_at sh k = Some mq"
proof -
  obtain b where b: "sh_priorityBands sh p = Some b" and kb: "k \<in> set (pb_flowKeys b)"
    using k by (cases "sh_priorityBands sh p") (auto simp: band_keys_def)
  note bo = band_okD [OF shard_okD(6) [OF ok b]]
  show p: "Priority k = p" using bo(3,4) kb by auto
  have "k \<in> dom (pb_queues b)" using bo(3) kb by simp
  with p b show "\<exists>mq. queue_at sh k = Some mq" by (auto simp: queue_at_def)
qed

lemma queue_at_key:
  assumes ok: "shard_ok sh s" and q: "queue_at sh k = Some mq"
  shows "k \<in> set (band_keys sh (Priority k))" "k \<in> set (shard_keys sh)"
    and "\<exists>b. sh_priorityBands sh (Priority k) = Some b \<and> pb_queues b k = Some mq"
proof -
  obtain b where b: "sh_priorityBands sh (Priority k) = Some b" "pb_queues b k = Some mq"
    using q by (auto simp: queue_at_def bind_eq_Some_conv)
  then have "k \<in> set (pb_flowKeys b)" using band_okD(3) [OF shard_okD(6) [OF ok b(1)]] by auto
  then show kb: "k \<in> set (band_keys sh (Priority k))" using b by (simp add: band_keys_def)
  have "Priority k \<in> set (sh_orderedPriorityLevels sh)" using shard_okD(5) [OF ok] b by auto
  with kb show "k \<in> set (shard_keys sh)" by (auto simp: shard_keys_def)
  show "\<exists>b. sh_priorityBands sh (Priority k) = Some b \<and> pb_queues b k = Some mq" using b by blast
qed

lemma shard_keys_queue:
  assumes ok: "shard_ok sh s" and k: "k \<in> set (shard_keys sh)"
  shows "\<exists>mq. queue_at sh k = Some mq"
  using k band_keys_priority(2) [OF ok] by (auto simp: shard_keys_def)

lemma distinct_band_keys: "shard_ok sh s \<Longrightarrow> distinct (band_keys sh p)"
  using band_okD(2) [OF shard_okD(6)] by (auto simp: band_keys_def split: option.split)

lemma distinct_concat_map:
  "distinct xs \<Longrightarrow> (\<And>x. x \<in> set xs \<Longrightarrow> distinct (f x)) \<Longrightarrow>
   (\<And>x y. x \<in> set xs \<Longrightarrow> y \<in> set xs \<Longrightarrow> x \<noteq> y \<Longrightarrow> set (f x) \<inter> set (f y) = {}) \<Longrightarrow> distinct (concat (map f xs))"
  by (induction xs) fastforce+

lemma distinct_shard_keys:
  assumes ok: "shard_ok sh s"
  shows "distinct (shard_keys sh)"
  unfolding shard_keys_def
proof (rule distinct_concat_map [OF shard_okD(4) [OF ok] distinct_band_keys [OF ok]])
  fix p q :: nat assume "p \<noteq> q"
  then show "set (band_keys sh p) \<inter> set (band_keys sh q) = {}"
    using band_keys_priority(1) [OF ok] by blast
qed

lemma items_at_shard: "k \<in> set (shard_keys sh) \<Longrightarrow> set (items_at sh k) \<subseteq> set (shard_items sh)"
  by (auto simp: shard_items_def)

lemma queue_at_items:
  "shard_ok sh s \<Longrightarrow> queue_at sh k = Some mq \<Longrightarrow> set (mq_contents mq) \<subseteq> set (shard_items sh)"
  using items_at_shard [OF queue_at_key(2)] by (simp add: items_at_def)

lemma shard_items_at:
  assumes ok: "shard_ok sh s" and it: "it \<in> set (shard_items sh)"
  obtains mq where "queue_at sh (itemFlowKey it) = Some mq" "it \<in> set (mq_contents mq)"
proof -
  obtain k where k: "k \<in> set (shard_keys sh)" "it \<in> set (items_at sh k)" using it by (auto simp: shard_items_def)
  obtain mq where mq: "queue_at sh k = Some mq" using shard_keys_queue [OF ok k(1)] by blast
  then have "it \<in> set (mq_contents mq)" using k(2) by (simp add: items_at_def)
  moreover have "itemFlowKey it = k" using queue_okD(3) [OF shard_okD(7) [OF ok mq]] calculation .
  ultimately show thesis using that mq by blast
qed

text \<open>Items of different queues are different objects.\<close>

lemma distinct_concat_disjoint:
  "distinct (map f (concat (map g ks))) \<Longrightarrow> distinct ks \<Longrightarrow> k \<in> set ks \<Longrightarrow> k' \<in> set ks \<Longrightarrow> k \<noteq> k' \<Longrightarrow>
   f ` set (g k) \<inter> f ` set (g k') = {}"
  by (induction ks) auto

lemma queues_disjoint:
  assumes ok: "shard_ok sh s" and q: "queue_at sh k = Some mq" "queue_at sh k' = Some mq'" and ne: "k \<noteq> k'"
  shows "ptrs (mq_contents mq) \<inter> ptrs (mq_contents mq') = {}"
  using distinct_concat_disjoint [OF shard_okD(9) [OF ok, unfolded shard_items_def] distinct_shard_keys [OF ok]
      queue_at_key(2) [OF ok q(1)] queue_at_key(2) [OF ok q(2)] ne] q
  by (simp add: ptrs_def items_at_def)

section \<open>Committing an operation on one queue\<close>

lemma shard_items_commit:
  assumes ok: "shard_ok sh s" and q: "queue_at sh k = Some mq"
  shows "mset (shard_items (commit_queue k mq' call sh)) + mset (mq_contents mq) =
      mset (shard_items sh) + mset (mq_contents mq')"
proof -
  obtain b where b: "sh_priorityBands sh (Priority k) = Some b" using queue_at_key(3) [OF ok q] by blast
  show ?thesis
    using mset_concat_update [OF distinct_shard_keys [OF ok] queue_at_key(2) [OF ok q],
        of "items_at (commit_queue k mq' call sh)" "items_at sh"] q
    by (simp add: shard_items_def shard_keys_commit [OF b] items_at_commit [OF b] items_at_def)
qed

lemma band_items_commit:
  assumes ok: "shard_ok sh s" and q: "queue_at sh k = Some mq"
  shows "mset (band_items (commit_queue k mq' call sh) (Priority k)) + mset (mq_contents mq) =
      mset (band_items sh (Priority k)) + mset (mq_contents mq')"
    and "p \<noteq> Priority k \<Longrightarrow> band_items (commit_queue k mq' call sh) p = band_items sh p"
proof -
  obtain b where b: "sh_priorityBands sh (Priority k) = Some b" using queue_at_key(3) [OF ok q] by blast
  show "mset (band_items (commit_queue k mq' call sh) (Priority k)) + mset (mq_contents mq) =
      mset (band_items sh (Priority k)) + mset (mq_contents mq')"
    using mset_concat_update [OF distinct_band_keys [OF ok, of "Priority k"] queue_at_key(1) [OF ok q],
        of "items_at (commit_queue k mq' call sh)" "items_at sh"] q
    by (simp add: band_items_def band_keys_commit [OF b] items_at_commit [OF b] items_at_def)
  assume "p \<noteq> Priority k"
  then have "k \<notin> set (band_keys sh p)" using band_keys_priority(1) [OF ok] by blast
  then have "map (items_at (commit_queue k mq' call sh)) (band_keys sh p) = map (items_at sh) (band_keys sh p)"
    by (auto simp: items_at_commit [OF b])
  then show "band_items (commit_queue k mq' call sh) p = band_items sh p"
    unfolding band_items_def band_keys_commit [OF b] by (rule arg_cong)
qed

text \<open>
  The central fact: after an operation on one queue that changes only handles of its old and new
  items and reports the difference of its counters, the whole shard is in order again.
\<close>

lemma commit_ok:
  assumes ok: "shard_ok sh s" and q: "queue_at sh k = Some mq"
    and inv: "mq_invar mq' s'" and key: "mq_flowKey mq' = k" "\<And>it. it \<in> set (mq_contents mq') \<Longrightarrow> itemFlowKey it = k"
    and f: "frame A s s'" and A: "A \<subseteq> ptrs (mq_contents mq) \<union> ptrs (mq_contents mq')"
    and new: "ptrs (mq_contents mq') \<inter> ptrs (shard_items sh) \<subseteq> ptrs (mq_contents mq)"
    and l: "(of_nat (length (mq_contents mq')) :: uint64) = of_nat (length (mq_contents mq)) + fst (call_delta call)"
    and d: "bytes (mq_contents mq') = bytes (mq_contents mq) + snd (call_delta call)"
  shows "shard_ok (commit_queue k mq' call sh) s'"
proof -
  let ?sh = "commit_queue k mq' call sh"
  obtain b where b: "sh_priorityBands sh (Priority k) = Some b" and bq: "pb_queues b k = Some mq"
    using queue_at_key(3) [OF ok q] by blast
  note F = commit_queue_fields [OF b, of mq' call]
  have bands: "band_ok ?sh p b'" if "sh_priorityBands ?sh p = Some b'" for p b'
  proof (cases "p = Priority k")
    case True
    note bo = band_okD [OF shard_okD(6) [OF ok b]]
    have dm: "insert k (dom (pb_queues b)) = dom (pb_queues b)" using bq by auto
    have b': "b' = b\<lparr>pb_queues := (pb_queues b)(k \<mapsto> mq'), pb_len := pb_len b + fst (call_delta call),
        pb_byteSize := pb_byteSize b + snd (call_delta call)\<rparr>" using that True by (simp add: F(5))
    have "\<forall>k'\<in>dom (pb_queues b). Priority k' = Priority k" using bo(4) by blast
    moreover have "counts (pb_len b + fst (call_delta call)) (pb_byteSize b + snd (call_delta call))
        (band_items ?sh (Priority k))"
      by (rule counts_update [OF bo(5) band_items_commit(1) [OF ok q] l d])
    ultimately show ?thesis using True bo(1-3) by (simp add: band_ok_def b' dm)
  next
    case False
    then have "sh_priorityBands sh p = Some b'" using that by (simp add: F(5))
    from shard_okD(6) [OF ok this] show ?thesis
      using band_items_commit(2) [OF ok q False] by (simp add: band_ok_def)
  qed
  have queues: "queue_ok ?sh s' k' m" if "queue_at ?sh k' = Some m" for k' m
  proof (cases "k' = k")
    case True
    then show ?thesis using that inv key by (auto simp: queue_at_commit [OF b] queue_ok_def)
  next
    case False
    then have m: "queue_at sh k' = Some m" using that by (simp add: queue_at_commit [OF b])
    note qo = queue_okD [OF shard_okD(7) [OF ok m]]
    have "ptrs (mq_contents m) \<subseteq> ptrs (shard_items sh)" by (rule ptrs_subset [OF queue_at_items [OF ok m]])
    then have "A \<inter> ptrs (mq_contents m) = {}" using A new queues_disjoint [OF ok q m] False by blast
    with mq_invar_frame [OF qo(2) f] qo show ?thesis by (simp add: queue_ok_def)
  qed
  have items: "mset (shard_items ?sh) + mset (mq_contents mq) = mset (shard_items sh) + mset (mq_contents mq')"
    by (rule shard_items_commit [OF ok q])
  have total: "counts (sh_totalLen ?sh) (sh_totalByteSize ?sh) (shard_items ?sh)"
    unfolding F(3,4) by (rule counts_update [OF shard_okD(8) [OF ok] items l d])
  have "distinct (map fi_ptr (shard_items ?sh))"
    unfolding shard_items_def shard_keys_commit [OF b] map_concat map_map comp_def
  proof (rule distinct_concat_map [OF distinct_shard_keys [OF ok]])
    have inv_at: "\<exists>m. queue_at ?sh k' = Some m \<and> mq_invar m s'" if "k' \<in> set (shard_keys sh)" for k'
      using shard_keys_queue [OF ok that] queues [of k'] queue_okD(2) by (auto simp: queue_at_commit [OF b])
    show "distinct (map fi_ptr (items_at ?sh k'))" if "k' \<in> set (shard_keys sh)" for k'
      using inv_at [OF that] sq.distinct_ptrs by (auto simp: items_at_def mq_invar_def mq_contents_def)
    have old: "ptrs (items_at sh x) \<inter> ptrs (items_at sh y) = {}"
      if xy: "x \<in> set (shard_keys sh)" "y \<in> set (shard_keys sh)" "x \<noteq> y" for x y
    proof -
      obtain mx my where m: "queue_at sh x = Some mx" "queue_at sh y = Some my"
        using shard_keys_queue [OF ok xy(1)] shard_keys_queue [OF ok xy(2)] by blast
      then show ?thesis using queues_disjoint [OF ok m xy(3)] by (simp add: items_at_def)
    qed
    have ka: "items_at sh k = mq_contents mq" using q by (simp add: items_at_def)
    have fresh: "ptrs (mq_contents mq') \<inter> ptrs (items_at sh y) = {}" if "y \<in> set (shard_keys sh)" "y \<noteq> k" for y
    proof -
      have "ptrs (items_at sh y) \<subseteq> ptrs (shard_items sh)" by (rule ptrs_subset [OF items_at_shard [OF that(1)]])
      moreover have "ptrs (mq_contents mq) \<inter> ptrs (items_at sh y) = {}"
        using old [OF queue_at_key(2) [OF ok q] that(1) that(2) [symmetric]] by (simp add: ka)
      ultimately show ?thesis using new by blast
    qed
    show "set (map fi_ptr (items_at ?sh x)) \<inter> set (map fi_ptr (items_at ?sh y)) = {}"
      if "x \<in> set (shard_keys sh)" "y \<in> set (shard_keys sh)" "x \<noteq> y" for x y
    proof -
      have "ptrs (items_at ?sh x) \<inter> ptrs (items_at ?sh y) = {}"
        using old [OF that] fresh [of x] fresh [of y] that
        by (cases "x = k"; cases "y = k") (simp_all add: items_at_commit [OF b] Int_commute)
      then show ?thesis by (simp add: ptrs_def)
    qed
  qed
  with bands queues total shard_okD(1-5) [OF ok] frameD(6,7) [OF f] b show ?thesis
    by (auto simp: shard_ok_def F(1,5))
qed

lemma ManagedQueue_at: "sh_ManagedQueue sh k = Inr mq \<longleftrightarrow> queue_at sh k = Some mq"
  by (auto simp: sh_ManagedQueue_def queue_at_def bind_eq_Some_conv split: option.splits)

lemma ManagedQueue_none:
  "queue_at sh k = None \<Longrightarrow> \<exists>e. sh_ManagedQueue sh k = Inl e \<and>
     (errors_Is e ErrPriorityBandNotFound \<or> errors_Is e ErrFlowInstanceNotFound)"
  by (auto simp: sh_ManagedQueue_def queue_at_def split: option.splits)

lemma accessor_ok:
  assumes ok: "shard_ok sh s" and a: "sh_PriorityBandAccessor sh p = Inr a"
  shows "acc_ok a" "acc_Priority a = p" "acc_FlowKeys a = band_keys sh p" "distinct (acc_FlowKeys a)"
    "acc_view a = map (the \<circ> queue_at sh) (band_keys sh p)"
proof -
  obtain b where b: "sh_priorityBands sh p = Some b"
    and a': "a = BandAccessor (pbc_Priority (pb_config b)) (pbc_PriorityName (pb_config b)) (pb_flowKeys b) (pb_queues b)"
    using a by (auto simp: sh_PriorityBandAccessor_def split: option.splits)
  note bo = band_okD [OF shard_okD(6) [OF ok b]]
  show "acc_ok a" using bo(3) by (auto simp: a' acc_ok_def)
  show "acc_Priority a = p" using bo(1) by (simp add: a')
  show k: "acc_FlowKeys a = band_keys sh p" by (simp add: a' band_keys_def b)
  show "distinct (acc_FlowKeys a)" unfolding k by (rule distinct_band_keys [OF ok])
  have "pb_queues b k = queue_at sh k" if "k \<in> set (pb_flowKeys b)" for k
    using that bo(3,4) b by (auto simp: queue_at_def)
  then show "acc_view a = map (the \<circ> queue_at sh) (band_keys sh p)"
    by (simp add: a' acc_view_def band_keys_def b)
qed

section \<open>The queue operations at the level of the shard\<close>

lemma queue_at_inv: "shard_ok sh s \<Longrightarrow> queue_at sh k = Some mq \<Longrightarrow> mq_invar mq s"
  using queue_okD(2) [OF shard_okD(7)] .

lemma shard_Add:
  assumes ok: "shard_ok sh s" and q: "queue_at sh k = Some mq" and k: "itemFlowKey it = k"
    and new: "fi_ptr it \<notin> ptrs (shard_items sh)"
  shows "\<exists>mq' s' call. mq_Add mq s it = (None, mq', s', call) \<and> shard_ok (commit_queue k mq' call sh) s' \<and>
    call_delta call = (1, itemByteSize it) \<and> mset (mq_contents mq') = add_mset it (mset (mq_contents mq)) \<and>
    mset (shard_items (commit_queue k mq' call sh)) = add_mset it (mset (shard_items sh)) \<and>
    frame (insert (fi_ptr it) (ptrs (mq_contents mq))) s s'"
proof -
  note qo = queue_okD [OF shard_okD(7) [OF ok q]]
  have sub: "ptrs (mq_contents mq) \<subseteq> ptrs (shard_items sh)" by (rule ptrs_subset [OF queue_at_items [OF ok q]])
  then have n: "fi_ptr it \<notin> ptrs (mq_contents mq)" using new by blast
  obtain mq' s' where r: "mq_Add mq s it = (None, mq', s', Some (1, itemByteSize it))" "mq_invar mq' s'"
      "mset (mq_contents mq') = add_mset it (mset (mq_contents mq))" "mq_flowKey mq' = mq_flowKey mq"
      "frame (insert (fi_ptr it) (ptrs (mq_contents mq))) s s'"
    using mq_Add_ok [OF qo(2) n] by blast
  let ?call = "Some (1, itemByteSize it)"
  have p: "ptrs (mq_contents mq') = insert (fi_ptr it) (ptrs (mq_contents mq))"
    using ptrs_mset [of "mq_contents mq'" "it # mq_contents mq"] r(3) by simp
  have st: "set (mq_contents mq') = insert it (set (mq_contents mq))"
    using r(3) by (metis set_mset_add_mset_insert set_mset_mset)
  have "shard_ok (commit_queue k mq' ?call sh) s'"
  proof (rule commit_ok [OF ok q r(2) _ _ r(5)])
    show "itemFlowKey x = k" if "x \<in> set (mq_contents mq')" for x using that st k qo(3) by auto
    have "length (mq_contents mq') = Suc (length (mq_contents mq))" using r(3) by (metis size_add_mset size_mset)
    then show "(of_nat (length (mq_contents mq')) :: uint64) = of_nat (length (mq_contents mq)) + fst (call_delta ?call)"
      by (simp add: call_delta_def)
    show "bytes (mq_contents mq') = bytes (mq_contents mq) + snd (call_delta ?call)"
      using bytes_mset [of "mq_contents mq'" "it # mq_contents mq"] r(3) by (simp add: call_delta_def)
  qed (use r(4) qo(1) p new in auto)
  moreover have "mset (shard_items (commit_queue k mq' ?call sh)) = add_mset it (mset (shard_items sh))"
    using shard_items_commit [OF ok q, of mq' ?call] r(3) by simp
  ultimately show ?thesis using r by (auto simp: call_delta_def)
qed

lemma shard_removal:
  assumes ok: "shard_ok sh s" and q: "queue_at sh k = Some mq" and inv: "mq_invar mq' s'"
    and key: "mq_flowKey mq' = mq_flowKey mq" and m: "mset (mq_contents mq) = mset (mq_contents mq') + mset rs"
    and f: "frame (ptrs (mq_contents mq)) s s'" and d: "call_delta call = (- of_nat (length rs), - bytes rs)"
  shows "shard_ok (commit_queue k mq' call sh) s'"
    and "mset (shard_items sh) = mset (shard_items (commit_queue k mq' call sh)) + mset rs"
proof -
  note qo = queue_okD [OF shard_okD(7) [OF ok q]]
  have e: "mset (mq_contents mq) = mset (mq_contents mq' @ rs)" using m by simp
  have len: "length (mq_contents mq) = length (mq_contents mq') + length rs" using arg_cong [OF e, of size] by simp
  have byt: "bytes (mq_contents mq) = bytes (mq_contents mq') + bytes rs" using bytes_mset [OF e] by simp
  have p: "ptrs (mq_contents mq) = ptrs (mq_contents mq') \<union> ptrs rs" using ptrs_mset [OF e] by simp
  have st: "set (mq_contents mq) = set (mq_contents mq') \<union> set rs" using arg_cong [OF e, of set_mset] by simp
  show "shard_ok (commit_queue k mq' call sh) s'"
    by (rule commit_ok [OF ok q inv _ _ f]) (use qo(1) key qo(3) st p d len byt in auto)
  show "mset (shard_items sh) = mset (shard_items (commit_queue k mq' call sh)) + mset rs"
    using shard_items_commit [OF ok q, of mq' call] m by simp
qed

lemma shard_Remove:
  assumes ok: "shard_ok sh s" and q: "queue_at sh k = Some mq" and it: "it \<in> set (mq_contents mq)"
    and h: "Handle s it = Some h"
  shows "\<exists>mq' s' call. mq_Remove mq s (Some h) = (Inr it, mq', s', call) \<and>
    shard_ok (commit_queue k mq' call sh) s' \<and> mset (mq_contents mq') = mset (mq_contents mq) - {#it#} \<and>
    mset (shard_items sh) = add_mset it (mset (shard_items (commit_queue k mq' call sh))) \<and>
    call_delta call = (- 1, - itemByteSize it) \<and> frame (ptrs (mq_contents mq)) s s' \<and> IsInvalidated s' h"
proof -
  obtain mq' s' where r: "mq_Remove mq s (Some h) = (Inr it, mq', s', Some (- 1, - itemByteSize it))"
      "mq_invar mq' s'" "mset (mq_contents mq') = mset (mq_contents mq) - {#it#}" "mq_flowKey mq' = mq_flowKey mq"
      "frame (ptrs (mq_contents mq)) s s'" "IsInvalidated s' h"
    using mq_Remove_ok [OF queue_at_inv [OF ok q] it h] by blast
  have m: "mset (mq_contents mq) = mset (mq_contents mq') + mset [it]" using r(3) it by simp
  show ?thesis
    using shard_removal [OF ok q r(2,4) m r(5), of "Some (- 1, - itemByteSize it)"] r by (simp add: call_delta_def)
qed

lemma call_delta_removal: "call_delta (removal_call rs) = (- of_nat (length rs), - bytes rs)"
  by (simp add: removal_call_def call_delta_def)

lemma shard_Cleanup:
  assumes ok: "shard_ok sh s" and q: "queue_at sh k = Some mq"
  shows "\<exists>mq' s' call. mq_Cleanup mq s P = (filter P (mq_contents mq), mq', s', call) \<and>
    shard_ok (commit_queue k mq' call sh) s' \<and>
    mset (mq_contents mq') = mset (filter (\<lambda>x. \<not> P x) (mq_contents mq)) \<and>
    mset (shard_items sh) = mset (shard_items (commit_queue k mq' call sh)) + mset (filter P (mq_contents mq)) \<and>
    frame (ptrs (mq_contents mq)) s s'"
proof -
  let ?rs = "filter P (mq_contents mq)"
  obtain mq' s' where r: "mq_Cleanup mq s P = (?rs, mq', s', removal_call ?rs)" "mq_invar mq' s'"
      "mset (mq_contents mq') = mset (filter (\<lambda>x. \<not> P x) (mq_contents mq))" "mq_flowKey mq' = mq_flowKey mq"
      "frame (ptrs (mq_contents mq)) s s'"
    using mq_Cleanup_ok [OF queue_at_inv [OF ok q], of P] by blast
  have m: "mset (mq_contents mq) = mset (mq_contents mq') + mset ?rs"
    unfolding r(3) using mset_partition [of P "mq_contents mq"] by (simp add: add.commute)
  show ?thesis
    using shard_removal [OF ok q r(2,4) m r(5) call_delta_removal] r by blast
qed

lemma shard_Drain:
  assumes ok: "shard_ok sh s" and q: "queue_at sh k = Some mq"
  shows "\<exists>mq' s' call. mq_Drain mq s = (mq_contents mq, mq', s', call) \<and>
    shard_ok (commit_queue k mq' call sh) s' \<and> mq_contents mq' = [] \<and>
    mset (shard_items sh) = mset (shard_items (commit_queue k mq' call sh)) + mset (mq_contents mq) \<and>
    frame (ptrs (mq_contents mq)) s s'"
proof -
  let ?rs = "mq_contents mq"
  obtain mq' s' where r: "mq_Drain mq s = (?rs, mq', s', removal_call ?rs)" "mq_invar mq' s'"
      "mq_contents mq' = []" "mq_flowKey mq' = mq_flowKey mq" "frame (ptrs ?rs) s s'"
    using mq_Drain_ok [OF queue_at_inv [OF ok q]] by blast
  have m: "mset ?rs = mset (mq_contents mq') + mset ?rs" unfolding r(3) by simp
  show ?thesis
    using shard_removal [OF ok q r(2,4) m r(5) call_delta_removal] r by blast
qed

lemma shard_ok_final: "shard_ok sh s \<Longrightarrow> shard_ok sh (s\<lparr>st_final := f, st_ctxErr := c\<rparr>)"
  unfolding shard_ok_def queue_ok_def using mq_invar_final by (auto simp: store_ok_def)

section \<open>What a selection leaves behind\<close>

text \<open>
  A selection updates the state of the band's policy, and RoundRobin sorts the slice of keys it
  was given in place: that is the slice cached in the band when the view is the whole band.
\<close>

definition store_selection ::
  "PriorityBandAccessor \<Rightarrow> InterFlowDispatchPolicy \<Rightarrow> FlowKey list \<Rightarrow> registryShard \<Rightarrow> registryShard" where
  "store_selection band policy keys s =
     (case sh_priorityBands s (acc_Priority band) of
        None \<Rightarrow> s
      | Some b \<Rightarrow> s\<lparr>sh_priorityBands := (sh_priorityBands s)(acc_Priority band \<mapsto>
          b\<lparr>pb_interFlowDispatchPolicy := policy,
            pb_flowKeys := (case band of BandAccessor _ _ _ _ \<Rightarrow> keys | SubsetAccessor _ _ \<Rightarrow> pb_flowKeys b)\<rparr>)\<rparr>)"

definition selection_keys :: "PriorityBandAccessor \<Rightarrow> FlowKey list \<Rightarrow> registryShard \<Rightarrow> bool" where
  "selection_keys band keys s \<longleftrightarrow>
     (case band of BandAccessor _ _ _ _ \<Rightarrow> mset keys = mset (band_keys s (acc_Priority band)) | SubsetAccessor _ _ \<Rightarrow> True)"

lemma store_selection_fields:
  "sh_orderedPriorityLevels (store_selection a pol keys sh) = sh_orderedPriorityLevels sh"
  "sh_config (store_selection a pol keys sh) = sh_config sh"
  "sh_totalLen (store_selection a pol keys sh) = sh_totalLen sh"
  "sh_totalByteSize (store_selection a pol keys sh) = sh_totalByteSize sh"
  "queue_at (store_selection a pol keys sh) = queue_at sh"
  "dom (sh_priorityBands (store_selection a pol keys sh)) = dom (sh_priorityBands sh)"
  by (auto simp: store_selection_def queue_at_def fun_eq_iff split: option.splits)

lemma store_selection_band:
  "sh_priorityBands (store_selection a pol keys sh) p = Some b' \<Longrightarrow>
   \<exists>b. sh_priorityBands sh p = Some b \<and> pb_config b' = pb_config b \<and> pb_queues b' = pb_queues b \<and>
     pb_len b' = pb_len b \<and> pb_byteSize b' = pb_byteSize b"
  by (auto simp: store_selection_def split: option.splits if_splits)

lemma store_selection_keys:
  assumes "selection_keys a keys sh"
  shows "mset (band_keys (store_selection a pol keys sh) p) = mset (band_keys sh p)"
  using assms
  by (auto simp: selection_keys_def store_selection_def band_keys_def split: option.splits PriorityBandAccessor.splits)

lemma mset_concat_map_mset: "mset xs = mset ys \<Longrightarrow> mset (concat (map f xs)) = mset (concat (map f ys))"
  by (simp add: mset_concat flip: mset_map sum_mset_sum_list) (metis mset_map)

lemma store_selection_items:
  assumes "selection_keys a keys sh"
  shows "mset (band_items (store_selection a pol keys sh) p) = mset (band_items sh p)"
    and "mset (shard_items (store_selection a pol keys sh)) = mset (shard_items sh)"
proof -
  let ?sh = "store_selection a pol keys sh"
  have it: "items_at ?sh = items_at sh" by (rule ext) (simp add: items_at_def store_selection_fields)
  show "mset (band_items ?sh p) = mset (band_items sh p)"
    unfolding band_items_def it by (rule mset_concat_map_mset [OF store_selection_keys [OF assms]])
  have "mset (shard_keys ?sh) = mset (shard_keys sh)"
    unfolding shard_keys_def store_selection_fields mset_concat map_map comp_def
    by (simp add: store_selection_keys [OF assms])
  then show "mset (shard_items ?sh) = mset (shard_items sh)"
    unfolding shard_items_def it by (rule mset_concat_map_mset)
qed

lemma store_selection_ok:
  assumes ok: "shard_ok sh s" and k: "selection_keys a keys sh"
  shows "shard_ok (store_selection a pol keys sh) s"
proof -
  let ?sh = "store_selection a pol keys sh"
  note items = store_selection_items [OF k, of pol]
  have band: "band_ok ?sh p b'" if p: "sh_priorityBands ?sh p = Some b'" for p b'
  proof -
    obtain b where b: "sh_priorityBands sh p = Some b" "pb_config b' = pb_config b" "pb_queues b' = pb_queues b"
        "pb_len b' = pb_len b" "pb_byteSize b' = pb_byteSize b" using store_selection_band [OF p] by blast
    note bo = band_okD [OF shard_okD(6) [OF ok b(1)]]
    have "mset (pb_flowKeys b') = mset (pb_flowKeys b)"
      using store_selection_keys [OF k, of pol p] p b(1) by (simp add: band_keys_def)
    then have "distinct (pb_flowKeys b')" "set (pb_flowKeys b') = set (pb_flowKeys b)"
      using bo(2) by (metis mset_eq_imp_distinct_iff, metis set_mset_mset)
    with bo b counts_mset [OF bo(5) items(1)] show ?thesis by (auto simp: band_ok_def)
  qed
  have "mset (map fi_ptr (shard_items ?sh)) = mset (map fi_ptr (shard_items sh))" using items(2) by simp
  then have "distinct (map fi_ptr (shard_items ?sh))"
    using shard_okD(9) [OF ok] by (metis mset_eq_imp_distinct_iff)
  with band shard_okD [OF ok] counts_mset [OF shard_okD(8) [OF ok] items(2)] show ?thesis
    by (simp add: shard_ok_def store_selection_fields queue_ok_def)
qed

lemma inter_SelectQueue_keys:
  assumes "inter_SelectQueue pol a = Some (r, pol', keys)"
  shows "mset keys = mset (acc_FlowKeys a)"
  using assms
  by (cases pol) (auto simp: selectNextQueue_rotate Let_def split: list.splits prod.splits)

section \<open>A new shard\<close>

definition empty_bands :: "registryShard \<Rightarrow> bool" where
  "empty_bands s \<longleftrightarrow> (\<forall>p b. sh_priorityBands s p = Some b \<longrightarrow> pbc_Priority (pb_config b) = p \<and>
     pb_queues b = Map.empty \<and> pb_flowKeys b = [] \<and> pb_len b = 0 \<and> pb_byteSize b = 0)"

lemma add_bands_ok:
  "add_bands cfgs s = Inr s' \<Longrightarrow> distinct (sh_orderedPriorityLevels s @ map pbc_Priority cfgs) \<Longrightarrow>
   set (sh_orderedPriorityLevels s) = dom (sh_priorityBands s) \<Longrightarrow> empty_bands s \<Longrightarrow>
   sh_orderedPriorityLevels s' = sh_orderedPriorityLevels s @ map pbc_Priority cfgs \<and>
   set (sh_orderedPriorityLevels s') = dom (sh_priorityBands s') \<and> sh_totalLen s' = sh_totalLen s \<and>
   sh_totalByteSize s' = sh_totalByteSize s \<and> sh_config s' = sh_config s \<and> empty_bands s'"
proof (induction cfgs s rule: add_bands.induct)
  case (2 c rest s)
  obtain ip ap where p: "inter_NewPolicyFromName (pbc_InterFlowDispatchPolicy c) = Inr ip"
      "intra_NewPolicyFromName (pbc_IntraFlowDispatchPolicy c) = Inr ap"
    using "2.prems"(1) by (auto split: sum.splits)
  let ?b = "\<lparr>pb_config = c, pb_queues = Map.empty, pb_flowKeys = [], pb_byteSize = 0, pb_len = 0,
     pb_interFlowDispatchPolicy = ip, pb_defaultIntraFlowDispatchPolicy = ap\<rparr>"
  let ?s = "s\<lparr>sh_priorityBands := (sh_priorityBands s)(pbc_Priority c \<mapsto> ?b),
     sh_orderedPriorityLevels := sh_orderedPriorityLevels s @ [pbc_Priority c]\<rparr>"
  have step: "add_bands rest ?s = Inr s'" using "2.prems"(1) p by simp
  have d: "distinct (sh_orderedPriorityLevels ?s @ map pbc_Priority rest)" using "2.prems"(2) by simp
  have l: "set (sh_orderedPriorityLevels ?s) = dom (sh_priorityBands ?s)" using "2.prems"(3) by simp
  have e: "empty_bands ?s" using "2.prems"(4) unfolding empty_bands_def by simp
  from "2.IH" [OF p step d l e] show ?case by auto
qed simp

lemma newShard_ok:
  assumes n: "newShard i cfg hasR = Inr sh" and d: "distinct (map pbc_Priority (cfg_PriorityBands cfg))"
    and s: "store_ok s" "\<not> st_panicked s"
  shows "shard_ok sh s" "sh_orderedPriorityLevels sh = sort (map pbc_Priority (cfg_PriorityBands cfg))"
    "shard_items sh = []"
proof -
  let ?s0 = "\<lparr>sh_id = i, sh_config = cfg, sh_isActive = True, sh_hasReconcileFun = hasR, sh_reconcileCalls = [],
     sh_priorityBands = Map.empty, sh_orderedPriorityLevels = [], sh_totalByteSize = 0, sh_totalLen = 0\<rparr>"
  obtain sh1 where 1: "add_bands (cfg_PriorityBands cfg) ?s0 = Inr sh1"
    and sh: "sh = sh1\<lparr>sh_orderedPriorityLevels := sort (sh_orderedPriorityLevels sh1)\<rparr>"
    using n by (auto simp: newShard_def split: sum.splits)
  have e0: "empty_bands ?s0" by (simp add: empty_bands_def)
  have F: "sh_orderedPriorityLevels sh1 = map pbc_Priority (cfg_PriorityBands cfg)"
    "pbc_Priority ` set (cfg_PriorityBands cfg) = dom (sh_priorityBands sh1)" "sh_totalLen sh1 = 0" "sh_totalByteSize sh1 = 0"
    "empty_bands sh1"
    using add_bands_ok [OF 1 _ _ e0] d by auto
  show "sh_orderedPriorityLevels sh = sort (map pbc_Priority (cfg_PriorityBands cfg))" by (simp add: sh F(1))
  have bk: "band_keys sh p = []" for p using F(5) by (auto simp: empty_bands_def band_keys_def sh split: option.split)
  then show items: "shard_items sh = []" by (simp add: shard_items_def shard_keys_def)
  have "queue_at sh k = None" for k using F(5) by (cases "sh_priorityBands sh1 (Priority k)") (auto simp: empty_bands_def queue_at_def sh)
  moreover have "band_ok sh p b" if "sh_priorityBands sh p = Some b" for p b
    using F(5) that bk by (simp add: empty_bands_def band_ok_def counts_def band_items_def sh)
  ultimately show "shard_ok sh s"
    using F(1-4) d s items by (simp add: shard_ok_def sh counts_def)
qed

end
