(* ===== verification/ShardProcessor.thy ===== *)
theory ShardProcessor
  imports RegistryShard
begin

text \<open>
  The shard processor (\<open>controller/internal/processor.go\<close>): enqueueing with its capacity check,
  the dispatch cycle, expiry cleanup, eviction and shutdown. Each operation takes the shard and
  the store of shared objects and returns them updated. The clock, the band filter and the order
  in which the cleanup workers reach the queues are arguments.
\<close>

definition enqueueChannelBufferSize :: nat where "enqueueChannelBufferSize = 100"
definition maxCleanupWorkers :: nat where "maxCleanupWorkers = 4"

record ShardProcessor =
  sp_shard :: registryShard
  sp_enqueueChan :: "flowItem option list"
  sp_chanClosed :: bool
  sp_isShuttingDown :: bool
  sp_shutdownOnce :: bool

definition NewShardProcessor :: "registryShard \<Rightarrow> ShardProcessor" where
  "NewShardProcessor shard =
     \<lparr>sp_shard = shard, sp_enqueueChan = [], sp_chanClosed = False, sp_isShuttingDown = False,
      sp_shutdownOnce = False\<rparr>"

section \<open>Enqueueing\<close>

definition hasCapacity :: "registryShard \<Rightarrow> nat \<Rightarrow> uint64 \<Rightarrow> bool" where
  "hasCapacity sh priority sz =
     (if sz = 0 then True
      else
        let stats = sh_Stats sh in
        if ss_TotalCapacityBytes stats > 0 \<and> ss_TotalByteSize stats + sz > ss_TotalCapacityBytes stats
        then False
        else case ss_PerPriorityBandStats stats priority of
          None \<Rightarrow> False
        | Some bandStats \<Rightarrow> bs_ByteSize bandStats + sz \<le> bs_CapacityBytes bandStats)"

definition rejected :: "goError \<Rightarrow> goError option" where
  "rejected err = Some (Errorf ''%w: %w'' [Sentinel ErrRejected, err])"

definition evicted :: "goError option \<Rightarrow> goError option" where
  "evicted err = Some (Errorf ''%w: %w'' (Sentinel ErrEvicted # (case err of None \<Rightarrow> [] | Some e \<Rightarrow> [e])))"

definition sp_enqueue :: "flowItem \<Rightarrow> registryShard \<times> store \<Rightarrow> registryShard \<times> store" where
  "sp_enqueue item = (\<lambda>(sh, s).
     let key = itemFlowKey item in
     case sh_ManagedQueue sh key of
       Inl err \<Rightarrow>
         (sh, finalize item QueueOutcomeRejectedOther
                (rejected (Errorf ''configuration error: failed to get queue for flow key'' [err])) s)
     | Inr managedQ \<Rightarrow>
         (case sh_PriorityBandAccessor sh (Priority key) of
            Inl err \<Rightarrow>
              (sh, finalize item QueueOutcomeRejectedOther
                     (rejected (Errorf ''configuration error: failed to get priority band for priority'' [err])) s)
          | Inr band \<Rightarrow>
              if \<not> hasCapacity sh (Priority key) (itemByteSize item)
              then (sh, finalize item QueueOutcomeRejectedCapacity (rejected (Sentinel ErrQueueAtCapacity)) s)
              else if isFinalized s item then (sh, s)
              else
                (case mq_Add managedQ s item of
                   (err, mq, s1, call) \<Rightarrow>
                     let sh1 = commit_queue key mq call sh in
                     case err of
                       Some e \<Rightarrow>
                         (sh1, finalize item QueueOutcomeRejectedOther
                                 (rejected (Errorf ''failed to add item to queue for flow key'' [e])) s1)
                     | None \<Rightarrow> (sh1, s1))))"

section \<open>Dispatching\<close>

definition selectItem ::
  "registryShard \<Rightarrow> PriorityBandAccessor \<Rightarrow> ((goError + flowItem option) \<times> registryShard) option" where
  "selectItem sh band =
     (case sh_InterFlowDispatchPolicy sh (acc_Priority band) of
        Inl err \<Rightarrow> Some (Inl (Errorf ''could not get InterFlowDispatchPolicy'' [Sentinel ErrInterFlow, err]), sh)
      | Inr interP \<Rightarrow>
          (case inter_SelectQueue interP band of
             None \<Rightarrow> None
           | Some (res, interP', keys) \<Rightarrow>
               let sh1 = store_selection band interP' keys sh in
               (case res of
                  Inl err \<Rightarrow> Some (Inl (Errorf ''InterFlowDispatchPolicy failed to select queue''
                                       [Sentinel ErrInterFlow, err]), sh1)
                | Inr None \<Rightarrow> Some (Inr None, sh1)
                | Inr (Some queue) \<Rightarrow>
                    (case sh_IntraFlowDispatchPolicy sh1 (mq_flowKey queue) of
                       Inl err \<Rightarrow> Some (Inl (Errorf ''could not get IntraFlowDispatchPolicy for flow''
                                            [Sentinel ErrIntraFlow, err]), sh1)
                     | Inr intraP \<Rightarrow>
                         (case intra_SelectItem intraP (Some queue) of
                            Inl err \<Rightarrow> Some (Inl (Errorf ''IntraFlowDispatchPolicy failed to select item for flow''
                                                 [Sentinel ErrIntraFlow, err]), sh1)
                          | Inr item \<Rightarrow> Some (Inr item, sh1))))))"

definition checkItemExpiry :: "store \<Rightarrow> flowItem \<Rightarrow> time \<Rightarrow> bool \<times> QueueOutcome \<times> goError option" where
  "checkItemExpiry s item now =
     (if isFinalized s item then (True, FinalState s item)
      else case st_ctxErr s (fi_ptr item) of
        Some ctxErr \<Rightarrow>
          (True, QueueOutcomeEvictedContextCancelled, Some (Errorf ''%w: %w'' [Sentinel ErrContextCancelled, Sentinel ctxErr]))
      | None \<Rightarrow>
          if EffectiveTTL item > 0 \<and> time_Sub now (EnqueueTime item) > EffectiveTTL item
          then (True, QueueOutcomeEvictedTTL, Some (Sentinel ErrTTLExpired))
          else (False, QueueOutcomeNotYetFinalized, None))"

definition dispatchItem ::
  "flowItem \<Rightarrow> time \<Rightarrow> registryShard \<times> store \<Rightarrow> goError option \<times> registryShard \<times> store" where
  "dispatchItem item now = (\<lambda>(sh, s).
     let key = itemFlowKey item in
     case sh_ManagedQueue sh key of
       Inl err \<Rightarrow> (Some (Errorf ''failed to get ManagedQueue for flow'' [Sentinel ErrIntraFlow, err]), sh, s)
     | Inr managedQ \<Rightarrow>
         (case mq_Remove managedQ s (Handle s item) of
            (Inl err, mq, s1, call) \<Rightarrow>
              (Some (Errorf ''failed to remove item from queue for flow'' [Sentinel ErrIntraFlow, err]),
               commit_queue key mq call sh, s1)
          | (Inr removedItem, mq, s1, call) \<Rightarrow>
              let sh1 = commit_queue key mq call sh;
                  (isExpired, oc, expiryErr) = checkItemExpiry s1 removedItem now
              in if isExpired then
                   let finalErr = (case expiryErr of
                                     None \<Rightarrow> Errorf ''item finalized before dispatch'' []
                                   | Some e \<Rightarrow> e)
                   in (Some (Errorf ''item expired before dispatch'' [Sentinel ErrIntraFlow, finalErr]),
                       sh1, finalize removedItem oc (evicted (Some finalErr)) s1)
                 else (None, sh1, finalize removedItem QueueOutcomeDispatched None s1)))"

text \<open>
  The loop over the priority levels; \<open>clock p\<close> is what the clock shows while band \<open>p\<close> is handled.
  A panic ends the cycle.
\<close>

fun dispatch_levels ::
  "BandFilter \<Rightarrow> (nat \<Rightarrow> time) \<Rightarrow> nat list \<Rightarrow> registryShard \<times> store \<Rightarrow> bool \<times> registryShard \<times> store" where
  "dispatch_levels dispatchFilter clock [] (sh, s) = (False, sh, s)"
| "dispatch_levels dispatchFilter clock (priority # levels) (sh, s) =
     (case sh_PriorityBandAccessor sh priority of
        Inl err \<Rightarrow> dispatch_levels dispatchFilter clock levels (sh, s)
      | Inr originalBand \<Rightarrow>
          let (filteredBand, shouldPause) = dispatchFilter originalBand in
          if shouldPause then (False, sh, s)
          else
            let dispatchableBand = (case filteredBand of None \<Rightarrow> originalBand | Some b \<Rightarrow> b) in
            (case selectItem sh dispatchableBand of
               None \<Rightarrow> (False, sh, panic s)
             | Some (Inl err, sh1) \<Rightarrow> dispatch_levels dispatchFilter clock levels (sh1, s)
             | Some (Inr None, sh1) \<Rightarrow> dispatch_levels dispatchFilter clock levels (sh1, s)
             | Some (Inr (Some item), sh1) \<Rightarrow>
                 (case dispatchItem item (clock priority) (sh1, s) of
                    (Some err, sh2, s2) \<Rightarrow> dispatch_levels dispatchFilter clock levels (sh2, s2)
                  | (None, sh2, s2) \<Rightarrow> (True, sh2, s2))))"

definition dispatchCycle ::
  "BandFilter \<Rightarrow> (nat \<Rightarrow> time) \<Rightarrow> registryShard \<times> store \<Rightarrow> bool \<times> registryShard \<times> store" where
  "dispatchCycle dispatchFilter clock ss =
     dispatch_levels dispatchFilter clock (sh_AllOrderedPriorityLevels (fst ss)) ss"

section \<open>Cleanup and shutdown\<close>

definition finalizeItems ::
  "(store \<Rightarrow> flowItem \<Rightarrow> QueueOutcome \<times> goError option) \<Rightarrow> flowItem list \<Rightarrow> store \<Rightarrow> store" where
  "finalizeItems getOutcome items s =
     fold (\<lambda>item s. let (oc, err) = getOutcome s item in finalize item oc err s) items s"

definition finalizeExpiredItems :: "flowItem list \<Rightarrow> time \<Rightarrow> store \<Rightarrow> store" where
  "finalizeExpiredItems items now =
     finalizeItems (\<lambda>s item. let (_, oc, expiryErr) = checkItemExpiry s item now in (oc, evicted expiryErr)) items"

text \<open>The queues of all bands, collected by iterating over every band.\<close>

fun collect_queues :: "registryShard \<Rightarrow> nat list \<Rightarrow> FlowKey list \<Rightarrow> FlowKey list option" where
  "collect_queues sh [] acc = Some acc"
| "collect_queues sh (priority # levels) acc =
     (case sh_PriorityBandAccessor sh priority of
        Inl err \<Rightarrow> collect_queues sh levels acc
      | Inr band \<Rightarrow>
          (case acc_IterateQueues band (\<lambda>queue qs. (True, qs @ [mq_flowKey queue])) acc of
             None \<Rightarrow> None
           | Some acc' \<Rightarrow> collect_queues sh levels acc'))"

type_synonym queueProcess = "FlowKey \<Rightarrow> managedQueue \<Rightarrow> registryShard \<times> store \<Rightarrow> registryShard \<times> store"

fun process_tasks :: "queueProcess \<Rightarrow> FlowKey list \<Rightarrow> registryShard \<times> store \<Rightarrow> registryShard \<times> store" where
  "process_tasks processFn [] ss = ss"
| "process_tasks processFn (key # tasks) ss =
     (case sh_ManagedQueue (fst ss) key of
        Inl err \<Rightarrow> process_tasks processFn tasks ss
      | Inr managedQ \<Rightarrow> process_tasks processFn tasks (processFn key managedQ ss))"

text \<open>
  The workers take the queues in some order, given by \<open>schedule\<close>. Each queue is handled by one
  worker, so an order of the queues is all that the interleaving of the workers can change.
\<close>

definition processAllQueuesConcurrently ::
  "(FlowKey list \<Rightarrow> FlowKey list) \<Rightarrow> queueProcess \<Rightarrow> registryShard \<times> store \<Rightarrow> registryShard \<times> store" where
  "processAllQueuesConcurrently schedule processFn ss =
     (case collect_queues (fst ss) (sh_AllOrderedPriorityLevels (fst ss)) [] of
        None \<Rightarrow> (fst ss, panic (snd ss))
      | Some queuesToProcess \<Rightarrow>
          if length queuesToProcess = 0 then ss
          else process_tasks processFn (schedule queuesToProcess) ss)"

definition cleanup_queue :: "time \<Rightarrow> queueProcess" where
  "cleanup_queue now key managedQ = (\<lambda>(sh, s).
     case mq_Cleanup managedQ s (\<lambda>item. fst (checkItemExpiry s item now)) of
       (removedItems, mq, s1, call) \<Rightarrow>
         (commit_queue key mq call sh, finalizeExpiredItems removedItems now s1))"

definition cleanupExpired ::
  "(FlowKey list \<Rightarrow> FlowKey list) \<Rightarrow> time \<Rightarrow> registryShard \<times> store \<Rightarrow> registryShard \<times> store" where
  "cleanupExpired schedule now = processAllQueuesConcurrently schedule (cleanup_queue now)"

definition evict_queue :: queueProcess where
  "evict_queue key managedQ = (\<lambda>(sh, s).
     case mq_Drain managedQ s of
       (removedItems, mq, s1, call) \<Rightarrow>
         (commit_queue key mq call sh,
          finalizeItems (\<lambda>_ _. (QueueOutcomeEvictedOther, evicted (Some (Sentinel ErrFlowControllerShutdown))))
            removedItems s1))"

definition evictAll :: "(FlowKey list \<Rightarrow> FlowKey list) \<Rightarrow> registryShard \<times> store \<Rightarrow> registryShard \<times> store" where
  "evictAll schedule = processAllQueuesConcurrently schedule evict_queue"

text \<open>The loop that drains the channel.\<close>

fun drain_chan :: "flowItem option list \<Rightarrow> store \<Rightarrow> store" where
  "drain_chan [] s = s"
| "drain_chan (None # items) s = drain_chan items s"
| "drain_chan (Some item # items) s =
     drain_chan items (finalize item QueueOutcomeRejectedOther (rejected (Sentinel ErrFlowControllerShutdown)) s)"

text \<open>
  The drain loop receives from the channel until it is empty. On a channel that is already closed
  every receive succeeds with nil, so the loop never ends; then there is no result.
\<close>

definition sp_shutdown ::
  "(FlowKey list \<Rightarrow> FlowKey list) \<Rightarrow> ShardProcessor \<times> store \<Rightarrow> (ShardProcessor \<times> store) option" where
  "sp_shutdown schedule = (\<lambda>(sp, s).
     if sp_shutdownOnce sp then Some (sp, s)
     else if sp_chanClosed sp then None
     else
       let s1 = drain_chan (sp_enqueueChan sp) s;
           (sh, s2) = evictAll schedule (sp_shard sp, s1)
       in Some (sp\<lparr>sp_shutdownOnce := True, sp_isShuttingDown := True, sp_enqueueChan := [], sp_chanClosed := True,
              sp_shard := sh\<rparr>, s2))"

end
