(* ===== verification/ProcessorCorrect.thy ===== *)
theory ProcessorCorrect
  imports ShardProcessor
begin

text \<open>
  Correctness of the operations of the shard processor: every operation keeps the shard in order
  and writes the final state of an item at most once; an enqueued item is either queued or
  rejected; a dispatch cycle serves the highest non-empty priority; cleanup removes exactly the
  expired items; eviction empties the shard and finalizes everything in it.
\<close>

section \<open>The invariant of the processor\<close>

definition proc_ok :: "registryShard \<Rightarrow> store \<Rightarrow> bool" where
  "proc_ok sh s \<longleftrightarrow> shard_ok sh s \<and> final_ok s"

lemma proc_okD: "proc_ok sh s \<Longrightarrow> shard_ok sh s" "proc_ok sh s \<Longrightarrow> final_ok s"
  by (simp_all add: proc_ok_def)

lemma final_ok_frame: "frame A s s' \<Longrightarrow> final_ok s \<Longrightarrow> final_ok s'"
  by (simp add: final_ok_def frameD(3))

lemma isFinalized_frame: "frame A s s' \<Longrightarrow> isFinalized s' x = isFinalized s x"
  by (simp add: isFinalized_def frameD(3))

lemma FinalState_frame: "frame A s s' \<Longrightarrow> FinalState s' x = FinalState s x"
  by (simp add: FinalState_def frameD(3))

lemma checkItemExpiry_frame: "frame A s s' \<Longrightarrow> checkItemExpiry s' it now = checkItemExpiry s it now"
  by (simp add: checkItemExpiry_def isFinalized_frame FinalState_frame frameD(4))

lemma shard_ok_finalize: "shard_ok sh s \<Longrightarrow> shard_ok sh (finalize it oc e s)"
proof -
  assume ok: "shard_ok sh s"
  have "shard_ok sh (s\<lparr>st_final := f\<rparr>)" for f
    using shard_ok_final [OF ok, where f = f and c = "st_ctxErr s"] by simp
  with ok show ?thesis by (simp add: finalize_def Let_def)
qed

lemma proc_ok_finalize: "proc_ok sh s \<Longrightarrow> proc_ok sh (finalize it oc e s)"
  by (simp add: proc_ok_def shard_ok_finalize final_ok_finalize)

text \<open>The final state of an item, once written, stays.\<close>

definition keeps_final :: "store \<Rightarrow> store \<Rightarrow> bool" where
  "keeps_final s s' \<longleftrightarrow> (\<forall>x. isFinalized s x \<longrightarrow> isFinalized s' x \<and> FinalState s' x = FinalState s x)"

lemma keeps_final_refl [simp]: "keeps_final s s"
  by (simp add: keeps_final_def)

lemma keeps_final_trans: "keeps_final s s' \<Longrightarrow> keeps_final s' s'' \<Longrightarrow> keeps_final s s''"
  by (simp add: keeps_final_def)

lemma keeps_final_frame: "frame A s s' \<Longrightarrow> keeps_final s s'"
  by (simp add: keeps_final_def isFinalized_frame FinalState_frame)

lemma keeps_final_finalize: "final_ok s \<Longrightarrow> keeps_final s (finalize it oc e s)"
  by (simp add: keeps_final_def isFinalized_finalize finalize_keeps)

section \<open>Enqueueing\<close>

lemma accessor_of_queue:
  "queue_at sh k = Some mq \<Longrightarrow> \<exists>a. sh_PriorityBandAccessor sh (Priority k) = Inr a"
  by (auto simp: queue_at_def sh_PriorityBandAccessor_def bind_eq_Some_conv)

lemma enqueue_queued:
  assumes ok: "proc_ok sh s" and new: "fi_ptr it \<notin> ptrs (shard_items sh)" and nf: "\<not> isFinalized s it"
    and q: "queue_at sh (itemFlowKey it) = Some mq" and cap: "hasCapacity sh (Priority (itemFlowKey it)) (itemByteSize it)"
  shows "\<exists>mq' s' call. mq_Add mq s it = (None, mq', s', call) \<and>
    sp_enqueue it (sh, s) = (commit_queue (itemFlowKey it) mq' call sh, s') \<and>
    proc_ok (commit_queue (itemFlowKey it) mq' call sh) s' \<and> call_delta call = (1, itemByteSize it) \<and>
    mset (mq_contents mq') = add_mset it (mset (mq_contents mq)) \<and>
    mset (shard_items (commit_queue (itemFlowKey it) mq' call sh)) = add_mset it (mset (shard_items sh)) \<and>
    frame (insert (fi_ptr it) (ptrs (mq_contents mq))) s s'"
proof -
  obtain mq' s' call where r: "mq_Add mq s it = (None, mq', s', call)"
      "shard_ok (commit_queue (itemFlowKey it) mq' call sh) s'" "call_delta call = (1, itemByteSize it)"
      "mset (mq_contents mq') = add_mset it (mset (mq_contents mq))"
      "mset (shard_items (commit_queue (itemFlowKey it) mq' call sh)) = add_mset it (mset (shard_items sh))"
      "frame (insert (fi_ptr it) (ptrs (mq_contents mq))) s s'"
    using shard_Add [OF proc_okD(1) [OF ok] q refl new] by blast
  obtain a where a: "sh_PriorityBandAccessor sh (Priority (itemFlowKey it)) = Inr a"
    using accessor_of_queue [OF q] by blast
  have mq: "sh_ManagedQueue sh (itemFlowKey it) = Inr mq" using q by (simp add: ManagedQueue_at)
  have "sp_enqueue it (sh, s) = (commit_queue (itemFlowKey it) mq' call sh, s')"
    by (simp add: sp_enqueue_def Let_def mq a cap nf r(1))
  moreover have "proc_ok (commit_queue (itemFlowKey it) mq' call sh) s'"
    using r(2) final_ok_frame [OF r(6) proc_okD(2) [OF ok]] by (simp add: proc_ok_def)
  ultimately show ?thesis using r by blast
qed

lemma enqueue_full:
  assumes q: "queue_at sh (itemFlowKey it) = Some mq"
    and cap: "\<not> hasCapacity sh (Priority (itemFlowKey it)) (itemByteSize it)"
  shows "sp_enqueue it (sh, s) = (sh, finalize it QueueOutcomeRejectedCapacity (rejected (Sentinel ErrQueueAtCapacity)) s)"
proof -
  obtain a where a: "sh_PriorityBandAccessor sh (Priority (itemFlowKey it)) = Inr a"
    using accessor_of_queue [OF q] by blast
  have mq: "sh_ManagedQueue sh (itemFlowKey it) = Inr mq" using q by (simp add: ManagedQueue_at)
  show ?thesis by (simp add: sp_enqueue_def Let_def mq a cap)
qed

lemma enqueue_unknown:
  assumes q: "queue_at sh (itemFlowKey it) = None"
  shows "\<exists>e. sp_enqueue it (sh, s) = (sh, finalize it QueueOutcomeRejectedOther (rejected e) s) \<and>
    (errors_Is e ErrPriorityBandNotFound \<or> errors_Is e ErrFlowInstanceNotFound)"
  using ManagedQueue_none [OF q] by (auto simp: sp_enqueue_def Let_def)

lemma errors_Is_rejected: "errors_Is (the (rejected e)) x \<longleftrightarrow> x = ErrRejected \<or> errors_Is e x"
  by (auto simp: rejected_def)


section \<open>Selecting an item\<close>

lemma queue_len_bound:
  assumes ok: "shard_ok sh s" and q: "queue_at sh k = Some mq"
  shows "length (mq_contents mq) \<le> length (shard_items sh)"
proof -
  have "distinct (mq_contents mq)" "distinct (shard_items sh)"
    using sq.distinct_ptrs [of "mq_queue mq" s] queue_at_inv [OF ok q] shard_okD(9) [OF ok]
    by (auto simp: mq_invar_def mq_contents_def distinct_map)
  then show ?thesis
    using queue_at_items [OF ok q] by (metis card_mono distinct_card List.finite_set)
qed

lemma queue_Len:
  assumes ok: "shard_ok sh s" and q: "queue_at sh k = Some mq" and b: "length (shard_items sh) < 2 ^ 63"
  shows "mq_Len mq = int (length (mq_contents mq))"
  by (rule mq_Len_exact [OF queue_at_inv [OF ok q]]) (use queue_len_bound [OF ok q] b in linarith)

lemma offer_iff:
  assumes ok: "shard_ok sh s" and q: "queue_at sh k = Some mq" and b: "length (shard_items sh) < 2 ^ 63"
  shows "offer mq = None \<longleftrightarrow> mq_contents mq = []"
  using queue_Len [OF assms] mq_PeekHead_cases [of mq] by (auto simp: offer_def)

text \<open>What an inter-flow policy selects on a whole band.\<close>

definition selects :: "registryShard \<Rightarrow> nat \<Rightarrow> managedQueue option \<Rightarrow> bool" where
  "selects sh p r \<longleftrightarrow>
     (case r of
        None \<Rightarrow> \<forall>k\<in>set (band_keys sh p). items_at sh k = []
      | Some q \<Rightarrow> \<exists>k\<in>set (band_keys sh p). queue_at sh k = Some q \<and> mq_contents q \<noteq> [])"

lemma bestHead_selects:
  assumes ok: "shard_ok sh s" and a: "sh_PriorityBandAccessor sh p = Inr a" and b: "length (shard_items sh) < 2 ^ 63"
  shows "\<exists>r. bestHead_SelectQueue a = Some (Inr r) \<and> selects sh p r"
proof -
  note acc = accessor_ok [OF ok a]
  obtain r where r: "bestHead_SelectQueue a = Some (Inr (map_option fst r))" "best_among None (acc_view a) r"
    using bestHead_SelectQueue_ok [OF acc(1)] by blast
  have view: "q \<in> set (acc_view a) \<longleftrightarrow> (\<exists>k\<in>set (band_keys sh p). queue_at sh k = Some q)" for q
    using band_keys_priority(2) [OF ok] by (force simp: acc(5))
  have off: "offer q = None \<longleftrightarrow> mq_contents q = []" if "q \<in> set (acc_view a)" for q
    using that offer_iff [OF ok _ b] by (auto simp: view)
  have "selects sh p (map_option fst r)"
  proof (cases r)
    case None
    then have "\<forall>q\<in>set (acc_view a). mq_contents q = []" using r(2) off by (simp add: best_among_def)
    then show ?thesis using None view by (auto simp: selects_def items_at_def split: option.split)
  next
    case (Some x)
    then have "fst x \<in> set (acc_view a)" "offer (fst x) \<noteq> None" using r(2) by (auto simp: best_among_def)
    then show ?thesis using Some off view by (auto simp: selects_def)
  qed
  with r(1) show ?thesis by blast
qed

lemma roundRobin_selects:
  assumes ok: "shard_ok sh s" and a: "sh_PriorityBandAccessor sh p = Inr a" and b: "length (shard_items sh) < 2 ^ 63"
  shows "selects sh p (fst (selectNextQueue l a))"
proof -
  note acc = accessor_ok [OF ok a]
  obtain bd where bd: "sh_priorityBands sh p = Some bd"
    and a': "a = BandAccessor (pbc_Priority (pb_config bd)) (pbc_PriorityName (pb_config bd)) (pb_flowKeys bd) (pb_queues bd)"
    using a by (auto simp: sh_PriorityBandAccessor_def split: option.splits)
  have qa: "acc_Queue a (ID k) = queue_at sh k" if "k \<in> set (band_keys sh p)" for k
  proof -
    have "Priority k = p" by (rule band_keys_priority(1) [OF ok that])
    moreover have "pbc_Priority (pb_config bd) = p" using acc(2) by (simp add: a')
    ultimately show ?thesis using bd by (cases k) (simp add: a' queue_at_def)
  qed
  have serves: "rr_serves a k \<longleftrightarrow> items_at sh k \<noteq> []" if k: "k \<in> set (band_keys sh p)" for k
  proof -
    obtain mq where mq: "queue_at sh k = Some mq" using band_keys_priority(2) [OF ok k] by blast
    then show ?thesis using queue_Len [OF ok mq b] by (simp add: rr_serves_def qa [OF k] items_at_def)
  qed
  let ?keys = "sort (acc_FlowKeys a)"
  let ?rot = "rotate (rr_start l ?keys) ?keys"
  have st: "set ?rot = set (band_keys sh p)" by (simp add: acc(3))
  show ?thesis
  proof (cases "filter (rr_serves a) ?rot")
    case Nil
    then have "\<forall>k\<in>set (band_keys sh p). \<not> rr_serves a k" using st by (auto simp: filter_empty_conv)
    then show ?thesis using Nil serves by (simp add: selects_def selectNextQueue_rotate Let_def)
  next
    case (Cons k ks)
    then have "k \<in> set (filter (rr_serves a) ?rot)" by simp
    then have k: "k \<in> set (band_keys sh p)" "rr_serves a k" using st by auto
    obtain mq where "queue_at sh k = Some mq" using band_keys_priority(2) [OF ok k(1)] by blast
    then show ?thesis using Cons k serves [OF k(1)] qa [OF k(1)]
      by (auto simp: selects_def selectNextQueue_rotate Let_def items_at_def)
  qed
qed

lemma inter_selects:
  assumes ok: "shard_ok sh s" and a: "sh_PriorityBandAccessor sh p = Inr a" and b: "length (shard_items sh) < 2 ^ 63"
  shows "\<exists>r pol' keys. inter_SelectQueue pol a = Some (Inr r, pol', keys) \<and> selects sh p r"
proof (cases pol)
  case BestHead
  then show ?thesis using bestHead_selects [OF assms] by auto
next
  case (RoundRobin l)
  then show ?thesis using roundRobin_selects [OF assms, of l] by (auto split: prod.split)
qed

lemma selection_keys_band:
  assumes ok: "shard_ok sh s" and a: "sh_PriorityBandAccessor sh p = Inr a"
    and sel: "inter_SelectQueue pol a = Some (r, pol', keys)"
  shows "selection_keys a keys sh"
  using inter_SelectQueue_keys [OF sel] accessor_ok(2,3) [OF ok a]
  by (cases a) (simp_all add: selection_keys_def)

text \<open>
  On a whole band, \<open>selectItem\<close> finds the head of a queue of that band, or nothing when the band is
  empty; it changes only the state of the policy and the order of the cached keys.
\<close>

lemma selectItem_ok:
  assumes ok: "shard_ok sh s" and a: "sh_PriorityBandAccessor sh p = Inr a" and b: "length (shard_items sh) < 2 ^ 63"
  shows "\<exists>r sh1. selectItem sh a = Some (Inr r, sh1) \<and> shard_ok sh1 s \<and> queue_at sh1 = queue_at sh \<and>
    sh_orderedPriorityLevels sh1 = sh_orderedPriorityLevels sh \<and> sh_config sh1 = sh_config sh \<and>
    mset (shard_items sh1) = mset (shard_items sh) \<and>
    (\<forall>p'. mset (band_items sh1 p') = mset (band_items sh p')) \<and>
    (case r of
       None \<Rightarrow> band_items sh p = []
     | Some it \<Rightarrow> it \<in> set (band_items sh p) \<and>
         (\<exists>mq. queue_at sh (itemFlowKey it) = Some mq \<and> it \<in> set (mq_contents mq)))"
proof -
  obtain bd where bd: "sh_priorityBands sh p = Some bd"
    using a by (auto simp: sh_PriorityBandAccessor_def split: option.splits)
  note acc = accessor_ok [OF ok a]
  let ?pol = "pb_interFlowDispatchPolicy bd"
  obtain r pol' keys where sel: "inter_SelectQueue ?pol a = Some (Inr r, pol', keys)" and r: "selects sh p r"
    using inter_selects [OF assms] by blast
  let ?sh1 = "store_selection a pol' keys sh"
  note sk = selection_keys_band [OF ok a sel]
  have pol: "sh_InterFlowDispatchPolicy sh (acc_Priority a) = Inr ?pol"
    by (simp add: sh_InterFlowDispatchPolicy_def acc(2) bd)
  have F: "shard_ok ?sh1 s" "queue_at ?sh1 = queue_at sh" "sh_orderedPriorityLevels ?sh1 = sh_orderedPriorityLevels sh"
      "sh_config ?sh1 = sh_config sh" "mset (shard_items ?sh1) = mset (shard_items sh)"
      "\<forall>p'. mset (band_items ?sh1 p') = mset (band_items sh p')"
    using store_selection_ok [OF ok sk] store_selection_fields store_selection_items [OF sk] by simp_all
  show ?thesis
  proof (cases r)
    case None
    then have "band_items sh p = []" using r by (simp add: selects_def band_items_def)
    moreover have "selectItem sh a = Some (Inr None, ?sh1)" by (simp add: selectItem_def pol sel None Let_def)
    ultimately show ?thesis using F by (intro exI [of _ None] exI [of _ ?sh1]) simp
  next
    case (Some q)
    then obtain k where k: "k \<in> set (band_keys sh p)" "queue_at sh k = Some q" "mq_contents q \<noteq> []"
      using r by (auto simp: selects_def)
    note qo = queue_okD [OF shard_okD(7) [OF ok k(2)]]
    obtain it where it: "it \<in> set (mq_contents q)" "mq_PeekHead q = Inr it" using mq_PeekHead_cases [of q] k(3) by blast
    have "queue_at ?sh1 (mq_flowKey q) = Some q" using k(2) qo(1) F(2) by simp
    then have "sh_IntraFlowDispatchPolicy ?sh1 (mq_flowKey q) = Inr (mq_dispatchPolicy q)"
      by (auto simp: sh_IntraFlowDispatchPolicy_def queue_at_def bind_eq_Some_conv)
    moreover have "intra_SelectItem (mq_dispatchPolicy q) (Some q) = Inr (Some it)"
      using it(2) by (cases "mq_dispatchPolicy q") simp
    ultimately have "selectItem sh a = Some (Inr (Some it), ?sh1)" by (simp add: selectItem_def pol sel Some Let_def)
    moreover have "it \<in> set (items_at sh k)" using k(2) it(1) by (simp add: items_at_def)
    then have "it \<in> set (band_items sh p)" using k(1) by (auto simp: band_items_def)
    moreover have "queue_at sh (itemFlowKey it) = Some q" using qo(3) [OF it(1)] k(2) by simp
    ultimately show ?thesis using F it(1) by (intro exI [of _ "Some it"] exI [of _ ?sh1]) simp
  qed
qed

section \<open>Dispatching an item\<close>

abbreviation expired :: "store \<Rightarrow> time \<Rightarrow> flowItem \<Rightarrow> bool" where
  "expired s now it \<equiv> fst (checkItemExpiry s it now)"

lemma item_handle:
  assumes ok: "shard_ok sh s" and q: "queue_at sh k = Some mq" and it: "it \<in> set (mq_contents mq)"
  shows "\<exists>h. Handle s it = Some h"
  using sq.invar_attached [OF mq_invarD(1) [OF queue_at_inv [OF ok q]], of it] it
  by (auto simp: attached_def linked_def mq_contents_def)

text \<open>
  Dispatching takes the selected item out of its queue; it is finalized as dispatched, or as
  evicted when it has expired, unless it was finalized before.
\<close>

lemma dispatchItem_ok:
  assumes ok: "proc_ok sh s" and q: "queue_at sh (itemFlowKey it) = Some mq" and it: "it \<in> set (mq_contents mq)"
  shows "\<exists>mq' s1 call. let sh1 = commit_queue (itemFlowKey it) mq' call sh in
    proc_ok sh1 s1 \<and> mset (shard_items sh) = add_mset it (mset (shard_items sh1)) \<and>
    mset (mq_contents mq') = mset (mq_contents mq) - {#it#} \<and> frame (ptrs (mq_contents mq)) s s1 \<and>
    (if expired s now it
     then \<exists>err oc e. dispatchItem it now (sh, s) = (Some err, sh1, finalize it oc (evicted (Some e)) s1)
     else dispatchItem it now (sh, s) = (None, sh1, finalize it QueueOutcomeDispatched None s1))"
proof -
  obtain h where h: "Handle s it = Some h" using item_handle [OF proc_okD(1) [OF ok] q it] by blast
  obtain mq' s1 call where r: "mq_Remove mq s (Some h) = (Inr it, mq', s1, call)"
      "shard_ok (commit_queue (itemFlowKey it) mq' call sh) s1" "mset (mq_contents mq') = mset (mq_contents mq) - {#it#}"
      "mset (shard_items sh) = add_mset it (mset (shard_items (commit_queue (itemFlowKey it) mq' call sh)))"
      "frame (ptrs (mq_contents mq)) s s1"
    using shard_Remove [OF proc_okD(1) [OF ok] q it h] by blast
  have mq: "sh_ManagedQueue sh (itemFlowKey it) = Inr mq" using q by (simp add: ManagedQueue_at)
  have p: "proc_ok (commit_queue (itemFlowKey it) mq' call sh) s1"
    using r(2) final_ok_frame [OF r(5) proc_okD(2) [OF ok]] by (simp add: proc_ok_def)
  have "if expired s now it
     then \<exists>err oc e. dispatchItem it now (sh, s) =
        (Some err, commit_queue (itemFlowKey it) mq' call sh, finalize it oc (evicted (Some e)) s1)
     else dispatchItem it now (sh, s) =
        (None, commit_queue (itemFlowKey it) mq' call sh, finalize it QueueOutcomeDispatched None s1)"
    by (auto simp: dispatchItem_def Let_def mq h r(1) checkItemExpiry_frame [OF r(5)] split: prod.splits if_splits)
  with p r show ?thesis unfolding Let_def by blast
qed

text \<open>The whole of a dispatch cycle keeps the processor in order and removes at most what it finalizes.\<close>

lemma commit_levels: "queue_at sh k = Some mq \<Longrightarrow>
  sh_orderedPriorityLevels (commit_queue k mq' call sh) = sh_orderedPriorityLevels sh"
  by (auto simp: queue_at_def bind_eq_Some_conv commit_queue_fields(1))

lemma accessor_of_level:
  assumes "shard_ok sh s" "p \<in> set (sh_orderedPriorityLevels sh)"
  shows "\<exists>a. sh_PriorityBandAccessor sh p = Inr a"
  using assms(2) shard_okD(5) [OF assms(1)] by (auto simp: sh_PriorityBandAccessor_def)

lemma band_items_shard:
  assumes "shard_ok sh s" "it \<in> set (band_items sh p)"
  shows "it \<in> set (shard_items sh)" "Priority (itemFlowKey it) = p"
proof -
  obtain k where k: "k \<in> set (band_keys sh p)" "it \<in> set (items_at sh k)" using assms(2) by (auto simp: band_items_def)
  obtain mq where mq: "queue_at sh k = Some mq" using band_keys_priority(2) [OF assms(1) k(1)] by blast
  have m: "it \<in> set (mq_contents mq)" using k(2) mq by (simp add: items_at_def)
  show "it \<in> set (shard_items sh)" using queue_at_items [OF assms(1) mq] m by blast
  show "Priority (itemFlowKey it) = p"
    using queue_okD(3) [OF shard_okD(7) [OF assms(1) mq] m] band_keys_priority(1) [OF assms(1) k(1)] by simp
qed

text \<open>What a cycle over some levels leaves: \<open>rs\<close> are the items it took out of their queues.\<close>

definition took :: "registryShard \<times> store \<Rightarrow> registryShard \<times> store \<Rightarrow> flowItem list \<Rightarrow> bool" where
  "took ss ss' rs \<longleftrightarrow> proc_ok (fst ss') (snd ss') \<and> keeps_final (snd ss) (snd ss') \<and>
     sh_orderedPriorityLevels (fst ss') = sh_orderedPriorityLevels (fst ss) \<and>
     mset (shard_items (fst ss)) = mset (shard_items (fst ss')) + mset rs \<and>
     (\<forall>it. isFinalized (snd ss') it \<longleftrightarrow> isFinalized (snd ss) it \<or> fi_ptr it \<in> ptrs rs)"

lemma tookD:
  assumes "took (sh, s) (sh', s') rs"
  shows "proc_ok sh' s'" "keeps_final s s'" "sh_orderedPriorityLevels sh' = sh_orderedPriorityLevels sh"
    "mset (shard_items sh) = mset (shard_items sh') + mset rs"
    "isFinalized s' it \<longleftrightarrow> isFinalized s it \<or> fi_ptr it \<in> ptrs rs"
  using assms unfolding took_def by auto

lemma took_trans:
  assumes 1: "took (sh, s) (sh1, s1) rs" and 2: "took (sh1, s1) (sh2, s2) rs'"
  shows "took (sh, s) (sh2, s2) (rs @ rs')"
  unfolding took_def
  using tookD(1-4) [OF 2] tookD(2-4) [OF 1] tookD(5) [OF 1] tookD(5) [OF 2]
  by (auto intro: keeps_final_trans)

lemma took_length: "took (sh, s) (sh', s') rs \<Longrightarrow> length (shard_items sh') \<le> length (shard_items sh)"
  using arg_cong [OF tookD(4), of _ _ _ _ _ size] by simp

lemma dispatch_took:
  assumes ok: "proc_ok sh s" and q: "queue_at sh (itemFlowKey it) = Some mq" and it: "it \<in> set (mq_contents mq)"
  shows "\<exists>sh1 s1. if expired s now it
     then \<exists>err. dispatchItem it now (sh, s) = (Some err, sh1, s1) \<and> took (sh, s) (sh1, s1) [it]
     else dispatchItem it now (sh, s) = (None, sh1, s1) \<and> took (sh, s) (sh1, s1) [it] \<and>
       FinalState s1 it = (QueueOutcomeDispatched, None)"
proof -
  obtain mq' s1 call where r: "let sh1 = commit_queue (itemFlowKey it) mq' call sh in
    proc_ok sh1 s1 \<and> mset (shard_items sh) = add_mset it (mset (shard_items sh1)) \<and>
    mset (mq_contents mq') = mset (mq_contents mq) - {#it#} \<and> frame (ptrs (mq_contents mq)) s s1 \<and>
    (if expired s now it
     then \<exists>err oc e. dispatchItem it now (sh, s) = (Some err, sh1, finalize it oc (evicted (Some e)) s1)
     else dispatchItem it now (sh, s) = (None, sh1, finalize it QueueOutcomeDispatched None s1))"
    using dispatchItem_ok [OF assms] by blast
  define sh1 where "sh1 = commit_queue (itemFlowKey it) mq' call sh"
  have F: "proc_ok sh1 s1" "mset (shard_items sh) = add_mset it (mset (shard_items sh1))" "frame (ptrs (mq_contents mq)) s s1"
    using r by (simp_all add: Let_def sh1_def)
  have lev: "sh_orderedPriorityLevels sh1 = sh_orderedPriorityLevels sh" using commit_levels [OF q] by (simp add: sh1_def)
  have fo: "final_ok s1" by (rule proc_okD(2) [OF F(1)])
  have t: "took (sh, s) (sh1, finalize it oc e s1) [it]" for oc e
    using proc_ok_finalize [OF F(1)] keeps_final_trans [OF keeps_final_frame [OF F(3)] keeps_final_finalize [OF fo]]
      lev F(2) isFinalized_finalize [OF fo] isFinalized_frame [OF F(3)] by (simp add: took_def)
  show ?thesis
  proof (cases "expired s now it")
    case True
    then show ?thesis using r t by (auto simp: Let_def sh1_def [symmetric])
  next
    case False
    then have "\<not> isFinalized s1 it" by (simp add: isFinalized_frame [OF F(3)]) (auto simp: checkItemExpiry_def)
    then show ?thesis using False r t finalize_fresh [OF fo] by (auto simp: Let_def sh1_def [symmetric])
  qed
qed

abbreviation open_filter :: BandFilter where
  "open_filter \<equiv> NewSaturationFilter False"

lemma dispatch_level:
  assumes ok: "proc_ok sh s" and p: "p \<in> set (sh_orderedPriorityLevels sh)" and b: "length (shard_items sh) < 2 ^ 63"
  shows "(\<exists>sh1. dispatch_levels open_filter clock (p # ls) (sh, s) = dispatch_levels open_filter clock ls (sh1, s) \<and>
      took (sh, s) (sh1, s) [] \<and> band_items sh p = [] \<and> (\<forall>p'. mset (band_items sh1 p') = mset (band_items sh p'))) \<or>
    (\<exists>it sh1 s1. it \<in> set (band_items sh p) \<and> took (sh, s) (sh1, s1) [it] \<and>
      (if expired s (clock p) it
       then dispatch_levels open_filter clock (p # ls) (sh, s) = dispatch_levels open_filter clock ls (sh1, s1)
       else dispatch_levels open_filter clock (p # ls) (sh, s) = (True, sh1, s1) \<and>
         FinalState s1 it = (QueueOutcomeDispatched, None)))"
proof -
  note sok = proc_okD(1) [OF ok]
  obtain a where a: "sh_PriorityBandAccessor sh p = Inr a" using accessor_of_level [OF sok p] by blast
  obtain r sh1 where S: "selectItem sh a = Some (Inr r, sh1)" "shard_ok sh1 s" "queue_at sh1 = queue_at sh"
      "sh_orderedPriorityLevels sh1 = sh_orderedPriorityLevels sh" "mset (shard_items sh1) = mset (shard_items sh)"
      "\<forall>p'. mset (band_items sh1 p') = mset (band_items sh p')"
    and R: "case r of None \<Rightarrow> band_items sh p = [] | Some it \<Rightarrow> it \<in> set (band_items sh p) \<and>
         (\<exists>mq. queue_at sh (itemFlowKey it) = Some mq \<and> it \<in> set (mq_contents mq))"
    using selectItem_ok [OF sok a b] by blast
  have ok1: "proc_ok sh1 s" using S(2) proc_okD(2) [OF ok] by (simp add: proc_ok_def)
  then have t1: "took (sh, s) (sh1, s) []" using S(4,5) by (simp add: took_def)
  show ?thesis
  proof (cases r)
    case None
    then have "dispatch_levels open_filter clock (p # ls) (sh, s) = dispatch_levels open_filter clock ls (sh1, s)"
      using S(1) by (simp add: a NewSaturationFilter_def)
    with None R t1 S(6) show ?thesis by auto
  next
    case (Some it)
    then obtain mq where mq: "queue_at sh1 (itemFlowKey it) = Some mq" "it \<in> set (mq_contents mq)" and
      it: "it \<in> set (band_items sh p)" using R S(3) by auto
    obtain sh2 s2 where D: "if expired s (clock p) it
       then \<exists>err. dispatchItem it (clock p) (sh1, s) = (Some err, sh2, s2) \<and> took (sh1, s) (sh2, s2) [it]
       else dispatchItem it (clock p) (sh1, s) = (None, sh2, s2) \<and> took (sh1, s) (sh2, s2) [it] \<and>
         FinalState s2 it = (QueueOutcomeDispatched, None)"
      using dispatch_took [OF ok1 mq] by blast
    then have "took (sh1, s) (sh2, s2) [it]" by (auto split: if_splits)
    from took_trans [OF t1 this] have t: "took (sh, s) (sh2, s2) [it]" by simp
    have "if expired s (clock p) it
       then dispatch_levels open_filter clock (p # ls) (sh, s) = dispatch_levels open_filter clock ls (sh2, s2)
       else dispatch_levels open_filter clock (p # ls) (sh, s) = (True, sh2, s2) \<and>
         FinalState s2 it = (QueueOutcomeDispatched, None)"
      using D S(1) Some by (auto simp: a NewSaturationFilter_def)
    with it t show ?thesis by blast
  qed
qed

lemma dispatch_levels_ok:
  assumes "proc_ok sh s" "set ls \<subseteq> set (sh_orderedPriorityLevels sh)" "length (shard_items sh) < 2 ^ 63"
    "dispatch_levels open_filter clock ls (sh, s) = (b, sh', s')"
  shows "\<exists>rs. took (sh, s) (sh', s') rs \<and>
    (b \<longrightarrow> (\<exists>it rs'. rs = rs' @ [it] \<and> FinalState s' it = (QueueOutcomeDispatched, None) \<and> \<not> isFinalized s it))"
  using assms
proof (induction ls arbitrary: sh s)
  case Nil
  then show ?case by (intro exI [of _ "[]"]) (auto simp: took_def)
next
  case (Cons p ls)
  have p: "p \<in> set (sh_orderedPriorityLevels sh)" using Cons.prems(2) by simp
  have go: ?case if t: "took (sh, s) (sh1, s1) rs1"
    and e: "dispatch_levels open_filter clock (p # ls) (sh, s) = dispatch_levels open_filter clock ls (sh1, s1)" for sh1 s1 rs1
  proof -
    obtain rs where rs: "took (sh1, s1) (sh', s') rs"
      "b \<longrightarrow> (\<exists>it rs'. rs = rs' @ [it] \<and> FinalState s' it = (QueueOutcomeDispatched, None) \<and> \<not> isFinalized s1 it)"
      using Cons.IH [of sh1 s1] tookD(1,3) [OF t] took_length [OF t] Cons.prems(2-4) e by auto
    have "isFinalized s x \<Longrightarrow> isFinalized s1 x" for x using tookD(5) [OF t] by blast
    with took_trans [OF t rs(1)] rs(2) show ?thesis by (intro exI [of _ "rs1 @ rs"]) auto
  qed
  consider (pass) sh1 s1 rs1 where "took (sh, s) (sh1, s1) rs1"
      "dispatch_levels open_filter clock (p # ls) (sh, s) = dispatch_levels open_filter clock ls (sh1, s1)"
    | (hit) it where "took (sh, s) (sh', s') [it]" "FinalState s' it = (QueueOutcomeDispatched, None)"
      "\<not> expired s (clock p) it"
    using dispatch_level [OF Cons.prems(1) p Cons.prems(3), of clock ls] Cons.prems(4) by (auto split: if_splits)
  then show ?case
  proof cases
    case pass
    then show ?thesis by (rule go)
  next
    case hit
    then have "\<not> isFinalized s it" by (auto simp: checkItemExpiry_def)
    with hit show ?thesis by (intro exI [of _ "[it]"]) auto
  qed
qed

lemma dispatch_levels_first:
  assumes "proc_ok sh s" "set ls \<subseteq> set (sh_orderedPriorityLevels sh)" "length (shard_items sh) < 2 ^ 63" "sorted ls"
    and "\<forall>it\<in>set (shard_items sh). \<forall>p. \<not> expired s (clock p) it" "\<exists>p\<in>set ls. band_items sh p \<noteq> []"
  shows "\<exists>it sh' s'. dispatch_levels open_filter clock ls (sh, s) = (True, sh', s') \<and> took (sh, s) (sh', s') [it] \<and>
    FinalState s' it = (QueueOutcomeDispatched, None) \<and> it \<in> set (shard_items sh) \<and>
    (\<forall>p\<in>set ls. band_items sh p \<noteq> [] \<longrightarrow> Priority (itemFlowKey it) \<le> p)"
  using assms
proof (induction ls arbitrary: sh)
  case (Cons p ls)
  have p: "p \<in> set (sh_orderedPriorityLevels sh)" using Cons.prems(2) by simp
  note sok = proc_okD(1) [OF Cons.prems(1)]
  from dispatch_level [OF Cons.prems(1) p Cons.prems(3), of clock ls]
  consider (empty) sh1 where "dispatch_levels open_filter clock (p # ls) (sh, s) = dispatch_levels open_filter clock ls (sh1, s)"
      "took (sh, s) (sh1, s) []" "band_items sh p = []" "\<forall>p'. mset (band_items sh1 p') = mset (band_items sh p')"
    | (hit) it sh1 s1 where "it \<in> set (band_items sh p)" "took (sh, s) (sh1, s1) [it]"
      "dispatch_levels open_filter clock (p # ls) (sh, s) = (True, sh1, s1)" "FinalState s1 it = (QueueOutcomeDispatched, None)"
    using Cons.prems(5) band_items_shard(1) [OF sok] by (auto split: if_splits)
  then show ?case
  proof cases
    case empty
    have st: "set (shard_items sh1) = set (shard_items sh)" using arg_cong [OF tookD(4) [OF empty(2)], of set_mset] by simp
    have be: "band_items sh1 p' = [] \<longleftrightarrow> band_items sh p' = []" for p' using empty(4) by (metis mset_zero_iff)
    have "\<exists>it sh' s'. dispatch_levels open_filter clock ls (sh1, s) = (True, sh', s') \<and> took (sh1, s) (sh', s') [it] \<and>
      FinalState s' it = (QueueOutcomeDispatched, None) \<and> it \<in> set (shard_items sh1) \<and>
      (\<forall>p\<in>set ls. band_items sh1 p \<noteq> [] \<longrightarrow> Priority (itemFlowKey it) \<le> p)"
      using Cons.prems tookD(1,3) [OF empty(2)] took_length [OF empty(2)] empty(3)
      by (intro Cons.IH) (auto simp: st be)
    then obtain it sh' s' where r: "dispatch_levels open_filter clock ls (sh1, s) = (True, sh', s')"
      "took (sh1, s) (sh', s') [it]" "FinalState s' it = (QueueOutcomeDispatched, None)" "it \<in> set (shard_items sh)"
      "\<forall>p\<in>set ls. band_items sh p \<noteq> [] \<longrightarrow> Priority (itemFlowKey it) \<le> p" by (auto simp: st be)
    have "took (sh, s) (sh', s') [it]" using took_trans [OF empty(2) r(2)] by simp
    with r empty(1,3) show ?thesis
      by (intro exI [of _ it] exI [of _ sh'] exI [of _ s']) (simp del: dispatch_levels.simps)
  next
    case hit
    have "Priority (itemFlowKey it) = p" "it \<in> set (shard_items sh)" using band_items_shard [OF sok hit(1)] by simp_all
    with hit Cons.prems(4) show ?thesis by auto
  qed
qed simp

section \<open>The dispatch cycle\<close>

lemma dispatch_saturated: "dispatch_levels (NewSaturationFilter True) clock ls (sh, s) = (False, sh, s)"
  by (induction ls) (auto simp: NewSaturationFilter_def split: sum.split)

text \<open>
  C14. A dispatch cycle keeps the processor in order. The items it takes out of their queues are
  exactly those it finalizes, an earlier final state is never overwritten, and when it reports
  success one of them, open before, is now dispatched without an error. While the backend is
  saturated the cycle changes nothing and reports that nothing was dispatched.
\<close>

theorem dispatchCycle_safe:
  assumes "proc_ok sh s" "length (shard_items sh) < 2 ^ 63"
    "dispatchCycle (NewSaturationFilter saturated) clock (sh, s) = (b, sh', s')"
  shows "proc_ok sh' s' \<and> keeps_final s s' \<and> (saturated \<longrightarrow> \<not> b \<and> sh' = sh \<and> s' = s) \<and>
    (\<exists>rs. mset (shard_items sh) = mset (shard_items sh') + mset rs \<and>
      (\<forall>it. isFinalized s' it \<longleftrightarrow> isFinalized s it \<or> fi_ptr it \<in> ptrs rs) \<and>
      (b \<longrightarrow> (\<exists>it\<in>set rs. FinalState s' it = (QueueOutcomeDispatched, None) \<and> \<not> isFinalized s it)))"
proof (cases saturated)
  case True
  then have "b = False \<and> sh' = sh \<and> s' = s" using assms(3) dispatch_saturated by (simp add: dispatchCycle_def)
  then show ?thesis using assms(1) by (intro conjI exI [of _ "[]"]) simp_all
next
  case False
  then obtain rs where "took (sh, s) (sh', s') rs"
    "b \<longrightarrow> (\<exists>it rs'. rs = rs' @ [it] \<and> FinalState s' it = (QueueOutcomeDispatched, None) \<and> \<not> isFinalized s it)"
    using dispatch_levels_ok [OF assms(1) subset_refl assms(2), of clock b sh' s'] assms(3)
    by (auto simp: dispatchCycle_def sh_AllOrderedPriorityLevels_def)
  with False show ?thesis using tookD by auto
qed

lemma item_level:
  assumes ok: "shard_ok sh s" and it: "it \<in> set (shard_items sh)"
  shows "Priority (itemFlowKey it) \<in> set (sh_orderedPriorityLevels sh)" "it \<in> set (band_items sh (Priority (itemFlowKey it)))"
proof -
  obtain p where p: "p \<in> set (sh_orderedPriorityLevels sh)" "it \<in> set (band_items sh p)"
    using it by (auto simp: shard_items_def shard_keys_def band_items_def)
  with band_items_shard(2) [OF ok p(2)] show "Priority (itemFlowKey it) \<in> set (sh_orderedPriorityLevels sh)"
    "it \<in> set (band_items sh (Priority (itemFlowKey it)))" by simp_all
qed

text \<open>
  C4. When the backend is not saturated, something is queued and nothing queued has expired, a
  dispatch cycle dispatches: it takes exactly one item, that item's final state is dispatched
  without an error, and no queued item has a higher priority (a smaller priority number).
\<close>

theorem dispatch_highest_priority:
  assumes ok: "proc_ok sh s" and len: "length (shard_items sh) < 2 ^ 63" and ne: "shard_items sh \<noteq> []"
    and ex: "\<forall>it\<in>set (shard_items sh). \<forall>p. \<not> fst (checkItemExpiry s it (clock p))"
  shows "\<exists>it sh' s'. dispatchCycle (NewSaturationFilter False) clock (sh, s) = (True, sh', s') \<and>
    mset (shard_items sh) = add_mset it (mset (shard_items sh')) \<and>
    FinalState s' it = (QueueOutcomeDispatched, None) \<and>
    (\<forall>x\<in>set (shard_items sh). Priority (itemFlowKey it) \<le> Priority (itemFlowKey x))"
proof -
  note sok = proc_okD(1) [OF ok]
  have lv: "Priority (itemFlowKey x) \<in> set (sh_orderedPriorityLevels sh)" "band_items sh (Priority (itemFlowKey x)) \<noteq> []"
    if "x \<in> set (shard_items sh)" for x using item_level [OF sok that] by (simp, metis empty_iff empty_set)
  have ex1: "\<exists>p\<in>set (sh_orderedPriorityLevels sh). band_items sh p \<noteq> []" using lv [of "last (shard_items sh)"] ne by auto
  obtain it sh' s' where "dispatch_levels open_filter clock (sh_orderedPriorityLevels sh) (sh, s) = (True, sh', s')"
      "took (sh, s) (sh', s') [it]" "FinalState s' it = (QueueOutcomeDispatched, None)"
      "\<forall>p\<in>set (sh_orderedPriorityLevels sh). band_items sh p \<noteq> [] \<longrightarrow> Priority (itemFlowKey it) \<le> p"
    using dispatch_levels_first [OF ok subset_refl len shard_okD(3) [OF sok] ex ex1] by blast
  then show ?thesis using lv tookD(4)
    by (intro exI [of _ it] exI [of _ sh'] exI [of _ s']) (auto simp: dispatchCycle_def sh_AllOrderedPriorityLevels_def)
qed

section \<open>A concrete shard\<close>

definition wKey :: "nat \<Rightarrow> FlowKey" where "wKey p = FlowKey ''f'' p"

definition wPriorityBand :: "nat \<Rightarrow> priorityBand" where
  "wPriorityBand p = \<lparr>pb_config = wBand\<lparr>pbc_Priority := p\<rparr>,
     pb_queues = [wKey p \<mapsto> newManagedQueue (LQ (newListQueue p)) Fcfs (wKey p)], pb_flowKeys = [wKey p],
     pb_byteSize = 0, pb_len = 0, pb_interFlowDispatchPolicy = BestHead, pb_defaultIntraFlowDispatchPolicy = Fcfs\<rparr>"

definition wShard :: registryShard where
  "wShard = \<lparr>sh_id = ''s'', sh_config = wConfig, sh_isActive = True, sh_hasReconcileFun = True, sh_reconcileCalls = [],
     sh_priorityBands = [1 \<mapsto> wPriorityBand 1, 2 \<mapsto> wPriorityBand 2], sh_orderedPriorityLevels = [1, 2],
     sh_totalByteSize = 0, sh_totalLen = 0\<rparr>"

definition wItemIn :: "nat \<Rightarrow> nat \<Rightarrow> flowItem" where
  "wItemIn n p = \<lparr>fi_ptr = n, EnqueueTime = 0, EffectiveTTL = 10, OriginalRequest =
     \<lparr>req_ID = ''r'', req_FlowKey = wKey p, req_ByteSize = 5, req_InitialEffectiveTTL = 10\<rparr>\<rparr>"

lemma wShard_queue: "queue_at wShard k =
  (if k = wKey 1 \<or> k = wKey 2 then Some (newManagedQueue (LQ (newListQueue (Priority k))) Fcfs k) else None)"
  by (cases k) (auto simp: queue_at_def wShard_def wPriorityBand_def wKey_def)

lemma wShard_items: "shard_items wShard = []" "band_items wShard p = []"
  by (auto simp: shard_items_def band_items_def shard_keys_def items_at_def wShard_queue newManagedQueue_def mq_contents_def
      split: option.split)

lemma wShard_ok: "proc_ok wShard emptyStore"
proof -
  have e: "store_ok emptyStore" "\<not> st_panicked emptyStore" by (rule store_ok_empty) (simp add: emptyStore_def)
  have "band_ok wShard p b" if "sh_priorityBands wShard p = Some b" for p b
    using that by (auto simp: band_ok_def wShard_items counts_def)
      (auto simp: wShard_def wPriorityBand_def wKey_def split: if_splits)
  moreover have "queue_ok wShard emptyStore k mq" if "queue_at wShard k = Some mq" for k mq
    using that lq_invar_new [OF e]
    by (auto simp: wShard_queue queue_ok_def newManagedQueue_def mq_invar_def mq_contents_def split: if_splits)
  moreover have "dom (sh_priorityBands wShard) = {1, 2}" by (auto simp: wShard_def)
  ultimately show ?thesis using e final_ok_empty wShard_items
    by (simp add: proc_ok_def shard_ok_def counts_def) (simp add: wShard_def)
qed

lemma wItemIn_simps [simp]: "fi_ptr (wItemIn n p) = n" "itemFlowKey (wItemIn n p) = wKey p" "itemByteSize (wItemIn n p) = 5"
  "Priority (wKey p) = p" "EffectiveTTL (wItemIn n p) = 10" "EnqueueTime (wItemIn n p) = 0"
  by (simp_all add: wItemIn_def wKey_def)

lemma hasCapacity_eq: "hasCapacity sh p sz \<longleftrightarrow> sz = 0 \<or>
  \<not> (0 < cfg_MaxBytes (sh_config sh) \<and> cfg_MaxBytes (sh_config sh) < sh_totalByteSize sh + sz) \<and>
  (\<exists>b. sh_priorityBands sh p = Some b \<and> pb_byteSize b + sz \<le> pbc_MaxBytes (pb_config b))"
  by (auto simp: hasCapacity_def sh_Stats_def Let_def split: option.splits)

lemma wShard_capacity: "p \<in> {1, 2} \<Longrightarrow> hasCapacity wShard p 5"
  by (auto simp: hasCapacity_eq wShard_def wPriorityBand_def wBand_def wConfig_def)

text \<open>The shard after two items have been enqueued, first one of the lower priority.\<close>

lemma wShard_two: "\<exists>sh s. proc_ok sh s \<and> mset (shard_items sh) = {#wItemIn 1 1, wItemIn 0 2#} \<and>
  st_final s = st_final emptyStore \<and> st_ctxErr s = st_ctxErr emptyStore"
proof -
  have nf: "\<not> isFinalized emptyStore it" for it by (simp add: isFinalized_def emptyStore_def newFinal_def)
  have q: "\<exists>mq. queue_at wShard (wKey 2) = Some mq" by (simp add: wShard_queue)
  then obtain mq where mq: "queue_at wShard (wKey 2) = Some mq" by blast
  obtain mq1 s1 call where
    e1: "proc_ok (commit_queue (wKey 2) mq1 call wShard) s1" "call_delta call = (1, 5)"
      "mset (shard_items (commit_queue (wKey 2) mq1 call wShard)) = {#wItemIn 0 2#}"
      "frame (insert 0 (ptrs (mq_contents mq))) emptyStore s1"
    using enqueue_queued [OF wShard_ok _ nf, of "wItemIn 0 2" mq] mq wShard_capacity [of 2] by (auto simp: wShard_items)
  let ?sh = "commit_queue (wKey 2) mq1 call wShard"
  have b2: "sh_priorityBands wShard (Priority (wKey 2)) = Some (wPriorityBand 2)" by (simp add: wShard_def)
  have q1: "queue_at ?sh (wKey 1) = queue_at wShard (wKey 1)" unfolding queue_at_commit [OF b2] by (simp add: wKey_def)
  obtain mq' where mq': "queue_at ?sh (wKey 1) = Some mq'" unfolding q1 by (simp add: wShard_queue)
  have cap: "hasCapacity ?sh 1 5"
    using commit_queue_fields(2,4,5) [OF b2, of mq1 call] e1(2)
    by (simp add: hasCapacity_eq) (simp add: wShard_def wConfig_def wPriorityBand_def wBand_def)
  have nf1: "\<not> isFinalized s1 it" for it using nf isFinalized_frame [OF e1(4)] by simp
  have "set (shard_items ?sh) = {wItemIn 0 2}" using arg_cong [OF e1(3), of set_mset] by simp
  then have new: "fi_ptr (wItemIn 1 1) \<notin> ptrs (shard_items ?sh)" by (simp add: ptrs_def)
  obtain sh s where
    e2: "proc_ok sh s" "mset (shard_items sh) = add_mset (wItemIn 1 1) (mset (shard_items ?sh))"
      "frame (insert 1 (ptrs (mq_contents mq'))) s1 s"
    using enqueue_queued [OF e1(1) new nf1, of mq'] mq' cap by auto
  show ?thesis
    using e2 e1(3) frameD(3,4) [OF e1(4)] frameD(3,4) [OF e2(3)] by (intro exI [of _ sh] exI [of _ s]) simp
qed


lemma not_expired: "st_final s = st_final emptyStore \<Longrightarrow> st_ctxErr s = st_ctxErr emptyStore \<Longrightarrow> t \<le> 10 \<Longrightarrow> 0 \<le> t \<Longrightarrow>
  \<not> fst (checkItemExpiry s (wItemIn n p) t)"
  by (simp add: checkItemExpiry_def isFinalized_def emptyStore_def newFinal_def time_Sub_def maxInt64_def minInt64_def)

theorem dispatchCycle_safe_witness:
  "\<exists>sh s b sh' s'. proc_ok sh s \<and> length (shard_items sh) < 2 ^ 63 \<and> length (shard_items sh) = 2 \<and>
     dispatchCycle (NewSaturationFilter True) (\<lambda>_. 0) (sh, s) = (b, sh', s') \<and> \<not> b \<and> sh' = sh"
proof -
  obtain sh s where s: "proc_ok sh s" "mset (shard_items sh) = {#wItemIn 1 1, wItemIn 0 2#}" using wShard_two by blast
  have l: "length (shard_items sh) = 2" using arg_cong [OF s(2), of size] by simp
  obtain b sh' s' where d: "dispatchCycle (NewSaturationFilter True) (\<lambda>_. 0) (sh, s) = (b, sh', s')" by (metis prod_cases3)
  have "\<not> b \<and> sh' = sh" using dispatchCycle_safe [OF s(1) _ d] l by simp
  with l s(1) d show ?thesis
    by (intro exI [of _ sh] exI [of _ s] exI [of _ b] exI [of _ sh'] exI [of _ s']) simp
qed

theorem dispatch_highest_priority_witness:
  "\<exists>sh s sh' s'. proc_ok sh s \<and> mset (shard_items sh) = {#wItemIn 1 1, wItemIn 0 2#} \<and>
     (\<forall>it\<in>set (shard_items sh). \<not> fst (checkItemExpiry s it 0)) \<and>
     dispatchCycle (NewSaturationFilter False) (\<lambda>_. 0) (sh, s) = (True, sh', s') \<and>
     mset (shard_items sh') = {#wItemIn 0 2#}"
proof -
  obtain sh s where s: "proc_ok sh s" "mset (shard_items sh) = {#wItemIn 1 1, wItemIn 0 2#}"
      "st_final s = st_final emptyStore" "st_ctxErr s = st_ctxErr emptyStore" using wShard_two by blast
  have l: "length (shard_items sh) < 2 ^ 63" "shard_items sh \<noteq> []" using arg_cong [OF s(2), of size] by auto
  have st: "set (shard_items sh) = {wItemIn 1 1, wItemIn 0 2}" using arg_cong [OF s(2), of set_mset] by simp
  have ex: "\<forall>it\<in>set (shard_items sh). \<forall>p::nat. \<not> fst (checkItemExpiry s it 0)" using not_expired [OF s(3,4)] st by simp
  obtain it sh' s' where d: "dispatchCycle (NewSaturationFilter False) (\<lambda>_. 0) (sh, s) = (True, sh', s')"
      "mset (shard_items sh) = add_mset it (mset (shard_items sh'))"
      "\<forall>x\<in>set (shard_items sh). Priority (itemFlowKey it) \<le> Priority (itemFlowKey x)"
    using dispatch_highest_priority [OF s(1) l ex] by blast
  have "it \<in> set (shard_items sh)" using arg_cong [OF d(2), of set_mset] by auto
  then have "it = wItemIn 1 1" using d(3) st by auto
  then have "mset (shard_items sh') = {#wItemIn 0 2#}" using d(2) s(2) by simp
  then show ?thesis using s ex d by blast
qed

end
