(* ===== verification/ProcessorBulk.thy ===== *)
theory ProcessorBulk
  imports ProcessorCorrect
begin

text \<open>
  The bulk operations of the shard processor: the expiry sweep, the eviction of everything and
  the shutdown. The two sweeps share one contract, proved once for any order in which the
  workers take the queues.
\<close>

section \<open>Finalizing a list of items\<close>

lemma finalizeItems_simps:
  "finalizeItems f [] s = s"
  "finalizeItems f (it # its) s = finalizeItems f its (finalize it (fst (f s it)) (snd (f s it)) s)"
  by (simp_all add: finalizeItems_def split: prod.split)

text \<open>An outcome function that looks at nothing a finalization of other items changes.\<close>

definition stable_outcome :: "(store \<Rightarrow> flowItem \<Rightarrow> 'a) \<Rightarrow> bool" where
  "stable_outcome f \<longleftrightarrow> (\<forall>s s' x. \<not> isFinalized s x \<longrightarrow> \<not> isFinalized s' x \<longrightarrow> st_ctxErr s' = st_ctxErr s \<longrightarrow> f s' x = f s x)"

lemma stable_outcomeD: "stable_outcome f \<Longrightarrow> \<not> isFinalized s x \<Longrightarrow> \<not> isFinalized s' x \<Longrightarrow> st_ctxErr s' = st_ctxErr s \<Longrightarrow>
  f s' x = f s x"
  unfolding stable_outcome_def by blast

lemma finalizeItems_ok:
  assumes "proc_ok sh s"
  shows "proc_ok sh (finalizeItems f its s)" "keeps_final s (finalizeItems f its s)"
    "isFinalized (finalizeItems f its s) x \<longleftrightarrow> isFinalized s x \<or> fi_ptr x \<in> ptrs its"
    "st_ctxErr (finalizeItems f its s) = st_ctxErr s"
  using assms
proof (induction its arbitrary: s)
  case (Cons it its)
  note fo = proc_okD(2)
  { case 1 then show ?case using Cons.IH(1) proc_ok_finalize by (simp add: finalizeItems_simps) }
  { case 2 then show ?case
      using keeps_final_trans [OF keeps_final_finalize [OF fo] Cons.IH(2) [OF proc_ok_finalize]] by (simp add: finalizeItems_simps) }
  { case 3 then show ?case
      using Cons.IH(3) [OF proc_ok_finalize] isFinalized_finalize [OF fo] by (auto simp: finalizeItems_simps ptrs_def) }
  { case 4 then show ?case using Cons.IH(4) [OF proc_ok_finalize] by (simp add: finalizeItems_simps) }
qed (simp_all add: finalizeItems_simps ptrs_def)

lemma finalizeItems_outcome:
  assumes "proc_ok sh s" "distinct (map fi_ptr its)" "it \<in> set its" "\<not> isFinalized s it" "stable_outcome f"
  shows "FinalState (finalizeItems f its s) it = f s it"
  using assms
proof (induction its arbitrary: s)
  case (Cons x its)
  let ?s = "finalize x (fst (f s x)) (snd (f s x)) s"
  note fo = proc_okD(2) [OF Cons.prems(1)]
  note ok = proc_ok_finalize [OF Cons.prems(1), of x "fst (f s x)" "snd (f s x)"]
  show ?case
  proof (cases "it = x")
    case True
    have "FinalState ?s it = f s it" using finalize_fresh [OF fo Cons.prems(4)] True by simp
    moreover have "isFinalized ?s it" using finalize_isFinalized [OF fo] True by simp
    ultimately show ?thesis using finalizeItems_ok(2) [OF ok, of f its] by (simp add: finalizeItems_simps keeps_final_def)
  next
    case False
    then have m: "it \<in> set its" "fi_ptr it \<noteq> fi_ptr x" using Cons.prems(2,3) by (auto, metis imageI)
    then have nf: "\<not> isFinalized ?s it" using Cons.prems(4) isFinalized_finalize [OF fo] by simp
    then have "FinalState (finalizeItems f its ?s) it = f ?s it"
      using Cons.IH [OF ok] Cons.prems(2,5) m by simp
    then show ?thesis using stable_outcomeD [OF Cons.prems(5) Cons.prems(4) nf] by (simp add: finalizeItems_simps)
  qed
qed simp

section \<open>The contract of a sweep\<close>

text \<open>
  A sweep handles one queue at a time. \<open>P\<close> says which of its items are taken out and \<open>oc\<close> with
  which final state.
\<close>

locale queue_sweep =
  fixes processFn :: queueProcess and P :: "store \<Rightarrow> flowItem \<Rightarrow> bool"
    and oc :: "store \<Rightarrow> flowItem \<Rightarrow> QueueOutcome \<times> goError option"
  assumes step: "proc_ok sh s \<Longrightarrow> queue_at sh k = Some mq \<Longrightarrow>
      \<exists>mq' call s'. processFn k mq (sh, s) = (commit_queue k mq' call sh, s') \<and>
        took (sh, s) (commit_queue k mq' call sh, s') (filter (P s) (mq_contents mq)) \<and>
        st_ctxErr s' = st_ctxErr s \<and>
        (\<forall>it\<in>set (mq_contents mq). P s it \<longrightarrow> \<not> isFinalized s it \<longrightarrow> FinalState s' it = oc s it)"
    and P_stable: "isFinalized s' x = isFinalized s x \<Longrightarrow> st_ctxErr s' = st_ctxErr s \<Longrightarrow> P s' x = P s x"
    and oc_stable: "stable_outcome oc"
begin

lemma process_tasks_took:
  assumes "proc_ok sh s" "distinct ks" "set ks \<subseteq> dom (queue_at sh)" "process_tasks processFn ks (sh, s) = (sh', s')"
  shows "took (sh, s) (sh', s') (concat (map (\<lambda>k. filter (P s) (items_at sh k)) ks)) \<and> st_ctxErr s' = st_ctxErr s \<and>
    (\<forall>k\<in>set ks. \<forall>it\<in>set (items_at sh k). P s it \<longrightarrow> \<not> isFinalized s it \<longrightarrow> FinalState s' it = oc s it)"
  using assms
proof (induction ks arbitrary: sh s)
  case Nil
  then show ?case by (simp add: took_def ptrs_def)
next
  case (Cons k ks)
  obtain mq where q: "queue_at sh k = Some mq" using Cons.prems(3) by auto
  obtain mq1 call s1 where st: "processFn k mq (sh, s) = (commit_queue k mq1 call sh, s1)"
      "took (sh, s) (commit_queue k mq1 call sh, s1) (filter (P s) (mq_contents mq))" "st_ctxErr s1 = st_ctxErr s"
      "\<forall>it\<in>set (mq_contents mq). P s it \<longrightarrow> \<not> isFinalized s it \<longrightarrow> FinalState s1 it = oc s it"
    using step [OF Cons.prems(1) q] by blast
  define sh1 where "sh1 = commit_queue k mq1 call sh"
  obtain b where b: "sh_priorityBands sh (Priority k) = Some b" using q by (auto simp: queue_at_def bind_eq_Some_conv)
  have ia: "items_at sh1 k' = items_at sh k'" if "k' \<in> set ks" for k'
    using that Cons.prems(2) by (auto simp: sh1_def items_at_commit [OF b])
  have sub: "set ks \<subseteq> dom (queue_at sh1)" using Cons.prems(3) by (auto simp: sh1_def queue_at_commit [OF b])
  have rest: "process_tasks processFn ks (sh1, s1) = (sh', s')"
    using Cons.prems(4) q st(1) by (simp add: ManagedQueue_at [THEN iffD2, OF q] sh1_def)
  have fin: "isFinalized s1 it = isFinalized s it" if k: "k' \<in> set ks" and i: "it \<in> set (items_at sh k')" for k' it
  proof -
    obtain mq' where q': "queue_at sh k' = Some mq'" using Cons.prems(3) k by auto
    have "ptrs (mq_contents mq) \<inter> ptrs (mq_contents mq') = {}"
      using queues_disjoint [OF proc_okD(1) [OF Cons.prems(1)] q q'] Cons.prems(2) k by auto
    then show ?thesis using tookD(5) [OF st(2)] i q' by (auto simp: items_at_def ptrs_def)
  qed
  have P1: "P s1 it = P s it" if "k' \<in> set ks" "it \<in> set (items_at sh k')" for k' it
    using P_stable [OF fin [OF that] st(3)] .
  have e: "filter (P s1) (items_at sh1 k') = filter (P s) (items_at sh k')" if "k' \<in> set ks" for k'
    unfolding ia [OF that] using P1 [OF that] by (rule filter_cong [OF refl])
  note IH = Cons.IH [OF tookD(1) [OF st(2), folded sh1_def] _ sub rest]
  have d: "distinct ks" using Cons.prems(2) by simp
  have t: "took (sh, s) (sh', s') (concat (map (\<lambda>k. filter (P s) (items_at sh k)) (k # ks)))"
    using took_trans [OF st(2) [folded sh1_def]] IH [OF d] e q by (simp add: items_at_def cong: map_cong)
  have kf: "keeps_final s1 s'" using tookD(2) IH [OF d] by blast
  have "FinalState s' it = oc s it" if "k' \<in> set (k # ks)" "it \<in> set (items_at sh k')" "P s it" "\<not> isFinalized s it" for k' it
  proof (cases "k' = k")
    case True
    then have "it \<in> set (filter (P s) (mq_contents mq))" using that(2,3) q by (simp add: items_at_def)
    then have "isFinalized s1 it" using tookD(5) [OF st(2)] by (force simp: ptrs_def)
    then show ?thesis using kf st(4) that True q by (simp add: keeps_final_def items_at_def)
  next
    case False
    then have k': "k' \<in> set ks" using that(1) by simp
    have nf: "\<not> isFinalized s1 it" using fin [OF k' that(2)] that(4) by simp
    have "FinalState s' it = oc s1 it" using IH [OF d] k' that(2,3) ia [OF k'] P1 [OF k' that(2)] nf by auto
    then show ?thesis using stable_outcomeD [OF oc_stable that(4) nf st(3)] by simp
  qed
  with t IH [OF d] st(3) show ?case by auto
qed

end

section \<open>Every queue of the shard is swept\<close>

lemma iterate_collect: "iterate_list qs (\<lambda>queue acc. (True, acc @ [mq_flowKey queue])) acc = acc @ map mq_flowKey qs"
  by (induction qs arbitrary: acc) simp_all

lemma collect_queues_eq:
  assumes ok: "shard_ok sh s"
  shows "set ls \<subseteq> set (sh_orderedPriorityLevels sh) \<Longrightarrow>
    collect_queues sh ls acc = Some (acc @ concat (map (band_keys sh) ls))"
proof (induction ls arbitrary: acc)
  case (Cons p ls)
  obtain a where a: "sh_PriorityBandAccessor sh p = Inr a" using accessor_of_level [OF ok] Cons.prems by auto
  note acc = accessor_ok [OF ok a]
  have "mq_flowKey (the (queue_at sh k)) = k" if k: "k \<in> set (band_keys sh p)" for k
  proof -
    obtain mq where "queue_at sh k = Some mq" using band_keys_priority(2) [OF ok k] by blast
    then show ?thesis using queue_okD(1) [OF shard_okD(7) [OF ok]] by simp
  qed
  then have "map mq_flowKey (acc_view a) = band_keys sh p" unfolding acc(5) by (simp add: map_idI)
  then show ?case using Cons by (simp add: a acc_IterateQueues_view [OF acc(1)] iterate_collect)
qed simp

context queue_sweep
begin

lemma sweep:
  assumes ok: "proc_ok sh s" and sch: "mset (schedule (shard_keys sh)) = mset (shard_keys sh)"
    and r: "processAllQueuesConcurrently schedule processFn (sh, s) = (sh', s')"
  shows "proc_ok sh' s' \<and> keeps_final s s' \<and> st_ctxErr s' = st_ctxErr s \<and>
    sh_orderedPriorityLevels sh' = sh_orderedPriorityLevels sh \<and>
    mset (shard_items sh') = mset (filter (\<lambda>it. \<not> P s it) (shard_items sh)) \<and>
    (\<forall>x. isFinalized s' x \<longleftrightarrow> isFinalized s x \<or> fi_ptr x \<in> ptrs (filter (P s) (shard_items sh))) \<and>
    (\<forall>it\<in>set (shard_items sh). P s it \<longrightarrow> \<not> isFinalized s it \<longrightarrow> FinalState s' it = oc s it)"
proof -
  note sok = proc_okD(1) [OF ok]
  have sk: "set (schedule (shard_keys sh)) = set (shard_keys sh)" using arg_cong [OF sch, of set_mset] by simp
  have d: "distinct (schedule (shard_keys sh))"
    using distinct_shard_keys [OF sok] sch by (metis distinct_count_atmost_1 set_mset_mset)
  have sub: "set (schedule (shard_keys sh)) \<subseteq> dom (queue_at sh)" using shard_keys_queue [OF sok] sk by auto
  have c: "collect_queues sh (sh_orderedPriorityLevels sh) [] = Some (shard_keys sh)"
    using collect_queues_eq [OF sok subset_refl, of "[]"] by (simp add: shard_keys_def)
  have "process_tasks processFn (schedule (shard_keys sh)) (sh, s) = (sh', s')"
  proof (cases "shard_keys sh")
    case Nil
    then have "schedule (shard_keys sh) = []" using sk by simp
    then show ?thesis using r c Nil by (simp add: processAllQueuesConcurrently_def sh_AllOrderedPriorityLevels_def)
  next
    case Cons
    then show ?thesis using r c by (simp add: processAllQueuesConcurrently_def sh_AllOrderedPriorityLevels_def)
  qed
  from process_tasks_took [OF ok d sub this]
  have t: "took (sh, s) (sh', s') (concat (map (\<lambda>k. filter (P s) (items_at sh k)) (schedule (shard_keys sh))))"
    and F: "st_ctxErr s' = st_ctxErr s"
      "\<And>k it. k \<in> set (shard_keys sh) \<Longrightarrow> it \<in> set (items_at sh k) \<Longrightarrow> P s it \<Longrightarrow> \<not> isFinalized s it \<Longrightarrow> FinalState s' it = oc s it"
    unfolding sk by blast+
  have m: "mset (concat (map (\<lambda>k. filter (P s) (items_at sh k)) (schedule (shard_keys sh)))) = mset (filter (P s) (shard_items sh))"
    unfolding mset_concat_map_mset [OF sch] by (simp add: shard_items_def filter_concat comp_def)
  have "mset (shard_items sh') + mset (filter (P s) (shard_items sh)) =
      mset (filter (\<lambda>it. \<not> P s it) (shard_items sh)) + mset (filter (P s) (shard_items sh))"
    using tookD(4) [OF t] mset_partition [of "P s" "shard_items sh"] by (simp add: m add.commute)
  then have i: "mset (shard_items sh') = mset (filter (\<lambda>it. \<not> P s it) (shard_items sh))" by (rule add_right_imp_eq)
  have "\<forall>it\<in>set (shard_items sh). P s it \<longrightarrow> \<not> isFinalized s it \<longrightarrow> FinalState s' it = oc s it"
    using F(2) by (auto simp: shard_items_def)
  then show ?thesis using tookD(1-3) [OF t] tookD(5) [OF t] i F(1) ptrs_mset [OF m] by simp
qed

end

section \<open>The two sweeps of the processor\<close>

definition expiry_outcome :: "time \<Rightarrow> store \<Rightarrow> flowItem \<Rightarrow> QueueOutcome \<times> goError option" where
  "expiry_outcome now s it = (let (_, oc, err) = checkItemExpiry s it now in (oc, evicted err))"

lemma stable_expiry: "stable_outcome (expiry_outcome now)"
  by (simp add: stable_outcome_def expiry_outcome_def checkItemExpiry_def)

lemma expired_stable: "isFinalized s' x = isFinalized s x \<Longrightarrow> st_ctxErr s' = st_ctxErr s \<Longrightarrow> expired s' now x = expired s now x"
  by (simp add: checkItemExpiry_def split: option.split)

lemma finalizeExpiredItems_eq: "finalizeExpiredItems its now = finalizeItems (expiry_outcome now) its"
  by (simp add: finalizeExpiredItems_def expiry_outcome_def [abs_def] fun_eq_iff)

text \<open>Both take a list of items out of a queue and finalize them.\<close>

lemma queue_ptrs_distinct:
  assumes ok: "shard_ok sh s" and q: "queue_at sh k = Some mq"
  shows "distinct (map fi_ptr (mq_contents mq))"
  using sq.distinct_ptrs [OF mq_invarD(1) [OF queue_at_inv [OF ok q]]] by (simp add: mq_contents_def)

lemma removal_took:
  assumes ok: "proc_ok sh s" and q: "queue_at sh k = Some mq"
    and sok: "shard_ok (commit_queue k mq' call sh) s1"
    and m: "mset (shard_items sh) = mset (shard_items (commit_queue k mq' call sh)) + mset (filter P (mq_contents mq))"
    and f: "frame (ptrs (mq_contents mq)) s s1" and oc: "stable_outcome oc"
  defines "rs \<equiv> filter P (mq_contents mq)"
  shows "took (sh, s) (commit_queue k mq' call sh, finalizeItems oc rs s1) rs"
    and "st_ctxErr (finalizeItems oc rs s1) = st_ctxErr s"
    and "it \<in> set rs \<Longrightarrow> \<not> isFinalized s it \<Longrightarrow> FinalState (finalizeItems oc rs s1) it = oc s it"
proof -
  have ok1: "proc_ok (commit_queue k mq' call sh) s1"
    using sok final_ok_frame [OF f proc_okD(2) [OF ok]] by (simp add: proc_ok_def)
  note F = finalizeItems_ok [OF ok1, of oc rs]
  show "took (sh, s) (commit_queue k mq' call sh, finalizeItems oc rs s1) rs"
    using F(1,3) keeps_final_trans [OF keeps_final_frame [OF f] F(2)] commit_levels [OF q] m isFinalized_frame [OF f]
    by (simp add: took_def rs_def)
  show "st_ctxErr (finalizeItems oc rs s1) = st_ctxErr s" using F(4) frameD(4) [OF f] by simp
  have d: "distinct (map fi_ptr rs)"
    using queue_ptrs_distinct [OF proc_okD(1) [OF ok] q] by (simp add: rs_def distinct_map_filter)
  assume it: "it \<in> set rs" "\<not> isFinalized s it"
  then have nf: "\<not> isFinalized s1 it" by (simp add: isFinalized_frame [OF f])
  show "FinalState (finalizeItems oc rs s1) it = oc s it"
    using finalizeItems_outcome [OF ok1 d it(1) nf oc] stable_outcomeD [OF oc it(2) nf frameD(4) [OF f]] by simp
qed

interpretation expiry: queue_sweep "cleanup_queue now" "\<lambda>s it. fst (checkItemExpiry s it now)" "expiry_outcome now" for now
proof
  fix sh s k mq
  let ?P = "\<lambda>it. fst (checkItemExpiry s it now)"
  assume ok: "proc_ok sh s" and q: "queue_at sh k = Some mq"
  obtain mq' s1 call where r: "mq_Cleanup mq s ?P = (filter ?P (mq_contents mq), mq', s1, call)"
      "shard_ok (commit_queue k mq' call sh) s1"
      "mset (shard_items sh) = mset (shard_items (commit_queue k mq' call sh)) + mset (filter ?P (mq_contents mq))"
      "frame (ptrs (mq_contents mq)) s s1"
    using shard_Cleanup [OF proc_okD(1) [OF ok] q, of ?P] by blast
  note T = removal_took [OF ok q r(2-4) stable_expiry [of now]]
  show "\<exists>mq' call s'. cleanup_queue now k mq (sh, s) = (commit_queue k mq' call sh, s') \<and>
      took (sh, s) (commit_queue k mq' call sh, s') (filter ?P (mq_contents mq)) \<and> st_ctxErr s' = st_ctxErr s \<and>
      (\<forall>it\<in>set (mq_contents mq). ?P it \<longrightarrow> \<not> isFinalized s it \<longrightarrow> FinalState s' it = expiry_outcome now s it)"
    using T r(1) by (intro exI [of _ mq'] exI [of _ call] exI [of _ "finalizeItems (expiry_outcome now) (filter ?P (mq_contents mq)) s1"])
      (auto simp: cleanup_queue_def finalizeExpiredItems_eq)
next
  show "stable_outcome (expiry_outcome now)" by (rule stable_expiry)
qed (rule expired_stable)

definition shutdown_outcome :: "QueueOutcome \<times> goError option" where
  "shutdown_outcome = (QueueOutcomeEvictedOther, evicted (Some (Sentinel ErrFlowControllerShutdown)))"

interpretation eviction: queue_sweep evict_queue "\<lambda>_ _. True" "\<lambda>_ _. shutdown_outcome"
proof
  fix sh s k mq
  assume ok: "proc_ok sh s" and q: "queue_at sh k = Some mq"
  obtain mq' s1 call where r: "mq_Drain mq s = (mq_contents mq, mq', s1, call)"
      "shard_ok (commit_queue k mq' call sh) s1"
      "mset (shard_items sh) = mset (shard_items (commit_queue k mq' call sh)) + mset (mq_contents mq)"
      "frame (ptrs (mq_contents mq)) s s1"
    using shard_Drain [OF proc_okD(1) [OF ok] q] by blast
  have st: "stable_outcome (\<lambda>_ _. shutdown_outcome)" by (simp add: stable_outcome_def)
  note T = removal_took [OF ok q r(2) _ r(4) st, of "\<lambda>_. True"]
  show "\<exists>mq' call s'. evict_queue k mq (sh, s) = (commit_queue k mq' call sh, s') \<and>
      took (sh, s) (commit_queue k mq' call sh, s') (filter (\<lambda>_. True) (mq_contents mq)) \<and> st_ctxErr s' = st_ctxErr s \<and>
      (\<forall>it\<in>set (mq_contents mq). True \<longrightarrow> \<not> isFinalized s it \<longrightarrow> FinalState s' it = shutdown_outcome)"
    using T r(1,3) by (intro exI [of _ mq'] exI [of _ call] exI [of _ "finalizeItems (\<lambda>_ _. shutdown_outcome) (mq_contents mq) s1"])
      (auto simp: evict_queue_def shutdown_outcome_def)
qed (simp_all add: stable_outcome_def)

text \<open>
  C15. An expiry sweep, in whatever order its workers take the queues, removes exactly the items
  that have expired (finalized elsewhere, cancelled, or older than their time to live) and keeps
  all others queued. Every removed item that was still open gets the outcome of its own expiry
  check, wrapped as an eviction; no other item is finalized and no final state is overwritten.
\<close>

theorem cleanupExpired_exact:
  assumes "proc_ok sh s" "mset (schedule (shard_keys sh)) = mset (shard_keys sh)"
    "cleanupExpired schedule now (sh, s) = (sh', s')"
  shows "proc_ok sh' s' \<and> keeps_final s s' \<and>
    mset (shard_items sh') = mset (filter (\<lambda>it. \<not> fst (checkItemExpiry s it now)) (shard_items sh)) \<and>
    (\<forall>x. isFinalized s' x \<longleftrightarrow> isFinalized s x \<or>
       (\<exists>it\<in>set (shard_items sh). fst (checkItemExpiry s it now) \<and> fi_ptr it = fi_ptr x)) \<and>
    (\<forall>it\<in>set (shard_items sh). fst (checkItemExpiry s it now) \<and> \<not> isFinalized s it \<longrightarrow>
       FinalState s' it = (fst (snd (checkItemExpiry s it now)), evicted (snd (snd (checkItemExpiry s it now)))))"
proof -
  note R = expiry.sweep [OF assms(1), where schedule = schedule, OF assms(2), of now sh' s']
  have p: "fi_ptr x \<in> ptrs (filter P xs) \<longleftrightarrow> (\<exists>it\<in>set xs. P it \<and> fi_ptr it = fi_ptr x)" for x P xs
    by (auto simp: ptrs_def) (metis (mono_tags, lifting) image_eqI mem_Collect_eq)
  show ?thesis using R assms(3) by (simp add: cleanupExpired_def p expiry_outcome_def split_def Let_def)
qed

text \<open>
  Evicting everything leaves no item in any queue of the shard; every item that was still
  open is finalized as evicted by the shutdown, and earlier final states stay.
\<close>

lemma evictAll_empties:
  assumes "proc_ok sh s" "mset (schedule (shard_keys sh)) = mset (shard_keys sh)"
    "evictAll schedule (sh, s) = (sh', s')"
  shows "proc_ok sh' s' \<and> shard_items sh' = [] \<and> keeps_final s s' \<and>
    sh_totalLen sh' = 0 \<and> sh_totalByteSize sh' = 0 \<and>
    (\<forall>x. isFinalized s' x \<longleftrightarrow> isFinalized s x \<or> fi_ptr x \<in> ptrs (shard_items sh)) \<and>
    (\<forall>it\<in>set (shard_items sh). \<not> isFinalized s it \<longrightarrow> FinalState s' it =
       (QueueOutcomeEvictedOther, evicted (Some (Sentinel ErrFlowControllerShutdown))))"
proof -
  note R = eviction.sweep [OF assms(1), where schedule = schedule, OF assms(2), of sh' s'] assms(3)
  then have e: "shard_items sh' = []" and ok: "proc_ok sh' s'" by (simp_all add: evictAll_def)
  have "sh_totalLen sh' = 0" "sh_totalByteSize sh' = 0"
    using shard_okD(8) [OF proc_okD(1) [OF ok]] by (simp_all add: counts_def e)
  with R e ok show ?thesis by (simp add: evictAll_def shutdown_outcome_def)
qed

section \<open>Shutdown\<close>

definition chan_items :: "flowItem option list \<Rightarrow> flowItem list" where
  "chan_items xs = concat (map (\<lambda>x. case x of None \<Rightarrow> [] | Some it \<Rightarrow> [it]) xs)"

definition rejected_outcome :: "QueueOutcome \<times> goError option" where
  "rejected_outcome = (QueueOutcomeRejectedOther, rejected (Sentinel ErrFlowControllerShutdown))"

lemma drain_chan_eq: "drain_chan xs s = finalizeItems (\<lambda>_ _. rejected_outcome) (chan_items xs) s"
  by (induction xs s rule: drain_chan.induct) (simp_all add: chan_items_def finalizeItems_simps rejected_outcome_def)

lemma shutdown_ok:
  assumes ok: "proc_ok (sp_shard sp) s" and sch: "\<And>ks. mset (schedule ks) = mset ks"
    and o: "\<not> sp_shutdownOnce sp" "\<not> sp_chanClosed sp"
  shows "\<exists>sh' s'. sp_shutdown schedule (sp, s) = Some (sp\<lparr>sp_shutdownOnce := True, sp_isShuttingDown := True,
        sp_enqueueChan := [], sp_chanClosed := True, sp_shard := sh'\<rparr>, s') \<and>
    proc_ok sh' s' \<and> shard_items sh' = [] \<and> keeps_final s s' \<and>
    (\<forall>x. isFinalized s' x \<longleftrightarrow> isFinalized s x \<or> fi_ptr x \<in> ptrs (chan_items (sp_enqueueChan sp) @ shard_items (sp_shard sp)))"
proof -
  let ?s1 = "drain_chan (sp_enqueueChan sp) s"
  note D = finalizeItems_ok [OF ok, of "\<lambda>_ _. rejected_outcome" "chan_items (sp_enqueueChan sp)", folded drain_chan_eq]
  obtain sh' s' where e: "evictAll schedule (sp_shard sp, ?s1) = (sh', s')" by force
  note E = eviction.sweep [OF D(1), where schedule = schedule, OF sch, of sh' s'] e
  have "shard_items sh' = []" using E by (simp add: evictAll_def)
  moreover have "keeps_final s s'" using keeps_final_trans [OF D(2)] E by (simp add: evictAll_def)
  moreover have "isFinalized s' x \<longleftrightarrow> isFinalized s x \<or> fi_ptr x \<in> ptrs (chan_items (sp_enqueueChan sp) @ shard_items (sp_shard sp))" for x
    using E D(3) by (auto simp: evictAll_def ptrs_def)
  ultimately show ?thesis
    using E e o by (intro exI [of _ sh'] exI [of _ s']) (simp add: sp_shutdown_def evictAll_def)
qed

text \<open>
  C16. Shutting a running processor down ends: the channel is drained and closed, no queue has an
  item left, every item that was in the channel or in a queue is finalized, earlier final states
  stay, and a second shutdown changes nothing.
\<close>

theorem shutdown_finalizes_all:
  assumes "proc_ok (sp_shard sp) s" "\<forall>ks. mset (schedule ks) = mset ks" "\<not> sp_shutdownOnce sp" "\<not> sp_chanClosed sp"
  shows "\<exists>sp' s'. sp_shutdown schedule (sp, s) = Some (sp', s') \<and> sp_enqueueChan sp' = [] \<and> sp_chanClosed sp' \<and>
    sp_isShuttingDown sp' \<and> proc_ok (sp_shard sp') s' \<and> shard_items (sp_shard sp') = [] \<and> keeps_final s s' \<and>
    (\<forall>it. Some it \<in> set (sp_enqueueChan sp) \<or> it \<in> set (shard_items (sp_shard sp)) \<longrightarrow> isFinalized s' it) \<and>
    sp_shutdown schedule (sp', s') = Some (sp', s')"
proof -
  obtain sh' s' where r: "sp_shutdown schedule (sp, s) = Some (sp\<lparr>sp_shutdownOnce := True, sp_isShuttingDown := True,
        sp_enqueueChan := [], sp_chanClosed := True, sp_shard := sh'\<rparr>, s')"
    "proc_ok sh' s'" "shard_items sh' = []" "keeps_final s s'"
    "\<And>x. isFinalized s' x \<longleftrightarrow> isFinalized s x \<or> fi_ptr x \<in> ptrs (chan_items (sp_enqueueChan sp) @ shard_items (sp_shard sp))"
    using shutdown_ok [OF assms(1) _ assms(3,4), of schedule] assms(2) by blast
  have "it \<in> set (chan_items (sp_enqueueChan sp))" if "Some it \<in> set (sp_enqueueChan sp)" for it
    using that by (force simp: chan_items_def)
  then have "\<forall>it. Some it \<in> set (sp_enqueueChan sp) \<or> it \<in> set (shard_items (sp_shard sp)) \<longrightarrow> isFinalized s' it"
    using r(5) by (auto simp: ptrs_def)
  with r(1-4) show ?thesis by (simp add: sp_shutdown_def)
qed

section \<open>The byte limits\<close>

definition nat_bytes :: "flowItem list \<Rightarrow> nat" where
  "nat_bytes xs = sum_list (map (\<lambda>it. unat (itemByteSize it)) xs)"

lemma bytes_nat: "bytes xs = of_nat (nat_bytes xs)"
  by (induction xs) (simp_all add: nat_bytes_def)

lemma nat_bytes_mset: "mset xs = mset ys \<Longrightarrow> nat_bytes xs = nat_bytes ys"
  unfolding nat_bytes_def by (metis mset_map sum_mset_sum_list)

lemma unat_bytes: "nat_bytes xs < 2 ^ 64 \<Longrightarrow> unat (bytes xs) = nat_bytes xs"
  by (simp add: bytes_nat unsigned_of_nat take_bit_nat_eq_self)

text \<open>The real sizes, as natural numbers, are within the limits of the configuration.\<close>

definition within_limits :: "registryShard \<Rightarrow> bool" where
  "within_limits sh \<longleftrightarrow>
     (0 < cfg_MaxBytes (sh_config sh) \<longrightarrow> nat_bytes (shard_items sh) \<le> unat (cfg_MaxBytes (sh_config sh))) \<and>
     (\<forall>p b. sh_priorityBands sh p = Some b \<longrightarrow> nat_bytes (band_items sh p) \<le> unat (pbc_MaxBytes (pb_config b)))"

lemma limit_check:
  fixes lim sz :: uint64
  assumes "nat_bytes xs \<le> unat lim" "unat lim + unat sz < 2 ^ 64"
  shows "bytes xs + sz \<le> lim \<longleftrightarrow> nat_bytes xs + unat sz \<le> unat lim"
proof -
  have "bytes xs + sz = of_nat (nat_bytes xs + unat sz)" by (simp add: bytes_nat)
  then have "unat (bytes xs + sz) = nat_bytes xs + unat sz"
    using assms by (simp only: unsigned_of_nat) (simp add: take_bit_nat_eq_self)
  then show ?thesis by (simp add: word_le_nat_alt)
qed

text \<open>
  C19. Enqueueing never takes the queued bytes of a shard or of a priority band over its configured
  limit (a shard limit of 0 stands for no limit), as long as the limits plus the size of the item
  stay below $2^{64}$, so that the additions of the capacity check do not wrap around.
\<close>

theorem enqueue_within_limits:
  assumes ok: "proc_ok sh s" and new: "fi_ptr it \<notin> ptrs (shard_items sh)" and nf: "\<not> isFinalized s it"
    and w: "within_limits sh" and e: "sp_enqueue it (sh, s) = (sh', s')"
    and cap: "unat (cfg_MaxBytes (sh_config sh)) + unat (itemByteSize it) < 2 ^ 64"
      "\<forall>p b. sh_priorityBands sh p = Some b \<longrightarrow> unat (pbc_MaxBytes (pb_config b)) + unat (itemByteSize it) < 2 ^ 64"
  shows "within_limits sh'"
proof (cases "queue_at sh (itemFlowKey it) \<noteq> None \<and> hasCapacity sh (Priority (itemFlowKey it)) (itemByteSize it)")
  case False
  then have "sh' = sh" using e enqueue_full [of sh it _ s] enqueue_unknown [of sh it s] by (cases "queue_at sh (itemFlowKey it)") auto
  then show ?thesis using w by simp
next
  case True
  define k where "k = itemFlowKey it"
  let ?p = "Priority k"
  obtain mq where q: "queue_at sh k = Some mq" using True by (auto simp: k_def)
  obtain mq' call where r: "sh' = commit_queue k mq' call sh"
      "mset (mq_contents mq') = add_mset it (mset (mq_contents mq))"
      "mset (shard_items sh') = add_mset it (mset (shard_items sh))"
    using enqueue_queued [OF ok new nf] True q e unfolding k_def by auto
  note sok = proc_okD(1) [OF ok]
  obtain b where b: "sh_priorityBands sh ?p = Some b" using queue_at_key(3) [OF sok q] by blast
  have band: "mset (band_items sh' ?p) = mset (it # band_items sh ?p)"
    using band_items_commit(1) [OF sok q, of mq' call] r(1,2) by simp
  have other: "p \<noteq> ?p \<Longrightarrow> band_items sh' p = band_items sh p" for p using band_items_commit(2) [OF sok q] r(1) by simp
  have shard: "mset (shard_items sh') = mset (it # shard_items sh)" using r(3) by simp
  have nb: "nat_bytes (it # xs) = nat_bytes xs + unat (itemByteSize it)" for xs by (simp add: nat_bytes_def)
  note cf = commit_queue_fields [OF b, of mq' call]
  have wb: "nat_bytes (band_items sh ?p) \<le> unat (pbc_MaxBytes (pb_config b))" using w b by (auto simp: within_limits_def)
  have cb: "pb_byteSize b = bytes (band_items sh ?p)" using band_okD(5) [OF shard_okD(6) [OF sok b]] by (simp add: counts_def)
  have ct: "sh_totalByteSize sh = bytes (shard_items sh)" using shard_okD(8) [OF sok] by (simp add: counts_def)
  have H: "itemByteSize it = 0 \<or> \<not> (0 < cfg_MaxBytes (sh_config sh) \<and> cfg_MaxBytes (sh_config sh) < sh_totalByteSize sh + itemByteSize it) \<and>
      pb_byteSize b + itemByteSize it \<le> pbc_MaxBytes (pb_config b)"
    using True b unfolding hasCapacity_eq k_def by auto
  have 1: "nat_bytes (band_items sh ?p) + unat (itemByteSize it) \<le> unat (pbc_MaxBytes (pb_config b))"
    using H wb limit_check [OF wb] cap(2) b unfolding cb by auto
  have 2: "nat_bytes (shard_items sh) + unat (itemByteSize it) \<le> unat (cfg_MaxBytes (sh_config sh))"
    if "0 < cfg_MaxBytes (sh_config sh)"
    using H w that limit_check [of "shard_items sh" "cfg_MaxBytes (sh_config sh)" "itemByteSize it"] cap(1)
    unfolding ct by (auto simp: within_limits_def not_less)
  show ?thesis
    using 1 2 w nat_bytes_mset [OF band] nat_bytes_mset [OF shard] other cf(2,5)
    unfolding within_limits_def r(1) [symmetric] nb by auto
qed

text \<open>
  The bound on the sizes is needed: in a shard whose queued bytes are all in one band, an item
  whose size is the two's complement of that number passes the capacity check, whatever the
  limits are, although the real sum is $2^{64}$.
\<close>

lemma hasCapacity_wraps:
  assumes "sh_priorityBands sh p = Some b" "pb_byteSize b \<noteq> 0" "sh_totalByteSize sh = pb_byteSize b"
  shows "hasCapacity sh p (- pb_byteSize b) \<and> unat (pb_byteSize b) + unat (- pb_byteSize b) = 2 ^ 64"
proof -
  let ?n = "unat (pb_byteSize b) + unat (- pb_byteSize b)"
  have "(of_nat ?n :: uint64) = 0" by simp
  then have "2 ^ 64 dvd ?n" by (simp only: word_of_nat_eq_0_iff) simp
  then obtain m where m: "?n = 2 ^ 64 * m" by (rule dvdE)
  have "unat (pb_byteSize b) < 2 ^ 64" "unat (- pb_byteSize b) < 2 ^ 64" "0 < unat (pb_byteSize b)"
    using unsigned_less [of "pb_byteSize b"] unsigned_less [of "- pb_byteSize b"] assms(2) by (simp_all add: unat_gt_0)
  then have "?n < 2 ^ 64 * 2" "0 < ?n" by simp_all
  then have "m = 1" unfolding m by simp
  then show ?thesis using assms m by (simp add: hasCapacity_eq)
qed

section \<open>Concrete runs\<close>

lemma hasCapacity_wraps_witness:
  "\<exists>sh b. sh_priorityBands sh 2 = Some b \<and> pb_byteSize b = 5 \<and> pbc_MaxBytes (pb_config b) = 100 \<and>
     hasCapacity sh 2 18446744073709551611"
proof -
  let ?b = "(wPriorityBand 2)\<lparr>pb_byteSize := 5\<rparr>"
  let ?sh = "wShard\<lparr>sh_priorityBands := (sh_priorityBands wShard)(2 \<mapsto> ?b), sh_totalByteSize := 5\<rparr>"
  have "hasCapacity ?sh 2 (- 5)" using hasCapacity_wraps [of ?sh 2 ?b] by simp
  moreover have "(- 5 :: uint64) = 18446744073709551611" by (rule minus_unique) simp
  ultimately show ?thesis by (intro exI [of _ ?sh] exI [of _ ?b]) (simp add: wPriorityBand_def wBand_def)
qed

theorem enqueue_within_limits_witness:
  "proc_ok wShard emptyStore \<and> within_limits wShard \<and>
   (\<exists>sh' s'. sp_enqueue (wItemIn 0 2) (wShard, emptyStore) = (sh', s') \<and> within_limits sh')"
proof -
  have nf: "\<not> isFinalized emptyStore (wItemIn 0 2)" by (simp add: isFinalized_def emptyStore_def newFinal_def)
  have new: "fi_ptr (wItemIn 0 2) \<notin> ptrs (shard_items wShard)" by (simp add: wShard_items ptrs_def)
  have w: "within_limits wShard" by (simp add: within_limits_def wShard_items nat_bytes_def)
  obtain sh' s' where e: "sp_enqueue (wItemIn 0 2) (wShard, emptyStore) = (sh', s')" by force
  have c: "unat (cfg_MaxBytes (sh_config wShard)) + unat (itemByteSize (wItemIn 0 2)) < 2 ^ 64"
    "\<forall>p b. sh_priorityBands wShard p = Some b \<longrightarrow> unat (pbc_MaxBytes (pb_config b)) + unat (itemByteSize (wItemIn 0 2)) < 2 ^ 64"
    by (auto simp: wShard_def wConfig_def wPriorityBand_def wBand_def split: if_splits)
  show ?thesis using enqueue_within_limits [OF wShard_ok new nf w e c] wShard_ok w e by blast
qed

theorem cleanupExpired_exact_witness:
  "\<exists>sh s sh' s'. proc_ok sh s \<and> mset (shard_items sh) = {#wItemIn 1 1, wItemIn 0 2#} \<and>
     mset (rev (shard_keys sh)) = mset (shard_keys sh) \<and> cleanupExpired rev 11 (sh, s) = (sh', s') \<and>
     shard_items sh' = [] \<and> fst (FinalState s' (wItemIn 0 2)) = QueueOutcomeEvictedTTL"
proof -
  obtain sh s where s: "proc_ok sh s" "mset (shard_items sh) = {#wItemIn 1 1, wItemIn 0 2#}"
      "st_final s = st_final emptyStore" "st_ctxErr s = st_ctxErr emptyStore" using wShard_two by blast
  obtain sh' s' where c: "cleanupExpired rev 11 (sh, s) = (sh', s')" by force
  have k: "mset (rev (shard_keys sh)) = mset (shard_keys sh)" by simp
  have st: "set (shard_items sh) = {wItemIn 1 1, wItemIn 0 2}" using arg_cong [OF s(2), of set_mset] by simp
  have nf: "\<not> isFinalized s it" for it using s(3) by (simp add: isFinalized_def emptyStore_def newFinal_def)
  have x: "checkItemExpiry s (wItemIn n p) 11 = (True, QueueOutcomeEvictedTTL, Some (Sentinel ErrTTLExpired))" for n p
    using s(4) nf by (simp add: checkItemExpiry_def emptyStore_def time_Sub_def maxInt64_def minInt64_def)
  have "shard_items sh' = []" "fst (FinalState s' (wItemIn 0 2)) = QueueOutcomeEvictedTTL"
    using cleanupExpired_exact [OF s(1) k c] st x nf by (auto simp: filter_empty_conv)
  with s c k show ?thesis by blast
qed

lemma evictAll_empties_witness:
  "\<exists>sh s sh' s'. proc_ok sh s \<and> mset (shard_items sh) = {#wItemIn 1 1, wItemIn 0 2#} \<and>
     mset (rev (shard_keys sh)) = mset (shard_keys sh) \<and> evictAll rev (sh, s) = (sh', s') \<and>
     shard_items sh' = [] \<and> fst (FinalState s' (wItemIn 0 2)) = QueueOutcomeEvictedOther"
proof -
  obtain sh s where s: "proc_ok sh s" "mset (shard_items sh) = {#wItemIn 1 1, wItemIn 0 2#}"
      "st_final s = st_final emptyStore" using wShard_two by blast
  obtain sh' s' where c: "evictAll rev (sh, s) = (sh', s')" by force
  have k: "mset (rev (shard_keys sh)) = mset (shard_keys sh)" by simp
  have st: "set (shard_items sh) = {wItemIn 1 1, wItemIn 0 2}" using arg_cong [OF s(2), of set_mset] by simp
  have nf: "\<not> isFinalized s it" for it using s(3) by (simp add: isFinalized_def emptyStore_def newFinal_def)
  have "shard_items sh' = []" "fst (FinalState s' (wItemIn 0 2)) = QueueOutcomeEvictedOther"
    using evictAll_empties [OF s(1) k c] st nf by simp_all
  with s c k show ?thesis by blast
qed

theorem shutdown_finalizes_all_witness:
  "\<exists>sp' s'. sp_shutdown rev ((NewShardProcessor wShard)\<lparr>sp_enqueueChan := [Some (wItemIn 0 2)]\<rparr>, emptyStore) = Some (sp', s') \<and>
     sp_chanClosed sp' \<and> isFinalized s' (wItemIn 0 2)"
proof -
  let ?sp = "(NewShardProcessor wShard)\<lparr>sp_enqueueChan := [Some (wItemIn 0 2)]\<rparr>"
  have p: "proc_ok (sp_shard ?sp) emptyStore" "\<forall>ks :: FlowKey list. mset (rev ks) = mset ks" "\<not> sp_shutdownOnce ?sp" "\<not> sp_chanClosed ?sp"
    using wShard_ok by (simp_all add: NewShardProcessor_def)
  have m: "Some (wItemIn 0 2) \<in> set (sp_enqueueChan ?sp)" by simp
  show ?thesis using shutdown_finalizes_all [OF p] m by blast
qed

end
