(* ===== verification/ProcessorRun.thy ===== *)
theory ProcessorRun
  imports ProcessorBulk
begin

text \<open>
  The processor at run time (\<open>Run\<close>, \<open>Enqueue\<close> and \<open>runExpiryCleanup\<close> of
  \<open>controller/internal/processor.go\<close>): the callers of \<open>Enqueue\<close>, the main loop and the cleanup
  goroutine as a transition system. A step is one call of an operation, or one half of \<open>Enqueue\<close>,
  which first reads the shutdown flag and then sends. The clock readings, the saturation signal,
  the order of the cleanup workers and which ready case \<open>select\<close> takes are free.
\<close>

section \<open>The system\<close>

record system =
  sys_sp :: ShardProcessor
  sys_store :: store
  sys_senders :: "flowItem list" \<comment> \<open>callers between the check and the send\<close>
  sys_ctxDone :: bool
  sys_running :: bool \<comment> \<open>the main loop has not returned\<close>
  sys_cleaning :: bool \<comment> \<open>the cleanup goroutine has not returned\<close>
  sys_offered :: "flowItem list" \<comment> \<open>every item passed to \<open>Enqueue\<close> so far\<close>

text \<open>The first half of \<open>Enqueue\<close>: reject at once during shutdown, otherwise go on to send.\<close>

definition Enqueue_check :: "flowItem \<Rightarrow> system \<Rightarrow> system" where
  "Enqueue_check item S =
     (if sp_isShuttingDown (sys_sp S)
      then S\<lparr>sys_store := finalize item QueueOutcomeRejectedOther (rejected (Sentinel ErrFlowControllerShutdown)) (sys_store S),
             sys_offered := item # sys_offered S\<rparr>
      else S\<lparr>sys_senders := item # sys_senders S, sys_offered := item # sys_offered S\<rparr>)"

text \<open>The second half: a send on a closed channel panics; on a full one it blocks (\<open>None\<close>).\<close>

definition Enqueue_send :: "flowItem \<Rightarrow> system \<Rightarrow> system option" where
  "Enqueue_send item S =
     (if sp_chanClosed (sys_sp S) then Some (S\<lparr>sys_senders := remove1 item (sys_senders S), sys_store := panic (sys_store S)\<rparr>)
      else if length (sp_enqueueChan (sys_sp S)) < enqueueChannelBufferSize
      then Some (S\<lparr>sys_senders := remove1 item (sys_senders S),
                   sys_sp := (sys_sp S)\<lparr>sp_enqueueChan := sp_enqueueChan (sys_sp S) @ [Some item]\<rparr>\<rparr>)
      else None)"

text \<open>One turn of the main loop. \<open>None\<close> stands for a turn that never ends.\<close>

datatype runCase = CtxDone | Receive | Default

fun run_ready :: "runCase \<Rightarrow> system \<Rightarrow> bool" where
  "run_ready CtxDone S = sys_ctxDone S"
| "run_ready Receive S = (sp_enqueueChan (sys_sp S) \<noteq> [] \<or> sp_chanClosed (sys_sp S))"
| "run_ready Default S = (\<not> sys_ctxDone S \<and> sp_enqueueChan (sys_sp S) = [] \<and> \<not> sp_chanClosed (sys_sp S))"

definition Run_shutdown :: "(FlowKey list \<Rightarrow> FlowKey list) \<Rightarrow> system \<Rightarrow> system option" where
  "Run_shutdown schedule S =
     (case sp_shutdown schedule (sys_sp S, sys_store S) of
        None \<Rightarrow> None
      | Some (sp, s) \<Rightarrow> Some (S\<lparr>sys_sp := sp, sys_store := s, sys_running := False\<rparr>))"

definition Run_dispatch :: "bool \<Rightarrow> (nat \<Rightarrow> time) \<Rightarrow> system \<Rightarrow> system" where
  "Run_dispatch saturated clock S =
     (case dispatchCycle (NewSaturationFilter saturated) clock (sp_shard (sys_sp S), sys_store S) of
        (_, sh, s) \<Rightarrow> S\<lparr>sys_sp := (sys_sp S)\<lparr>sp_shard := sh\<rparr>, sys_store := s\<rparr>)"

definition Run_enqueue :: "flowItem \<Rightarrow> system \<Rightarrow> system" where
  "Run_enqueue item S =
     (case sp_enqueue item (sp_shard (sys_sp S), sys_store S) of
        (sh, s) \<Rightarrow> S\<lparr>sys_sp := (sys_sp S)\<lparr>sp_shard := sh\<rparr>, sys_store := s\<rparr>)"

fun Run_turn :: "(FlowKey list \<Rightarrow> FlowKey list) \<Rightarrow> bool \<Rightarrow> (nat \<Rightarrow> time) \<Rightarrow> runCase \<Rightarrow> system \<Rightarrow> system option" where
  "Run_turn schedule saturated clock CtxDone S = Run_shutdown schedule S"
| "Run_turn schedule saturated clock Receive S =
     (case sp_enqueueChan (sys_sp S) of
        [] \<Rightarrow> Run_shutdown schedule S
      | msg # rest \<Rightarrow>
          let S1 = S\<lparr>sys_sp := (sys_sp S)\<lparr>sp_enqueueChan := rest\<rparr>\<rparr> in
          (case msg of
             None \<Rightarrow> Some S1
           | Some item \<Rightarrow> Some (Run_dispatch saturated clock (Run_enqueue item S1))))"
| "Run_turn schedule saturated clock Default S = Some (Run_dispatch saturated clock S)"

text \<open>One turn of the cleanup goroutine: a tick, or the end of the context.\<close>

definition Cleanup_tick :: "(FlowKey list \<Rightarrow> FlowKey list) \<Rightarrow> time \<Rightarrow> system \<Rightarrow> system" where
  "Cleanup_tick schedule now S =
     (case cleanupExpired schedule now (sp_shard (sys_sp S), sys_store S) of
        (sh, s) \<Rightarrow> S\<lparr>sys_sp := (sys_sp S)\<lparr>sp_shard := sh\<rparr>, sys_store := s\<rparr>)"

inductive sys_step :: "system \<Rightarrow> system \<Rightarrow> bool" where
  submit: "\<not> st_panicked (sys_store S) \<Longrightarrow> fi_ptr item \<notin> ptrs (sys_offered S) \<Longrightarrow> \<not> isFinalized (sys_store S) item \<Longrightarrow>
    length (sys_offered S) < 2 ^ 62 \<Longrightarrow> sys_step S (Enqueue_check item S)"
| send: "\<not> st_panicked (sys_store S) \<Longrightarrow> item \<in> set (sys_senders S) \<Longrightarrow> Enqueue_send item S = Some S' \<Longrightarrow> sys_step S S'"
| turn: "\<not> st_panicked (sys_store S) \<Longrightarrow> sys_running S \<Longrightarrow> run_ready c S \<Longrightarrow> \<forall>ks. mset (schedule ks) = mset ks \<Longrightarrow>
    Run_turn schedule saturated clock c S = Some S' \<Longrightarrow> sys_step S S'"
| tick: "\<not> st_panicked (sys_store S) \<Longrightarrow> sys_cleaning S \<Longrightarrow> \<forall>ks. mset (schedule ks) = mset ks \<Longrightarrow>
    sys_step S (Cleanup_tick schedule now S)"
| cleanup_end: "\<not> st_panicked (sys_store S) \<Longrightarrow> sys_cleaning S \<Longrightarrow> sys_ctxDone S \<Longrightarrow> sys_step S (S\<lparr>sys_cleaning := False\<rparr>)"
| stop: "\<not> st_panicked (sys_store S) \<Longrightarrow> sys_step S (S\<lparr>sys_ctxDone := True\<rparr>)"
| cancel: "\<not> st_panicked (sys_store S) \<Longrightarrow>
    sys_step S (S\<lparr>sys_store := (sys_store S)\<lparr>st_ctxErr := (st_ctxErr (sys_store S))(p \<mapsto> e)\<rparr>\<rparr>)"

definition sys_init :: "registryShard \<Rightarrow> store \<Rightarrow> system" where
  "sys_init sh s = \<lparr>sys_sp = NewShardProcessor sh, sys_store = s, sys_senders = [], sys_ctxDone = False,
     sys_running = True, sys_cleaning = True, sys_offered = []\<rparr>"

inductive sys_reach :: "registryShard \<Rightarrow> store \<Rightarrow> system \<Rightarrow> bool" for sh s where
  init: "sys_reach sh s (sys_init sh s)"
| step: "sys_reach sh s S \<Longrightarrow> sys_step S S' \<Longrightarrow> sys_reach sh s S'"

inductive_cases sys_stepE: "sys_step S S'"

section \<open>Where the items are\<close>

definition places :: "system \<Rightarrow> flowItem list" where
  "places S = sys_senders S @ chan_items (sp_enqueueChan (sys_sp S)) @ shard_items (sp_shard (sys_sp S))"

text \<open>Every item ever offered is in exactly one place, or finalized.\<close>

definition book :: "flowItem list \<Rightarrow> flowItem list \<Rightarrow> store \<Rightarrow> bool" where
  "book off pl s \<longleftrightarrow> distinct (map fi_ptr off) \<and> distinct (map fi_ptr pl) \<and> set pl \<subseteq> set off \<and>
     (\<forall>it\<in>set off. isFinalized s it \<longleftrightarrow> it \<notin> set pl)"

lemma same_item: "distinct (map fi_ptr xs) \<Longrightarrow> x \<in> set xs \<Longrightarrow> y \<in> set xs \<Longrightarrow> fi_ptr x = fi_ptr y \<Longrightarrow> x = y"
  by (auto simp: distinct_map inj_on_def)

lemma book_removed:
  assumes b: "book off pl s" and m: "mset pl = mset pl' + mset rs"
    and f: "\<And>x. isFinalized s' x \<longleftrightarrow> isFinalized s x \<or> fi_ptr x \<in> ptrs rs"
  shows "book off pl' s'"
proof -
  have d: "distinct (map fi_ptr off)" "distinct (map fi_ptr pl)" "set pl \<subseteq> set off" using b by (auto simp: book_def)
  have m': "mset pl = mset (pl' @ rs)" using m by simp
  have "distinct (map fi_ptr (pl' @ rs))"
    using d(2) m' mset_eq_imp_distinct_iff [of "map fi_ptr pl" "map fi_ptr (pl' @ rs)"] by (simp add: mset_map)
  moreover have st: "set pl = set pl' \<union> set rs" using arg_cong [OF m', of set_mset] by simp
  ultimately have dj: "distinct (map fi_ptr pl')" "set pl' \<inter> set rs = {}" by auto
  have "isFinalized s' it \<longleftrightarrow> it \<notin> set pl'" if it: "it \<in> set off" for it
  proof -
    have "fi_ptr it \<in> ptrs rs \<longleftrightarrow> it \<in> set rs"
      using same_item [OF d(1) it] d(3) st by (auto simp: ptrs_def)
    moreover have "isFinalized s it \<longleftrightarrow> it \<notin> set pl" using b it by (simp add: book_def)
    ultimately show ?thesis using f [of it] st dj(2) by auto
  qed
  then show ?thesis using d dj st by (auto simp: book_def)
qed

lemma book_moved: "book off pl s \<Longrightarrow> mset pl = mset pl' \<Longrightarrow> (\<And>x. isFinalized s' x = isFinalized s x) \<Longrightarrow> book off pl' s'"
  using book_removed [of off pl s pl' "[]" s'] by simp

definition sys_ok :: "system \<Rightarrow> bool" where
  "sys_ok S \<longleftrightarrow> proc_ok (sp_shard (sys_sp S)) (sys_store S) \<and> book (sys_offered S) (places S) (sys_store S) \<and>
     (sp_chanClosed (sys_sp S) = sp_shutdownOnce (sys_sp S)) \<and> (sp_isShuttingDown (sys_sp S) = sp_shutdownOnce (sys_sp S)) \<and>
     (sp_shutdownOnce (sys_sp S) \<longrightarrow> sp_enqueueChan (sys_sp S) = [] \<and> shard_items (sp_shard (sys_sp S)) = []) \<and>
     (sys_running S \<longleftrightarrow> \<not> sp_shutdownOnce (sys_sp S)) \<and> length (sys_offered S) \<le> 2 ^ 62"

lemma sys_okD:
  assumes "sys_ok S"
  shows "proc_ok (sp_shard (sys_sp S)) (sys_store S)" "book (sys_offered S) (places S) (sys_store S)"
    "sp_chanClosed (sys_sp S) = sp_shutdownOnce (sys_sp S)" "sp_isShuttingDown (sys_sp S) = sp_shutdownOnce (sys_sp S)"
    "sp_shutdownOnce (sys_sp S) \<Longrightarrow> sp_enqueueChan (sys_sp S) = []"
    "sp_shutdownOnce (sys_sp S) \<Longrightarrow> shard_items (sp_shard (sys_sp S)) = []"
    "sys_running S \<longleftrightarrow> \<not> sp_shutdownOnce (sys_sp S)" "length (sys_offered S) \<le> 2 ^ 62"
  using assms by (simp_all add: sys_ok_def)

lemma chan_items_simps [simp]:
  "chan_items [] = []" "chan_items (None # xs) = chan_items xs" "chan_items (Some it # xs) = it # chan_items xs"
  "chan_items (xs @ ys) = chan_items xs @ chan_items ys"
  by (simp_all add: chan_items_def)

lemma book_submit:
  assumes b: "book off pl s" and n: "fi_ptr it \<notin> ptrs off" and nf: "\<not> isFinalized s it" and fo: "final_ok s"
  shows "book (it # off) (it # pl) s" "book (it # off) pl (finalize it oc e s)"
proof -
  have d: "distinct (map fi_ptr off)" "distinct (map fi_ptr pl)" "set pl \<subseteq> set off"
      "\<And>x. x \<in> set off \<Longrightarrow> isFinalized s x \<longleftrightarrow> x \<notin> set pl" using b by (auto simp: book_def)
  have n': "fi_ptr it \<notin> fi_ptr ` set off" "it \<notin> set off" using n by (auto simp: ptrs_def)
  moreover have "fi_ptr it \<notin> fi_ptr ` set pl" using n'(1) d(3) by auto
  ultimately show "book (it # off) (it # pl) s" using d nf by (auto simp: book_def)
  have "fi_ptr x \<noteq> fi_ptr it" if "x \<in> set off" for x using n'(1) that by (metis imageI)
  then show "book (it # off) pl (finalize it oc e s)"
    using d n' isFinalized_finalize [OF fo] by (auto simp: book_def)
qed

lemma submit_ok:
  assumes ok: "sys_ok S" and n: "fi_ptr it \<notin> ptrs (sys_offered S)" and nf: "\<not> isFinalized (sys_store S) it"
    and l: "length (sys_offered S) < 2 ^ 62"
  shows "sys_ok (Enqueue_check it S)"
proof -
  note B = book_submit [OF sys_okD(2) [OF ok] n nf proc_okD(2) [OF sys_okD(1) [OF ok]]]
  show ?thesis
    using sys_okD [OF ok] B proc_ok_finalize [OF sys_okD(1) [OF ok]] l
    by (auto simp: Enqueue_check_def sys_ok_def places_def)
qed

lemma send_ok:
  assumes ok: "sys_ok S" and it: "it \<in> set (sys_senders S)" and s: "Enqueue_send it S = Some S'" "\<not> st_panicked (sys_store S')"
  shows "sys_ok S'"
proof -
  have c: "\<not> sp_chanClosed (sys_sp S)" using s by (auto simp: Enqueue_send_def panic_def)
  then have S': "S' = S\<lparr>sys_senders := remove1 it (sys_senders S),
      sys_sp := (sys_sp S)\<lparr>sp_enqueueChan := sp_enqueueChan (sys_sp S) @ [Some it]\<rparr>\<rparr>"
    using s(1) by (auto simp: Enqueue_send_def split: if_splits)
  have "mset (places S) = mset (places S')" using it by (simp add: S' places_def)
  then have "book (sys_offered S') (places S') (sys_store S')"
    using book_moved [OF sys_okD(2) [OF ok], of "places S'" "sys_store S'"] by (simp add: S')
  then show ?thesis using sys_okD [OF ok] c by (auto simp: sys_ok_def S')
qed

text \<open>Operations on the shard: what leaves the queues is finalized.\<close>

lemma shard_step_ok:
  assumes ok: "sys_ok S" and p: "proc_ok sh s"
    and m: "mset (shard_items (sp_shard (sys_sp S))) = mset (shard_items sh) + mset rs"
    and f: "\<And>x. isFinalized s x \<longleftrightarrow> isFinalized (sys_store S) x \<or> fi_ptr x \<in> ptrs rs"
  shows "sys_ok (S\<lparr>sys_sp := (sys_sp S)\<lparr>sp_shard := sh\<rparr>, sys_store := s\<rparr>)"
proof -
  let ?S = "S\<lparr>sys_sp := (sys_sp S)\<lparr>sp_shard := sh\<rparr>, sys_store := s\<rparr>"
  have "mset (places S) = mset (places ?S) + mset rs" using m by (simp add: places_def)
  then have "book (sys_offered ?S) (places ?S) (sys_store ?S)" using book_removed [OF sys_okD(2) [OF ok]] f by simp
  moreover have "shard_items (sp_shard (sys_sp S)) = [] \<Longrightarrow> shard_items sh = []" using m by simp
  ultimately show ?thesis using sys_okD [OF ok] p by (auto simp: sys_ok_def)
qed

lemma shard_small: "sys_ok S \<Longrightarrow> length (shard_items (sp_shard (sys_sp S))) < 2 ^ 63"
proof -
  assume ok: "sys_ok S"
  have "distinct (shard_items (sp_shard (sys_sp S)))" "set (shard_items (sp_shard (sys_sp S))) \<subseteq> set (sys_offered S)"
    "distinct (sys_offered S)"
    using sys_okD(2) [OF ok] by (auto simp: book_def places_def distinct_map)
  then have "length (shard_items (sp_shard (sys_sp S))) \<le> length (sys_offered S)"
    by (metis card_mono distinct_card List.finite_set)
  then show ?thesis using sys_okD(8) [OF ok] by simp
qed

lemma dispatch_step_ok:
  assumes ok: "sys_ok S"
  shows "sys_ok (Run_dispatch saturated clock S)"
proof -
  obtain b sh s where d: "dispatchCycle (NewSaturationFilter saturated) clock (sp_shard (sys_sp S), sys_store S) = (b, sh, s)"
    by (metis prod_cases3)
  have "\<exists>rs. took (sp_shard (sys_sp S), sys_store S) (sh, s) rs"
  proof (cases saturated)
    case True
    then have "(b, sh, s) = (False, sp_shard (sys_sp S), sys_store S)" using d dispatch_saturated by (simp add: dispatchCycle_def)
    then show ?thesis using sys_okD(1) [OF ok] by (intro exI [of _ "[]"]) (simp add: took_def)
  next
    case False
    then show ?thesis
      using dispatch_levels_ok [OF sys_okD(1) [OF ok] subset_refl shard_small [OF ok], of clock b sh s] d
      by (auto simp: dispatchCycle_def sh_AllOrderedPriorityLevels_def)
  qed
  then obtain rs where t: "took (sp_shard (sys_sp S), sys_store S) (sh, s) rs" by blast
  show ?thesis using shard_step_ok [OF ok tookD(1) [OF t] tookD(4) [OF t] tookD(5) [OF t]] d by (simp add: Run_dispatch_def)
qed

lemma tick_ok:
  assumes ok: "sys_ok S" and sch: "\<forall>ks. mset (schedule ks) = mset ks"
  shows "sys_ok (Cleanup_tick schedule now S)"
proof -
  let ?sh = "sp_shard (sys_sp S)" and ?s = "sys_store S"
  obtain sh s where c: "cleanupExpired schedule now (?sh, ?s) = (sh, s)" by force
  have "mset (schedule (shard_keys ?sh)) = mset (shard_keys ?sh)" using sch by blast
  note R = expiry.sweep [OF sys_okD(1) [OF ok], where schedule = schedule, OF this, of now sh s]
  have m: "mset (shard_items ?sh) = mset (shard_items sh) + mset (filter (expired ?s now) (shard_items ?sh))"
    using R c mset_partition [of "expired ?s now" "shard_items ?sh"] by (simp add: cleanupExpired_def add.commute)
  show ?thesis using shard_step_ok [OF ok _ m] R c by (simp add: Cleanup_tick_def cleanupExpired_def)
qed

lemma receive_ok:
  assumes ok: "sys_ok S" and c: "sp_enqueueChan (sys_sp S) = Some it # rest"
  shows "sys_ok (Run_enqueue it (S\<lparr>sys_sp := (sys_sp S)\<lparr>sp_enqueueChan := rest\<rparr>\<rparr>))"
proof -
  let ?sh = "sp_shard (sys_sp S)" and ?s = "sys_store S"
  note B = sys_okD(2) [OF ok]
  have mem: "it \<in> set (places S)" "set (places S) \<subseteq> set (sys_offered S)" using B c by (auto simp: places_def book_def)
  then have nf: "\<not> isFinalized ?s it" using B by (auto simp: book_def)
  have "distinct (map fi_ptr (places S))" using B by (simp add: book_def)
  then have new: "fi_ptr it \<notin> ptrs (shard_items ?sh)" using c by (auto simp: places_def ptrs_def)
  obtain sh s where e: "sp_enqueue it (?sh, ?s) = (sh, s)" by force
  let ?S' = "S\<lparr>sys_sp := (sys_sp S)\<lparr>sp_enqueueChan := rest, sp_shard := sh\<rparr>, sys_store := s\<rparr>"
  have S': "Run_enqueue it (S\<lparr>sys_sp := (sys_sp S)\<lparr>sp_enqueueChan := rest\<rparr>\<rparr>) = ?S'" using e by (simp add: Run_enqueue_def)
  have "proc_ok sh s \<and> book (sys_offered S) (places ?S') s"
  proof (cases "queue_at ?sh (itemFlowKey it) \<noteq> None \<and> hasCapacity ?sh (Priority (itemFlowKey it)) (itemByteSize it)")
    case True
    then obtain mq where mq: "queue_at ?sh (itemFlowKey it) = Some mq" by blast
    obtain A where r: "proc_ok sh s" "mset (shard_items sh) = add_mset it (mset (shard_items ?sh))" "frame A ?s s"
      using enqueue_queued [OF sys_okD(1) [OF ok] new nf mq] True e by auto
    have "mset (places S) = mset (places ?S')" using c r(2) by (simp add: places_def)
    then have "book (sys_offered S) (places ?S') s" using book_moved [OF B] isFinalized_frame [OF r(3)] by blast
    with r show ?thesis by simp
  next
    case False
    then obtain oc er where r: "sh = ?sh" "s = finalize it oc er ?s"
      using e enqueue_full [of ?sh it _ ?s] enqueue_unknown [of ?sh it ?s] by (cases "queue_at ?sh (itemFlowKey it)") auto
    have "mset (places S) = mset (places ?S') + mset [it]" using c r(1) by (simp add: places_def)
    then have "book (sys_offered S) (places ?S') s"
      using book_removed [OF B] isFinalized_finalize [OF proc_okD(2) [OF sys_okD(1) [OF ok]]] r(2) by simp
    then show ?thesis using proc_ok_finalize [OF sys_okD(1) [OF ok]] r by simp
  qed
  moreover have "\<not> sp_shutdownOnce (sys_sp S)" using sys_okD(5) [OF ok] c by auto
  ultimately show ?thesis using sys_okD [OF ok] unfolding S' by (simp add: sys_ok_def)
qed

lemma shutdown_step_ok:
  assumes ok: "sys_ok S" and run: "sys_running S" and sch: "\<forall>ks. mset (schedule ks) = mset ks"
  shows "\<exists>S'. Run_shutdown schedule S = Some S' \<and> sys_ok S' \<and> \<not> sys_running S'"
proof -
  let ?sp = "sys_sp S"
  have o: "\<not> sp_shutdownOnce ?sp" "\<not> sp_chanClosed ?sp" using sys_okD(3,7) [OF ok] run by auto
  obtain sh s where r: "sp_shutdown schedule (?sp, sys_store S) = Some (?sp\<lparr>sp_shutdownOnce := True, sp_isShuttingDown := True,
        sp_enqueueChan := [], sp_chanClosed := True, sp_shard := sh\<rparr>, s)"
      "proc_ok sh s" "shard_items sh = []"
      "\<And>x. isFinalized s x \<longleftrightarrow> isFinalized (sys_store S) x \<or> fi_ptr x \<in> ptrs (chan_items (sp_enqueueChan ?sp) @ shard_items (sp_shard ?sp))"
    using shutdown_ok [OF sys_okD(1) [OF ok] _ o, of schedule] sch by blast
  let ?S = "S\<lparr>sys_sp := ?sp\<lparr>sp_shutdownOnce := True, sp_isShuttingDown := True,
        sp_enqueueChan := [], sp_chanClosed := True, sp_shard := sh\<rparr>, sys_store := s, sys_running := False\<rparr>"
  have m: "mset (places S) = mset (places ?S) + mset (chan_items (sp_enqueueChan ?sp) @ shard_items (sp_shard ?sp))"
    by (simp add: places_def r(3))
  have "book (sys_offered S) (places ?S) s" by (rule book_removed [OF sys_okD(2) [OF ok] m r(4)])
  then have "sys_ok ?S" using r(2,3) sys_okD(8) [OF ok] by (simp add: sys_ok_def)
  then show ?thesis using r(1) by (intro exI [of _ ?S]) (simp add: Run_shutdown_def)
qed

lemma turn_ok:
  assumes ok: "sys_ok S" and run: "sys_running S" and sch: "\<forall>ks. mset (schedule ks) = mset ks"
    and rdy: "run_ready c S"
  shows "\<exists>S'. Run_turn schedule saturated clock c S = Some S' \<and> sys_ok S'"
proof (cases c)
  case CtxDone
  then show ?thesis using shutdown_step_ok [OF ok run sch] by auto
next
  case Default
  then show ?thesis using dispatch_step_ok [OF ok] by simp
next
  case Receive
  have cl: "\<not> sp_chanClosed (sys_sp S)" using sys_okD(3,7) [OF ok] run by simp
  then obtain msg rest where ch: "sp_enqueueChan (sys_sp S) = msg # rest"
    using rdy Receive by (cases "sp_enqueueChan (sys_sp S)") auto
  show ?thesis
  proof (cases msg)
    case None
    let ?S = "S\<lparr>sys_sp := (sys_sp S)\<lparr>sp_enqueueChan := rest\<rparr>\<rparr>"
    have "places ?S = places S" using ch None by (simp add: places_def)
    then have "sys_ok ?S" using sys_okD [OF ok] run by (simp add: sys_ok_def)
    then show ?thesis using Receive ch None by simp
  next
    case (Some it)
    then show ?thesis using Receive ch receive_ok [OF ok, of it rest] dispatch_step_ok by simp
  qed
qed

lemma sys_step_ok:
  assumes st: "sys_step S S'" and ok: "sys_ok S" and np: "\<not> st_panicked (sys_store S')"
  shows "sys_ok S'"
  using st
proof cases
  case (submit item) then show ?thesis using submit_ok [OF ok] by simp
next
  case (send item) then show ?thesis using send_ok [OF ok] np by blast
next
  case (turn c schedule saturated clock)
  then show ?thesis using turn_ok [OF ok turn(2,4,3), of saturated clock] by simp
next
  case (tick schedule now) then show ?thesis using tick_ok [OF ok] by simp
next
  case (cancel p e)
  let ?s = "(sys_store S)\<lparr>st_ctxErr := (st_ctxErr (sys_store S))(p \<mapsto> e)\<rparr>"
  have "shard_ok (sp_shard (sys_sp S)) ?s"
    using shard_ok_final [OF proc_okD(1) [OF sys_okD(1) [OF ok]], where f = "st_final (sys_store S)" and c = "(st_ctxErr (sys_store S))(p \<mapsto> e)"]
    by simp
  moreover have "final_ok ?s" using proc_okD(2) [OF sys_okD(1) [OF ok]] by (simp add: final_ok_def)
  moreover have "book (sys_offered S) (places S) ?s"
    using book_moved [OF sys_okD(2) [OF ok] refl, of ?s] by (simp add: isFinalized_def)
  ultimately show ?thesis using sys_okD [OF ok] cancel by (simp add: sys_ok_def proc_ok_def places_def)
qed (use sys_okD [OF ok] in \<open>auto simp: sys_ok_def places_def\<close>)

lemma sys_reach_ok:
  assumes "sys_reach sh s S" "proc_ok sh s" "shard_items sh = []"
  shows "if st_panicked (sys_store S) then sp_chanClosed (sys_sp S) else sys_ok S"
  using assms
proof (induction rule: sys_reach.induct)
  case init
  then have "sys_ok (sys_init sh s)"
    by (simp add: sys_init_def NewShardProcessor_def sys_ok_def places_def book_def)
  then show ?case using shard_okD(2) [OF proc_okD(1) [OF init(1)]] by (simp add: sys_init_def)
next
  case (step S S')
  have np: "\<not> st_panicked (sys_store S)" using step.hyps(2) by (cases rule: sys_step.cases) auto
  then have ok: "sys_ok S" using step by simp
  show ?case
  proof (cases "st_panicked (sys_store S')")
    case False
    then show ?thesis using sys_step_ok [OF step.hyps(2) ok] by simp
  next
    case True
    have fin: False if "sys_ok S'" using True shard_okD(2) [OF proc_okD(1) [OF sys_okD(1) [OF that]]] by simp
    from step.hyps(2) have "sp_chanClosed (sys_sp S')"
    proof cases
      case (send item) then show ?thesis using True np by (auto simp: Enqueue_send_def split: if_splits)
    next
      case (submit item) then show ?thesis using submit_ok [OF ok] fin by simp
    next
      case (turn c schedule saturated clock)
      then show ?thesis using turn_ok [OF ok turn(2,4,3), of saturated clock] fin by simp
    next
      case (tick schedule now) then show ?thesis using tick_ok [OF ok] fin by simp
    qed (use True np in auto)
    with True show ?thesis by simp
  qed
qed

section \<open>Properties of every run\<close>




lemma wStart_ok: "proc_ok wShard emptyStore" "shard_items wShard = []"
  by (rule wShard_ok) (rule wShard_items(1))

lemma wSubmit: "sys_reach wShard emptyStore (Enqueue_check (wItemIn 0 2) (sys_init wShard emptyStore))"
  by (rule sys_reach.step [OF sys_reach.init], rule sys_step.submit)
    (simp_all add: sys_init_def emptyStore_def isFinalized_def newFinal_def)

lemma wSubmit_state [simp]:
  "sys_offered (Enqueue_check it (sys_init wShard emptyStore)) = [it]" "sys_senders (Enqueue_check it (sys_init wShard emptyStore)) = [it]"
  "\<not> st_panicked (sys_store (Enqueue_check it (sys_init wShard emptyStore)))" "sys_running (Enqueue_check it (sys_init wShard emptyStore))"
  "sys_sp (Enqueue_check it (sys_init wShard emptyStore)) = NewShardProcessor wShard"
  "\<not> sys_ctxDone (Enqueue_check it (sys_init wShard emptyStore))"
  by (simp_all add: Enqueue_check_def sys_init_def NewShardProcessor_def emptyStore_def)


lemma wStopped: "\<exists>S. sys_reach wShard emptyStore S \<and> \<not> st_panicked (sys_store S) \<and> \<not> sys_running S \<and>
  sys_offered S = [wItemIn 0 2] \<and> sys_senders S = [wItemIn 0 2] \<and> sp_chanClosed (sys_sp S)"
proof -
  let ?S1 = "Enqueue_check (wItemIn 0 2) (sys_init wShard emptyStore)"
  let ?S2 = "?S1\<lparr>sys_ctxDone := True\<rparr>"
  have r2: "sys_reach wShard emptyStore ?S2" by (rule sys_reach.step [OF wSubmit], rule sys_step.stop) simp
  have ok2: "sys_ok ?S2" using sys_reach_ok [OF r2 wStart_ok] by simp
  obtain S3 where S3: "Run_shutdown id ?S2 = Some S3" "sys_ok S3" "\<not> sys_running S3"
    using shutdown_step_ok [OF ok2, of id] by auto
  have "sys_step ?S2 S3" by (rule sys_step.turn [where c = CtxDone and schedule = id]) (use S3 in simp_all)
  then have r3: "sys_reach wShard emptyStore S3" by (rule sys_reach.step [OF r2])
  have f: "sys_offered S3 = [wItemIn 0 2]" "sys_senders S3 = [wItemIn 0 2]"
    using S3(1) by (auto simp: Run_shutdown_def split: option.splits)
  show ?thesis using r3 f S3 sys_okD(3,7) [OF S3(2)] shard_okD(2) [OF proc_okD(1) [OF sys_okD(1) [OF S3(2)]]] by blast
qed



text \<open>
  C37. The check in \<open>Enqueue\<close> does not protect its send: a caller that has passed the check can be
  overtaken by the whole shutdown and then sends on the closed channel, which panics. There is
  a run from a new processor to such a panic.
\<close>

theorem enqueue_shutdown_race:
  "\<exists>S S'. sys_reach wShard emptyStore S \<and> \<not> st_panicked (sys_store S) \<and> \<not> sys_running S \<and>
     wItemIn 0 2 \<in> set (sys_senders S) \<and> Enqueue_send (wItemIn 0 2) S = Some S' \<and>
     sys_reach wShard emptyStore S' \<and> st_panicked (sys_store S')"
proof -
  obtain S where S: "sys_reach wShard emptyStore S" "\<not> st_panicked (sys_store S)" "\<not> sys_running S"
      "sys_senders S = [wItemIn 0 2]" "sp_chanClosed (sys_sp S)" using wStopped by blast
  obtain S' where S': "Enqueue_send (wItemIn 0 2) S = Some S'" "st_panicked (sys_store S')"
    using S(5) by (simp add: Enqueue_send_def panic_def)
  have "sys_step S S'" by (rule sys_step.send [OF S(2) _ S'(1)]) (simp add: S(4))
  then have "sys_reach wShard emptyStore S'" by (rule sys_reach.step [OF S(1)])
  then show ?thesis using S S' by auto
qed

end
