(* ===== verification/SchedTypes.thy ===== *)
theory SchedTypes
  imports Prelude Complex_Main
begin

text \<open>
  The data of the scheduling layer: pods with their metrics, requests and results
  (\<open>scheduling/types\<close>, \<open>backend\<close>, \<open>backend/metrics/metrics_state.go\<close>), the plugin names and
  the error values of \<open>util/error\<close>, and the cycle state plugins use to exchange data. Floating
  point numbers are exact rationals: rounding and the special values are not modelled.
\<close>

type_synonym float64 = rat

text \<open>A computation that may panic.\<close>

datatype 'a go = Ret 'a | Panic

section \<open>Errors of the endpoint picker\<close>

record Error =
  Code :: string
  Msg :: string

definition Unknown :: string where "Unknown = ''Unknown''"
definition BadRequest :: string where "BadRequest = ''BadRequest''"
definition Internal :: string where "Internal = ''Internal''"
definition ServiceUnavailable :: string where "ServiceUnavailable = ''ServiceUnavailable''"
definition ModelServerError :: string where "ModelServerError = ''ModelServerError''"
definition BadConfiguration :: string where "BadConfiguration = ''BadConfiguration''"
definition InferencePoolResourceExhausted :: string where
  "InferencePoolResourceExhausted = ''InferencePoolResourceExhausted''"

datatype eppError = EppError Error | OtherError goError

definition newError :: "string \<Rightarrow> string \<Rightarrow> eppError" where
  "newError c m = EppError \<lparr>Code = c, Msg = m\<rparr>"

definition Error_Error :: "Error \<Rightarrow> string" where
  "Error_Error e = ''inference gateway: '' @ Code e @ '' - '' @ Msg e"

definition CanonicalCode :: "eppError \<Rightarrow> string" where
  "CanonicalCode err = (case err of EppError e \<Rightarrow> Code e | OtherError _ \<Rightarrow> Unknown)"

section \<open>Pods\<close>

record NamespacedName =
  nn_Namespace :: string
  nn_Name :: string

record backendPod =
  bp_NamespacedName :: NamespacedName
  bp_Address :: string
  bp_Labels :: "string \<rightharpoonup> string"

text \<open>A nil pointer is \<open>None\<close>. Cloning copies the labels, so the copy shares nothing.\<close>

definition Pod_Clone :: "backendPod option \<Rightarrow> backendPod option" where
  "Pod_Clone p = (case p of None \<Rightarrow> None
     | Some pod \<Rightarrow> Some \<lparr>bp_NamespacedName = \<lparr>nn_Namespace = nn_Namespace (bp_NamespacedName pod),
                                              nn_Name = nn_Name (bp_NamespacedName pod)\<rparr>,
                         bp_Address = bp_Address pod, bp_Labels = bp_Labels pod\<rparr>)"

record MetricsState =
  ActiveModels :: "(string \<times> int) list"
  WaitingModels :: "(string \<times> int) list"
  MaxActiveModels :: int
  RunningQueueSize :: int
  WaitingQueueSize :: int
  KVCacheUsagePercent :: float64
  KvCacheMaxTokenCapacity :: int
  UpdateTime :: time

definition NewMetricsState :: MetricsState where
  "NewMetricsState = \<lparr>ActiveModels = [], WaitingModels = [], MaxActiveModels = 0, RunningQueueSize = 0,
     WaitingQueueSize = 0, KVCacheUsagePercent = 0, KvCacheMaxTokenCapacity = 0, UpdateTime = 0\<rparr>"

definition MetricsState_Clone :: "MetricsState option \<Rightarrow> MetricsState option" where
  "MetricsState_Clone s = (case s of None \<Rightarrow> None
     | Some m \<Rightarrow> Some \<lparr>ActiveModels = ActiveModels m, WaitingModels = WaitingModels m,
         MaxActiveModels = MaxActiveModels m, RunningQueueSize = RunningQueueSize m,
         WaitingQueueSize = WaitingQueueSize m, KVCacheUsagePercent = KVCacheUsagePercent m,
         KvCacheMaxTokenCapacity = KvCacheMaxTokenCapacity m, UpdateTime = UpdateTime m\<rparr>)"

text \<open>
  A candidate of the scheduler is a pointer to a snapshot of a pod and its metrics; maps over
  candidates compare the pointers.
\<close>

record Pod =
  pod_ptr :: nat
  GetPod :: backendPod
  GetMetrics :: MetricsState

record ScoredPod =
  sp_Pod :: Pod
  Score :: float64

section \<open>Requests and results\<close>

record LLMRequest =
  RequestId :: string
  TargetModel :: string
  Prompt :: "8 word list"
  lr_Headers :: "string \<rightharpoonup> string"

record ProfileRunResult =
  TargetPods :: "Pod list"

record SchedulingResult =
  ProfileResults :: "(string \<times> ProfileRunResult option) list"
  PrimaryProfileName :: string

section \<open>Plugin names\<close>

record TypedName =
  tn_Type :: string
  tn_Name :: string

definition TypedName_String :: "TypedName \<Rightarrow> string" where
  "TypedName_String tn = tn_Name tn @ ''/'' @ tn_Type tn"

section \<open>Cycle state\<close>

text \<open>
  \<open>CycleState\<close> maps keys to values of any type that plugins agree on; \<open>'d\<close> is the sum of those
  types and \<open>cast\<close> the type assertion of the reader.
\<close>

type_synonym 'd CycleState = "string \<rightharpoonup> 'd"

definition NewCycleState :: "'d CycleState" where "NewCycleState = Map.empty"

definition cs_Read :: "'d CycleState \<Rightarrow> string \<Rightarrow> goError + 'd" where
  "cs_Read c key = (case c key of Some v \<Rightarrow> Inr v | None \<Rightarrow> Inl (Errorf ''not found'' []))"

definition cs_Write :: "string \<Rightarrow> 'd \<Rightarrow> 'd CycleState \<Rightarrow> 'd CycleState" where
  "cs_Write key val c = c(key \<mapsto> val)"

definition cs_Delete :: "string \<Rightarrow> 'd CycleState \<Rightarrow> 'd CycleState" where
  "cs_Delete key c = c(key := None)"

definition ReadCycleStateKey :: "('d \<Rightarrow> 't option) \<Rightarrow> 'd CycleState \<Rightarrow> string \<Rightarrow> goError + 't" where
  "ReadCycleStateKey cast c key =
     (case cs_Read c key of
        Inl err \<Rightarrow> Inl err
      | Inr raw \<Rightarrow>
          (case cast raw of
             None \<Rightarrow> Inl (Errorf ''unexpected type for key'' [])
           | Some val \<Rightarrow> Inr val))"

lemma ReadCycleStateKey_Write:
  "ReadCycleStateKey cast (cs_Write key val c) key' =
     (if key' = key then (case cast val of None \<Rightarrow> Inl (Errorf ''unexpected type for key'' []) | Some v \<Rightarrow> Inr v)
      else ReadCycleStateKey cast c key')"
  by (simp add: ReadCycleStateKey_def cs_Write_def cs_Read_def)

section \<open>Plugin state\<close>

text \<open>
  \<open>PluginState\<close> (\<open>plugins/plugin_state.go\<close>) keeps data per request together with the time of the
  last access; \<open>now\<close> is the reading of the clock.
\<close>

record 'd PluginState =
  ps_storage :: "string \<rightharpoonup> (string \<rightharpoonup> 'd)"
  ps_lastAccess :: "string \<rightharpoonup> time"

definition stalenessThreshold :: duration where "stalenessThreshold = 5 * 60 * 1000000000"

definition NewPluginState :: "'d PluginState" where
  "NewPluginState = \<lparr>ps_storage = Map.empty, ps_lastAccess = Map.empty\<rparr>"

definition ps_Read :: "time \<Rightarrow> string \<Rightarrow> string \<Rightarrow> 'd PluginState \<Rightarrow> (goError + 'd) \<times> 'd PluginState" where
  "ps_Read now requestID key s =
     (let s1 = s\<lparr>ps_lastAccess := (ps_lastAccess s)(requestID \<mapsto> now)\<rparr> in
      case ps_storage s1 requestID of
        None \<Rightarrow> (Inl (Errorf ''not found'' []), s1)
      | Some stateData \<Rightarrow>
          (case stateData key of Some v \<Rightarrow> (Inr v, s1) | None \<Rightarrow> (Inl (Errorf ''not found'' []), s1)))"

definition ps_Write :: "time \<Rightarrow> string \<Rightarrow> string \<Rightarrow> 'd \<Rightarrow> 'd PluginState \<Rightarrow> 'd PluginState" where
  "ps_Write now requestID key val s =
     (let s1 = s\<lparr>ps_lastAccess := (ps_lastAccess s)(requestID \<mapsto> now)\<rparr>;
          stateData = (case ps_storage s1 requestID of Some m \<Rightarrow> m | None \<Rightarrow> Map.empty)
      in s1\<lparr>ps_storage := (ps_storage s1)(requestID \<mapsto> stateData(key \<mapsto> val))\<rparr>)"

definition ps_Delete :: "string \<Rightarrow> 'd PluginState \<Rightarrow> 'd PluginState" where
  "ps_Delete requestID s =
     s\<lparr>ps_storage := (ps_storage s)(requestID := None), ps_lastAccess := (ps_lastAccess s)(requestID := None)\<rparr>"

text \<open>One pass of the cleanup goroutine over the requests it finds, in the order \<open>ids\<close>.\<close>

fun ps_cleanup_pass :: "time \<Rightarrow> string list \<Rightarrow> 'd PluginState \<Rightarrow> 'd PluginState" where
  "ps_cleanup_pass now [] s = s"
| "ps_cleanup_pass now (requestID # ids) s =
     ps_cleanup_pass now ids
       (case ps_lastAccess s requestID of
          None \<Rightarrow> s
        | Some lastAccessTime \<Rightarrow> if time_Sub now lastAccessTime > stalenessThreshold then ps_Delete requestID s else s)"

definition ReadPluginStateKey ::
  "('d \<Rightarrow> 't option) \<Rightarrow> time \<Rightarrow> string \<Rightarrow> string \<Rightarrow> 'd PluginState \<Rightarrow> (goError + 't) \<times> 'd PluginState" where
  "ReadPluginStateKey cast now requestID key s =
     (case ps_Read now requestID key s of
        (Inl err, s1) \<Rightarrow> (Inl err, s1)
      | (Inr raw, s1) \<Rightarrow>
          (case cast raw of
             None \<Rightarrow> (Inl (Errorf ''unexpected type for key'' []), s1)
           | Some val \<Rightarrow> (Inr val, s1)))"

end
