(* ===== verification/PluginStates.thy ===== *)
theory PluginStates
  imports SchedTypes
begin

text \<open>
  Histories of a plugin state: reads, writes and deletions by the plugins and passes of the
  cleanup goroutine, and that nothing which is no longer used stays behind.
\<close>

datatype 'd psOp = PsRead time string string | PsWrite time string string 'd | PsDelete string | PsCleanup time "string list"

fun ps_do :: "'d psOp \<Rightarrow> 'd PluginState \<Rightarrow> 'd PluginState" where
  "ps_do (PsRead now requestID key) s = snd (ps_Read now requestID key s)"
| "ps_do (PsWrite now requestID key val) s = ps_Write now requestID key val s"
| "ps_do (PsDelete requestID) s = ps_Delete requestID s"
| "ps_do (PsCleanup now ids) s = ps_cleanup_pass now ids s"

fun op_time :: "'d psOp \<Rightarrow> time option" where
  "op_time (PsRead now _ _) = Some now"
| "op_time (PsWrite now _ _ _) = Some now"
| "op_time _ = None"

definition ps_ok :: "time \<Rightarrow> 'd PluginState \<Rightarrow> bool" where
  "ps_ok t s \<longleftrightarrow> dom (ps_storage s) \<subseteq> dom (ps_lastAccess s) \<and> (\<forall>r x. ps_lastAccess s r = Some x \<longrightarrow> x \<le> t)"

lemma ps_Delete_lookup [simp]:
  "ps_storage (ps_Delete r s) q = (if q = r then None else ps_storage s q)"
  "ps_lastAccess (ps_Delete r s) q = (if q = r then None else ps_lastAccess s q)"
  by (simp_all add: ps_Delete_def)

lemma ps_Delete_ok: "ps_ok t s \<Longrightarrow> ps_ok t (ps_Delete r s)"
  by (auto simp: ps_ok_def ps_Delete_def split: if_splits)

lemma ps_cleanup_lookup:
  "ps_lastAccess (ps_cleanup_pass now ids s) q =
     (case ps_lastAccess s q of None \<Rightarrow> None
      | Some x \<Rightarrow> if q \<in> set ids \<and> time_Sub now x > stalenessThreshold then None else Some x)"
  "ps_storage (ps_cleanup_pass now ids s) q =
     (case ps_lastAccess s q of None \<Rightarrow> ps_storage s q
      | Some x \<Rightarrow> if q \<in> set ids \<and> time_Sub now x > stalenessThreshold then None else ps_storage s q)"
  by (induction now ids s rule: ps_cleanup_pass.induct) (auto split: option.splits if_splits)

lemma ps_cleanup_ok: "ps_ok t s \<Longrightarrow> ps_ok t (ps_cleanup_pass now ids s)"
  by (induction now ids s rule: ps_cleanup_pass.induct) (auto simp: ps_Delete_ok split: option.splits)

lemma ps_do_ok: "ps_ok t s \<Longrightarrow> (\<forall>x. op_time p = Some x \<longrightarrow> x \<le> t) \<Longrightarrow> ps_ok t (ps_do p s)"
proof (cases p)
  case (PsRead now r k)
  assume "ps_ok t s" "\<forall>x. op_time p = Some x \<longrightarrow> x \<le> t"
  then show ?thesis using PsRead by (auto simp: ps_ok_def ps_Read_def Let_def split: option.splits if_splits)
next
  case (PsWrite now r k v)
  assume "ps_ok t s" "\<forall>x. op_time p = Some x \<longrightarrow> x \<le> t"
  then show ?thesis using PsWrite by (auto simp: ps_ok_def ps_Write_def Let_def split: option.splits if_splits)
qed (auto simp: ps_Delete_ok ps_cleanup_ok)

lemma ps_history_ok: "ps_ok t s \<Longrightarrow> (\<forall>p\<in>set ops. \<forall>x. op_time p = Some x \<longrightarrow> x \<le> t) \<Longrightarrow> ps_ok t (fold ps_do ops s)"
  by (induction ops arbitrary: s) (auto simp: ps_do_ok)

text \<open>
  After any history of reads, writes, deletions and cleanups, a pass of the cleanup over the
  requests it finds removes the data of every request that was last used longer ago than the
  threshold, keeps that of every other request unchanged, and so leaves nothing at all once every
  read and write lies longer ago than the threshold.
\<close>

lemma pluginState_no_leak:
  assumes "s = fold ps_do ops NewPluginState" "set ids = dom (ps_lastAccess s)"
  shows "(\<forall>r x. ps_lastAccess s r = Some x \<longrightarrow>
      ps_storage (ps_cleanup_pass now ids s) r = (if time_Sub now x > stalenessThreshold then None else ps_storage s r)) \<and>
    ((\<forall>p\<in>set ops. \<forall>x. op_time p = Some x \<longrightarrow> x < now - stalenessThreshold) \<longrightarrow>
       ps_storage (ps_cleanup_pass now ids s) = Map.empty \<and> ps_lastAccess (ps_cleanup_pass now ids s) = Map.empty)"
proof (intro conjI impI allI)
  show "ps_storage (ps_cleanup_pass now ids s) r = (if time_Sub now x > stalenessThreshold then None else ps_storage s r)"
    if "ps_lastAccess s r = Some x" for r x
    using that assms(2) by (auto simp: ps_cleanup_lookup)
  assume old: "\<forall>p\<in>set ops. \<forall>x. op_time p = Some x \<longrightarrow> x < now - stalenessThreshold"
  have "ps_ok (now - stalenessThreshold - 1) s" unfolding assms(1)
    by (rule ps_history_ok) (use old in \<open>force simp: ps_ok_def NewPluginState_def\<close>)+
  then have d: "dom (ps_storage s) \<subseteq> dom (ps_lastAccess s)" and b: "\<And>r x. ps_lastAccess s r = Some x \<Longrightarrow> time_Sub now x > stalenessThreshold"
    by (fastforce simp: ps_ok_def time_Sub_def stalenessThreshold_def minInt64_def maxInt64_def less_max_iff_disj)+
  show "ps_storage (ps_cleanup_pass now ids s) = Map.empty"
  proof (rule ext)
    fix r
    show "ps_storage (ps_cleanup_pass now ids s) r = None"
      using d b [of r] assms(2) by (cases "ps_lastAccess s r") (auto simp: ps_cleanup_lookup)
  qed
  show "ps_lastAccess (ps_cleanup_pass now ids s) = Map.empty"
  proof (rule ext)
    fix r
    show "ps_lastAccess (ps_cleanup_pass now ids s) r = None"
      using b [of r] assms(2) by (cases "ps_lastAccess s r") (auto simp: ps_cleanup_lookup)
  qed
qed

lemma pluginState_no_leak_witness:
  "ps_storage (ps_cleanup_pass 400000000000 [''r''] (fold ps_do [PsWrite 7 ''r'' ''k'' True] NewPluginState)) = Map.empty"
  using pluginState_no_leak [OF refl, of "[''r'']" "[PsWrite 7 ''r'' ''k'' True]" 400000000000]
  by (simp add: ps_Write_def NewPluginState_def stalenessThreshold_def Let_def)

end
