(* ===== verification/PrefixHash.thy ===== *)
theory PrefixHash
  imports SchedTypes
begin

text \<open>
  The block hashes of a prompt (\<open>hashPrompt\<close> and \<open>toBytes\<close> of the prefix cache plugin,
  \<open>scheduling/framework/plugins/multi/prefix/plugin.go\<close>). The hash functions of the \<open>xxhash\<close>
  package are arguments. The prompt is an array with room for \<open>spare\<close> more bytes behind it, the
  way the runtime allocated it, because \<open>append\<close> on a block of it writes into that array.
\<close>

type_synonym byte = "8 word"
type_synonym BlockHash = "64 word"

definition toBytes :: "BlockHash \<Rightarrow> byte list" where
  "toBytes i = map (\<lambda>k. ucast (drop_bit (8 * k) i)) [0..<8]"

text \<open>
  \<open>append(prompt[i:i+n], bytes...)\<close>: the slice that results, and the array of the prompt after it.
  With enough capacity behind the slice the bytes go into the array, else into a fresh copy.
\<close>

definition append_slice :: "byte list \<Rightarrow> nat \<Rightarrow> nat \<Rightarrow> byte list \<Rightarrow> byte list \<times> byte list" where
  "append_slice buf i n bytes =
     (take n (drop i buf) @ bytes,
      if i + n + length bytes \<le> length buf then take (i + n) buf @ bytes @ drop (i + n + length bytes) buf else buf)"

function hash_blocks :: "(byte list \<Rightarrow> BlockHash) \<Rightarrow> nat \<Rightarrow> nat \<Rightarrow> nat \<Rightarrow> byte list \<Rightarrow> BlockHash \<Rightarrow> BlockHash list" where
  "hash_blocks sum64 cacheBlockSize len i prompt prevBlockHash =
     (if cacheBlockSize = 0 \<or> len < i + cacheBlockSize then []
      else let (block, prompt') = append_slice prompt i cacheBlockSize (toBytes prevBlockHash);
               h = sum64 block
           in h # hash_blocks sum64 cacheBlockSize len (i + cacheBlockSize) prompt' h)"
  by pat_completeness auto
termination by (relation "measure (\<lambda>(sum64, bs, len, i, prompt, prev). len - i)") auto

declare hash_blocks.simps [simp del]

text \<open>
  A slice bound that is negative and a division by zero panic. With a negative block size the
  capacity of \<open>res\<close> or the bound of the first block is negative.
\<close>

definition hashPrompt ::
  "(byte list \<Rightarrow> BlockHash) \<Rightarrow> (string \<Rightarrow> BlockHash) \<Rightarrow> byte list \<Rightarrow> LLMRequest \<Rightarrow> int \<Rightarrow> int \<Rightarrow> BlockHash list go" where
  "hashPrompt sum64 sum64String spare request cacheBlockSize maxPrefixBlocks =
     (let n = int (length (Prompt request)) in
      if n < cacheBlockSize then Ret []
      else
        let truncate = (n > cacheBlockSize * maxPrefixBlocks) in
        if truncate \<and> maxPrefixBlocks * cacheBlockSize < 0 then Panic
        else if cacheBlockSize \<le> 0 then Panic
        else
          let len = (if truncate then nat (maxPrefixBlocks * cacheBlockSize) else nat n);
              h0 = sum64String (TargetModel request)
          in Ret (h0 # hash_blocks sum64 (nat cacheBlockSize) len 0 (Prompt request @ spare) h0))"

section \<open>What is hashed\<close>

text \<open>The full blocks of a list.\<close>

function split_blocks :: "nat \<Rightarrow> 'a list \<Rightarrow> 'a list list" where
  "split_blocks n xs = (if n = 0 \<or> length xs < n then [] else take n xs # split_blocks n (drop n xs))"
  by pat_completeness auto
termination by (relation "measure (\<lambda>(n, xs). length xs)") auto

declare split_blocks.simps [simp del]

text \<open>
  The hashes as a function of the blocks. From the second block on, the first eight bytes that
  are hashed are not those of the block but the hash that was appended to the block before.
\<close>

fun chain :: "(byte list \<Rightarrow> BlockHash) \<Rightarrow> BlockHash option \<Rightarrow> BlockHash \<Rightarrow> byte list list \<Rightarrow> BlockHash list" where
  "chain sum64 carry prev [] = []"
| "chain sum64 carry prev (b # bs) =
     (let content = (case carry of None \<Rightarrow> b | Some c \<Rightarrow> toBytes c @ drop 8 b);
          h = sum64 (content @ toBytes prev)
      in h # chain sum64 (Some prev) h bs)"

lemma length_toBytes [simp]: "length (toBytes i) = 8"
  by (simp add: toBytes_def)

definition carried :: "BlockHash option \<Rightarrow> byte list \<Rightarrow> byte list" where
  "carried carry xs = (case carry of None \<Rightarrow> xs | Some c \<Rightarrow> toBytes c @ drop 8 xs)"

lemma drop_carried: "8 \<le> n \<Longrightarrow> drop n (carried carry xs) = drop n xs"
  by (simp add: carried_def split: option.split)

lemma take_carried: "8 \<le> n \<Longrightarrow> take n (carried carry xs) = carried carry (take n xs)"
  by (simp add: carried_def drop_take split: option.split)

lemma hash_blocks_chain:
  assumes "8 \<le> bs" "len \<le> length orig" "length buf = length orig" "i + bs \<le> len \<Longrightarrow> drop i buf = carried carry (drop i orig)"
  shows "hash_blocks sum64 bs len i buf prev = chain sum64 carry prev (split_blocks bs (take (len - i) (drop i orig)))"
  using assms
proof (induction sum64 bs len i buf prev arbitrary: carry rule: hash_blocks.induct)
  case (1 sum64 bs len i buf prev)
  let ?xs = "take (len - i) (drop i orig)"
  show ?case
  proof (cases "i + bs \<le> len")
    case False
    then have "len - i < bs" using "1.prems"(1) by arith
    then show ?thesis using False by (subst hash_blocks.simps, subst split_blocks.simps) (simp add: min_less_iff_disj)
  next
    case True
    define buf' where "buf' = snd (append_slice buf i bs (toBytes prev))"
    define h where "h = sum64 (take bs (drop i buf) @ toBytes prev)"
    have d: "drop i buf = carried carry (drop i orig)" using "1.prems"(4) True by blast
    have c: "carried carry (take bs ?xs) = take bs (drop i buf)"
      unfolding d take_carried [OF "1.prems"(1)] using True by (simp add: min_def)
    have len': "length buf' = length orig" using "1.prems"(3) by (simp add: buf'_def append_slice_def)
    have next': "drop (i + bs) buf' = carried (Some prev) (drop (i + bs) orig)" if "i + bs + bs \<le> len"
    proof -
      have "i + bs + 8 \<le> length buf" using that "1.prems"(1,2,3) by simp
      moreover from this have "drop (i + bs) buf' = toBytes prev @ drop (i + bs + 8) buf"
        by (simp add: buf'_def append_slice_def)
      moreover have "drop (i + bs + 8) buf = drop (i + bs + 8) orig"
        using arg_cong [OF d, of "drop (bs + 8)"] drop_carried [of "bs + 8" carry "drop i orig"] by (simp add: ac_simps)
      ultimately show ?thesis by (simp add: carried_def ac_simps)
    qed
    have "hash_blocks sum64 bs len (i + bs) buf' h = chain sum64 (Some prev) h (split_blocks bs (take (len - (i + bs)) (drop (i + bs) orig)))"
      by (rule "1.IH" [OF _ refl, of "take bs (drop i buf) @ toBytes prev"])
         (use True "1.prems"(1,2) len' next' in \<open>simp_all add: append_slice_def buf'_def h_def\<close>)
    moreover have "hash_blocks sum64 bs len i buf prev = h # hash_blocks sum64 bs len (i + bs) buf' h"
      using True "1.prems"(1) by (subst hash_blocks.simps) (simp add: append_slice_def buf'_def h_def Let_def)
    moreover have "split_blocks bs ?xs = take bs ?xs # split_blocks bs (take (len - (i + bs)) (drop (i + bs) orig))"
      using True "1.prems"(1,2) by (subst split_blocks.simps) (simp add: drop_take ac_simps)
    ultimately show ?thesis using c by (simp add: h_def carried_def Let_def)
  qed
qed

lemma length_hash_blocks: "0 < bs \<Longrightarrow> length (hash_blocks sum64 bs len i buf prev) = (len - i) div bs"
proof (induction sum64 bs len i buf prev rule: hash_blocks.induct)
  case (1 sum64 bs len i buf prev)
  show ?case
  proof (cases "len < i + bs")
    case True
    then have "len - i < bs" using "1.prems" by arith
    then show ?thesis using True by (subst hash_blocks.simps) simp
  next
    case False
    then have "(len - i) div bs = Suc ((len - (i + bs)) div bs)" using "1.prems" by (simp add: le_div_geq)
    then show ?thesis using "1.IH" [OF _ refl] "1.prems" False by (subst hash_blocks.simps) (simp add: append_slice_def Let_def)
  qed
qed

text \<open>
  Hashing a prompt panics exactly when the prompt is not shorter than the block size and the
  block size is not positive or the maximal number of blocks is negative. Otherwise a prompt
  shorter than a block has no hashes, and any other has one for the model and one for each full
  block, up to the maximal number of blocks.
\<close>

lemma hashPrompt_outcome:
  "case hashPrompt sum64 sum64String spare request bs maxBlocks of
     Panic \<Rightarrow> bs \<le> int (length (Prompt request)) \<and> (bs \<le> 0 \<or> maxBlocks < 0)
   | Ret hs \<Rightarrow> \<not> (bs \<le> int (length (Prompt request)) \<and> (bs \<le> 0 \<or> maxBlocks < 0)) \<and>
       length hs = (if int (length (Prompt request)) < bs then 0 else 1 + min (nat maxBlocks) (length (Prompt request) div nat bs)) \<and>
       take 1 hs = (if int (length (Prompt request)) < bs then [] else [sum64String (TargetModel request)])"
proof -
  let ?n = "length (Prompt request)"
  consider "int ?n < bs" | "bs \<le> int ?n" "bs \<le> 0 \<or> maxBlocks < 0" | "bs \<le> int ?n" "0 < bs" "0 \<le> maxBlocks" by linarith
  then show ?thesis
  proof cases
    case 1
    then show ?thesis by (auto simp: hashPrompt_def)
  next
    case 2
    then have "0 < bs \<Longrightarrow> maxBlocks * bs < 0" by (simp add: mult_neg_pos)
    moreover from this have "0 < bs \<Longrightarrow> bs * maxBlocks < int ?n" by (simp add: mult.commute)
    ultimately have "hashPrompt sum64 sum64String spare request bs maxBlocks = Panic"
      using 2 by (auto simp: hashPrompt_def Let_def)
    then show ?thesis using 2 by simp
  next
    case 3
    define b where "b = nat bs"
    define k where "k = nat maxBlocks"
    have e: "bs = int b" "maxBlocks = int k" "0 < b" using 3 by (simp_all add: b_def k_def)
    have m: "nat (maxBlocks * bs) = k * b" unfolding e by (simp flip: of_nat_mult)
    have "(if bs * maxBlocks < int ?n then nat (maxBlocks * bs) else nat (int ?n)) div b = min k (?n div b)"
    proof (cases "bs * maxBlocks < int ?n")
      case True
      then have "k * b < ?n" unfolding e by (simp add: mult.commute flip: of_nat_mult)
      then have "k \<le> ?n div b" using e(3) by (simp add: less_eq_div_iff_mult_less_eq)
      then show ?thesis using True m e(3) by simp
    next
      case False
      then have "?n \<le> k * b" unfolding e by (simp add: mult.commute flip: of_nat_mult)
      then have "?n div b \<le> k" using e(3) by (metis div_le_mono div_mult_self_is_m)
      then show ?thesis using False by simp
    qed
    then show ?thesis using 3 e(3) by (auto simp: hashPrompt_def Let_def length_hash_blocks mult_nonneg_nonneg not_less b_def k_def)
  qed
qed

lemma hashPrompt_chain:
  assumes "8 \<le> bs" "0 \<le> maxBlocks" "bs \<le> int (length (Prompt request))"
  shows "hashPrompt sum64 sum64String spare request bs maxBlocks =
    Ret (sum64String (TargetModel request) # chain sum64 None (sum64String (TargetModel request))
      (split_blocks (nat bs) (take (nat (maxBlocks * bs)) (Prompt request))))"
proof -
  let ?n = "length (Prompt request)"
  have pos: "0 \<le> maxBlocks * bs" using assms by simp
  let ?len = "if bs * maxBlocks < int ?n then nat (maxBlocks * bs) else nat (int ?n)"
  have len: "?len = min ?n (nat (maxBlocks * bs))" using pos by (auto simp: mult.commute min_def)
  have "hash_blocks sum64 (nat bs) ?len 0 (Prompt request @ spare) h =
      chain sum64 None h (split_blocks (nat bs) (take (?len - 0) (drop 0 (Prompt request @ spare))))" for h
    by (rule hash_blocks_chain) (use assms in \<open>auto simp: len carried_def\<close>)
  moreover have "take (?len - 0) (drop 0 (Prompt request @ spare)) = take (nat (maxBlocks * bs)) (Prompt request)"
    unfolding len by (auto simp: min_def)
  ultimately show ?thesis using assms by (auto simp: hashPrompt_def Let_def mult_less_0_iff)
qed

lemma split_blocks_map:
  "0 < n \<Longrightarrow> split_blocks n xs = map (\<lambda>j. take n (drop (j * n) xs)) [0..<length xs div n]"
proof (induction n xs rule: split_blocks.induct)
  case (1 n xs)
  show ?case
  proof (cases "length xs < n")
    case True
    then show ?thesis by (subst split_blocks.simps) simp
  next
    case False
    then have d: "length xs div n = Suc ((length xs - n) div n)" using "1.prems" by (simp add: le_div_geq)
    show ?thesis using 1 False
      by (subst split_blocks.simps) (simp add: d upt_conv_Cons map_Suc_upt [symmetric] comp_def ac_simps del: upt_Suc)
  qed
qed

lemma chain_later:
  "map (drop 8) bs = map (drop 8) bs' \<Longrightarrow> chain sum64 (Some c) prev bs = chain sum64 (Some c) prev bs'"
proof (induction bs arbitrary: bs' c prev)
  case (Cons b bs)
  then obtain b' bs'' where "bs' = b' # bs''" by (cases bs') auto
  then show ?case using Cons by (simp add: Let_def)
qed simp

lemma chain_prefix: "take k bs = take k bs' \<Longrightarrow> take k (chain sum64 carry prev bs) = take k (chain sum64 carry prev bs')"
proof (induction k arbitrary: bs bs' carry prev)
  case (Suc k)
  show ?case
  proof (cases "bs = [] \<or> bs' = []")
    case False
    then obtain b cs cs' where "bs = b # cs" "bs' = b # cs'" "take k cs = take k cs'"
      using Suc.prems by (auto simp: neq_Nil_conv)
    then show ?thesis by (simp add: Let_def) (rule Suc.IH)
  qed (use Suc.prems in auto)
qed simp

lemma take_split_blocks: "0 < n \<Longrightarrow> take k (split_blocks n xs) = split_blocks n (take (k * n) xs)"
proof (induction k arbitrary: xs)
  case 0
  then show ?case by (subst split_blocks.simps) simp
next
  case (Suc k)
  then show ?case
    by (subst (1 2) split_blocks.simps) (auto simp: drop_take)
qed

text \<open>
  Two prompts for the same model that agree on their first \<open>k\<close> blocks have the same hashes for
  the model and for these blocks, whatever follows in the prompts and whatever room the runtime
  left behind them, as long as a block has at least eight bytes.
\<close>

lemma hashPrompt_prefix:
  assumes "8 \<le> bs" "0 \<le> maxBlocks" "bs \<le> int (length (Prompt r))" "bs \<le> int (length (Prompt r'))" "TargetModel r = TargetModel r'"
    "take (k * nat bs) (Prompt r) = take (k * nat bs) (Prompt r')"
    "hashPrompt sum64 sum64String spare r bs maxBlocks = Ret hs" "hashPrompt sum64 sum64String spare' r' bs maxBlocks = Ret hs'"
  shows "take (k + 1) hs = take (k + 1) hs'"
proof -
  let ?m = "nat (maxBlocks * bs)"
  have "take k (split_blocks (nat bs) (take ?m (Prompt r))) = take k (split_blocks (nat bs) (take ?m (Prompt r')))"
    using assms(1,6) by (simp add: take_split_blocks) (metis min.commute take_take)
  from chain_prefix [OF this] show ?thesis
    using assms(5,7,8) hashPrompt_chain [OF assms(1,2,3)] hashPrompt_chain [OF assms(1,2,4)] by auto
qed

lemma split_blocks_later:
  assumes "0 < n" "length xs = length ys" "\<forall>i<length xs. i < n \<or> 8 \<le> i mod n \<longrightarrow> xs ! i = ys ! i"
  shows "take 1 (split_blocks n xs) = take 1 (split_blocks n ys)"
    "map (drop 8) (tl (split_blocks n xs)) = map (drop 8) (tl (split_blocks n ys))"
proof -
  have "take n xs = take n ys" using assms(2,3) by (auto intro!: nth_equalityI)
  then show "take 1 (split_blocks n xs) = take 1 (split_blocks n ys)" using assms(1) by (simp only: take_split_blocks mult_1)
  have "drop 8 (take n (drop (j * n) xs)) = drop 8 (take n (drop (j * n) ys))" if j: "j < length xs div n" for j
  proof (rule nth_equalityI)
    have jn: "j * n + n \<le> length xs" using j assms(1) by (metis Suc_leI add.commute less_eq_div_iff_mult_less_eq mult_Suc)
    fix i assume "i < length (drop 8 (take n (drop (j * n) xs)))"
    then have i: "i + 8 < n" using jn by simp
    then have "8 \<le> (j * n + (i + 8)) mod n" by simp
    then have "xs ! (j * n + (i + 8)) = ys ! (j * n + (i + 8))" using assms(3) i jn by auto
    then show "drop 8 (take n (drop (j * n) xs)) ! i = drop 8 (take n (drop (j * n) ys)) ! i"
      using i jn assms(2) by (simp add: ac_simps)
  qed (simp add: assms(2))
  then show "map (drop 8) (tl (split_blocks n xs)) = map (drop 8) (tl (split_blocks n ys))"
    using assms(1,2) by (auto simp: split_blocks_map map_tl [symmetric] intro!: arg_cong [of _ _ tl])
qed

text \<open>
  C26. Prompts that differ only in the first eight bytes of blocks after the first have the same
  hashes: appending the previous hash to a block overwrites the bytes that follow it in the prompt.
\<close>

theorem hashPrompt_collision:
  assumes "8 \<le> bs" "0 \<le> maxBlocks" "TargetModel r = TargetModel r'" "length (Prompt r) = length (Prompt r')"
    "\<forall>i<length (Prompt r). i < nat bs \<or> 8 \<le> i mod nat bs \<longrightarrow> Prompt r ! i = Prompt r' ! i"
  shows "hashPrompt sum64 sum64String spare r bs maxBlocks = hashPrompt sum64 sum64String spare' r' bs maxBlocks"
proof (cases "bs \<le> int (length (Prompt r))")
  case True
  let ?f = "\<lambda>r. split_blocks (nat bs) (take (nat (maxBlocks * bs)) (Prompt r))"
  have "take 1 (?f r) = take 1 (?f r')" "map (drop 8) (tl (?f r)) = map (drop 8) (tl (?f r'))"
    by (rule split_blocks_later; use assms in simp)+
  then have "chain sum64 None h (?f r) = chain sum64 None h (?f r')" for h
    by (cases "?f r"; cases "?f r'") (auto simp: Let_def intro: chain_later)
  then show ?thesis using hashPrompt_chain [OF assms(1,2)] True assms(3,4) by simp
qed (use assms(4) in \<open>simp add: hashPrompt_def\<close>)

definition wPrompt :: "byte list \<Rightarrow> LLMRequest" where
  "wPrompt bytes = \<lparr>RequestId = ''r'', TargetModel = ''m'', Prompt = bytes, lr_Headers = Map.empty\<rparr>"

definition wSum :: "byte list \<Rightarrow> BlockHash" where
  "wSum bytes = fold (\<lambda>b h. 31 * h + ucast b) bytes 0"

theorem hashPrompt_collision_witness:
  "wPrompt (replicate 8 1 @ replicate 8 2) \<noteq> wPrompt (replicate 8 1 @ replicate 8 3) \<and>
   hashPrompt wSum (\<lambda>s. 7) [] (wPrompt (replicate 8 1 @ replicate 8 2)) 8 256 =
   hashPrompt wSum (\<lambda>s. 7) [] (wPrompt (replicate 8 1 @ replicate 8 3)) 8 256"
proof -
  let ?p = "wPrompt (replicate 8 1 @ replicate 8 2)" and ?q = "wPrompt (replicate 8 1 @ replicate 8 3)"
  have m: "\<not> 8 \<le> i mod (8 :: nat)" for i by (simp add: not_le)
  have "hashPrompt wSum (\<lambda>s. 7) [] ?p 8 256 = hashPrompt wSum (\<lambda>s. 7) [] ?q 8 256"
    by (rule hashPrompt_collision) (simp_all add: wPrompt_def nth_append m)
  then show ?thesis by (simp add: wPrompt_def)
qed

lemma hashPrompt_prefix_witness:
  "\<exists>hs hs'. hashPrompt wSum (\<lambda>s. 7) [] (wPrompt (replicate 16 1)) 8 256 = Ret hs \<and>
     hashPrompt wSum (\<lambda>s. 7) [] (wPrompt (replicate 8 1 @ replicate 8 2)) 8 256 = Ret hs' \<and> take 2 hs = take 2 hs'"
proof -
  let ?h = "\<lambda>p. hashPrompt wSum (\<lambda>s. 7) [] (wPrompt p) 8 256"
  obtain hs hs' where "?h (replicate 16 1) = Ret hs" "?h (replicate 8 1 @ replicate 8 2) = Ret hs'"
    by (simp add: hashPrompt_chain wPrompt_def)
  then show ?thesis
    using hashPrompt_prefix [of 8 256 "wPrompt (replicate 16 1)" "wPrompt (replicate 8 1 @ replicate 8 2)" 1]
    by (simp add: wPrompt_def numeral_2_eq_2)
qed

end
