(* ===== verification/PrefixIndex.thy ===== *)
theory PrefixIndex
  imports PrefixHash
begin

text \<open>
  The index of the prefix cache plugin (\<open>multi/prefix/indexer.go\<close>). The LRU cache of the package
  \<open>golang-lru\<close> is an argument: a record of its operations, and \<open>lru_laws\<close> states what its
  documentation promises. Calls of \<open>Add\<close> are atomic here; the interleavings of its sections are
  not modelled.
\<close>

type_synonym ServerID = NamespacedName
type_synonym podSet = "ServerID set"

text \<open>
  \<open>lru_NewWithEvict\<close> gives \<open>None\<close> (a nil cache and an error) or a cache; \<open>lru_Add\<close> returns the key
  it evicted, for which the cache calls the eviction function.
\<close>

record 'c lru =
  lru_NewWithEvict :: "int \<Rightarrow> 'c option"
  lru_Add :: "BlockHash \<Rightarrow> 'c \<Rightarrow> BlockHash option \<times> 'c"
  lru_Len :: "'c \<Rightarrow> int"

record 'c indexer =
  hashToPods :: "BlockHash \<rightharpoonup> podSet"
  podToLRU :: "ServerID \<rightharpoonup> 'c option"
  maxLRUSize :: int

definition newIndexer :: "int \<Rightarrow> 'c indexer" where
  "newIndexer n = \<lparr>hashToPods = Map.empty, podToLRU = Map.empty, maxLRUSize = n\<rparr>"

definition evictionFn :: "ServerID \<Rightarrow> BlockHash \<Rightarrow> (BlockHash \<rightharpoonup> podSet) \<Rightarrow> (BlockHash \<rightharpoonup> podSet)" where
  "evictionFn pod h m =
     (case m h of
        None \<Rightarrow> m
      | Some ps \<Rightarrow> let ps' = ps - {pod} in if ps' = {} then m(h := None) else m(h \<mapsto> ps'))"

text \<open>The first loop of \<open>Add\<close>, with the calls of the eviction function it causes.\<close>

fun add_to_lru :: "'c lru \<Rightarrow> ServerID \<Rightarrow> BlockHash list \<Rightarrow> 'c \<Rightarrow> (BlockHash \<rightharpoonup> podSet) \<Rightarrow> 'c \<times> (BlockHash \<rightharpoonup> podSet)" where
  "add_to_lru ops pod [] c m = (c, m)"
| "add_to_lru ops pod (h # hs) c m =
     (case lru_Add ops h c of
        (None, c') \<Rightarrow> add_to_lru ops pod hs c' m
      | (Some e, c') \<Rightarrow> add_to_lru ops pod hs c' (evictionFn pod e m))"

text \<open>The second loop of \<open>Add\<close>; a missing key reads as the nil set.\<close>

definition got :: "(BlockHash \<rightharpoonup> podSet) \<Rightarrow> BlockHash \<Rightarrow> podSet" where
  "got m h = (case m h of None \<Rightarrow> {} | Some ps \<Rightarrow> ps)"

fun publish :: "ServerID \<Rightarrow> BlockHash list \<Rightarrow> (BlockHash \<rightharpoonup> podSet) \<Rightarrow> (BlockHash \<rightharpoonup> podSet)" where
  "publish pod [] m = m"
| "publish pod (h # hs) m =
     publish pod hs (m(h \<mapsto> insert pod (got m h)))"

text \<open>Adding to a nil cache panics.\<close>

definition ix_Add :: "'c lru \<Rightarrow> BlockHash list \<Rightarrow> ServerID \<Rightarrow> 'c indexer \<Rightarrow> 'c indexer go" where
  "ix_Add ops hashes pod i =
     (let lruForPod = (case podToLRU i pod of Some c \<Rightarrow> c | None \<Rightarrow> lru_NewWithEvict ops (maxLRUSize i)) in
      case lruForPod of
        None \<Rightarrow> if hashes = [] then Ret (i\<lparr>podToLRU := (podToLRU i)(pod \<mapsto> None)\<rparr>) else Panic
      | Some c \<Rightarrow>
          (case add_to_lru ops pod hashes c (hashToPods i) of
             (c', m) \<Rightarrow> Ret (i\<lparr>podToLRU := (podToLRU i)(pod \<mapsto> Some c'), hashToPods := publish pod hashes m\<rparr>)))"

definition ix_Get :: "BlockHash \<Rightarrow> 'c indexer \<Rightarrow> podSet" where
  "ix_Get h i = got (hashToPods i) h"

text \<open>
  What one tick of \<open>ReportLRUSize\<close> reports, for the caches in the order in which it meets them: the
  total, the number of pods, the mean, and the largest cache with its pod.
\<close>

definition ReportLRUSize_tick ::
  "'c lru \<Rightarrow> (ServerID \<times> 'c) list \<Rightarrow> int \<times> int \<times> float64 \<times> ServerID \<times> int" where
  "ReportLRUSize_tick ops caches =
     (let (totalEntries, maxPodEntries, maxPodName) =
            fold (\<lambda>(pod, c) (total, mx, name).
                let size = lru_Len ops c in
                (total + size, if size > mx then size else mx, if size > mx then pod else name))
              caches (0, 0, \<lparr>nn_Namespace = '''', nn_Name = ''''\<rparr>);
          numPods = int (length caches);
          avg = (if numPods > 0 then of_int totalEntries / of_int numPods else 0)
      in (totalEntries, numPods, avg, maxPodName, maxPodEntries))"

section \<open>What the cache promises\<close>

text \<open>Keys with the most recently used first: an add moves or puts the key to the front.\<close>

definition lru_step :: "nat \<Rightarrow> BlockHash \<Rightarrow> BlockHash list \<Rightarrow> BlockHash option \<times> BlockHash list" where
  "lru_step n h ks =
     (if h \<in> set ks then (None, h # remove1 h ks)
      else if length ks < n then (None, h # ks)
      else (Some (last ks), h # butlast ks))"

definition lru_laws :: "'c lru \<Rightarrow> ('c \<Rightarrow> nat) \<Rightarrow> ('c \<Rightarrow> BlockHash list) \<Rightarrow> bool" where
  "lru_laws ops cap keys \<longleftrightarrow>
     (\<forall>n. lru_NewWithEvict ops n = None \<longleftrightarrow> n \<le> 0) \<and>
     (\<forall>n c. lru_NewWithEvict ops n = Some c \<longrightarrow> cap c = nat n \<and> keys c = []) \<and>
     (\<forall>h c e c'. lru_Add ops h c = (e, c') \<longrightarrow> cap c' = cap c \<and> (e, keys c') = lru_step (cap c) h (keys c)) \<and>
     (\<forall>c. lru_Len ops c = int (length (keys c)))"

lemma lru_lawsD:
  assumes "lru_laws ops cap keys"
  shows "lru_NewWithEvict ops n = None \<longleftrightarrow> n \<le> 0" "lru_NewWithEvict ops n = Some c \<Longrightarrow> cap c = nat n \<and> keys c = []"
    "lru_Add ops h c = (e, c') \<Longrightarrow> cap c' = cap c \<and> (e, keys c') = lru_step (cap c) h (keys c)"
    "lru_Len ops c = int (length (keys c))"
  using assms unfolding lru_laws_def by blast+

section \<open>The index after an add\<close>

lemma got_evictionFn: "got (evictionFn pod e m) h = (if h = e then got m h - {pod} else got m h)"
  by (auto simp: got_def evictionFn_def Let_def split: option.split)

lemma got_upd [simp]: "got (m(x \<mapsto> ps)) h = (if h = x then ps else got m h)" "got Map.empty h = {}"
  by (simp_all add: got_def)

lemma got_publish: "got (publish pod hs m) h = (if h \<in> set hs then insert pod (got m h) else got m h)"
  by (induction pod hs m rule: publish.induct) (auto simp del: fun_upd_apply)

lemma add_to_lru_other:
  "q \<noteq> pod \<Longrightarrow> add_to_lru ops pod hs c m = (c', m') \<Longrightarrow> q \<in> got m' h \<longleftrightarrow> q \<in> got m h"
proof (induction ops pod hs c m rule: add_to_lru.induct)
  case (2 ops pod x hs c m)
  then show ?case by (cases "lru_Add ops x c"; cases "fst (lru_Add ops x c)") (auto simp: got_evictionFn split: if_splits)
qed simp

lemma ix_Add_get:
  assumes "ix_Add ops hs pod i = Ret i'"
  shows "h \<in> set hs \<Longrightarrow> pod \<in> ix_Get h i'" "q \<noteq> pod \<Longrightarrow> q \<in> ix_Get h i' \<longleftrightarrow> q \<in> ix_Get h i"
proof -
  consider "hs = []" "hashToPods i' = hashToPods i"
    | c c' m where "add_to_lru ops pod hs c (hashToPods i) = (c', m)" "hashToPods i' = publish pod hs m"
    using assms by (auto simp: ix_Add_def Let_def split: option.splits prod.splits if_splits)
  then have "(h \<in> set hs \<longrightarrow> pod \<in> ix_Get h i') \<and> (q \<noteq> pod \<longrightarrow> (q \<in> ix_Get h i' \<longleftrightarrow> q \<in> ix_Get h i))"
  proof cases
    case 2
    then show ?thesis using add_to_lru_other [OF _ 2(1), of q h] by (auto simp: ix_Get_def got_publish)
  qed (simp add: ix_Get_def)
  then show "h \<in> set hs \<Longrightarrow> pod \<in> ix_Get h i'" "q \<noteq> pod \<Longrightarrow> q \<in> ix_Get h i' \<longleftrightarrow> q \<in> ix_Get h i" by blast+
qed

section \<open>Consistency of the index with the caches\<close>

text \<open>The servers listed for a hash are those whose cache holds it, and every cache is within its size.\<close>

definition ix_ok :: "('c \<Rightarrow> nat) \<Rightarrow> ('c \<Rightarrow> BlockHash list) \<Rightarrow> 'c indexer \<Rightarrow> bool" where
  "ix_ok cap keys i \<longleftrightarrow> 0 < maxLRUSize i \<and> (\<forall>h. hashToPods i h \<noteq> Some {}) \<and>
     (\<forall>pod. case podToLRU i pod of
         None \<Rightarrow> \<forall>h. pod \<notin> ix_Get h i
       | Some None \<Rightarrow> False
       | Some (Some c) \<Rightarrow> cap c = nat (maxLRUSize i) \<and> distinct (keys c) \<and> length (keys c) \<le> cap c \<and>
           (\<forall>h. pod \<in> ix_Get h i \<longleftrightarrow> h \<in> set (keys c)))"

text \<open>The most recent keys are those added since, if they fit: they are at the front.\<close>

lemma lru_step_front:
  assumes "distinct (ys @ zs)" "length (ys @ zs) \<le> n" "lru_step n h (ys @ zs) = (e, ks')" "card (insert h (set ys)) \<le> n"
  shows "\<exists>ys' zs'. ks' = ys' @ zs' \<and> set ys' = insert h (set ys) \<and> distinct ks' \<and> length ks' \<le> n \<and>
    set ks' = insert h (set (ys @ zs) - set_option e) \<and> (\<forall>x\<in>set_option e. x \<in> set zs \<and> x \<noteq> h)"
proof -
  consider "h \<in> set ys" | "h \<in> set zs" "h \<notin> set ys" | "h \<notin> set (ys @ zs)" "length (ys @ zs) < n" | "h \<notin> set (ys @ zs)" "length (ys @ zs) = n"
    using assms(2) by fastforce
  then show ?thesis
  proof cases
    case 1
    then have "ks' = (h # remove1 h ys) @ zs" "e = None" using assms(3) by (auto simp: lru_step_def remove1_append)
    moreover have "Suc (length (remove1 h ys)) = length ys" using 1 length_pos_if_in_set [OF 1] by (simp add: length_remove1)
    ultimately show ?thesis using 1 assms(1,2)
      by - (rule exI [of _ "h # remove1 h ys"], rule exI [of _ zs], auto simp: set_remove1_eq)
  next
    case 2
    then have "ks' = (h # ys) @ remove1 h zs" "e = None" using assms(3) by (auto simp: lru_step_def remove1_append)
    moreover have "Suc (length (remove1 h zs)) = length zs" using 2 length_pos_if_in_set [OF 2(1)] by (simp add: length_remove1)
    ultimately show ?thesis using 2 assms(1,2)
      by - (rule exI [of _ "h # ys"], rule exI [of _ "remove1 h zs"], auto simp: set_remove1_eq)
  next
    case 3
    then have "ks' = (h # ys) @ zs" "e = None" using assms(3) by (auto simp: lru_step_def)
    then show ?thesis using 3 assms(1) by - (rule exI [of _ "h # ys"], rule exI [of _ zs], auto)
  next
    case 4
    have "length ys < n" using assms(1,4) 4 distinct_card [of ys] by simp
    then obtain zs' z where z: "zs = zs' @ [z]" using 4 by (cases zs rule: rev_cases) auto
    then have "ks' = (h # ys) @ zs'" "e = Some z" using 4 assms(3) by (auto simp: lru_step_def butlast_append)
    then show ?thesis using 4 assms(1) z by - (rule exI [of _ "h # ys"], rule exI [of _ zs'], auto)
  qed
qed

lemma add_to_lru_ok:
  assumes laws: "lru_laws ops cap keys"
  shows "\<lbrakk>add_to_lru ops pod hs c m = (c', m'); keys c = ys @ zs; distinct (keys c); length (keys c) \<le> cap c;
      card (set ys \<union> set hs) \<le> cap c; \<And>h. pod \<in> got m h \<Longrightarrow> h \<in> set (keys c); \<And>h. h \<in> set zs \<Longrightarrow> pod \<in> got m h;
      \<And>h. m h \<noteq> Some {}\<rbrakk> \<Longrightarrow>
    cap c' = cap c \<and> distinct (keys c') \<and> length (keys c') \<le> cap c \<and> set ys \<union> set hs \<subseteq> set (keys c') \<and>
    (\<forall>h. pod \<in> got m' h \<longrightarrow> h \<in> set (keys c')) \<and> (\<forall>h\<in>set (keys c'). pod \<in> got m' h \<or> h \<in> set ys \<union> set hs) \<and> (\<forall>h. m' h \<noteq> Some {})"
proof (induction hs arbitrary: c m ys zs)
  case (Cons h hs)
  obtain e c1 where a: "lru_Add ops h c = (e, c1)" by force
  define m1 where "m1 = (case e of None \<Rightarrow> m | Some x \<Rightarrow> evictionFn pod x m)"
  have rest: "add_to_lru ops pod hs c1 m1 = (c', m')" using Cons.prems(1) a by (auto simp: m1_def split: option.splits)
  have g: "pod \<in> got m1 x \<longleftrightarrow> pod \<in> got m x \<and> x \<notin> set_option e" for x by (auto simp: m1_def got_evictionFn split: option.splits)
  have ne: "m1 x \<noteq> Some {}" for x using Cons.prems(8) by (auto simp: m1_def evictionFn_def Let_def split: option.splits if_splits)
  have cap1: "cap c1 = cap c" and st: "lru_step (cap c) h (ys @ zs) = (e, keys c1)"
    using lru_lawsD(3) [OF laws a] Cons.prems(2) by simp_all
  have "card (insert h (set ys)) \<le> card (set ys \<union> set (h # hs))" by (rule card_mono) auto
  then have fits: "card (insert h (set ys)) \<le> cap c" using Cons.prems(5) by simp
  have d: "distinct (ys @ zs)" "length (ys @ zs) \<le> cap c" using Cons.prems(2,3,4) by simp_all
  obtain ys' zs' where k: "keys c1 = ys' @ zs'" "set ys' = insert h (set ys)" "distinct (keys c1)" "length (keys c1) \<le> cap c"
    "set (keys c1) = insert h (set (ys @ zs) - set_option e)" "\<forall>x\<in>set_option e. x \<in> set zs \<and> x \<noteq> h"
    using lru_step_front [OF d st fits] by blast
  have z: "pod \<in> got m1 x" if "x \<in> set zs'" for x
  proof -
    have "x \<in> set (keys c1)" "x \<notin> set ys'" using that k(1,3) by auto
    then have "x \<in> set zs" "x \<notin> set_option e" using k(2,5) by auto
    then show ?thesis using Cons.prems(7) g by blast
  qed
  have u: "set ys' \<union> set hs = set ys \<union> set (h # hs)" using k(2) by auto
  have "cap c' = cap c1 \<and> distinct (keys c') \<and> length (keys c') \<le> cap c1 \<and> set ys' \<union> set hs \<subseteq> set (keys c') \<and>
    (\<forall>h. pod \<in> got m' h \<longrightarrow> h \<in> set (keys c')) \<and> (\<forall>h\<in>set (keys c'). pod \<in> got m' h \<or> h \<in> set ys' \<union> set hs) \<and> (\<forall>h. m' h \<noteq> Some {})"
  proof (rule Cons.IH [OF rest k(1,3)])
    show "length (keys c1) \<le> cap c1" using k(4) cap1 by simp
    show "card (set ys' \<union> set hs) \<le> cap c1" using Cons.prems(5) cap1 u by simp
    show "x \<in> set (keys c1)" if "pod \<in> got m1 x" for x using that g Cons.prems(2,6) k(5) by auto
  qed (use z ne in auto)
  then show ?case unfolding u cap1 .
qed auto

lemma ix_okD:
  assumes "ix_ok cap keys i"
  shows "0 < maxLRUSize i" "hashToPods i h \<noteq> Some {}" "podToLRU i pod = None \<Longrightarrow> pod \<notin> ix_Get h i" "podToLRU i pod \<noteq> Some None"
    "podToLRU i pod = Some (Some c) \<Longrightarrow> cap c = nat (maxLRUSize i) \<and> distinct (keys c) \<and> length (keys c) \<le> cap c \<and>
       (\<forall>h. pod \<in> ix_Get h i \<longleftrightarrow> h \<in> set (keys c))"
  using assms unfolding ix_ok_def by (auto dest!: spec [of _ pod] split: option.splits)

lemma publish_nonempty: "(\<And>h. m h \<noteq> Some {}) \<Longrightarrow> publish pod hs m h \<noteq> Some {}"
  by (induction pod hs m rule: publish.induct) auto

lemma ix_Add_ok:
  assumes laws: "lru_laws ops cap keys" and ok: "ix_ok cap keys i" and fits: "card (set hs) \<le> nat (maxLRUSize i)"
  shows "\<exists>i'. ix_Add ops hs pod i = Ret i' \<and> ix_ok cap keys i' \<and> maxLRUSize i' = maxLRUSize i"
proof -
  obtain c where c: "(case podToLRU i pod of Some c \<Rightarrow> c | None \<Rightarrow> lru_NewWithEvict ops (maxLRUSize i)) = Some c"
    "cap c = nat (maxLRUSize i)" "distinct (keys c)" "length (keys c) \<le> cap c" "\<And>h. pod \<in> ix_Get h i \<longleftrightarrow> h \<in> set (keys c)"
  proof (cases "podToLRU i pod")
    case None
    obtain c where n: "lru_NewWithEvict ops (maxLRUSize i) = Some c" using lru_lawsD(1) [OF laws] ix_okD(1) [OF ok] by (metis not_le option.exhaust)
    then show ?thesis using that [of c] None lru_lawsD(2) [OF laws n] ix_okD(3) [OF ok None] by simp
  next
    case (Some x)
    then obtain c where "x = Some c" using ix_okD(4) [OF ok, of pod] by (cases x) auto
    then show ?thesis using that [of c] Some ix_okD(5) [OF ok, of pod c] by simp
  qed
  obtain c' m where a: "add_to_lru ops pod hs c (hashToPods i) = (c', m)" by force
  have A: "cap c' = cap c" "distinct (keys c')" "length (keys c') \<le> cap c" "set hs \<subseteq> set (keys c')"
    "\<And>h. pod \<in> got m h \<Longrightarrow> h \<in> set (keys c')" "\<And>h. h \<in> set (keys c') \<Longrightarrow> pod \<in> got m h \<or> h \<in> set hs" "\<And>h. m h \<noteq> Some {}"
    using add_to_lru_ok [OF laws a, of "[]" "keys c"] c fits ix_okD(2) [OF ok] by (auto simp: ix_Get_def)
  let ?i = "i\<lparr>podToLRU := (podToLRU i)(pod \<mapsto> Some c'), hashToPods := publish pod hs m\<rparr>"
  have e: "ix_Add ops hs pod i = Ret ?i" using c(1) a by (simp add: ix_Add_def)
  have same: "q \<in> ix_Get h ?i \<longleftrightarrow> q \<in> ix_Get h i" if "q \<noteq> pod" for q h using ix_Add_get(2) [OF e that] .
  have mine: "pod \<in> ix_Get h ?i \<longleftrightarrow> h \<in> set (keys c')" for h
    using A(4,5,6) by (auto simp: ix_Get_def got_publish)
  have "ix_ok cap keys ?i"
    unfolding ix_ok_def
  proof (intro conjI allI)
    fix q
    show "case podToLRU ?i q of None \<Rightarrow> \<forall>h. q \<notin> ix_Get h ?i | Some None \<Rightarrow> False
       | Some (Some c) \<Rightarrow> cap c = nat (maxLRUSize ?i) \<and> distinct (keys c) \<and> length (keys c) \<le> cap c \<and>
           (\<forall>h. q \<in> ix_Get h ?i \<longleftrightarrow> h \<in> set (keys c))"
    proof (cases "q = pod")
      case True
      then show ?thesis using A(1,2,3) c(2) mine by simp
    next
      case False
      then show ?thesis using same [OF False] ix_okD(3,4,5) [OF ok, of q] by (auto split: option.split)
    qed
  qed (use ix_okD(1) [OF ok] A(7) publish_nonempty in auto)
  then show ?thesis using e by simp
qed

text \<open>A sequence of adds.\<close>

fun ix_Adds :: "'c lru \<Rightarrow> (BlockHash list \<times> ServerID) list \<Rightarrow> 'c indexer \<Rightarrow> 'c indexer go" where
  "ix_Adds ops [] i = Ret i"
| "ix_Adds ops ((hs, pod) # adds) i = (case ix_Add ops hs pod i of Panic \<Rightarrow> Panic | Ret i' \<Rightarrow> ix_Adds ops adds i')"

lemma ix_Adds_ok:
  assumes "lru_laws ops cap keys" "ix_ok cap keys i" "\<forall>(hs, pod)\<in>set adds. card (set hs) \<le> nat (maxLRUSize i)"
  shows "\<exists>i'. ix_Adds ops adds i = Ret i' \<and> ix_ok cap keys i'"
  using assms(2,3)
proof (induction adds arbitrary: i)
  case (Cons a adds)
  obtain hs pod where a: "a = (hs, pod)" by force
  obtain i' where i: "ix_Add ops hs pod i = Ret i'" "ix_ok cap keys i'" "maxLRUSize i' = maxLRUSize i"
    using ix_Add_ok [OF assms(1) Cons.prems(1), of hs pod] Cons.prems(2) a by auto
  then show ?case using Cons.IH [OF i(2)] Cons.prems(2) a by simp
qed simp


text \<open>A cache that behaves as documented.\<close>

definition wLru :: "(nat \<times> BlockHash list) lru" where
  "wLru = \<lparr>lru_NewWithEvict = (\<lambda>n. if n \<le> 0 then None else Some (nat n, [])),
     lru_Add = (\<lambda>h (n, ks). case lru_step n h ks of (e, ks') \<Rightarrow> (e, (n, ks'))),
     lru_Len = (\<lambda>(n, ks). int (length ks))\<rparr>"

lemma wLru_laws: "lru_laws wLru fst snd"
  by (auto simp: lru_laws_def wLru_def split: prod.splits if_splits)

definition wServer :: "string \<Rightarrow> ServerID" where "wServer s = \<lparr>nn_Namespace = ''ns'', nn_Name = s\<rparr>"


text \<open>
  The limit on a single add matters: after an add of two hashes to a cache for one, the server
  stays listed for the first hash, and it stays listed after the cache has moved on. No later
  eviction can remove the entry, since the cache no longer holds the hash.
\<close>

lemma indexer_stale:
  assumes "lru_laws ops cap keys"
  shows "\<exists>i c. ix_Adds ops [([1, 2], s), ([3], s)] (newIndexer 1) = Ret i \<and> podToLRU i s = Some (Some c) \<and> keys c = [3] \<and> s \<in> ix_Get 1 i"
proof -
  obtain c0 where c0: "lru_NewWithEvict ops 1 = Some c0" "cap c0 = 1" "keys c0 = []"
    using lru_lawsD(1,2) [OF assms, of 1] by (metis not_one_le_zero option.exhaust nat_one_as_int)
  have step: "\<exists>e c'. lru_Add ops h c = (e, c') \<and> cap c' = 1 \<and> (e, keys c') = lru_step 1 h (keys c)" if "cap c = 1" for h c
    using lru_lawsD(3) [OF assms, of h c] that by (metis surj_pair)
  obtain e1 c1 where c1: "lru_Add ops 1 c0 = (e1, c1)" "cap c1 = 1" "e1 = None" "keys c1 = [1]"
    using step [OF c0(2), of 1] c0(3) by (auto simp: lru_step_def)
  obtain e2 c2 where c2: "lru_Add ops 2 c1 = (e2, c2)" "cap c2 = 1" "e2 = Some 1" "keys c2 = [2]"
    using step [OF c1(2), of 2] c1(4) by (auto simp: lru_step_def)
  obtain e3 c3 where c3: "lru_Add ops 3 c2 = (e3, c3)" "e3 = Some 2" "keys c3 = [3]"
    using step [OF c2(2), of 3] c2(4) by (auto simp: lru_step_def)
  show ?thesis using c0(1) c1 c2 c3
    by (auto simp: newIndexer_def ix_Add_def ix_Get_def got_publish got_evictionFn simp del: publish.simps)
qed

lemma indexer_stale_witness:
  "lru_laws wLru fst snd \<and> (\<exists>i c. ix_Adds wLru [([1, 2], wServer ''a''), ([3], wServer ''a'')] (newIndexer 1) = Ret i \<and>
     podToLRU i (wServer ''a'') = Some (Some c) \<and> snd c = [3] \<and> wServer ''a'' \<in> ix_Get 1 i)"
  using indexer_stale [OF wLru_laws, of "wServer ''a''"] wLru_laws by blast

end
