(* ===== verification/PrefixPlugin.thy ===== *)
theory PrefixPlugin
  imports PrefixIndex
begin

text \<open>
  The prefix cache plugin (\<open>multi/prefix/plugin.go\<close>): it scores a pod by the share of the block
  hashes of the prompt that its server may have cached, and records the hashes for the pod that
  was picked.
\<close>

definition DefaultHashBlockSize :: int where "DefaultHashBlockSize = 64"
definition DefaultMaxPrefixBlocks :: int where "DefaultMaxPrefixBlocks = 256"
definition DefaultLRUCapacityPerServer :: int where "DefaultLRUCapacityPerServer = 31250"
definition PrefixCachePluginType :: string where "PrefixCachePluginType = ''prefix-cache-scorer''"

record PrefixConfig =
  HashBlockSize :: int
  MaxPrefixBlocksToMatch :: int
  LRUCapacityPerServer :: int

definition DefaultConfig :: PrefixConfig where
  "DefaultConfig = \<lparr>HashBlockSize = DefaultHashBlockSize, MaxPrefixBlocksToMatch = DefaultMaxPrefixBlocks,
     LRUCapacityPerServer = DefaultLRUCapacityPerServer\<rparr>"

record 'c Plugin =
  px_Config :: PrefixConfig
  px_typedName :: TypedName
  px_indexer :: "'c indexer"

record SchedulingContextState =
  PrefixHashes :: "BlockHash list"
  PrefixCacheServers :: "ServerID \<rightharpoonup> int"

definition SchedulingContextState_Clone :: "SchedulingContextState \<Rightarrow> SchedulingContextState" where
  "SchedulingContextState_Clone s =
     \<lparr>PrefixHashes = PrefixHashes s, PrefixCacheServers = Map.empty ++ PrefixCacheServers s\<rparr>"

definition prefix_New :: "PrefixConfig \<Rightarrow> 'c Plugin" where
  "prefix_New config =
     (let capacity = (if LRUCapacityPerServer config \<le> 0 then DefaultLRUCapacityPerServer else LRUCapacityPerServer config)
      in \<lparr>px_Config = config, px_typedName = \<lparr>tn_Type = PrefixCachePluginType, tn_Name = PrefixCachePluginType\<rparr>,
          px_indexer = newIndexer capacity\<rparr>)"

definition prefix_WithName :: "string \<Rightarrow> 'c Plugin \<Rightarrow> 'c Plugin" where
  "prefix_WithName name m = m\<lparr>px_typedName := (px_typedName m)\<lparr>tn_Name := name\<rparr>\<rparr>"

text \<open>\<open>unmarshal\<close> is the JSON decoder, which overwrites the fields the text has.\<close>

definition PrefixCachePluginFactory ::
  "(string \<Rightarrow> PrefixConfig \<Rightarrow> goError + PrefixConfig) \<Rightarrow> string \<Rightarrow> string option \<Rightarrow> goError + 'c Plugin" where
  "PrefixCachePluginFactory unmarshal name rawParameters =
     (case rawParameters of
        None \<Rightarrow> Inr (prefix_WithName name (prefix_New DefaultConfig))
      | Some raw \<Rightarrow>
          (case unmarshal raw DefaultConfig of
             Inl err \<Rightarrow> Inl (Errorf ''failed to parse the parameters of the plugin'' [err])
           | Inr parameters \<Rightarrow> Inr (prefix_WithName name (prefix_New parameters))))"

text \<open>The loop of \<open>matchLongestPrefix\<close>; \<open>get\<close> is the lookup in the index.\<close>

fun match_loop :: "(BlockHash \<Rightarrow> podSet) \<Rightarrow> BlockHash list \<Rightarrow> (ServerID \<rightharpoonup> int) \<Rightarrow> (ServerID \<rightharpoonup> int)" where
  "match_loop get [] res = res"
| "match_loop get (hash # hashes) res =
     (let cachedServers = get hash in
      if cachedServers = {} then res
      else match_loop get hashes
        (\<lambda>server. if server \<in> cachedServers then Some ((case res server of None \<Rightarrow> 0 | Some n \<Rightarrow> n) + 1) else res server))"

definition matchLongestPrefix :: "'c Plugin \<Rightarrow> BlockHash list \<Rightarrow> (ServerID \<rightharpoonup> int)" where
  "matchLongestPrefix m hashes = match_loop (\<lambda>h. ix_Get h (px_indexer m)) hashes Map.empty"

definition match_len :: "(ServerID \<rightharpoonup> int) \<Rightarrow> ServerID \<Rightarrow> int" where
  "match_len res server = (case res server of None \<Rightarrow> 0 | Some n \<Rightarrow> n)"

text \<open>The values other plugins keep in the cycle state are of no concern here.\<close>

type_synonym prefixCycle = "SchedulingContextState CycleState"

definition prefix_Score ::
  "(byte list \<Rightarrow> BlockHash) \<Rightarrow> (string \<Rightarrow> BlockHash) \<Rightarrow> byte list \<Rightarrow> 'c Plugin \<Rightarrow> prefixCycle \<Rightarrow> LLMRequest \<Rightarrow> Pod list \<Rightarrow>
   ((Pod \<times> float64) list \<times> prefixCycle) go" where
  "prefix_Score sum64 sum64String spare m cycleState request pods =
     (case hashPrompt sum64 sum64String spare request (HashBlockSize (px_Config m)) (MaxPrefixBlocksToMatch (px_Config m)) of
        Panic \<Rightarrow> Panic
      | Ret hashes \<Rightarrow>
          (let state = \<lparr>PrefixHashes = hashes, PrefixCacheServers = matchLongestPrefix m hashes\<rparr>;
               cycleState' = cs_Write (tn_Type (px_typedName m)) state cycleState;
               total = int (length (PrefixHashes state));
               podScoreFunc = (\<lambda>pod. if total = 0 then 0
                 else of_int (match_len (PrefixCacheServers state) (bp_NamespacedName (GetPod pod))) / of_int total)
           in Ret (map (\<lambda>pod. (pod, podScoreFunc pod)) (remdups pods), cycleState')))"

text \<open>\<open>PostCycle\<close> returns the plugin after it and the numbers it reports, if it reports any.\<close>

definition prefix_PostCycle :: "'c lru \<Rightarrow> 'c Plugin \<Rightarrow> prefixCycle \<Rightarrow> ProfileRunResult \<Rightarrow> ('c Plugin \<times> (int \<times> int) option) go" where
  "prefix_PostCycle ops m cycleState res =
     (case TargetPods res of
        [] \<Rightarrow> Panic
      | pod # _ \<Rightarrow>
          (case ReadCycleStateKey Some cycleState PrefixCachePluginType of
             Inl err \<Rightarrow> Ret (m, None)
           | Inr state \<Rightarrow>
               (let server = bp_NamespacedName (GetPod pod) in
                case ix_Add ops (PrefixHashes state) server (px_indexer m) of
                  Panic \<Rightarrow> Panic
                | Ret i \<Rightarrow>
                    (let total = int (length (PrefixHashes state));
                         matchLen = match_len (PrefixCacheServers state) server;
                         bs = HashBlockSize (px_Config m)
                     in Ret (m\<lparr>px_indexer := i\<rparr>, Some (matchLen * bs, total * bs))))))"

section \<open>The match lengths\<close>

definition hits :: "(BlockHash \<Rightarrow> podSet) \<Rightarrow> ServerID \<Rightarrow> BlockHash list \<Rightarrow> nat" where
  "hits get server hashes = length (filter (\<lambda>h. server \<in> get h) (takeWhile (\<lambda>h. get h \<noteq> {}) hashes))"

lemma match_loop_len: "match_len (match_loop get hashes res) server = match_len res server + int (hits get server hashes)"
  by (induction get hashes res rule: match_loop.induct) (auto simp: hits_def match_len_def Let_def)

lemma matchLongestPrefix_len: "match_len (matchLongestPrefix m hashes) server = int (hits (\<lambda>h. ix_Get h (px_indexer m)) server hashes)"
  using match_loop_len [of _ hashes Map.empty server] by (simp add: matchLongestPrefix_def match_len_def)

lemma hits_le: "hits get server hashes \<le> length hashes"
  unfolding hits_def by (meson le_trans length_filter_le length_takeWhile_le)

lemma hits_full: "\<forall>h\<in>set hashes. server \<in> get h \<Longrightarrow> hits get server hashes = length hashes"
proof -
  assume a: "\<forall>h\<in>set hashes. server \<in> get h"
  then have "takeWhile (\<lambda>h. get h \<noteq> {}) hashes = hashes" by (auto simp: takeWhile_eq_all_conv)
  then show ?thesis using a unfolding hits_def by (metis filter_True)
qed

lemma hits_prefix_closed:
  assumes "\<forall>i j. i < j \<and> j < length hashes \<and> server \<in> get (hashes ! j) \<longrightarrow> server \<in> get (hashes ! i)"
  shows "hits get server hashes = length (takeWhile (\<lambda>h. server \<in> get h) hashes)"
  using assms
proof (induction hashes)
  case (Cons h hashes)
  show ?case
  proof (cases "server \<in> get h")
    case True
    have "\<forall>i j. i < j \<and> j < length hashes \<and> server \<in> get (hashes ! j) \<longrightarrow> server \<in> get (hashes ! i)"
    proof (intro allI impI)
      fix i j assume "i < j \<and> j < length hashes \<and> server \<in> get (hashes ! j)"
      then show "server \<in> get (hashes ! i)" using Cons.prems [rule_format, of "Suc i" "Suc j"] by simp
    qed
    then show ?thesis using Cons.IH True by (auto simp: hits_def)
  next
    case False
    have "server \<notin> get x" if "x \<in> set hashes" for x
    proof -
      obtain j where "j < length hashes" "x = hashes ! j" using \<open>x \<in> set hashes\<close> by (auto simp: in_set_conv_nth)
      then show ?thesis using False Cons.prems [rule_format, of 0 "Suc j"] by auto
    qed
    then show ?thesis using False by (auto simp: hits_def filter_empty_conv dest: set_takeWhileD)
  qed
qed (simp add: hits_def)

text \<open>
  The match length of a server is at most the number of hashes. When the server is listed for
  a hash only together with all the hashes before it, the match length is the length of the
  longest prefix of the hashes that the server is listed for.
\<close>

lemma matchLongestPrefix_exact:
  assumes "\<forall>i j. i < j \<and> j < length hashes \<and> server \<in> ix_Get (hashes ! j) (px_indexer m) \<longrightarrow> server \<in> ix_Get (hashes ! i) (px_indexer m)"
  shows "match_len (matchLongestPrefix m hashes) server = int (length (takeWhile (\<lambda>h. server \<in> ix_Get h (px_indexer m)) hashes)) \<and>
    match_len (matchLongestPrefix m hashes) server \<le> int (length hashes)"
  using hits_prefix_closed [OF assms] by (simp add: matchLongestPrefix_len length_takeWhile_le)

section \<open>Affinity\<close>

definition ix_live :: "'c indexer \<Rightarrow> bool" where
  "ix_live i \<longleftrightarrow> 0 < maxLRUSize i \<and> (\<forall>pod. podToLRU i pod \<noteq> Some None)"

lemma ix_live_New: "ix_live (px_indexer (prefix_New config))"
  by (simp add: ix_live_def prefix_New_def newIndexer_def Let_def DefaultLRUCapacityPerServer_def)

lemma ix_Add_live:
  assumes "lru_laws ops cap keys" "ix_live i"
  shows "\<exists>i'. ix_Add ops hs pod i = Ret i' \<and> ix_live i'"
proof -
  have "\<exists>c. lru_NewWithEvict ops (maxLRUSize i) = Some c"
    using lru_lawsD(1) [OF assms(1), of "maxLRUSize i"] assms(2) by (auto simp: ix_live_def)
  then obtain c where "(case podToLRU i pod of Some c \<Rightarrow> c | None \<Rightarrow> lru_NewWithEvict ops (maxLRUSize i)) = Some c"
    using assms(2) by (cases "podToLRU i pod"; cases "the (podToLRU i pod)") (auto simp: ix_live_def)
  then show ?thesis using assms(2) by (simp add: ix_Add_def ix_live_def split: prod.split)
qed

lemma ix_Adds_live:
  assumes "lru_laws ops cap keys" "ix_live i" "\<forall>(hs, s)\<in>set adds. s \<noteq> server"
  shows "\<exists>i'. ix_Adds ops adds i = Ret i' \<and> (\<forall>h. server \<in> ix_Get h i' \<longleftrightarrow> server \<in> ix_Get h i)"
  using assms(2,3)
proof (induction adds arbitrary: i)
  case (Cons a adds)
  obtain hs s where a: "a = (hs, s)" by force
  obtain i1 where i1: "ix_Add ops hs s i = Ret i1" "ix_live i1" using ix_Add_live [OF assms(1) Cons.prems(1)] by blast
  have "server \<noteq> s" using Cons.prems(2) a by auto
  then show ?case using Cons.IH [OF i1(2)] Cons.prems(2) i1(1) ix_Add_get(2) [OF i1(1)] a by auto
qed simp

lemma prefix_Score_Ret:
  assumes "hashPrompt sum64 sum64String spare request (HashBlockSize (px_Config m)) (MaxPrefixBlocksToMatch (px_Config m)) = Ret hashes"
    "hashes \<noteq> []"
  shows "\<exists>scores. prefix_Score sum64 sum64String spare m cs request pods =
      Ret (scores, cs_Write (tn_Type (px_typedName m)) \<lparr>PrefixHashes = hashes, PrefixCacheServers = matchLongestPrefix m hashes\<rparr> cs) \<and>
    (\<forall>(pod, x)\<in>set scores. x = of_nat (hits (\<lambda>h. ix_Get h (px_indexer m)) (bp_NamespacedName (GetPod pod)) hashes) / of_nat (length hashes))"
  using assms by (auto simp: prefix_Score_def Let_def matchLongestPrefix_len)


text \<open>
  Without that condition the match length is not the length of a prefix: when the cache of a
  server has dropped the first block of a prompt and another server still has it, the server is
  credited with the second block, although a model server cannot use it without the first.
\<close>

lemma matchLongestPrefix_overcounts:
  assumes "lru_laws ops cap keys" "a \<noteq> b"
  shows "\<exists>i. ix_Adds ops [([1, 2], a), ([5], a), ([1], b)] (newIndexer 2) = Ret i \<and> a \<notin> ix_Get 1 i \<and>
    match_len (matchLongestPrefix \<lparr>px_Config = config, px_typedName = name, px_indexer = i\<rparr> [1, 2]) a = 1"
proof -
  obtain c0 where c0: "lru_NewWithEvict ops 2 = Some c0" "cap c0 = 2" "keys c0 = []"
    using lru_lawsD(1,2) [OF assms(1), of 2] by (cases "lru_NewWithEvict ops 2") auto
  have step: "\<exists>e c'. lru_Add ops h c = (e, c') \<and> cap c' = 2 \<and> (e, keys c') = lru_step 2 h (keys c)" if "cap c = 2" for h c
    using lru_lawsD(3) [OF assms(1), of h c] that by (metis surj_pair)
  obtain c1 where c1: "lru_Add ops 1 c0 = (None, c1)" "cap c1 = 2" "keys c1 = [1]"
    using step [OF c0(2), of 1] c0(3) by (auto simp: lru_step_def)
  obtain c2 where c2: "lru_Add ops 2 c1 = (None, c2)" "cap c2 = 2" "keys c2 = [2, 1]"
    using step [OF c1(2), of 2] c1(3) by (auto simp: lru_step_def)
  obtain c3 where c3: "lru_Add ops 5 c2 = (Some 1, c3)"
    using step [OF c2(2), of 5] c2(3) by (auto simp: lru_step_def)
  let ?m1 = "publish a [1, 2] Map.empty"
  let ?m = "publish b [1] (publish a [5] (evictionFn a 1 ?m1))"
  let ?i = "\<lparr>hashToPods = ?m, podToLRU = [a \<mapsto> Some c3, b \<mapsto> Some c1], maxLRUSize = 2\<rparr>"
  have "ix_Adds ops [([1, 2], a), ([5], a), ([1], b)] (newIndexer 2) = Ret ?i"
    using c0(1) c1(1) c2(1) c3 assms(2) by (simp add: newIndexer_def ix_Add_def fun_upd_twist del: publish.simps)
  moreover have "ix_Get 1 ?i = {b}" "ix_Get 2 ?i = {a}"
    by (auto simp: ix_Get_def got_publish got_evictionFn simp del: publish.simps)
  ultimately show ?thesis using assms(2) by (simp add: matchLongestPrefix_len hits_def del: publish.simps)
qed

lemma matchLongestPrefix_overcounts_witness:
  "lru_laws wLru fst snd \<and> wServer ''a'' \<noteq> wServer ''b'' \<and>
   (\<exists>i. ix_Adds wLru [([1, 2], wServer ''a''), ([5], wServer ''a''), ([1], wServer ''b'')] (newIndexer 2) = Ret i \<and> wServer ''a'' \<notin> ix_Get 1 i \<and>
    match_len (matchLongestPrefix \<lparr>px_Config = DefaultConfig, px_typedName = \<lparr>tn_Type = [], tn_Name = []\<rparr>, px_indexer = i\<rparr> [1, 2]) (wServer ''a'') = 1)"
proof -
  have "wServer ''a'' \<noteq> wServer ''b''" by (simp add: wServer_def)
  then show ?thesis using matchLongestPrefix_overcounts [OF wLru_laws] wLru_laws by blast
qed

definition wPlugin :: "(nat \<times> BlockHash list) Plugin" where "wPlugin = prefix_New DefaultConfig"

lemma matchLongestPrefix_exact_witness:
  "match_len (matchLongestPrefix (wPlugin\<lparr>px_indexer := \<lparr>hashToPods = [1 \<mapsto> {wServer ''a''}], podToLRU = Map.empty, maxLRUSize = 2\<rparr>\<rparr>) [1, 2]) (wServer ''a'') = 1"
proof -
  let ?m = "wPlugin\<lparr>px_indexer := \<lparr>hashToPods = [1 \<mapsto> {wServer ''a''}], podToLRU = Map.empty, maxLRUSize = 2\<rparr>\<rparr>"
  have "\<forall>i j. i < j \<and> j < length [1, 2] \<and> wServer ''a'' \<in> ix_Get ([1, 2] ! j) (px_indexer ?m) \<longrightarrow> wServer ''a'' \<in> ix_Get ([1, 2] ! i) (px_indexer ?m)"
    by (auto simp: ix_Get_def got_def less_Suc_eq nth_Cons')
  from matchLongestPrefix_exact [OF this] show ?thesis by (simp add: ix_Get_def got_def)
qed

definition wTarget :: "string \<Rightarrow> Pod" where
  "wTarget s = \<lparr>pod_ptr = 0, GetPod = \<lparr>bp_NamespacedName = wServer s, bp_Address = ''10.0.0.1'', bp_Labels = Map.empty\<rparr>, GetMetrics = NewMetricsState\<rparr>"


end
