(* ===== verification/GoStrings.thy ===== *)
theory GoStrings
  imports Prelude "HOL-Library.Sublist"
begin

text \<open>
  The functions of the Go packages \<open>strings\<close>, \<open>strconv\<close> and \<open>net\<close> that the program uses, on
  strings of bytes. White space and letter case are those of ASCII.
\<close>

definition str_Index :: "string \<Rightarrow> char \<Rightarrow> int" where
  "str_Index s c = (if c \<in> set s then int (length (takeWhile (\<lambda>x. x \<noteq> c) s)) else -1)"

text \<open>\<open>strings.Split\<close> by a separator of one character: never empty.\<close>

fun str_Split :: "char \<Rightarrow> string \<Rightarrow> string list" where
  "str_Split c [] = [[]]"
| "str_Split c (x # xs) =
     (if x = c then [] # str_Split c xs
      else case str_Split c xs of [] \<Rightarrow> [[x]] | p # ps \<Rightarrow> (x # p) # ps)"

fun str_Join :: "string \<Rightarrow> string list \<Rightarrow> string" where
  "str_Join sep [] = []"
| "str_Join sep [p] = p"
| "str_Join sep (p # q # ps) = p @ sep @ str_Join sep (q # ps)"

definition is_space :: "char \<Rightarrow> bool" where
  "is_space c \<longleftrightarrow> c \<in> set [CHR 0x09, CHR 0x0A, CHR 0x0B, CHR 0x0C, CHR 0x0D, CHR '' '']"

definition str_TrimSpace :: "string \<Rightarrow> string" where
  "str_TrimSpace s = rev (dropWhile is_space (rev (dropWhile is_space s)))"

definition to_lower :: "char \<Rightarrow> char" where
  "to_lower c = (let n = of_char c :: nat in if 65 \<le> n \<and> n \<le> 90 then char_of (n + 32) else c)"

definition str_ToLower :: "string \<Rightarrow> string" where "str_ToLower s = map to_lower s"

definition str_HasPrefix :: "string \<Rightarrow> string \<Rightarrow> bool" where
  "str_HasPrefix s p \<longleftrightarrow> take (length p) s = p"

definition str_TrimPrefix :: "string \<Rightarrow> string \<Rightarrow> string" where
  "str_TrimPrefix s p = (if str_HasPrefix s p then drop (length p) s else s)"

fun str_Contains :: "string \<Rightarrow> string \<Rightarrow> bool" where
  "str_Contains [] p = (p = [])"
| "str_Contains (x # xs) p = (str_HasPrefix (x # xs) p \<or> str_Contains xs p)"

definition digit :: "nat \<Rightarrow> char" where "digit n = char_of (48 + n)"

fun utoa :: "nat \<Rightarrow> string" where
  "utoa n = (if n < 10 then [digit n] else utoa (n div 10) @ [digit (n mod 10)])"

declare utoa.simps [simp del]

definition strconv_Itoa :: "int \<Rightarrow> string" where
  "strconv_Itoa i = (if i < 0 then ''-'' @ utoa (nat (- i)) else utoa (nat i))"

definition is_digit :: "char \<Rightarrow> bool" where
  "is_digit c \<longleftrightarrow> 48 \<le> (of_char c :: nat) \<and> (of_char c :: nat) \<le> 57"

definition atou :: "string \<Rightarrow> nat" where
  "atou s = fold (\<lambda>c n. 10 * n + (of_char c - 48)) s 0"

text \<open>\<open>strconv.Atoi\<close>: the value, and whether there is no error; out of range it is clamped.\<close>

definition strconv_Atoi :: "string \<Rightarrow> int \<times> bool" where
  "strconv_Atoi s =
     (let neg = (s \<noteq> [] \<and> hd s = CHR ''-'');
          ds = (if s \<noteq> [] \<and> hd s \<in> {CHR ''-'', CHR ''+''} then tl s else s);
          v = (if neg then - int (atou ds) else int (atou ds))
      in if ds = [] \<or> \<not> list_all is_digit ds then (0, False)
         else if v > maxInt64 then (maxInt64, False)
         else if v < minInt64 then (minInt64, False)
         else (v, True))"

definition net_JoinHostPort :: "string \<Rightarrow> string \<Rightarrow> string" where
  "net_JoinHostPort host port =
     (if CHR '':'' \<in> set host then ''['' @ host @ '']:'' @ port else host @ '':'' @ port)"

section \<open>Laws\<close>

lemma str_Split_ne [simp]: "str_Split c s \<noteq> []"
  by (induction c s rule: str_Split.induct) (auto split: list.split)

lemma str_Join_Cons: "ps \<noteq> [] \<Longrightarrow> str_Join sep (p # ps) = p @ sep @ str_Join sep ps"
  by (cases ps) auto

lemma str_Join_Split: "str_Join [c] (str_Split c s) = s"
proof (induction c s rule: str_Split.induct)
  case (2 c x xs)
  obtain p ps where s: "str_Split c xs = p # ps" by (cases "str_Split c xs") auto
  then show ?case using 2 by (cases ps) (auto simp: str_Join_Cons)
qed simp

lemma str_Split_append: "c \<notin> set p \<Longrightarrow> str_Split c (p @ c # s) = p # str_Split c s"
  by (induction p) auto

lemma str_Split_none: "c \<notin> set p \<Longrightarrow> str_Split c p = [p]"
  by (induction p) auto

lemma str_Split_Join: "ps \<noteq> [] \<Longrightarrow> \<forall>p\<in>set ps. c \<notin> set p \<Longrightarrow> str_Split c (str_Join [c] ps) = ps"
  by (induction "[c]" ps rule: str_Join.induct) (auto simp: str_Split_none str_Split_append)

lemma str_Index_at: "c \<notin> set p \<Longrightarrow> str_Index (p @ c # s) c = int (length p)"
  by (induction p) (auto simp: str_Index_def split: if_splits)

lemma str_Index_none: "c \<notin> set s \<Longrightarrow> str_Index s c = -1"
  by (simp add: str_Index_def)

lemma str_TrimSpace_id:
  assumes "s \<noteq> []" "\<not> is_space (hd s)" "\<not> is_space (last s)"
  shows "str_TrimSpace s = s"
proof -
  have "dropWhile is_space s = s" using assms by (cases s) auto
  moreover have "dropWhile is_space (rev s) = rev s" using assms by (cases s rule: rev_cases) auto
  ultimately show ?thesis by (simp add: str_TrimSpace_def)
qed

end
