(* ===== verification/MetricSpec.thy ===== *)
theory MetricSpec
  imports GoStrings SchedTypes
begin

text \<open>
  Metric specifications and the reading of scraped metrics (\<open>backend/metrics/metrics_spec.go\<close>
  and \<open>metrics.go\<close>). Fetching and parsing the Prometheus text are outside the model: what they
  give is an argument.
\<close>

section \<open>Specifications\<close>

record MetricSpec =
  MetricName :: string
  Labels :: "(string \<times> string) list"

record MetricMapping =
  TotalQueuedRequests :: "MetricSpec option"
  KVCacheUtilization :: "MetricSpec option"
  LoraRequestInfo :: "MetricSpec option"

text \<open>Writing to a Go map: an existing key keeps its place.\<close>

fun label_put :: "string \<Rightarrow> string \<Rightarrow> (string \<times> string) list \<Rightarrow> (string \<times> string) list" where
  "label_put k v [] = [(k, v)]"
| "label_put k v ((k', v') # m) = (if k' = k then (k, v) # m else (k', v') # label_put k v m)"

fun parse_labels :: "string list \<Rightarrow> (string \<times> string) list \<Rightarrow> goError + (string \<times> string) list" where
  "parse_labels [] labels = Inr labels"
| "parse_labels (pair # pairs) labels =
     (case str_Split (CHR ''='') (str_TrimSpace pair) of
        [a, b] \<Rightarrow>
          (let labelName = str_TrimSpace a; labelValue = str_TrimSpace b in
           if labelName = [] \<or> labelValue = [] then Inl (Errorf ''empty label name or value in pair'' [])
           else parse_labels pairs (label_put labelName labelValue labels))
      | _ \<Rightarrow> Inl (Errorf ''invalid label pair'' []))"

definition stringToMetricSpec :: "string \<Rightarrow> goError + MetricSpec option" where
  "stringToMetricSpec specStr0 =
     (if specStr0 = [] then Inr None
      else
        let specStr = str_TrimSpace specStr0;
            start = str_Index specStr (CHR ''{'');
            stop = str_Index specStr (CHR ''}'');
            finish = (\<lambda>metricName labels.
              if metricName = [] then Inl (Errorf ''empty metric name in spec'' [])
              else Inr (Some \<lparr>MetricName = metricName, Labels = labels\<rparr>))
        in
        if start \<noteq> -1 \<or> stop \<noteq> -1 then
          (if start = -1 \<or> stop = -1 \<or> stop \<le> start + 1
           then Inl (Errorf ''invalid metric spec string, missing or malformed label block'' [])
           else
             let metricName = str_TrimSpace (take (nat start) specStr);
                 labelStr = take (nat (stop - (start + 1))) (drop (nat (start + 1)) specStr)
             in case parse_labels (str_Split (CHR '','') labelStr) [] of
                  Inl err \<Rightarrow> Inl err
                | Inr labels \<Rightarrow>
                    if stop \<noteq> int (length specStr) - 1 then Inl (Errorf ''invalid characters after label section'' [])
                    else finish metricName labels)
        else finish specStr [])"

definition NewMetricMapping :: "string \<Rightarrow> string \<Rightarrow> string \<Rightarrow> goError + MetricMapping" where
  "NewMetricMapping queuedStr kvUsageStr loraReqInfoStr =
     (case stringToMetricSpec queuedStr of
        Inl err \<Rightarrow> Inl (Errorf ''error parsing WaitingRequests'' [err])
      | Inr queuedSpec \<Rightarrow>
          (case stringToMetricSpec kvUsageStr of
             Inl err \<Rightarrow> Inl (Errorf ''error parsing KVCacheUsage'' [err])
           | Inr kvUsageSpec \<Rightarrow>
               (case stringToMetricSpec loraReqInfoStr of
                  Inl err \<Rightarrow> Inl (Errorf ''error parsing loraReqInfoStr'' [err])
                | Inr loraReqInfoSpec \<Rightarrow>
                    Inr \<lparr>TotalQueuedRequests = queuedSpec, KVCacheUtilization = kvUsageSpec, LoraRequestInfo = loraReqInfoSpec\<rparr>)))"

section \<open>Scraped metrics\<close>

type_synonym LabelPair = "string \<times> string"

text \<open>A metric with the values its getters return: the labels, the gauge and the timestamp.\<close>

record Metric =
  GetLabel :: "LabelPair list"
  GaugeValue :: float64
  TimestampMs :: int

type_synonym metricFamilies = "string \<rightharpoonup> Metric list"

definition labelsMatch :: "LabelPair list \<Rightarrow> (string \<times> string) list \<Rightarrow> bool" where
  "labelsMatch metricLabels specLabels \<longleftrightarrow>
     (specLabels = [] \<or> list_all (\<lambda>(specName, specValue). (specName, specValue) \<in> set metricLabels) specLabels)"

fun latest_from :: "MetricSpec \<Rightarrow> Metric list \<Rightarrow> Metric option \<Rightarrow> int \<Rightarrow> Metric option" where
  "latest_from spec [] latestMetric latestTimestamp = latestMetric"
| "latest_from spec (m # ms) latestMetric latestTimestamp =
     (if labelsMatch (GetLabel m) (Labels spec) \<and> TimestampMs m > latestTimestamp
      then latest_from spec ms (Some m) (TimestampMs m)
      else latest_from spec ms latestMetric latestTimestamp)"

definition getLatestMetric :: "Metric list \<Rightarrow> MetricSpec \<Rightarrow> goError + Metric" where
  "getLatestMetric mf spec =
     (case latest_from spec mf None (-1) of
        Some m \<Rightarrow> Inr m
      | None \<Rightarrow> Inl (Errorf ''no matching metric found'' []))"

definition getMetric :: "metricFamilies \<Rightarrow> MetricSpec \<Rightarrow> goError + Metric" where
  "getMetric families spec =
     (case families (MetricName spec) of
        None \<Rightarrow> Inl (Errorf ''metric family not found'' [])
      | Some mf \<Rightarrow>
          if length mf = 0 then Inl (Errorf ''no metrics available'' []) else getLatestMetric mf spec)"

definition LoraInfoRunningAdaptersMetricName :: string where "LoraInfoRunningAdaptersMetricName = ''running_lora_adapters''"
definition LoraInfoWaitingAdaptersMetricName :: string where "LoraInfoWaitingAdaptersMetricName = ''waiting_lora_adapters''"
definition LoraInfoMaxAdaptersMetricName :: string where "LoraInfoMaxAdaptersMetricName = ''max_lora''"

text \<open>The value of the last label with a name; empty when there is none.\<close>

definition label_value :: "string \<Rightarrow> LabelPair list \<Rightarrow> string" where
  "label_value name ls = fold (\<lambda>(n, v) acc. if n = name then v else acc) ls []"

fun lora_from :: "Metric list \<Rightarrow> Metric option \<Rightarrow> float64 \<Rightarrow> Metric option" where
  "lora_from [] latest latestTs = latest"
| "lora_from (m # ms) latest latestTs =
     (let running = label_value LoraInfoRunningAdaptersMetricName (GetLabel m);
          waiting = label_value LoraInfoWaitingAdaptersMetricName (GetLabel m)
      in if running = [] \<and> waiting = [] then lora_from ms latest latestTs
         else if GaugeValue m > latestTs then lora_from ms (Some m) (GaugeValue m)
         else lora_from ms latest latestTs)"

definition getLatestLoraMetric :: "MetricMapping \<Rightarrow> metricFamilies \<Rightarrow> goError + Metric option" where
  "getLatestLoraMetric mapping families =
     (case LoraRequestInfo mapping of
        None \<Rightarrow> Inr None
      | Some spec \<Rightarrow>
          (case families (MetricName spec) of
             None \<Rightarrow> Inl (Errorf ''metric family not found'' [])
           | Some loraRequests \<Rightarrow> Inr (lora_from loraRequests None 0)))"

text \<open>Conversion of a float to an int truncates towards zero.\<close>

definition trunc_int :: "float64 \<Rightarrow> int" where
  "trunc_int x = (if 0 \<le> x then \<lfloor>x\<rfloor> else \<lceil>x\<rceil>)"

fun adapters :: "string list \<Rightarrow> (string \<times> int) list \<Rightarrow> (string \<times> int) list" where
  "adapters [] m = m"
| "adapters (a # as) m = adapters as (if a \<in> fst ` set m then map (\<lambda>(k, v). (k, if k = a then 0 else v)) m else m @ [(a, 0)])"

text \<open>The loop over the labels of the LoRA metric, with the errors it collects.\<close>

fun lora_labels :: "LabelPair list \<Rightarrow> MetricsState \<Rightarrow> goError list \<Rightarrow> MetricsState \<times> goError list" where
  "lora_labels [] updated errs = (updated, errs)"
| "lora_labels ((name, value) # ls) updated errs =
     (let u1 = (if name = LoraInfoRunningAdaptersMetricName \<and> value \<noteq> []
                then updated\<lparr>ActiveModels := adapters (str_Split (CHR '','') value) (ActiveModels updated)\<rparr> else updated);
          u2 = (if name = LoraInfoWaitingAdaptersMetricName \<and> value \<noteq> []
                then u1\<lparr>WaitingModels := adapters (str_Split (CHR '','') value) (WaitingModels u1)\<rparr> else u1)
      in if name = LoraInfoMaxAdaptersMetricName \<and> value \<noteq> [] then
           (case strconv_Atoi value of
              (n, ok) \<Rightarrow> lora_labels ls (u2\<lparr>MaxActiveModels := n\<rparr>) (if ok then errs else errs @ [Errorf ''Atoi'' []]))
         else lora_labels ls u2 errs)"

definition promToPodMetrics :: "MetricMapping \<Rightarrow> metricFamilies \<Rightarrow> MetricsState \<Rightarrow> MetricsState \<times> goError list" where
  "promToPodMetrics mapping families existing =
     (let (u1, e1) =
            (case TotalQueuedRequests mapping of
               None \<Rightarrow> (existing, [])
             | Some spec \<Rightarrow>
                 (case getMetric families spec of
                    Inr queued \<Rightarrow> (existing\<lparr>WaitingQueueSize := trunc_int (GaugeValue queued)\<rparr>, [])
                  | Inl err \<Rightarrow> (existing, [err])));
          (u2, e2) =
            (case KVCacheUtilization mapping of
               None \<Rightarrow> (u1, e1)
             | Some spec \<Rightarrow>
                 (case getMetric families spec of
                    Inr usage \<Rightarrow> (u1\<lparr>KVCacheUsagePercent := GaugeValue usage\<rparr>, e1)
                  | Inl err \<Rightarrow> (u1, e1 @ [err])))
      in case LoraRequestInfo mapping of
           None \<Rightarrow> (u2, e2)
         | Some spec \<Rightarrow>
             (case getLatestLoraMetric mapping families of
                Inl err \<Rightarrow> (u2, e2 @ [err])
              | Inr None \<Rightarrow> (u2, e2)
              | Inr (Some m) \<Rightarrow> lora_labels (GetLabel m) (u2\<lparr>ActiveModels := [], WaitingModels := []\<rparr>) e2))"

section \<open>Printing and parsing\<close>

definition print_label :: "string \<times> string \<Rightarrow> string" where
  "print_label kv = fst kv @ ''='' @ snd kv"

definition print_spec :: "MetricSpec \<Rightarrow> string" where
  "print_spec spec =
     (if Labels spec = [] then MetricName spec
      else MetricName spec @ ''{'' @ str_Join '','' (map print_label (Labels spec)) @ ''}'')"

definition trimmed :: "string \<Rightarrow> bool" where
  "trimmed s \<longleftrightarrow> s \<noteq> [] \<and> \<not> is_space (hd s) \<and> \<not> is_space (last s) \<and> CHR ''{'' \<notin> set s \<and> CHR ''}'' \<notin> set s"

definition plain :: "string \<Rightarrow> bool" where
  "plain s \<longleftrightarrow> trimmed s \<and> CHR '','' \<notin> set s \<and> CHR ''='' \<notin> set s"

lemma trim_id: "trimmed s \<Longrightarrow> str_TrimSpace s = s"
  by (simp add: trimmed_def str_TrimSpace_id)

lemma label_put_new: "k \<notin> fst ` set m \<Longrightarrow> label_put k v m = m @ [(k, v)]"
  by (induction k v m rule: label_put.induct) auto

lemma print_label_trimmed: "plain k \<Longrightarrow> plain v \<Longrightarrow> str_TrimSpace (print_label (k, v)) = print_label (k, v)"
  by (rule str_TrimSpace_id) (auto simp: print_label_def plain_def trimmed_def)

lemma parse_print_labels:
  "\<forall>(k, v)\<in>set ls. plain k \<and> plain v \<Longrightarrow> distinct (map fst (acc @ ls)) \<Longrightarrow>
   parse_labels (map print_label ls) acc = Inr (acc @ ls)"
proof (induction ls arbitrary: acc)
  case (Cons kv ls)
  obtain k v where kv: "kv = (k, v)" by force
  then have p: "plain k" "plain v" using Cons.prems(1) by auto
  have "str_Split (CHR ''='') (print_label (k, v)) = [k, v]"
    using p by (simp add: print_label_def plain_def str_Split_append str_Split_none)
  moreover have "k \<notin> fst ` set acc" using Cons.prems(2) kv by auto
  moreover have "k \<noteq> []" "v \<noteq> []" using p by (auto simp: plain_def trimmed_def)
  moreover have "parse_labels (map print_label ls) (acc @ [(k, v)]) = Inr ((acc @ [(k, v)]) @ ls)"
    by (rule Cons.IH) (use Cons.prems kv in auto)
  ultimately show ?case
    using p by (simp add: kv print_label_trimmed trim_id label_put_new plain_def)
qed simp

lemma join_chars: "c \<in> set (str_Join sep ps) \<Longrightarrow> c \<in> set sep \<or> (\<exists>p\<in>set ps. c \<in> set p)"
  by (induction sep ps rule: str_Join.induct) auto

text \<open>
  C34. Parsing the printed form of a metric specification gives it back, for a name and labels that
  do not contain the separators and have no white space around them, with different label names.
\<close>

theorem metricSpec_roundtrip:
  assumes "trimmed (MetricName spec)" "\<forall>(k, v)\<in>set (Labels spec). plain k \<and> plain v" "distinct (map fst (Labels spec))"
  shows "stringToMetricSpec (print_spec spec) = Inr (Some spec)"
proof (cases "Labels spec = []")
  case True
  then show ?thesis using assms(1) trim_id [OF assms(1)]
    by (simp add: print_spec_def stringToMetricSpec_def str_Index_none trimmed_def Let_def)
next
  case False
  let ?n = "MetricName spec" and ?l = "str_Join '','' (map print_label (Labels spec))"
  let ?s = "?n @ CHR ''{'' # ?l @ ''}''"
  have nb: "CHR ''{'' \<notin> set ?n" "CHR ''}'' \<notin> set ?n" "?n \<noteq> []" "\<not> is_space (hd ?n)" using assms(1) by (auto simp: trimmed_def)
  have chars: "CHR ''}'' \<notin> set (print_label kv)" "CHR '','' \<notin> set (print_label kv)" if "kv \<in> set (Labels spec)" for kv
    using that assms(2) by (auto simp: print_label_def plain_def trimmed_def)
  have lb: "CHR ''}'' \<notin> set ?l" using chars(1) join_chars [of _ "'',''" "map print_label (Labels spec)"] by fastforce
  have trim: "str_TrimSpace ?s = ?s" using nb by (intro str_TrimSpace_id) (auto simp: is_space_def)
  have start: "str_Index ?s (CHR ''{'') = int (length ?n)" using nb by (intro str_Index_at)
  have "str_Index ((?n @ CHR ''{'' # ?l) @ CHR ''}'' # []) (CHR ''}'') = int (length (?n @ CHR ''{'' # ?l))"
    by (rule str_Index_at) (use nb lb in auto)
  then have stop: "str_Index ?s (CHR ''}'') = int (length ?n + 1 + length ?l)" by simp
  have "?l \<noteq> []" using False by (cases "Labels spec" rule: list.exhaust; cases "tl (Labels spec)") (auto simp: print_label_def)
  then have len: "0 < length ?l" by simp
  have split: "str_Split (CHR '','') ?l = map print_label (Labels spec)"
    by (rule str_Split_Join) (use False chars(2) in auto)
  have "parse_labels (map print_label (Labels spec)) [] = Inr (Labels spec)"
    using parse_print_labels [OF assms(2), of "[]"] assms(3) by simp
  moreover have "print_spec spec = ?s" using False by (simp add: print_spec_def)
  moreover have "take (nat (int (length ?n + 1 + length ?l) - (int (length ?n) + 1))) (drop (nat (int (length ?n) + 1)) ?s) = ?l"
    by (simp add: nat_add_distrib)
  ultimately show ?thesis
    using nb len trim_id [OF assms(1)] unfolding stringToMetricSpec_def by (simp add: Let_def trim start stop split nat_add_distrib)
qed

definition wSpec :: MetricSpec where
  "wSpec = \<lparr>MetricName = ''vllm:queued'', Labels = [(''engine'', ''0''), (''pod'', ''a b'')]\<rparr>"

theorem metricSpec_roundtrip_witness:
  "print_spec wSpec = ''vllm:queued{engine=0,pod=a b}'' \<and> stringToMetricSpec (print_spec wSpec) = Inr (Some wSpec)"
  using metricSpec_roundtrip [of wSpec]
  by (simp add: wSpec_def print_spec_def print_label_def trimmed_def plain_def is_space_def)

section \<open>Partial updates\<close>

lemma latest_from_ok:
  assumes "latest_from spec ms l t = r" "\<And>m. l = Some m \<Longrightarrow> TimestampMs m = t"
  shows "(r = l \<and> (\<forall>m\<in>set ms. labelsMatch (GetLabel m) (Labels spec) \<longrightarrow> TimestampMs m \<le> t)) \<or>
    (\<exists>m. r = Some m \<and> m \<in> set ms \<and> labelsMatch (GetLabel m) (Labels spec) \<and> t < TimestampMs m \<and>
       (\<forall>m'\<in>set ms. labelsMatch (GetLabel m') (Labels spec) \<longrightarrow> TimestampMs m' \<le> TimestampMs m))"
  using assms
proof (induction spec ms l t rule: latest_from.induct)
  case (2 spec x ms l t)
  show ?case
  proof (cases "labelsMatch (GetLabel x) (Labels spec) \<and> TimestampMs x > t")
    case True
    then show ?thesis using "2.IH"(1) "2.prems"(1) by fastforce
  next
    case False
    then show ?thesis using "2.IH"(2) "2.prems" by fastforce
  qed
qed simp

lemma getMetric_ok:
  "case getMetric families spec of
     Inr m \<Rightarrow> \<exists>mf. families (MetricName spec) = Some mf \<and> m \<in> set mf \<and> labelsMatch (GetLabel m) (Labels spec) \<and>
       (\<forall>m'\<in>set mf. labelsMatch (GetLabel m') (Labels spec) \<longrightarrow> TimestampMs m' \<le> TimestampMs m)
   | Inl err \<Rightarrow> \<forall>mf m. families (MetricName spec) = Some mf \<and> m \<in> set mf \<and> labelsMatch (GetLabel m) (Labels spec) \<longrightarrow> TimestampMs m < 0"
  using latest_from_ok [of spec "the (families (MetricName spec))" None "-1", OF refl]
  by (force simp: getMetric_def getLatestMetric_def split: option.splits)

lemma lora_labels_frame:
  "lora_labels ls u errs = (u', errs') \<Longrightarrow> WaitingQueueSize u' = WaitingQueueSize u \<and> KVCacheUsagePercent u' = KVCacheUsagePercent u \<and>
     RunningQueueSize u' = RunningQueueSize u \<and> UpdateTime u' = UpdateTime u \<and> prefix errs errs'"
  by (induction ls u errs rule: lora_labels.induct) (auto simp: Let_def split: if_splits prod.splits dest: append_prefixD)

text \<open>The newest sample that matches a specification.\<close>

definition newest :: "metricFamilies \<Rightarrow> MetricSpec \<Rightarrow> Metric \<Rightarrow> bool" where
  "newest families spec m \<longleftrightarrow> (\<exists>mf. families (MetricName spec) = Some mf \<and> m \<in> set mf \<and> labelsMatch (GetLabel m) (Labels spec) \<and>
     (\<forall>m'\<in>set mf. labelsMatch (GetLabel m') (Labels spec) \<longrightarrow> TimestampMs m' \<le> TimestampMs m))"

text \<open>
  Reading scraped metrics updates them partially: the size of the waiting queue and the cache
  usage are those of a newest matching sample, or stay as they were and an error is reported when no
  sample with a timestamp matches; the other fields that are not scraped stay as they were.
\<close>

lemma prom_update_partial:
  assumes "promToPodMetrics mapping families existing = (u, errs)"
  shows "(\<forall>spec. TotalQueuedRequests mapping = Some spec \<longrightarrow>
      (\<exists>m. newest families spec m \<and> WaitingQueueSize u = trunc_int (GaugeValue m)) \<or>
      (WaitingQueueSize u = WaitingQueueSize existing \<and> errs \<noteq> [] \<and> (\<forall>m. newest families spec m \<longrightarrow> TimestampMs m < 0))) \<and>
    (\<forall>spec. KVCacheUtilization mapping = Some spec \<longrightarrow>
      (\<exists>m. newest families spec m \<and> KVCacheUsagePercent u = GaugeValue m) \<or>
      (KVCacheUsagePercent u = KVCacheUsagePercent existing \<and> errs \<noteq> [] \<and> (\<forall>m. newest families spec m \<longrightarrow> TimestampMs m < 0))) \<and>
    RunningQueueSize u = RunningQueueSize existing \<and> UpdateTime u = UpdateTime existing"
proof -
  define r1 where "r1 = (case TotalQueuedRequests mapping of None \<Rightarrow> (existing, [])
     | Some spec \<Rightarrow> (case getMetric families spec of
          Inr queued \<Rightarrow> (existing\<lparr>WaitingQueueSize := trunc_int (GaugeValue queued)\<rparr>, [])
        | Inl err \<Rightarrow> (existing, [err])))"
  define r2 where "r2 = (case KVCacheUtilization mapping of None \<Rightarrow> r1
     | Some spec \<Rightarrow> (case getMetric families spec of
          Inr usage \<Rightarrow> ((fst r1)\<lparr>KVCacheUsagePercent := GaugeValue usage\<rparr>, snd r1)
        | Inl err \<Rightarrow> (fst r1, snd r1 @ [err])))"
  have E: "promToPodMetrics mapping families existing =
      (case LoraRequestInfo mapping of None \<Rightarrow> r2
       | Some spec \<Rightarrow> (case getLatestLoraMetric mapping families of
            Inl err \<Rightarrow> (fst r2, snd r2 @ [err])
          | Inr None \<Rightarrow> r2
          | Inr (Some m) \<Rightarrow> lora_labels (GetLabel m) ((fst r2)\<lparr>ActiveModels := [], WaitingModels := []\<rparr>) (snd r2)))"
    unfolding promToPodMetrics_def r1_def [symmetric]
    by (auto simp: r2_def split_def Let_def split: option.splits sum.splits)
  have g: "(\<exists>m. getMetric families spec = Inr m \<and> newest families spec m) \<or>
      ((\<exists>e. getMetric families spec = Inl e) \<and> (\<forall>m. newest families spec m \<longrightarrow> TimestampMs m < 0))" for spec
    using getMetric_ok [of families spec] by (auto simp: newest_def split: sum.splits)
  have same: "WaitingQueueSize u = WaitingQueueSize (fst r2) \<and> KVCacheUsagePercent u = KVCacheUsagePercent (fst r2) \<and>
      RunningQueueSize u = RunningQueueSize (fst r2) \<and> UpdateTime u = UpdateTime (fst r2) \<and> prefix (snd r2) errs"
    using assms unfolding E by (auto split: option.splits sum.splits dest!: lora_labels_frame)
  have r2: "WaitingQueueSize (fst r2) = WaitingQueueSize (fst r1)" "RunningQueueSize (fst r2) = RunningQueueSize existing"
    "UpdateTime (fst r2) = UpdateTime existing" "prefix (snd r1) (snd r2)"
    unfolding r2_def r1_def by (auto split: option.splits sum.splits)
  have q: "(\<exists>m. newest families spec m \<and> WaitingQueueSize (fst r1) = trunc_int (GaugeValue m)) \<or>
      (WaitingQueueSize (fst r1) = WaitingQueueSize existing \<and> snd r1 \<noteq> [] \<and> (\<forall>m. newest families spec m \<longrightarrow> TimestampMs m < 0))"
    if "TotalQueuedRequests mapping = Some spec" for spec
    using g [of spec] that by (auto simp: r1_def)
  have k: "(\<exists>m. newest families spec m \<and> KVCacheUsagePercent (fst r2) = GaugeValue m) \<or>
      (KVCacheUsagePercent (fst r2) = KVCacheUsagePercent existing \<and> snd r2 \<noteq> [] \<and> (\<forall>m. newest families spec m \<longrightarrow> TimestampMs m < 0))"
    if "KVCacheUtilization mapping = Some spec" for spec
    using g [of spec] that by (auto simp: r2_def r1_def split: option.splits sum.splits)
  have ne: "snd r1 \<noteq> [] \<Longrightarrow> errs \<noteq> []" "snd r2 \<noteq> [] \<Longrightarrow> errs \<noteq> []" using same r2(4) by (auto simp: prefix_def)
  show ?thesis
  proof (intro conjI allI impI)
    fix spec assume "TotalQueuedRequests mapping = Some spec"
    from q [OF this] show "(\<exists>m. newest families spec m \<and> WaitingQueueSize u = trunc_int (GaugeValue m)) \<or>
      (WaitingQueueSize u = WaitingQueueSize existing \<and> errs \<noteq> [] \<and> (\<forall>m. newest families spec m \<longrightarrow> TimestampMs m < 0))"
      using same r2(1) ne(1) by metis
  next
    fix spec assume "KVCacheUtilization mapping = Some spec"
    from k [OF this] show "(\<exists>m. newest families spec m \<and> KVCacheUsagePercent u = GaugeValue m) \<or>
      (KVCacheUsagePercent u = KVCacheUsagePercent existing \<and> errs \<noteq> [] \<and> (\<forall>m. newest families spec m \<longrightarrow> TimestampMs m < 0))"
      using same ne(2) by metis
  qed (use same r2 in auto)
qed

definition wFamilies :: metricFamilies where
  "wFamilies = [''q'' \<mapsto> [\<lparr>GetLabel = [], GaugeValue = 3, TimestampMs = 5\<rparr>, \<lparr>GetLabel = [], GaugeValue = 4, TimestampMs = 7\<rparr>]]"

definition wQueued :: MetricSpec where "wQueued = \<lparr>MetricName = ''q'', Labels = []\<rparr>"

lemma prom_update_partial_witness:
  "\<exists>m. newest wFamilies wQueued m \<and>
     WaitingQueueSize (fst (promToPodMetrics \<lparr>TotalQueuedRequests = Some wQueued, KVCacheUtilization = None, LoraRequestInfo = None\<rparr>
       wFamilies NewMetricsState)) = trunc_int (GaugeValue m)"
proof -
  let ?m = "\<lparr>TotalQueuedRequests = Some wQueued, KVCacheUtilization = None, LoraRequestInfo = None\<rparr>"
  have "promToPodMetrics ?m wFamilies NewMetricsState = (NewMetricsState\<lparr>WaitingQueueSize := 4\<rparr>, [])"
    by (simp add: promToPodMetrics_def getMetric_def getLatestMetric_def wQueued_def wFamilies_def labelsMatch_def trunc_int_def)
  from prom_update_partial [OF this] show ?thesis by (simp add: \<open>promToPodMetrics ?m wFamilies NewMetricsState = _\<close>)
qed

end
