(* ===== verification/Datastore.thy ===== *)
theory Datastore
  imports MetricSpec
begin

text \<open>
  The pods with their metrics (\<open>backend/metrics/pod_metrics.go\<close>, \<open>types.go\<close>), the data store
  (\<open>datastore/datastore.go\<close>), the readiness of a pod (\<open>util/pod\<close>) and the reconcilers that keep the
  store in step with the cluster (\<open>controller\<close>). The Kubernetes client and its label selectors are
  arguments.
\<close>

section \<open>Pods of the cluster\<close>

record PodCondition =
  cond_Type :: string
  cond_Status :: string

record corePod =
  kp_Name :: string
  kp_Namespace :: string
  kp_Labels :: "string \<rightharpoonup> string"
  kp_PodIP :: string
  kp_Deleting :: bool \<comment> \<open>the deletion timestamp is set\<close>
  kp_Conditions :: "PodCondition list"

fun ready_condition :: "PodCondition list \<Rightarrow> bool" where
  "ready_condition [] = False"
| "ready_condition (c # cs) = (if cond_Type c = ''Ready'' then cond_Status c = ''True'' else ready_condition cs)"

definition IsPodReady :: "corePod \<Rightarrow> bool" where
  "IsPodReady pod = (if kp_Deleting pod then False else ready_condition (kp_Conditions pod))"

definition pod_key :: "corePod \<Rightarrow> NamespacedName" where
  "pod_key pod = \<lparr>nn_Namespace = kp_Namespace pod, nn_Name = kp_Name pod\<rparr>"

definition toInternalPod :: "corePod \<Rightarrow> backendPod" where
  "toInternalPod pod = \<lparr>bp_NamespacedName = \<lparr>nn_Namespace = kp_Namespace pod, nn_Name = kp_Name pod\<rparr>,
     bp_Address = kp_PodIP pod, bp_Labels = kp_Labels pod\<rparr>"

section \<open>Pods with metrics\<close>

text \<open>An object with the two pointers it holds, and whether its refresh loop was told to stop.\<close>

record podMetrics =
  pm_pod :: backendPod
  pm_metrics :: MetricsState
  pm_done :: bool

definition NewPodMetrics :: "corePod \<Rightarrow> podMetrics" where
  "NewPodMetrics pod = \<lparr>pm_pod = toInternalPod pod, pm_metrics = NewMetricsState, pm_done = False\<rparr>"

definition UpdatePod :: "corePod \<Rightarrow> podMetrics \<Rightarrow> podMetrics" where
  "UpdatePod pod pm = pm\<lparr>pm_pod := toInternalPod pod\<rparr>"

definition StopRefreshLoop :: "podMetrics \<Rightarrow> podMetrics" where
  "StopRefreshLoop pm = pm\<lparr>pm_done := True\<rparr>"

definition AllPodsPredicate :: "podMetrics \<Rightarrow> bool" where "AllPodsPredicate pm = True"

definition PodsWithFreshMetrics :: "time \<Rightarrow> duration \<Rightarrow> podMetrics option \<Rightarrow> bool" where
  "PodsWithFreshMetrics now threshold pm =
     (case pm of None \<Rightarrow> False | Some p \<Rightarrow> time_Sub now (UpdateTime (pm_metrics p)) \<le> threshold)"

section \<open>The store\<close>

record InferencePool =
  pool_Name :: string
  pool_Namespace :: string
  pool_Selector :: "(string \<rightharpoonup> string) option" \<comment> \<open>\<open>None\<close> is the nil map\<close>
  TargetPortNumber :: int

record InferenceObjective =
  obj_Name :: string
  obj_Criticality :: "int option"
  obj_PoolName :: string
  obj_PoolGroup :: string
  obj_Deleting :: bool

text \<open>Pods that have left the store are kept in \<open>ds_removed\<close>, to follow their refresh loops.\<close>

record datastore =
  ds_pool :: "InferencePool option"
  ds_objectives :: "string \<rightharpoonup> InferenceObjective"
  ds_pods :: "NamespacedName \<rightharpoonup> podMetrics"
  ds_removed :: "podMetrics list"

definition NewDatastore :: datastore where
  "NewDatastore = \<lparr>ds_pool = None, ds_objectives = Map.empty, ds_pods = Map.empty, ds_removed = []\<rparr>"

text \<open>\<open>ord\<close> is the order in which \<open>Range\<close> meets the keys.\<close>

definition ds_Clear :: "NamespacedName list \<Rightarrow> datastore \<Rightarrow> datastore" where
  "ds_Clear ord ds = ds\<lparr>ds_pool := None, ds_objectives := Map.empty, ds_pods := Map.empty,
     ds_removed := ds_removed ds @ map StopRefreshLoop (List.map_filter (ds_pods ds) ord)\<rparr>"

definition PodUpdateOrAddIfNotExist :: "corePod \<Rightarrow> datastore \<Rightarrow> bool \<times> datastore" where
  "PodUpdateOrAddIfNotExist pod ds =
     (let namespacedName = \<lparr>nn_Namespace = kp_Namespace pod, nn_Name = kp_Name pod\<rparr> in
      case ds_pods ds namespacedName of
        None \<Rightarrow> (False, ds\<lparr>ds_pods := (ds_pods ds)(namespacedName \<mapsto> UpdatePod pod (NewPodMetrics pod))\<rparr>)
      | Some pm \<Rightarrow> (True, ds\<lparr>ds_pods := (ds_pods ds)(namespacedName \<mapsto> UpdatePod pod pm)\<rparr>))"

definition PodDelete :: "NamespacedName \<Rightarrow> datastore \<Rightarrow> datastore" where
  "PodDelete namespacedName ds =
     (case ds_pods ds namespacedName of
        None \<Rightarrow> ds
      | Some pmr \<Rightarrow> ds\<lparr>ds_pods := (ds_pods ds)(namespacedName := None), ds_removed := ds_removed ds @ [StopRefreshLoop pmr]\<rparr>)"

definition PodList :: "NamespacedName list \<Rightarrow> (podMetrics \<Rightarrow> bool) \<Rightarrow> datastore \<Rightarrow> podMetrics list" where
  "PodList ord predicate ds = filter predicate (List.map_filter (ds_pods ds) ord)"

definition stripLabelKeyAliasFromLabelMap :: "(string \<rightharpoonup> string) option \<Rightarrow> (string \<rightharpoonup> string)" where
  "stripLabelKeyAliasFromLabelMap m = (case m of None \<Rightarrow> Map.empty | Some l \<Rightarrow> l)"

text \<open>
  A selector is the set of labels it was made from; \<open>matches\<close> is its method \<open>Matches\<close>, and \<open>list\<close>
  the call of the client that lists the pods of a namespace that match a selector.
\<close>

type_synonym lister = "(string \<rightharpoonup> string) \<Rightarrow> string \<Rightarrow> goError + corePod list"

definition selectorFromInferencePoolSelector :: "(string \<rightharpoonup> string) option \<Rightarrow> (string \<rightharpoonup> string)" where
  "selectorFromInferencePoolSelector selector = stripLabelKeyAliasFromLabelMap selector"

text \<open>The first loop of \<open>podResyncAll\<close>: the names that are active, and the store.\<close>

fun resync_add :: "corePod list \<Rightarrow> string set \<Rightarrow> datastore \<Rightarrow> string set \<times> datastore" where
  "resync_add [] activePods ds = (activePods, ds)"
| "resync_add (pod # pods) activePods ds =
     (if \<not> IsPodReady pod then resync_add pods activePods ds
      else resync_add pods (insert (kp_Name pod) activePods) (snd (PodUpdateOrAddIfNotExist pod ds)))"

text \<open>The second loop, over the pods in the store.\<close>

fun resync_remove :: "NamespacedName list \<Rightarrow> string set \<Rightarrow> datastore \<Rightarrow> datastore" where
  "resync_remove [] activePods ds = ds"
| "resync_remove (k # ks) activePods ds =
     (case ds_pods ds k of
        None \<Rightarrow> resync_remove ks activePods ds
      | Some pm \<Rightarrow>
          if nn_Name (bp_NamespacedName (pm_pod pm)) \<notin> activePods
          then resync_remove ks activePods (PodDelete (bp_NamespacedName (pm_pod pm)) ds)
          else resync_remove ks activePods ds)"

definition podResyncAll ::
  "(datastore \<Rightarrow> NamespacedName list) \<Rightarrow> lister \<Rightarrow> InferencePool \<Rightarrow> datastore \<Rightarrow> goError option \<times> datastore" where
  "podResyncAll ord lst pool ds =
     (case lst (selectorFromInferencePoolSelector (pool_Selector pool)) (pool_Namespace pool) of
        Inl err \<Rightarrow> (Some (Errorf ''failed to list pods'' [err]), ds)
      | Inr items \<Rightarrow>
          (case resync_add items {} ds of
             (activePods, ds1) \<Rightarrow> (None, resync_remove (ord ds1) activePods ds1)))"

definition PoolSet ::
  "(datastore \<Rightarrow> NamespacedName list) \<Rightarrow> lister \<Rightarrow> InferencePool option \<Rightarrow> datastore \<Rightarrow> goError option \<times> datastore" where
  "PoolSet ord lst pool ds =
     (case pool of
        None \<Rightarrow> (None, ds_Clear (ord ds) ds)
      | Some p \<Rightarrow>
          (let oldPool = ds_pool ds;
               ds1 = ds\<lparr>ds_pool := Some p\<rparr>
           in if (case oldPool of None \<Rightarrow> True | Some q \<Rightarrow> pool_Selector p \<noteq> pool_Selector q) then
                (case podResyncAll ord lst p ds1 of
                   (Some err, ds2) \<Rightarrow> (Some (Errorf ''failed to update pods according to the pool selector'' [err]), ds2)
                 | (None, ds2) \<Rightarrow> (None, ds2))
              else (None, ds1)))"

definition errPoolNotSynced :: goError where "errPoolNotSynced = Errorf ''InferencePool is not initialized in data store'' []"

definition PoolHasSynced :: "datastore \<Rightarrow> bool" where "PoolHasSynced ds = (ds_pool ds \<noteq> None)"

definition PoolGet :: "datastore \<Rightarrow> goError + InferencePool" where
  "PoolGet ds = (if \<not> PoolHasSynced ds then Inl errPoolNotSynced else Inr (the (ds_pool ds)))"

definition PoolLabelsMatch :: "((string \<rightharpoonup> string) \<Rightarrow> (string \<rightharpoonup> string) \<Rightarrow> bool) \<Rightarrow> (string \<rightharpoonup> string) \<Rightarrow> datastore \<Rightarrow> bool" where
  "PoolLabelsMatch matches podLabels ds =
     (case ds_pool ds of
        None \<Rightarrow> False
      | Some pool \<Rightarrow> matches (selectorFromInferencePoolSelector (pool_Selector pool)) podLabels)"

definition ObjectiveSet :: "InferenceObjective \<Rightarrow> datastore \<Rightarrow> datastore" where
  "ObjectiveSet ob ds = ds\<lparr>ds_objectives := (ds_objectives ds)(obj_Name ob \<mapsto> ob)\<rparr>"

definition ObjectiveGet :: "string \<Rightarrow> datastore \<Rightarrow> InferenceObjective option" where
  "ObjectiveGet name ds = ds_objectives ds name"

definition ObjectiveDelete :: "NamespacedName \<Rightarrow> datastore \<Rightarrow> datastore" where
  "ObjectiveDelete n ds = ds\<lparr>ds_objectives := (ds_objectives ds)(nn_Name n := None)\<rparr>"

definition ObjectiveGetAll :: "string list \<Rightarrow> datastore \<Rightarrow> InferenceObjective list" where
  "ObjectiveGetAll ord ds = List.map_filter (ds_objectives ds) ord"

section \<open>Refreshing metrics\<close>

text \<open>
  \<open>fetch\<close> is the call of the metrics client: the updated metrics, if there are any, and an error.
\<close>

definition refreshMetrics ::
  "(backendPod \<Rightarrow> MetricsState \<Rightarrow> int \<Rightarrow> MetricsState option \<times> goError list) \<Rightarrow> time \<Rightarrow> datastore \<Rightarrow> podMetrics \<Rightarrow> goError option \<times> podMetrics" where
  "refreshMetrics fetch now ds pm =
     (case PoolGet ds of
        Inl err \<Rightarrow> (Some err, pm)
      | Inr pool \<Rightarrow>
          (case fst (fetch (pm_pod pm) (pm_metrics pm) (TargetPortNumber pool)) of
             None \<Rightarrow> (None, pm)
           | Some updated \<Rightarrow> (None, pm\<lparr>pm_metrics := updated\<lparr>UpdateTime := now\<rparr>\<rparr>)))"

section \<open>The reconcilers\<close>

text \<open>What the client returns for an object: it is not there, another error, or the object.\<close>

datatype 'o getResult = NotFound | GetError goError | Found 'o

definition updateDatastore ::
  "((string \<rightharpoonup> string) \<Rightarrow> (string \<rightharpoonup> string) \<Rightarrow> bool) \<Rightarrow> corePod \<Rightarrow> datastore \<Rightarrow> datastore" where
  "updateDatastore matches pod ds =
     (let namespacedName = \<lparr>nn_Namespace = kp_Namespace pod, nn_Name = kp_Name pod\<rparr> in
      if \<not> IsPodReady pod \<or> \<not> PoolLabelsMatch matches (kp_Labels pod) ds then PodDelete namespacedName ds
      else snd (PodUpdateOrAddIfNotExist pod ds))"

definition pod_Reconcile ::
  "((string \<rightharpoonup> string) \<Rightarrow> (string \<rightharpoonup> string) \<Rightarrow> bool) \<Rightarrow> NamespacedName \<Rightarrow> corePod getResult \<Rightarrow> datastore \<Rightarrow> goError option \<times> datastore" where
  "pod_Reconcile matches name got ds =
     (if \<not> PoolHasSynced ds then (None, ds)
      else case got of
        NotFound \<Rightarrow> (None, PodDelete name ds)
      | GetError err \<Rightarrow> (Some err, ds)
      | Found pod \<Rightarrow> (None, updateDatastore matches pod ds))"

definition objective_Reconcile ::
  "string \<Rightarrow> string \<Rightarrow> NamespacedName \<Rightarrow> InferenceObjective getResult \<Rightarrow> datastore \<Rightarrow> goError option \<times> datastore" where
  "objective_Reconcile poolName poolGroup name got ds =
     (case got of
        GetError err \<Rightarrow> (Some err, ds)
      | NotFound \<Rightarrow> (None, ObjectiveDelete name ds)
      | Found ob \<Rightarrow>
          if obj_Deleting ob \<or> obj_PoolName ob \<noteq> poolName \<or> obj_PoolGroup ob \<noteq> poolGroup
          then (None, ObjectiveDelete name ds)
          else (None, ObjectiveSet ob ds))"

definition eventPredicate :: "string \<Rightarrow> string \<Rightarrow> InferenceObjective \<Rightarrow> bool" where
  "eventPredicate poolName poolGroup ob = (obj_PoolName ob = poolName \<and> obj_PoolGroup ob = poolGroup)"

text \<open>A pool object of a supported group, whether it is being deleted, and its conversion to v1.\<close>

definition pool_Reconcile ::
  "(datastore \<Rightarrow> NamespacedName list) \<Rightarrow> lister \<Rightarrow> bool \<Rightarrow> (bool \<times> (goError + InferencePool)) getResult \<Rightarrow> datastore \<Rightarrow> goError option \<times> datastore" where
  "pool_Reconcile ord lst supportedGroup got ds =
     (if \<not> supportedGroup then (Some (Errorf ''unsupported API group'' []), ds)
      else case got of
        NotFound \<Rightarrow> (None, ds_Clear (ord ds) ds)
      | GetError err \<Rightarrow> (Some err, ds)
      | Found (deleting, converted) \<Rightarrow>
          if deleting then (None, ds_Clear (ord ds) ds)
          else (case converted of
                  Inl err \<Rightarrow> (Some err, ds)
                | Inr pool \<Rightarrow> PoolSet ord lst (Some pool) ds))"

section \<open>The store tracks the cluster\<close>

text \<open>Every pod in the store is filed under its name and refreshed; every pod that has left is not.\<close>

definition ds_ok :: "datastore \<Rightarrow> bool" where
  "ds_ok ds \<longleftrightarrow> (\<forall>k pm. ds_pods ds k = Some pm \<longrightarrow> bp_NamespacedName (pm_pod pm) = k \<and> \<not> pm_done pm) \<and>
     (\<forall>pm\<in>set (ds_removed ds). pm_done pm)"

lemma ds_okD:
  assumes "ds_ok ds" "ds_pods ds k = Some pm"
  shows "bp_NamespacedName (pm_pod pm) = k" "\<not> pm_done pm"
  using assms by (auto simp: ds_ok_def)

lemma PodUpdate_eq:
  "snd (PodUpdateOrAddIfNotExist pod ds) = ds\<lparr>ds_pods := (ds_pods ds)(pod_key pod \<mapsto>
     UpdatePod pod (case ds_pods ds (pod_key pod) of None \<Rightarrow> NewPodMetrics pod | Some pm \<Rightarrow> pm))\<rparr>"
  by (simp add: PodUpdateOrAddIfNotExist_def pod_key_def Let_def split: option.split)

lemma PodUpdate_ok: "ds_ok ds \<Longrightarrow> ds_ok (snd (PodUpdateOrAddIfNotExist pod ds))"
  unfolding PodUpdate_eq
  by (auto simp: ds_ok_def UpdatePod_def NewPodMetrics_def toInternalPod_def pod_key_def split: option.split)

lemma PodDelete_ok: "ds_ok ds \<Longrightarrow> ds_ok (PodDelete k ds)"
  by (auto simp: ds_ok_def PodDelete_def StopRefreshLoop_def split: option.split)

lemma PodDelete_simps [simp]:
  "ds_pods (PodDelete k ds) = (ds_pods ds)(k := None)" "ds_pool (PodDelete k ds) = ds_pool ds"
  by (auto simp: PodDelete_def split: option.split)

lemma PodUpdate_simps [simp]: "ds_pool (snd (PodUpdateOrAddIfNotExist pod ds)) = ds_pool ds"
  by (simp add: PodUpdate_eq)

lemma resync_add_ok:
  assumes "resync_add pods active ds = (active', ds')" "ds_ok ds"
  shows "ds_ok ds' \<and> ds_pool ds' = ds_pool ds \<and> active' = active \<union> kp_Name ` {pod \<in> set pods. IsPodReady pod} \<and>
    dom (ds_pods ds') = dom (ds_pods ds) \<union> pod_key ` {pod \<in> set pods. IsPodReady pod}"
  using assms
proof (induction pods active ds rule: resync_add.induct)
  case (2 pod pods active ds)
  show ?case
  proof (cases "IsPodReady pod")
    case True
    have "dom (ds_pods (snd (PodUpdateOrAddIfNotExist pod ds))) = insert (pod_key pod) (dom (ds_pods ds))"
      by (simp add: PodUpdate_eq)
    then show ?thesis using "2.IH"(2) [OF _ _ PodUpdate_ok [OF "2.prems"(2)]] True "2.prems"(1) by auto
  next
    case False
    then show ?thesis using "2.IH"(1) "2.prems" by auto
  qed
qed auto

lemma resync_add_pods:
  assumes "resync_add pods active ds = (active', ds')" "distinct (map pod_key pods)" "ds_pods ds' k = Some pm"
  shows "pm_pod pm = (case find (\<lambda>pod. IsPodReady pod \<and> pod_key pod = k) pods of
     Some pod \<Rightarrow> toInternalPod pod | None \<Rightarrow> pm_pod (the (ds_pods ds k)))"
  using assms
proof (induction pods active ds rule: resync_add.induct)
  case (2 pod pods active ds)
  show ?case
  proof (cases "IsPodReady pod")
    case True
    let ?ds = "snd (PodUpdateOrAddIfNotExist pod ds)"
    have IH: "pm_pod pm = (case find (\<lambda>pod. IsPodReady pod \<and> pod_key pod = k) pods of
       Some pod \<Rightarrow> toInternalPod pod | None \<Rightarrow> pm_pod (the (ds_pods ?ds k)))"
      using "2.IH"(2) True "2.prems" by auto
    show ?thesis
    proof (cases "pod_key pod = k")
      case k: True
      then have "find (\<lambda>pod. IsPodReady pod \<and> pod_key pod = k) pods = None"
        using "2.prems"(2) by (auto simp: find_None_iff intro: rev_image_eqI)
      then show ?thesis using IH True k by (simp add: PodUpdate_eq UpdatePod_def)
    next
      case False
      then show ?thesis using IH by (simp add: PodUpdate_eq split: option.split)
    qed
  next
    case False
    then show ?thesis using "2.IH"(1) "2.prems" by auto
  qed
qed simp

lemma resync_remove_ok:
  assumes "ds_ok ds"
  shows "ds_ok (resync_remove ks active ds) \<and> ds_pool (resync_remove ks active ds) = ds_pool ds \<and>
    ds_pods (resync_remove ks active ds) k = (if k \<in> set ks \<and> nn_Name k \<notin> active then None else ds_pods ds k)"
  using assms
proof (induction ks active ds rule: resync_remove.induct)
  case (2 x ks active ds)
  show ?case
  proof (cases "ds_pods ds x")
    case None
    then show ?thesis using 2 by auto
  next
    case (Some pm)
    have n: "bp_NamespacedName (pm_pod pm) = x" using ds_okD(1) [OF "2.prems" Some] .
    show ?thesis
    proof (cases "nn_Name x \<in> active")
      case True
      then show ?thesis using 2 Some n by auto
    next
      case False
      then show ?thesis using "2.IH"(2) [OF Some] n PodDelete_ok [OF "2.prems"] Some by auto
    qed
  qed
qed simp

text \<open>
  The cluster: the pods by name, all in the namespace of the pool. The store tracks it when it
  has exactly the pods that are ready and match the selector of the pool, as they are now.
\<close>

definition cluster_ok :: "string \<Rightarrow> (NamespacedName \<rightharpoonup> corePod) \<Rightarrow> bool" where
  "cluster_ok ns C \<longleftrightarrow> (\<forall>k pod. C k = Some pod \<longrightarrow> pod_key pod = k \<and> kp_Namespace pod = ns)"

definition tracks :: "((string \<rightharpoonup> string) \<Rightarrow> (string \<rightharpoonup> string) \<Rightarrow> bool) \<Rightarrow> (NamespacedName \<rightharpoonup> corePod) \<Rightarrow> datastore \<Rightarrow> bool" where
  "tracks matches C ds \<longleftrightarrow> (\<forall>k. map_option pm_pod (ds_pods ds k) =
     (case C k of
        Some pod \<Rightarrow> if IsPodReady pod \<and> PoolLabelsMatch matches (kp_Labels pod) ds then Some (toInternalPod pod) else None
      | None \<Rightarrow> None))"

text \<open>What the client promises of a list: the pods that match, each once.\<close>

definition listed :: "((string \<rightharpoonup> string) \<Rightarrow> (string \<rightharpoonup> string) \<Rightarrow> bool) \<Rightarrow> (NamespacedName \<rightharpoonup> corePod) \<Rightarrow> (string \<rightharpoonup> string) \<Rightarrow> corePod list \<Rightarrow> bool" where
  "listed matches C sel items \<longleftrightarrow> distinct (map pod_key items) \<and> set items = {pod. C (pod_key pod) = Some pod \<and> matches sel (kp_Labels pod)}"

lemma PoolLabelsMatch_simps [simp]:
  "PoolLabelsMatch matches l (snd (PodUpdateOrAddIfNotExist pod ds)) = PoolLabelsMatch matches l ds"
  "PoolLabelsMatch matches l (PodDelete k ds) = PoolLabelsMatch matches l ds"
  by (simp_all add: PoolLabelsMatch_def)

lemma pod_Reconcile_tracks:
  assumes "tracks matches C ds" "PoolHasSynced ds" "\<forall>pod. x = Some pod \<longrightarrow> pod_key pod = k"
  shows "fst (pod_Reconcile matches k (case x of None \<Rightarrow> NotFound | Some pod \<Rightarrow> Found pod) ds) = None \<and>
    tracks matches (C(k := x)) (snd (pod_Reconcile matches k (case x of None \<Rightarrow> NotFound | Some pod \<Rightarrow> Found pod) ds))"
proof (cases x)
  case None
  then show ?thesis using assms(1,2) by (auto simp: tracks_def pod_Reconcile_def cong: option.case_cong)
next
  case (Some pod)
  have k: "pod_key pod = k" using assms(3) Some by blast
  have e: "snd (pod_Reconcile matches k (Found pod) ds) =
      (if IsPodReady pod \<and> PoolLabelsMatch matches (kp_Labels pod) ds then snd (PodUpdateOrAddIfNotExist pod ds) else PodDelete k ds)"
    using assms(2) k by (simp add: pod_Reconcile_def updateDatastore_def Let_def pod_key_def)
  have "tracks matches (C(k \<mapsto> pod)) (snd (pod_Reconcile matches k (Found pod) ds))"
  proof (cases "IsPodReady pod \<and> PoolLabelsMatch matches (kp_Labels pod) ds")
    case True
    have "ds_pods (snd (PodUpdateOrAddIfNotExist pod ds)) q = (if q = k then Some (UpdatePod pod
        (case ds_pods ds k of None \<Rightarrow> NewPodMetrics pod | Some pm \<Rightarrow> pm)) else ds_pods ds q)" for q by (simp add: PodUpdate_eq k)
    then show ?thesis using assms(1) True unfolding e by (auto simp: tracks_def UpdatePod_def cong: option.case_cong)
  next
    case False
    then show ?thesis using assms(1) unfolding e by (auto simp: tracks_def cong: option.case_cong)
  qed
  then show ?thesis using Some assms(2) by (simp add: pod_Reconcile_def)
qed

lemma PoolSet_tracks:
  assumes "ds_ok ds" "cluster_ok (pool_Namespace p) C" "\<forall>ds1. dom (ds_pods ds1) \<subseteq> dom (ds_pods ds) \<union> dom C \<longrightarrow> set (ord ds1) = dom (ds_pods ds1)"
    "\<forall>k\<in>dom (ds_pods ds). nn_Namespace k = pool_Namespace p"
    "\<forall>q. ds_pool ds = Some q \<longrightarrow> pool_Selector p \<noteq> pool_Selector q"
    "lst (selectorFromInferencePoolSelector (pool_Selector p)) (pool_Namespace p) = Inr items"
    "listed matches C (selectorFromInferencePoolSelector (pool_Selector p)) items"
  shows "fst (PoolSet ord lst (Some p) ds) = None \<and> ds_ok (snd (PoolSet ord lst (Some p) ds)) \<and> tracks matches C (snd (PoolSet ord lst (Some p) ds)) \<and>
    PoolHasSynced (snd (PoolSet ord lst (Some p) ds))"
proof -
  let ?sel = "selectorFromInferencePoolSelector (pool_Selector p)"
  let ?ds = "ds\<lparr>ds_pool := Some p\<rparr>"
  obtain active ds1 where a: "resync_add items {} ?ds = (active, ds1)" by force
  have ok: "ds_ok ?ds" using assms(1) by (simp add: ds_ok_def)
  note A = resync_add_ok [OF a ok]
  let ?ds' = "resync_remove (ord ds1) active ds1"
  note R = resync_remove_ok [of ds1 "ord ds1" active]
  have res: "PoolSet ord lst (Some p) ds = (None, ?ds')"
    using assms(5,6) a by (auto simp: PoolSet_def podResyncAll_def Let_def split: option.splits)
  have m: "PoolLabelsMatch matches l ?ds' = matches ?sel l" for l using A R by (simp add: PoolLabelsMatch_def)
  have items: "pod \<in> set items \<longleftrightarrow> C (pod_key pod) = Some pod \<and> matches ?sel (kp_Labels pod)" for pod
    using assms(7) by (simp add: listed_def)
  have d: "distinct (map pod_key items)" using assms(7) by (simp add: listed_def)
  have ns: "kp_Namespace pod = pool_Namespace p" if "pod \<in> set items" for pod
    using that items assms(2) by (auto simp: cluster_ok_def)
  have "dom (ds_pods ds1) \<subseteq> dom (ds_pods ds) \<union> dom C" using A items by auto
  then have cover: "set (ord ds1) = dom (ds_pods ds1)" using assms(3) by blast
  have key: "nn_Name k \<in> active \<longleftrightarrow> (\<exists>pod\<in>set items. IsPodReady pod \<and> pod_key pod = k)" if "nn_Namespace k = pool_Namespace p" for k
  proof -
    have "nn_Name k = kp_Name pod \<longleftrightarrow> pod_key pod = k" if "pod \<in> set items" for pod
      using ns [OF that] \<open>nn_Namespace k = _\<close> by (auto simp: pod_key_def)
    then show ?thesis using A by auto
  qed
  have "map_option pm_pod (ds_pods ?ds' k) = (case C k of
      Some pod \<Rightarrow> if IsPodReady pod \<and> matches ?sel (kp_Labels pod) then Some (toInternalPod pod) else None | None \<Rightarrow> None)" for k
  proof (cases "\<exists>pod\<in>set items. IsPodReady pod \<and> pod_key pod = k")
    case True
    then obtain pod where p: "pod \<in> set items" "IsPodReady pod" "pod_key pod = k" by blast
    have C: "C k = Some pod" "matches ?sel (kp_Labels pod)" using items p by auto
    have "nn_Namespace k = pool_Namespace p" using ns [OF p(1)] p(3) by (auto simp: pod_key_def)
    then have "ds_pods ?ds' k = ds_pods ds1 k" using A R key True by simp
    moreover obtain pm where pm: "ds_pods ds1 k = Some pm" using A p by blast
    moreover have "find (\<lambda>pod. IsPodReady pod \<and> pod_key pod = k) items = Some pod"
    proof (cases "find (\<lambda>pod. IsPodReady pod \<and> pod_key pod = k) items")
      case None
      then show ?thesis using p by (auto simp: find_None_iff)
    next
      case (Some q)
      then have "q \<in> set items" "pod_key q = k" by (auto simp: find_Some_iff)
      then have "C k = Some q" using items by auto
      then show ?thesis using Some C by simp
    qed
    ultimately show ?thesis using resync_add_pods [OF a d pm] C p(2) by simp
  next
    case False
    have "ds_pods ?ds' k = None"
    proof (cases "k \<in> dom (ds_pods ds1)")
      case True
      then have "k \<in> dom (ds_pods ds)" using A False by auto
      then have "nn_Name k \<notin> active" using assms(4) key False by blast
      then show ?thesis using R A True cover by simp
    next
      case no: False
      then show ?thesis using R A by (auto simp: domIff)
    qed
    moreover have "\<not> (IsPodReady pod \<and> matches ?sel (kp_Labels pod))" if "C k = Some pod" for pod
    proof -
      have "pod_key pod = k" using that assms(2) by (auto simp: cluster_ok_def)
      then show ?thesis using that False items by auto
    qed
    ultimately show ?thesis by (auto split: option.split)
  qed
  then have "tracks matches C ?ds'" unfolding tracks_def m .. 
  then show ?thesis using res A R by (simp add: PoolHasSynced_def)
qed

text \<open>Changes of pods in the cluster, each followed by the reconciliation of the pod.\<close>

fun pod_events :: "((string \<rightharpoonup> string) \<Rightarrow> (string \<rightharpoonup> string) \<Rightarrow> bool) \<Rightarrow> (NamespacedName \<times> corePod option) list \<Rightarrow> datastore \<Rightarrow> datastore" where
  "pod_events matches [] ds = ds"
| "pod_events matches ((k, x) # es) ds =
     pod_events matches es (snd (pod_Reconcile matches k (case x of None \<Rightarrow> NotFound | Some pod \<Rightarrow> Found pod) ds))"

fun cluster_after :: "(NamespacedName \<times> corePod option) list \<Rightarrow> (NamespacedName \<rightharpoonup> corePod) \<Rightarrow> (NamespacedName \<rightharpoonup> corePod)" where
  "cluster_after [] C = C"
| "cluster_after ((k, x) # es) C = cluster_after es (C(k := x))"

lemma pod_Reconcile_synced: "PoolHasSynced (snd (pod_Reconcile matches k g ds)) = PoolHasSynced ds"
  by (simp add: PoolHasSynced_def pod_Reconcile_def updateDatastore_def Let_def split: getResult.split)

lemma pod_events_track:
  "\<lbrakk>tracks matches C ds; PoolHasSynced ds; \<forall>(k, x)\<in>set es. \<forall>pod. x = Some pod \<longrightarrow> pod_key pod = k\<rbrakk> \<Longrightarrow>
   tracks matches (cluster_after es C) (pod_events matches es ds)"
proof (induction matches es ds arbitrary: C rule: pod_events.induct)
  case (2 matches k x es ds)
  have "\<forall>pod. x = Some pod \<longrightarrow> pod_key pod = k" using "2.prems"(3) by auto
  note R = pod_Reconcile_tracks [OF "2.prems"(1,2) this]
  show ?case unfolding pod_events.simps cluster_after.simps
    by (rule "2.IH" [OF R [THEN conjunct2]]) (use "2.prems"(2,3) in \<open>auto simp: pod_Reconcile_synced\<close>)
qed simp

text \<open>
  C3. Once the pool has been set with a new selector and the pods could be listed, the store has
  exactly the pods of the cluster that are ready and match the selector, with their current
  addresses and labels, and it stays so through every sequence of pod changes that are reconciled.
  The refresh loops run exactly for the pods in the store.
\<close>

theorem store_tracks_cluster:
  assumes "ds_ok ds" "cluster_ok (pool_Namespace p) C" "\<forall>ds1. dom (ds_pods ds1) \<subseteq> dom (ds_pods ds) \<union> dom C \<longrightarrow> set (ord ds1) = dom (ds_pods ds1)"
    "\<forall>k\<in>dom (ds_pods ds). nn_Namespace k = pool_Namespace p"
    "\<forall>q. ds_pool ds = Some q \<longrightarrow> pool_Selector p \<noteq> pool_Selector q"
    "lst (selectorFromInferencePoolSelector (pool_Selector p)) (pool_Namespace p) = Inr items"
    "listed matches C (selectorFromInferencePoolSelector (pool_Selector p)) items"
    "\<forall>(k, x)\<in>set es. \<forall>pod. x = Some pod \<longrightarrow> pod_key pod = k"
  shows "\<exists>ds'. PoolSet ord lst (Some p) ds = (None, ds') \<and> ds_ok ds' \<and> tracks matches (cluster_after es C) (pod_events matches es ds')"
proof -
  obtain e ds' where r: "PoolSet ord lst (Some p) ds = (e, ds')" by force
  have "e = None" "ds_ok ds'" "tracks matches C ds'" "PoolHasSynced ds'"
    using PoolSet_tracks [where ord = ord and lst = lst, OF assms(1-7)] r by auto
  then show ?thesis using r pod_events_track assms(8) by blast
qed

text \<open>
  A resync that fails is not repeated: the pool is stored before the pods are listed, so when
  the list fails the error is returned and the pods stay as they were, and setting the same pool
  again succeeds without listing anything, whatever the client would return by then.
\<close>

lemma poolSet_failure_sticks:
  assumes "\<forall>q. ds_pool ds = Some q \<longrightarrow> pool_Selector p \<noteq> pool_Selector q"
    "lst (selectorFromInferencePoolSelector (pool_Selector p)) (pool_Namespace p) = Inl err"
  shows "\<exists>err' ds1. PoolSet ord lst (Some p) ds = (Some err', ds1) \<and> ds_pods ds1 = ds_pods ds \<and>
    (\<forall>ord' lst'. PoolSet ord' lst' (Some p) ds1 = (None, ds1))"
  using assms by (auto simp: PoolSet_def podResyncAll_def Let_def split: option.splits)

section \<open>Locking\<close>

text \<open>
  \<open>sync.RWMutex\<close>: a writer announces itself, waits for the active readers and then holds the lock;
  a reader waits while a writer is announced. A thread is the list of the calls it has to make.
\<close>

datatype lockOp = RLock | RUnlock | Announce | Acquire | Unlock

record rwmutex =
  activeReaders :: nat
  writerAnnounced :: bool

fun lock_step :: "lockOp \<Rightarrow> rwmutex \<Rightarrow> rwmutex option" where
  "lock_step RLock m = (if writerAnnounced m then None else Some (m\<lparr>activeReaders := activeReaders m + 1\<rparr>))"
| "lock_step RUnlock m = Some (m\<lparr>activeReaders := activeReaders m - 1\<rparr>)"
| "lock_step Announce m = (if writerAnnounced m then None else Some (m\<lparr>writerAnnounced := True\<rparr>))"
| "lock_step Acquire m = (if activeReaders m = 0 then Some m else None)"
| "lock_step Unlock m = Some (m\<lparr>writerAnnounced := False\<rparr>)"

inductive threads_step :: "rwmutex \<times> lockOp list list \<Rightarrow> rwmutex \<times> lockOp list list \<Rightarrow> bool" where
  "i < length ts \<Longrightarrow> ts ! i = c # cs \<Longrightarrow> lock_step c m = Some m' \<Longrightarrow> threads_step (m, ts) (m', ts[i := cs])"

text \<open>\<open>PoolGet\<close> calls \<open>PoolHasSynced\<close> with the read lock held; \<open>PoolSet\<close> takes the lock for writing.\<close>

definition PoolHasSynced_locks :: "lockOp list" where "PoolHasSynced_locks = [RLock, RUnlock]"
definition PoolGet_locks :: "lockOp list" where "PoolGet_locks = [RLock] @ PoolHasSynced_locks @ [RUnlock]"
definition PoolSet_locks :: "lockOp list" where "PoolSet_locks = [Announce, Acquire, Unlock]"

text \<open>
  C36. A call of \<open>PoolGet\<close> and one of \<open>PoolSet\<close> can block each other forever: when the writer announces
  itself between the two read locks of \<open>PoolGet\<close>, neither can go on.
\<close>

theorem poolGet_deadlock:
  "\<exists>s. threads_step\<^sup>*\<^sup>* (\<lparr>activeReaders = 0, writerAnnounced = False\<rparr>, [PoolGet_locks, PoolSet_locks]) s \<and>
     [] \<notin> set (snd s) \<and> (\<nexists>s'. threads_step s s')"
proof -
  let ?s1 = "(\<lparr>activeReaders = 1, writerAnnounced = False\<rparr>, [[RLock, RUnlock, RUnlock], [Announce, Acquire, Unlock]])"
  let ?s2 = "(\<lparr>activeReaders = 1, writerAnnounced = True\<rparr>, [[RLock, RUnlock, RUnlock], [Acquire, Unlock]])"
  have "threads_step (\<lparr>activeReaders = 0, writerAnnounced = False\<rparr>, [PoolGet_locks, PoolSet_locks]) ?s1"
    using threads_step.intros [of 0 "[PoolGet_locks, PoolSet_locks]" RLock "[RLock, RUnlock, RUnlock]" "\<lparr>activeReaders = 0, writerAnnounced = False\<rparr>"]
    by (simp add: PoolGet_locks_def PoolSet_locks_def PoolHasSynced_locks_def)
  moreover have "threads_step ?s1 ?s2"
    using threads_step.intros [of 1 "snd ?s1" Announce "[Acquire, Unlock]" "fst ?s1"] by simp
  moreover have "\<not> threads_step ?s2 s'" for s'
    by (auto elim!: threads_step.cases simp: less_Suc_eq numeral_2_eq_2)
  ultimately show ?thesis by (intro exI [of _ ?s2]) (auto intro: converse_rtranclp_into_rtranclp)
qed

section \<open>A concrete cluster\<close>

definition wCore :: "string \<Rightarrow> corePod" where
  "wCore name = \<lparr>kp_Name = name, kp_Namespace = ''ns'', kp_Labels = [''app'' \<mapsto> ''x''], kp_PodIP = ''10.0.0.1'', kp_Deleting = False,
     kp_Conditions = [\<lparr>cond_Type = ''Ready'', cond_Status = ''True''\<rparr>]\<rparr>"

definition wPool :: InferencePool where
  "wPool = \<lparr>pool_Name = ''pool'', pool_Namespace = ''ns'', pool_Selector = Some [''app'' \<mapsto> ''x''], TargetPortNumber = 8000\<rparr>"

definition wOrd :: "datastore \<Rightarrow> NamespacedName list" where
  "wOrd ds = filter (\<lambda>k. ds_pods ds k \<noteq> None) [pod_key (wCore ''a'')]"

definition wMatches :: "(string \<rightharpoonup> string) \<Rightarrow> (string \<rightharpoonup> string) \<Rightarrow> bool" where
  "wMatches sel l \<longleftrightarrow> l ''app'' = sel ''app''"

definition wLister :: lister where "wLister sel ns = Inr [wCore ''a'']"

lemma wCore_key: "pod_key (wCore s) = \<lparr>nn_Namespace = ''ns'', nn_Name = s\<rparr>" by (simp add: pod_key_def wCore_def)

theorem store_tracks_cluster_witness:
  "\<exists>ds'. PoolSet wOrd wLister (Some wPool) NewDatastore = (None, ds') \<and> ds_ok ds' \<and>
     tracks wMatches (cluster_after [(pod_key (wCore ''b''), Some (wCore ''b'')), (pod_key (wCore ''a''), None)] [pod_key (wCore ''a'') \<mapsto> wCore ''a''])
       (pod_events wMatches [(pod_key (wCore ''b''), Some (wCore ''b'')), (pod_key (wCore ''a''), None)] ds')"
proof (rule store_tracks_cluster)
  show "\<forall>ds1. dom (ds_pods ds1) \<subseteq> dom (ds_pods NewDatastore) \<union> dom [pod_key (wCore ''a'') \<mapsto> wCore ''a''] \<longrightarrow> set (wOrd ds1) = dom (ds_pods ds1)"
    by (auto simp: NewDatastore_def wOrd_def)
  show "listed wMatches [pod_key (wCore ''a'') \<mapsto> wCore ''a''] (selectorFromInferencePoolSelector (pool_Selector wPool)) [wCore ''a'']"
    by (auto simp: listed_def wMatches_def wPool_def selectorFromInferencePoolSelector_def stripLabelKeyAliasFromLabelMap_def
        wCore_def split: if_splits)
qed (auto simp: ds_ok_def NewDatastore_def cluster_ok_def wLister_def wPool_def wCore_key wCore_def [of "''a''"] split: if_splits)

lemma poolSet_failure_sticks_witness:
  "\<exists>err ds1. PoolSet (\<lambda>ds. []) (\<lambda>sel ns. Inl (Errorf ''timeout'' [])) (Some wPool) NewDatastore = (Some err, ds1) \<and> ds_pods ds1 = Map.empty \<and>
    (\<forall>ord' lst'. PoolSet ord' lst' (Some wPool) ds1 = (None, ds1))"
  using poolSet_failure_sticks [of NewDatastore wPool "\<lambda>sel ns. Inl (Errorf ''timeout'' [])" "Errorf ''timeout'' []" "\<lambda>ds. []"]
  by (simp add: NewDatastore_def)

section \<open>The store through every event\<close>

text \<open>
  What the three reconcilers are called with: a pool, a pod or an objective has changed and the
  client gives its current state. The order of the pods and the listing of pods may be different
  at every event.
\<close>

datatype storeEvent =
    PoolEvent "datastore \<Rightarrow> NamespacedName list" lister bool "(bool \<times> (goError + InferencePool)) getResult"
  | PodEvent NamespacedName "corePod getResult"
  | ObjectiveEvent NamespacedName "InferenceObjective getResult"

fun store_event ::
  "((string \<rightharpoonup> string) \<Rightarrow> (string \<rightharpoonup> string) \<Rightarrow> bool) \<Rightarrow> string \<Rightarrow> string \<Rightarrow> storeEvent \<Rightarrow> datastore \<Rightarrow> datastore" where
  "store_event matches poolName poolGroup (PoolEvent ord lst supported got) ds = snd (pool_Reconcile ord lst supported got ds)"
| "store_event matches poolName poolGroup (PodEvent name got) ds = snd (pod_Reconcile matches name got ds)"
| "store_event matches poolName poolGroup (ObjectiveEvent name got) ds = snd (objective_Reconcile poolName poolGroup name got ds)"

definition objective_ok :: "string \<Rightarrow> string \<Rightarrow> string \<Rightarrow> InferenceObjective \<Rightarrow> bool" where
  "objective_ok poolName poolGroup k ob \<longleftrightarrow>
     obj_Name ob = k \<and> obj_PoolName ob = poolName \<and> obj_PoolGroup ob = poolGroup \<and> \<not> obj_Deleting ob"

definition store_wf :: "string \<Rightarrow> string \<Rightarrow> datastore \<Rightarrow> bool" where
  "store_wf poolName poolGroup ds \<longleftrightarrow> ds_ok ds \<and> (ds_pool ds = None \<longrightarrow> ds_pods ds = Map.empty) \<and>
     (\<forall>k ob. ds_objectives ds k = Some ob \<longrightarrow> objective_ok poolName poolGroup k ob)"

lemma PodUpdate_objectives [simp]: "ds_objectives (snd (PodUpdateOrAddIfNotExist pod ds)) = ds_objectives ds"
  by (simp add: PodUpdate_eq)

lemma PodDelete_objectives [simp]: "ds_objectives (PodDelete k ds) = ds_objectives ds"
  by (simp add: PodDelete_def split: option.split)

lemma resync_add_objectives: "ds_objectives (snd (resync_add pods active ds)) = ds_objectives ds"
  by (induction pods active ds rule: resync_add.induct) simp_all

lemma resync_remove_objectives: "ds_objectives (resync_remove ks active ds) = ds_objectives ds"
  by (induction ks active ds rule: resync_remove.induct) (simp_all split: option.split)

lemma podResyncAll_wf:
  assumes "store_wf n g ds" "ds_pool ds \<noteq> None"
  shows "store_wf n g (snd (podResyncAll ord lst pool ds))"
proof (cases "lst (selectorFromInferencePoolSelector (pool_Selector pool)) (pool_Namespace pool)")
  case (Inr items)
  obtain active ds1 where a: "resync_add items {} ds = (active, ds1)" by force
  have ok: "ds_ok ds1" "ds_pool ds1 = ds_pool ds" using resync_add_ok [OF a] assms(1) by (auto simp: store_wf_def)
  have "ds_objectives ds1 = ds_objectives ds" using resync_add_objectives [of items "{}" ds] a by simp
  then show ?thesis using Inr a ok assms resync_remove_ok [OF ok(1)]
    by (auto simp: podResyncAll_def store_wf_def resync_remove_objectives)
qed (use assms in \<open>simp add: podResyncAll_def\<close>)

lemma ds_Clear_wf: "store_wf n g ds \<Longrightarrow> store_wf n g (ds_Clear ord ds)"
  by (auto simp: store_wf_def ds_Clear_def ds_ok_def StopRefreshLoop_def)

lemma PoolSet_wf: "store_wf n g ds \<Longrightarrow> store_wf n g (snd (PoolSet ord lst p ds))"
proof (cases p)
  case (Some q)
  assume wf: "store_wf n g ds"
  have 1: "store_wf n g (ds\<lparr>ds_pool := Some q\<rparr>)" using wf by (simp add: store_wf_def ds_ok_def)
  have 2: "store_wf n g (snd (podResyncAll ord lst q (ds\<lparr>ds_pool := Some q\<rparr>)))" by (rule podResyncAll_wf [OF 1]) simp
  then show ?thesis using 1 Some by (auto simp: PoolSet_def Let_def split: prod.split option.split)
qed (simp add: PoolSet_def ds_Clear_wf)

lemma pod_Reconcile_wf: "store_wf n g ds \<Longrightarrow> store_wf n g (snd (pod_Reconcile matches k got ds))"
  by (auto simp: pod_Reconcile_def updateDatastore_def Let_def store_wf_def PodDelete_ok PodUpdate_ok PoolHasSynced_def split: getResult.split)

lemma objective_Reconcile_wf: "store_wf n g ds \<Longrightarrow> store_wf n g (snd (objective_Reconcile n g k got ds))"
  by (auto simp: objective_Reconcile_def store_wf_def ds_ok_def objective_ok_def ObjectiveSet_def ObjectiveDelete_def split: getResult.split)

lemma store_event_wf: "store_wf n g ds \<Longrightarrow> store_wf n g (store_event matches n g e ds)"
  by (cases e) (auto simp: pool_Reconcile_def pod_Reconcile_wf objective_Reconcile_wf PoolSet_wf ds_Clear_wf split: getResult.split sum.split)

text \<open>
  C28. After any sequence of pool, pod and objective events the store is well formed: every pod is
  filed under its name and refreshed, every pod that left is not, there are no pods without a pool,
  and every objective is filed under its name, refers to the pool and is not being deleted.
\<close>

theorem store_wellformed: "store_wf poolName poolGroup (fold (store_event matches poolName poolGroup) es NewDatastore)"
proof -
  have "store_wf poolName poolGroup ds \<Longrightarrow> store_wf poolName poolGroup (fold (store_event matches poolName poolGroup) es ds)" for ds
    by (induction es arbitrary: ds) (simp_all add: store_event_wf)
  moreover have "store_wf poolName poolGroup NewDatastore" by (simp add: store_wf_def ds_ok_def NewDatastore_def)
  ultimately show ?thesis by blast
qed

end
