(* ===== verification/RequestTypes.thy ===== *)
theory RequestTypes
  imports Datastore
begin

text \<open>
  Decoded JSON, the reading of prompts, headers and metadata from a request (\<open>util/request\<close>), the
  messages of the external processing protocol and the context of a request
  (\<open>handlers/server.go\<close>, \<open>metadata/consts.go\<close>).
\<close>

section \<open>JSON\<close>

text \<open>Values of type \<open>any\<close> as \<open>encoding/json\<close> and \<open>structpb\<close> build them; an object has no key twice.\<close>

datatype json = JNull | JBool bool | JNum float64 | JStr string | JList "json list" | JObj "(string \<times> json) list"

type_synonym jmap = "string \<rightharpoonup> json"

section \<open>The prompt\<close>

definition constructChatMessage :: "string \<Rightarrow> string \<Rightarrow> string" where
  "constructChatMessage role content = ''<|im_start|>'' @ role @ ''\<newline>'' @ content @ ''<|im_end|>\<newline>''"

definition extractPromptField :: "jmap \<Rightarrow> eppError + string" where
  "extractPromptField body =
     (case body ''prompt'' of
        None \<Rightarrow> Inl (newError BadRequest ''prompt not found in request'')
      | Some (JStr promptStr) \<Rightarrow> Inr promptStr
      | Some _ \<Rightarrow> Inl (newError BadRequest ''prompt is not a string''))"

definition chat_message :: "json \<Rightarrow> string" where
  "chat_message msg =
     (case msg of
        JObj m \<Rightarrow>
          (case map_of m ''content'' of
             Some (JStr contentStr) \<Rightarrow>
               (case map_of m ''role'' of
                  Some (JStr roleStr) \<Rightarrow> constructChatMessage roleStr contentStr
                | _ \<Rightarrow> [])
           | _ \<Rightarrow> [])
      | _ \<Rightarrow> [])"

definition extractPromptFromMessagesField :: "jmap \<Rightarrow> eppError + string" where
  "extractPromptFromMessagesField body =
     (case body ''messages'' of
        None \<Rightarrow> Inl (newError BadRequest ''messages not found in request'')
      | Some (JList messageList) \<Rightarrow>
          if length messageList = 0 then Inl (newError BadRequest ''messages is empty'')
          else Inr (concat (map chat_message messageList))
      | Some _ \<Rightarrow> Inl (newError BadRequest ''messages is not a list''))"

definition ExtractPromptFromRequestBody :: "jmap \<Rightarrow> eppError + string" where
  "ExtractPromptFromRequestBody body =
     (if body ''messages'' \<noteq> None then extractPromptFromMessagesField body else extractPromptField body)"

section \<open>Headers and metadata\<close>

text \<open>A header has a key, a raw value (\<open>None\<close> is nil) and a value.\<close>

record HeaderValue =
  hv_Key :: string
  hv_RawValue :: "string option"
  hv_Value :: string

definition raw_string :: "HeaderValue \<Rightarrow> string" where
  "raw_string h = (case hv_RawValue h of None \<Rightarrow> [] | Some v \<Rightarrow> v)"

fun ExtractHeaderValue :: "HeaderValue list \<Rightarrow> string \<Rightarrow> string" where
  "ExtractHeaderValue [] headerKey = []"
| "ExtractHeaderValue (h # hs) headerKey =
     (if str_ToLower (hv_Key h) = str_ToLower headerKey then raw_string h else ExtractHeaderValue hs headerKey)"

definition RequestIdHeaderKey :: string where "RequestIdHeaderKey = ''x-request-id''"

text \<open>The filter metadata of a message, if it has any: a struct for each key.\<close>

definition ExtractMetadataValues :: "(string \<rightharpoonup> (string \<times> json) list) option \<Rightarrow> jmap" where
  "ExtractMetadataValues md = (case md of None \<Rightarrow> Map.empty | Some m \<Rightarrow> (\<lambda>key. map_option JObj (m key)))"

definition SubsetFilterNamespace :: string where "SubsetFilterNamespace = ''envoy.lb.subset_hint''"
definition SubsetFilterKey :: string where "SubsetFilterKey = ''x-gateway-destination-endpoint-subset''"
definition DestinationEndpointNamespace :: string where "DestinationEndpointNamespace = ''envoy.lb''"
definition DestinationEndpointKey :: string where "DestinationEndpointKey = ''x-gateway-destination-endpoint''"
definition FlowFairnessIDKey :: string where "FlowFairnessIDKey = ''x-gateway-inference-fairness-id''"
definition ObjectiveKeyHeader :: string where "ObjectiveKeyHeader = ''x-gateway-inference-objective''"
definition ModelNameRewriteKey :: string where "ModelNameRewriteKey = ''x-gateway-model-name-rewrite''"

section \<open>Messages to the proxy\<close>

type_synonym bytes = "8 word list"

definition bytes_of :: "string \<Rightarrow> bytes" where "bytes_of s = map of_char s"
definition string_of :: "bytes \<Rightarrow> string" where "string_of b = map (\<lambda>x. char_of (unat x)) b"

text \<open>A streamed chunk of a body, with the flag for the end of the stream.\<close>

record CommonResponse =
  cr_Body :: bytes
  cr_EndOfStream :: bool

datatype ProcessingResponse =
    RespRequestHeaders "(string \<times> string) list" "(string \<times> json) list" \<comment> \<open>headers to set and dynamic metadata\<close>
  | RespRequestBody CommonResponse
  | RespResponseHeaders "(string \<times> string) list"
  | RespResponseBody CommonResponse
  | ImmediateResponse int string

section \<open>The context of a request\<close>

datatype StreamRequestState =
    RequestReceived | HeaderRequestResponseComplete | BodyRequestResponsesComplete | TrailerRequestResponsesComplete
  | ResponseRecieved | HeaderResponseResponseComplete | BodyResponseResponsesComplete | TrailerResponseResponsesComplete

record Usage =
  PromptTokens :: int
  CompletionTokens :: int
  TotalTokens :: int

record Request =
  rq_Headers :: "string \<rightharpoonup> string"
  rq_Body :: jmap
  rq_Metadata :: jmap

record RequestContext =
  TargetPod :: "backendPod option"
  TargetEndpoint :: string
  IncomingModelName :: string
  TargetModelName :: string
  FairnessID :: string
  rc_ObjectiveKey :: string
  RequestReceivedTimestamp :: time
  ResponseCompleteTimestamp :: time
  RequestSize :: int
  rc_Usage :: Usage
  ResponseSize :: int
  ResponseComplete :: bool
  ResponseStatusCode :: string
  RequestRunning :: bool
  rc_Request :: Request
  SchedulingRequest :: "LLMRequest option"
  RequestState :: StreamRequestState
  modelServerStreaming :: bool
  rc_ResponseHeaders :: "string \<rightharpoonup> string"
  reqHeaderResp :: "ProcessingResponse option"
  reqBodyResp :: "ProcessingResponse list"
  reqTrailerResp :: "ProcessingResponse option"
  respHeaderResp :: "ProcessingResponse option"
  respBodyResp :: "ProcessingResponse list"
  respTrailerResp :: "ProcessingResponse option"

section \<open>Which requests have a prompt\<close>

text \<open>
  A prompt can be read exactly from a body with a non-empty list of messages, or without messages
  and with a string as the prompt.
\<close>

lemma prompt_iff:
  "(\<exists>p. ExtractPromptFromRequestBody body = Inr p) \<longleftrightarrow>
     (\<exists>m ms. body ''messages'' = Some (JList (m # ms))) \<or> (body ''messages'' = None \<and> (\<exists>s. body ''prompt'' = Some (JStr s)))"
  by (auto simp: ExtractPromptFromRequestBody_def extractPromptFromMessagesField_def extractPromptField_def
      neq_Nil_conv split: option.splits json.splits list.splits)

lemma prompt_error: "ExtractPromptFromRequestBody body = Inl e \<Longrightarrow> CanonicalCode e = BadRequest"
  by (auto simp: ExtractPromptFromRequestBody_def extractPromptFromMessagesField_def extractPromptField_def
      newError_def CanonicalCode_def split: option.splits json.splits list.splits if_splits)

end
