(* ===== verification/Saturation.thy ===== *)
theory Saturation
  imports Datastore
begin

text \<open>
  The saturation detector with its configuration from the environment (\<open>saturationdetector\<close>,
  \<open>util/env\<close>). The environment and the parsers of the package \<open>strconv\<close> and \<open>time\<close> for floating
  point numbers and durations are arguments.
\<close>

section \<open>Environment variables\<close>

type_synonym environment = "string \<rightharpoonup> string"

definition getEnvWithParser :: "environment \<Rightarrow> string \<Rightarrow> 'a \<Rightarrow> (string \<Rightarrow> 'a option) \<Rightarrow> 'a" where
  "getEnvWithParser env key defaultVal parser =
     (case env key of
        None \<Rightarrow> defaultVal
      | Some valueStr \<Rightarrow> (case parser valueStr of None \<Rightarrow> defaultVal | Some parsedValue \<Rightarrow> parsedValue))"

definition GetEnvFloat :: "(string \<Rightarrow> float64 option) \<Rightarrow> environment \<Rightarrow> string \<Rightarrow> float64 \<Rightarrow> float64" where
  "GetEnvFloat parseFloat env key defaultVal = getEnvWithParser env key defaultVal parseFloat"

definition GetEnvInt :: "environment \<Rightarrow> string \<Rightarrow> int \<Rightarrow> int" where
  "GetEnvInt env key defaultVal = getEnvWithParser env key defaultVal
     (\<lambda>s. case strconv_Atoi s of (n, ok) \<Rightarrow> if ok then Some n else None)"

definition GetEnvDuration :: "(string \<Rightarrow> duration option) \<Rightarrow> environment \<Rightarrow> string \<Rightarrow> duration \<Rightarrow> duration" where
  "GetEnvDuration parseDuration env key defaultVal = getEnvWithParser env key defaultVal parseDuration"

definition strconv_ParseBool :: "string \<Rightarrow> bool option" where
  "strconv_ParseBool s =
     (if s \<in> set [''1'', ''t'', ''T'', ''true'', ''TRUE'', ''True''] then Some True
      else if s \<in> set [''0'', ''f'', ''F'', ''false'', ''FALSE'', ''False''] then Some False
      else None)"

definition GetEnvBool :: "environment \<Rightarrow> string \<Rightarrow> bool \<Rightarrow> bool" where
  "GetEnvBool env key defaultVal = getEnvWithParser env key defaultVal strconv_ParseBool"

definition GetEnvString :: "environment \<Rightarrow> string \<Rightarrow> string \<Rightarrow> string" where
  "GetEnvString env key defaultVal = getEnvWithParser env key defaultVal Some"

section \<open>The detector\<close>

record SaturationConfig =
  QueueDepthThreshold :: int
  KVCacheUtilThreshold :: float64
  MetricsStalenessThreshold :: duration

definition DefaultQueueDepthThreshold :: int where "DefaultQueueDepthThreshold = 5"
definition DefaultKVCacheUtilThreshold :: float64 where "DefaultKVCacheUtilThreshold = 8 / 10"
definition DefaultMetricsStalenessThreshold :: duration where "DefaultMetricsStalenessThreshold = 200 * 1000000"

definition LoadConfigFromEnv ::
  "(string \<Rightarrow> float64 option) \<Rightarrow> (string \<Rightarrow> duration option) \<Rightarrow> environment \<Rightarrow> SaturationConfig" where
  "LoadConfigFromEnv parseFloat parseDuration env =
     (let q = GetEnvInt env ''SD_QUEUE_DEPTH_THRESHOLD'' DefaultQueueDepthThreshold;
          kv = GetEnvFloat parseFloat env ''SD_KV_CACHE_UTIL_THRESHOLD'' DefaultKVCacheUtilThreshold;
          st = GetEnvDuration parseDuration env ''SD_METRICS_STALENESS_THRESHOLD'' DefaultMetricsStalenessThreshold
      in \<lparr>QueueDepthThreshold = (if q \<le> 0 then DefaultQueueDepthThreshold else q),
          KVCacheUtilThreshold = (if kv \<le> 0 \<or> kv \<ge> 1 then DefaultKVCacheUtilThreshold else kv),
          MetricsStalenessThreshold = (if st \<le> 0 then DefaultMetricsStalenessThreshold else st)\<rparr>)"

text \<open>The loop over the pods; \<open>now\<close> is the clock, which the loop reads for each pod.\<close>

fun saturation_loop :: "SaturationConfig \<Rightarrow> time \<Rightarrow> podMetrics list \<Rightarrow> bool" where
  "saturation_loop config now [] = True"
| "saturation_loop config now (pm # pms) =
     (let metrics = pm_metrics pm in
      if time_Sub now (UpdateTime metrics) > MetricsStalenessThreshold config then saturation_loop config now pms
      else if WaitingQueueSize metrics > QueueDepthThreshold config then saturation_loop config now pms
      else if KVCacheUsagePercent metrics > KVCacheUtilThreshold config then saturation_loop config now pms
      else False)"

definition IsSaturated :: "SaturationConfig \<Rightarrow> time \<Rightarrow> NamespacedName list \<Rightarrow> datastore \<Rightarrow> bool" where
  "IsSaturated config now ord ds =
     (let allPodsMetrics = PodList ord AllPodsPredicate ds in
      if length allPodsMetrics = 0 then True else saturation_loop config now allPodsMetrics)"

definition good_capacity :: "SaturationConfig \<Rightarrow> time \<Rightarrow> podMetrics \<Rightarrow> bool" where
  "good_capacity config now pm \<longleftrightarrow> time_Sub now (UpdateTime (pm_metrics pm)) \<le> MetricsStalenessThreshold config \<and>
     WaitingQueueSize (pm_metrics pm) \<le> QueueDepthThreshold config \<and>
     KVCacheUsagePercent (pm_metrics pm) \<le> KVCacheUtilThreshold config"

lemma saturation_loop_iff: "saturation_loop config now pms \<longleftrightarrow> (\<forall>pm\<in>set pms. \<not> good_capacity config now pm)"
  by (induction config now pms rule: saturation_loop.induct) (auto simp: good_capacity_def Let_def)

lemma PodList_set: "set ord = dom (ds_pods ds) \<Longrightarrow> set (PodList ord P ds) = {pm \<in> ran (ds_pods ds). P pm}"
  by (force simp: PodList_def List.map_filter_def ran_def)



end
