(* ===== verification/SchedulerProfile.thy ===== *)
theory SchedulerProfile
  imports SchedTypes
begin

text \<open>
  Scheduler profiles and the scheduler (\<open>scheduling/framework/scheduler_profile.go\<close>,
  \<open>weighted_scorer.go\<close>, \<open>scheduling/scheduler.go\<close> and the single profile handler). Plugins are
  interface values: functions that may read and change the state \<open>'w\<close> they share (the cycle
  state, their own caches, random numbers). The order in which Go ranges over a map is an
  argument.
\<close>

section \<open>Plugins\<close>

type_synonym 'w FilterFn = "LLMRequest \<Rightarrow> Pod list \<Rightarrow> 'w \<Rightarrow> Pod list \<times> 'w"
type_synonym 'w ScoreFn = "LLMRequest \<Rightarrow> Pod list \<Rightarrow> 'w \<Rightarrow> (Pod \<times> float64) list \<times> 'w"
type_synonym 'w PickFn = "ScoredPod list \<Rightarrow> 'w \<Rightarrow> ProfileRunResult \<times> 'w"
type_synonym 'w PostCycleFn = "ProfileRunResult \<Rightarrow> 'w \<Rightarrow> 'w go"
type_synonym 'k mapOrder = "'k list \<Rightarrow> 'k list"

text \<open>A plugin object and the interfaces it implements.\<close>

record 'w pluginObj =
  po_TypedName :: TypedName
  po_Filter :: "'w FilterFn option"
  po_Scorer :: "'w ScoreFn option"
  po_Picker :: "'w PickFn option"
  po_PostCycle :: "'w PostCycleFn option"

datatype 'w WeightedScorer = NewWeightedScorer (ws_Scorer: "'w ScoreFn") (Weight: int)

text \<open>What \<open>AddPlugins\<close> gets: a plain plugin, or one wrapped with a weight.\<close>

datatype 'w profilePlugin = Plain "'w pluginObj" | Weighted "'w pluginObj" "'w ScoreFn" int

record 'w SchedulerProfile =
  filters :: "'w FilterFn list"
  scorers :: "'w WeightedScorer list"
  picker :: "'w PickFn option"
  postCyclePlugins :: "'w PostCycleFn list"

definition NewSchedulerProfile :: "'w SchedulerProfile" where
  "NewSchedulerProfile = \<lparr>filters = [], scorers = [], picker = None, postCyclePlugins = []\<rparr>"

definition WithFilters :: "'w FilterFn list \<Rightarrow> 'w SchedulerProfile \<Rightarrow> 'w SchedulerProfile" where
  "WithFilters fs p = p\<lparr>filters := fs\<rparr>"

definition WithScorers :: "'w WeightedScorer list \<Rightarrow> 'w SchedulerProfile \<Rightarrow> 'w SchedulerProfile" where
  "WithScorers ss p = p\<lparr>scorers := ss\<rparr>"

definition WithPicker :: "'w PickFn \<Rightarrow> 'w SchedulerProfile \<Rightarrow> 'w SchedulerProfile" where
  "WithPicker pk p = p\<lparr>picker := Some pk\<rparr>"

definition WithPostCyclePlugins :: "'w PostCycleFn list \<Rightarrow> 'w SchedulerProfile \<Rightarrow> 'w SchedulerProfile" where
  "WithPostCyclePlugins ps p = p\<lparr>postCyclePlugins := ps\<rparr>"

text \<open>The part of the loop of \<open>AddPlugins\<close> after the weight has been unwrapped.\<close>

definition add_roles :: "'w pluginObj \<Rightarrow> 'w SchedulerProfile \<Rightarrow> goError + 'w SchedulerProfile" where
  "add_roles plugin p =
     (let p1 = (case po_Filter plugin of None \<Rightarrow> p | Some f \<Rightarrow> p\<lparr>filters := filters p @ [f]\<rparr>);
          p3 = (\<lambda>p2. case po_PostCycle plugin of None \<Rightarrow> p2
                 | Some c \<Rightarrow> p2\<lparr>postCyclePlugins := postCyclePlugins p2 @ [c]\<rparr>)
      in case po_Picker plugin of
           None \<Rightarrow> Inr (p3 p1)
         | Some pk \<Rightarrow>
             if picker p1 \<noteq> None
             then Inl (Errorf ''failed to set picker, already have a registered picker plugin'' [])
             else Inr (p3 (p1\<lparr>picker := Some pk\<rparr>)))"

fun AddPlugins :: "'w profilePlugin list \<Rightarrow> 'w SchedulerProfile \<Rightarrow> goError option \<times> 'w SchedulerProfile" where
  "AddPlugins [] p = (None, p)"
| "AddPlugins (Weighted plugin sc weight # rest) p =
     (let p1 = p\<lparr>scorers := scorers p @ [NewWeightedScorer sc weight]\<rparr> in
      case add_roles plugin p1 of
        Inl err \<Rightarrow> (Some err, case po_Filter plugin of None \<Rightarrow> p1 | Some f \<Rightarrow> p1\<lparr>filters := filters p1 @ [f]\<rparr>)
      | Inr p2 \<Rightarrow> AddPlugins rest p2)"
| "AddPlugins (Plain plugin # rest) p =
     (if po_Scorer plugin \<noteq> None then (Some (Errorf ''failed to register scorer without a weight'' []), p)
      else case add_roles plugin p of
        Inl err \<Rightarrow> (Some err, case po_Filter plugin of None \<Rightarrow> p | Some f \<Rightarrow> p\<lparr>filters := filters p @ [f]\<rparr>)
      | Inr p2 \<Rightarrow> AddPlugins rest p2)"

section \<open>Running a profile\<close>

fun runFilterPlugins :: "'w FilterFn list \<Rightarrow> LLMRequest \<Rightarrow> Pod list \<Rightarrow> 'w \<Rightarrow> Pod list \<times> 'w" where
  "runFilterPlugins [] request filteredPods w = (filteredPods, w)"
| "runFilterPlugins (f # fs) request filteredPods w =
     (case f request filteredPods w of
        (filteredPods', w') \<Rightarrow>
          if length filteredPods' = 0 then (filteredPods', w')
          else runFilterPlugins fs request filteredPods' w')"

definition enforceScoreRange :: "float64 \<Rightarrow> float64" where
  "enforceScoreRange s = (if s < 0 then 0 else if s > 1 then 1 else s)"

text \<open>Go maps as association lists; a missing key reads as 0.\<close>

fun map_add_score :: "Pod \<Rightarrow> float64 \<Rightarrow> (Pod \<times> float64) list \<Rightarrow> (Pod \<times> float64) list" where
  "map_add_score pod x [] = [(pod, x)]"
| "map_add_score pod x ((q, y) # m) = (if q = pod then (q, y + x) # m else (q, y) # map_add_score pod x m)"

fun init_scores :: "Pod list \<Rightarrow> (Pod \<times> float64) list \<Rightarrow> (Pod \<times> float64) list" where
  "init_scores [] m = m"
| "init_scores (pod # pods) m = init_scores pods (map_add_score pod 0 m)"

fun runScorers :: "'w WeightedScorer list \<Rightarrow> LLMRequest \<Rightarrow> Pod list \<Rightarrow> (Pod \<times> float64) list \<Rightarrow> 'w \<Rightarrow> (Pod \<times> float64) list \<times> 'w" where
  "runScorers [] request pods m w = (m, w)"
| "runScorers (sc # scs) request pods m w =
     (case ws_Scorer sc request pods w of
        (scores, w') \<Rightarrow>
          runScorers scs request pods
            (fold (\<lambda>(pod, score). map_add_score pod (enforceScoreRange score * of_int (Weight sc))) scores m) w')"

definition runScorerPlugins :: "'w SchedulerProfile \<Rightarrow> LLMRequest \<Rightarrow> Pod list \<Rightarrow> 'w \<Rightarrow> (Pod \<times> float64) list \<times> 'w" where
  "runScorerPlugins p request pods w = runScorers (scorers p) request pods (init_scores pods []) w"

definition runPickerPlugin ::
  "(Pod \<times> float64) mapOrder \<Rightarrow> 'w SchedulerProfile \<Rightarrow> (Pod \<times> float64) list \<Rightarrow> 'w \<Rightarrow> (ProfileRunResult \<times> 'w) go" where
  "runPickerPlugin ord p weightedScorePerPod w =
     (case picker p of
        None \<Rightarrow> Panic
      | Some pick \<Rightarrow> Ret (pick (map (\<lambda>(pod, score). \<lparr>sp_Pod = pod, Score = score\<rparr>) (ord weightedScorePerPod)) w))"

fun runPostCyclePlugins :: "'w PostCycleFn list \<Rightarrow> ProfileRunResult \<Rightarrow> 'w \<Rightarrow> 'w go" where
  "runPostCyclePlugins [] result w = Ret w"
| "runPostCyclePlugins (c # cs) result w =
     (case c result w of Panic \<Rightarrow> Panic | Ret w' \<Rightarrow> runPostCyclePlugins cs result w')"

definition profile_Run ::
  "(Pod \<times> float64) mapOrder \<Rightarrow> 'w SchedulerProfile \<Rightarrow> LLMRequest \<Rightarrow> Pod list \<Rightarrow> 'w \<Rightarrow> ((eppError + ProfileRunResult) \<times> 'w) go" where
  "profile_Run ord p request candidatePods w =
     (case runFilterPlugins (filters p) request candidatePods w of
        (pods, w1) \<Rightarrow>
          if length pods = 0 then Ret (Inl (newError Internal ''no pods available for the given request''), w1)
          else
            (case runScorerPlugins p request pods w1 of
               (weightedScorePerPod, w2) \<Rightarrow>
                 (case runPickerPlugin ord p weightedScorePerPod w2 of
                    Panic \<Rightarrow> Panic
                  | Ret (result, w3) \<Rightarrow>
                      (case runPostCyclePlugins (postCyclePlugins p) result w3 of
                         Panic \<Rightarrow> Panic
                       | Ret w4 \<Rightarrow> Ret (Inr result, w4)))))"

section \<open>The scheduler\<close>

type_synonym 'w profiles = "(string \<times> 'w SchedulerProfile) list"
type_synonym results = "(string \<times> ProfileRunResult option) list"

record 'w ProfileHandler =
  ph_Pick :: "LLMRequest \<Rightarrow> 'w profiles \<Rightarrow> results \<Rightarrow> 'w \<Rightarrow> 'w profiles \<times> 'w"
  ph_ProcessResults :: "LLMRequest \<Rightarrow> results \<Rightarrow> 'w \<Rightarrow> (goError + SchedulingResult) \<times> 'w"

record 'w Scheduler =
  profileHandler :: "'w ProfileHandler"
  sched_profiles :: "'w profiles"

definition NewSchedulerWithConfig :: "'w ProfileHandler \<Rightarrow> 'w profiles \<Rightarrow> 'w Scheduler" where
  "NewSchedulerWithConfig handler ps = \<lparr>profileHandler = handler, sched_profiles = ps\<rparr>"

fun map_put :: "string \<Rightarrow> 'v \<Rightarrow> (string \<times> 'v) list \<Rightarrow> (string \<times> 'v) list" where
  "map_put k v [] = [(k, v)]"
| "map_put k v ((k', v') # m) = (if k' = k then (k, v) # m else (k', v') # map_put k v m)"

text \<open>The inner loop over the profiles that were picked.\<close>

fun run_profiles ::
  "(Pod \<times> float64) mapOrder \<Rightarrow> LLMRequest \<Rightarrow> Pod list \<Rightarrow> 'w profiles \<Rightarrow> results \<Rightarrow> 'w \<Rightarrow> (results \<times> 'w) go" where
  "run_profiles ord request candidatePods [] rs w = Ret (rs, w)"
| "run_profiles ord request candidatePods ((name, p) # ps) rs w =
     (case profile_Run ord p request candidatePods w of
        Panic \<Rightarrow> Panic
      | Ret (res, w') \<Rightarrow>
          run_profiles ord request candidatePods ps
            (map_put name (case res of Inl err \<Rightarrow> None | Inr r \<Rightarrow> Some r) rs) w')"

text \<open>The outer loop ends only when the handler picks nothing; \<open>None\<close> is a loop that never ends.\<close>

partial_function (option) pick_loop ::
  "'w Scheduler \<Rightarrow> (Pod \<times> float64) mapOrder \<Rightarrow> (string \<times> 'w SchedulerProfile) mapOrder \<Rightarrow> LLMRequest \<Rightarrow> Pod list \<Rightarrow>
   results \<Rightarrow> 'w \<Rightarrow> (results \<times> 'w) go option" where
  "pick_loop s ord pord request candidatePods rs w =
     (let (ps, w1) = ph_Pick (profileHandler s) request (sched_profiles s) rs w in
      if length ps = 0 then Some (Ret (rs, w1))
      else case run_profiles ord request candidatePods (pord ps) rs w1 of
             Panic \<Rightarrow> Some Panic
           | Ret (rs', w2) \<Rightarrow> pick_loop s ord pord request candidatePods rs' w2)"

definition Schedule ::
  "'w Scheduler \<Rightarrow> (Pod \<times> float64) mapOrder \<Rightarrow> (string \<times> 'w SchedulerProfile) mapOrder \<Rightarrow> LLMRequest \<Rightarrow> Pod list \<Rightarrow>
   'w \<Rightarrow> ((goError + SchedulingResult) \<times> 'w) go option" where
  "Schedule s ord pord request candidatePods w =
     (case pick_loop s ord pord request candidatePods [] w of
        None \<Rightarrow> None
      | Some Panic \<Rightarrow> Some Panic
      | Some (Ret (rs, w1)) \<Rightarrow>
          if length rs = 0 then Some (Ret (Inl (Errorf ''failed to run any scheduler profile for request'' []), w1))
          else Some (Ret (ph_ProcessResults (profileHandler s) request rs w1)))"

section \<open>The single profile handler\<close>

definition single_Pick :: "LLMRequest \<Rightarrow> 'w profiles \<Rightarrow> results \<Rightarrow> 'w \<Rightarrow> 'w profiles \<times> 'w" where
  "single_Pick request ps profileResults w =
     (if length ps = length profileResults then ([], w) else (ps, w))"

definition single_ProcessResults :: "LLMRequest \<Rightarrow> results \<Rightarrow> 'w \<Rightarrow> (goError + SchedulingResult) \<times> 'w" where
  "single_ProcessResults request profileResults w =
     (case profileResults of
        [(singleProfileName, res)] \<Rightarrow>
          (case res of
             None \<Rightarrow> (Inl (Errorf ''failed to run scheduler profile'' []), w)
           | Some _ \<Rightarrow> (Inr \<lparr>ProfileResults = profileResults, PrimaryProfileName = singleProfileName\<rparr>, w))
      | _ \<Rightarrow> (Inl (Errorf ''single profile handler is intended to be used with a single profile, failed to process multiple profiles'' []), w))"

definition NewSingleProfileHandler :: "'w ProfileHandler" where
  "NewSingleProfileHandler = \<lparr>ph_Pick = single_Pick, ph_ProcessResults = single_ProcessResults\<rparr>"

section \<open>The weighted scores\<close>

definition score_of :: "(Pod \<times> float64) list \<Rightarrow> Pod \<Rightarrow> float64" where
  "score_of m pod = (case map_of m pod of None \<Rightarrow> 0 | Some x \<Rightarrow> x)"

lemma map_add_score_keys: "fst ` set (map_add_score pod x m) = insert pod (fst ` set m)"
  by (induction pod x m rule: map_add_score.induct) (simp_all add: insert_commute)

lemma map_add_score_distinct: "distinct (map fst m) \<Longrightarrow> distinct (map fst (map_add_score pod x m))"
proof (induction m)
  case (Cons a m)
  obtain q y where a: "a = (q, y)" by force
  have "q \<noteq> pod \<Longrightarrow> q \<notin> fst ` set (map_add_score pod x m)"
    using Cons.prems by (simp only: map_add_score_keys) (auto simp: a image_iff)
  with Cons show ?case by (auto simp: a)
qed simp

lemma score_of_add: "score_of (map_add_score pod x m) q = score_of m q + (if q = pod then x else 0)"
  by (induction m) (auto simp: score_of_def)

lemma init_scores_ok:
  "distinct (map fst m) \<Longrightarrow> distinct (map fst (init_scores pods m)) \<and> fst ` set (init_scores pods m) = set pods \<union> fst ` set m \<and>
   score_of (init_scores pods m) = score_of m"
proof (induction pods arbitrary: m)
  case (Cons pod pods)
  have "score_of (map_add_score pod 0 m) = score_of m" by (rule ext) (simp add: score_of_add)
  then show ?case using Cons.IH [OF map_add_score_distinct [OF Cons.prems, of pod 0]] by (auto simp: map_add_score_keys)
qed simp

text \<open>What one scorer adds for a pod: its score, forced into the range from 0 to 1, times its weight.\<close>

definition weighted :: "int \<Rightarrow> (Pod \<times> float64) list \<Rightarrow> Pod \<Rightarrow> float64" where
  "weighted weight scores pod =
     (case map_of scores pod of None \<Rightarrow> 0 | Some s \<Rightarrow> enforceScoreRange s * of_int weight)"

lemma fold_scores:
  fixes weight :: int
  assumes "distinct (map fst m)" "distinct (map fst scores)"
  defines "m' \<equiv> fold (\<lambda>(pod, score). map_add_score pod (enforceScoreRange score * of_int weight)) scores m"
  shows "distinct (map fst m') \<and> fst ` set m' = fst ` set m \<union> fst ` set scores \<and>
    score_of m' q = score_of m q + weighted weight scores q"
  using assms(1,2) unfolding m'_def
proof (induction scores arbitrary: m)
  case (Cons a scores)
  obtain pod s where a: "a = (pod, s)" by force
  let ?m1 = "map_add_score pod (enforceScoreRange s * of_int weight) m"
  have d: "distinct (map fst ?m1)" by (rule map_add_score_distinct [OF Cons.prems(1)])
  have "pod \<notin> fst ` set scores" using Cons.prems(2) by (simp add: a)
  then have "map_of scores pod = None" by (simp add: map_of_eq_None_iff)
  then have "weighted weight (a # scores) q = (if q = pod then enforceScoreRange s * of_int weight else 0) + weighted weight scores q"
    by (auto simp: weighted_def a)
  then show ?case using Cons.IH [OF d] Cons.prems(2) by (auto simp: a score_of_add map_add_score_keys)
qed (simp add: weighted_def)

text \<open>The scores the scorers return, in the order in which they run.\<close>

fun scorer_results :: "'w WeightedScorer list \<Rightarrow> LLMRequest \<Rightarrow> Pod list \<Rightarrow> 'w \<Rightarrow> (int \<times> (Pod \<times> float64) list) list" where
  "scorer_results [] request pods w = []"
| "scorer_results (sc # scs) request pods w =
     (let (scores, w') = ws_Scorer sc request pods w in (Weight sc, scores) # scorer_results scs request pods w')"

text \<open>A scorer returns a Go map over the pods it was given: no pod twice, and no other pod.\<close>

definition proper_scorer :: "'w WeightedScorer \<Rightarrow> bool" where
  "proper_scorer sc \<longleftrightarrow> (\<forall>request pods w scores w'. ws_Scorer sc request pods w = (scores, w') \<longrightarrow>
     distinct (map fst scores) \<and> fst ` set scores \<subseteq> set pods)"

lemma proper_scorerD:
  assumes "proper_scorer sc" "ws_Scorer sc request pods w = (scores, w')"
  shows "distinct (map fst scores)" "fst ` set scores \<subseteq> set pods"
  using assms unfolding proper_scorer_def by blast+

lemma runScorers_ok:
  assumes "\<forall>sc\<in>set scs. proper_scorer sc" "distinct (map fst m)" "fst ` set m = set pods" "runScorers scs request pods m w = (m', w')"
  shows "distinct (map fst m') \<and> fst ` set m' = set pods \<and>
    score_of m' q = score_of m q + (\<Sum>(weight, scores)\<leftarrow>scorer_results scs request pods w. weighted weight scores q)"
  using assms
proof (induction scs arbitrary: m w)
  case (Cons sc scs)
  obtain scores w1 where s: "ws_Scorer sc request pods w = (scores, w1)" by force
  have p: "distinct (map fst scores)" "fst ` set scores \<subseteq> set pods" using proper_scorerD [OF _ s] Cons.prems(1) by simp_all
  let ?m1 = "fold (\<lambda>(pod, score). map_add_score pod (enforceScoreRange score * of_int (Weight sc))) scores m"
  note F = fold_scores [OF Cons.prems(2) p(1), of "Weight sc" q]
  have "distinct (map fst m') \<and> fst ` set m' = set pods \<and>
      score_of m' q = score_of ?m1 q + (\<Sum>(weight, scores)\<leftarrow>scorer_results scs request pods w1. weighted weight scores q)"
    by (rule Cons.IH) (use Cons.prems F p(2) s in auto)
  then show ?case using F s by (simp add: ac_simps)
qed simp

lemma enforceScoreRange_bounds: "0 \<le> enforceScoreRange s" "enforceScoreRange s \<le> 1"
  by (auto simp: enforceScoreRange_def)

lemma weighted_bounds: "0 \<le> weight \<Longrightarrow> 0 \<le> weighted weight scores pod \<and> weighted weight scores pod \<le> of_int weight"
  by (auto simp: weighted_def enforceScoreRange_bounds intro: mult_left_le_one_le split: option.split)

lemma runScorerPlugins_ok:
  assumes "\<forall>sc\<in>set (scorers p). proper_scorer sc" "runScorerPlugins p request pods w = (m, w')"
  shows "fst ` set m = set pods" "distinct (map fst m)"
    "pod \<in> set pods \<Longrightarrow>
      map_of m pod = Some (\<Sum>(weight, scores)\<leftarrow>scorer_results (scorers p) request pods w. weighted weight scores pod)"
proof -
  note I = init_scores_ok [of "[]" pods, simplified]
  have z: "score_of (init_scores pods []) q = 0" for q using I by (simp add: score_of_def)
  note R = runScorers_ok [OF assms(1), of "init_scores pods []" pods request w m w'] assms(2)
  show k: "fst ` set m = set pods" "distinct (map fst m)" using R I by (auto simp: runScorerPlugins_def)
  have v: "score_of m pod = (\<Sum>(weight, scores)\<leftarrow>scorer_results (scorers p) request pods w. weighted weight scores pod)"
    using R I z by (auto simp: runScorerPlugins_def)
  show "map_of m pod = Some (\<Sum>(weight, scores)\<leftarrow>scorer_results (scorers p) request pods w. weighted weight scores pod)"
    if "pod \<in> set pods"
    using that k(1) by (cases "map_of m pod") (auto simp: v [symmetric] score_of_def map_of_eq_None_iff)
qed

lemma scorer_results_weights: "map fst (scorer_results scs request pods w) = map Weight scs"
  by (induction scs arbitrary: w) (auto split: prod.split)

lemma weighted_sum_bounds:
  assumes "\<forall>sc\<in>set scs. 0 \<le> Weight sc"
  shows "0 \<le> (\<Sum>(weight, scores)\<leftarrow>scorer_results scs request pods w. weighted weight scores q) \<and>
    (\<Sum>(weight, scores)\<leftarrow>scorer_results scs request pods w. weighted weight scores q) \<le> (\<Sum>sc\<leftarrow>scs. of_int (Weight sc))"
  using assms
proof (induction scs arbitrary: w)
  case (Cons sc scs)
  obtain scores w' where "ws_Scorer sc request pods w = (scores, w')" by force
  then show ?case using Cons.IH [of w'] Cons.prems weighted_bounds [of "Weight sc" scores q] by (simp add: add_mono)
qed simp

text \<open>
  The weighted score of every candidate is the sum, over the scorers of the profile, of the
  weight times the score forced into the range from 0 to 1; with weights that are not negative it
  lies between 0 and the sum of the weights. Exactly the candidates get a score.
\<close>

lemma weighted_scores_exact:
  assumes "\<forall>sc\<in>set (scorers p). proper_scorer sc" "runScorerPlugins p request pods w = (m, w')"
  shows "fst ` set m = set pods \<and> distinct (map fst m) \<and>
    (\<forall>pod\<in>set pods. map_of m pod = Some (\<Sum>(weight, scores)\<leftarrow>scorer_results (scorers p) request pods w. weighted weight scores pod)) \<and>
    ((\<forall>sc\<in>set (scorers p). 0 \<le> Weight sc) \<longrightarrow>
       (\<forall>x\<in>snd ` set m. 0 \<le> x \<and> x \<le> (\<Sum>sc\<leftarrow>scorers p. of_int (Weight sc))))"
proof -
  note K = runScorerPlugins_ok [OF assms]
  have "0 \<le> x \<and> x \<le> (\<Sum>sc\<leftarrow>scorers p. of_int (Weight sc))"
    if W: "\<forall>sc\<in>set (scorers p). 0 \<le> Weight sc" and x: "x \<in> snd ` set m" for x
  proof -
    obtain pod where "(pod, x) \<in> set m" using x by auto
    then have "map_of m pod = Some x" "pod \<in> set pods" using K(1,2) by (simp, metis fst_conv imageI)
    then show ?thesis using K(3) [of pod] weighted_sum_bounds [OF W, where request = request and pods = pods and w = w and q = pod] by simp
  qed
  then show ?thesis using K by auto
qed

section \<open>Scheduling with the single profile handler\<close>

lemma map_put_new: "k \<notin> fst ` set m \<Longrightarrow> map_put k v m = m @ [(k, v)]"
  by (induction k v m rule: map_put.induct) auto

lemma run_profiles_names:
  assumes "distinct (map fst rs @ map fst ps)" "run_profiles ord request cands ps rs w = Ret (rs', w')"
  shows "map fst rs' = map fst rs @ map fst ps"
  using assms
proof (induction ord request cands ps rs w rule: run_profiles.induct)
  case (2 ord request cands name p ps rs w)
  obtain res w1 where r: "profile_Run ord p request cands w = Ret (res, w1)"
    using "2.prems"(2) by (auto split: go.splits)
  have n: "name \<notin> fst ` set rs" using "2.prems"(1) by auto
  then show ?case using 2 r by (auto simp: map_put_new [OF n] split: sum.splits)
qed simp

lemmas single_handler_defs = NewSchedulerWithConfig_def NewSingleProfileHandler_def single_Pick_def

text \<open>The single profile handler runs every profile once and then stops.\<close>

lemma single_handler_runs:
  assumes "distinct (map fst ps)" "mset (pord ps) = mset ps" "ps \<noteq> []"
  shows "Schedule (NewSchedulerWithConfig NewSingleProfileHandler ps) ord pord request cands w =
      (case run_profiles ord request cands (pord ps) [] w of
         Panic \<Rightarrow> Some Panic
       | Ret (rs, w1) \<Rightarrow> Some (Ret (single_ProcessResults request rs w1)))"
    and "run_profiles ord request cands (pord ps) [] w = Ret (rs, w1) \<Longrightarrow> length rs = length ps"
proof -
  let ?s = "NewSchedulerWithConfig NewSingleProfileHandler ps"
  have d: "distinct (map fst (pord ps))" using assms(1,2) by (metis mset_map mset_eq_imp_distinct_iff)
  have l: "length (pord ps) = length ps" using arg_cong [OF assms(2), of size] by simp
  show len: "length rs = length ps" if "run_profiles ord request cands (pord ps) [] w = Ret (rs, w1)" for rs w1
    using run_profiles_names [of "[]" "pord ps", OF _ that] d l by (metis append_Nil length_map list.simps(8))
  show "Schedule ?s ord pord request cands w =
      (case run_profiles ord request cands (pord ps) [] w of
         Panic \<Rightarrow> Some Panic
       | Ret (rs, w1) \<Rightarrow> Some (Ret (single_ProcessResults request rs w1)))"
  proof (cases "run_profiles ord request cands (pord ps) [] w")
    case Panic
    then show ?thesis using assms(3) pick_loop.simps [of ?s ord pord request cands "[]" w]
      by (simp add: Schedule_def single_handler_defs)
  next
    case (Ret x)
    obtain rs w1 where x: "x = (rs, w1)" by force
    have "length rs = length ps" using len Ret x by simp
    then show ?thesis using assms(3) Ret x pick_loop.simps [of ?s ord pord request cands "[]" w]
        pick_loop.simps [of ?s ord pord request cands rs w1]
      by (cases rs) (simp_all add: Schedule_def single_handler_defs)
  qed
qed

lemma schedule_one_profile:
  assumes "\<forall>xs. mset (pord xs) = mset xs"
  shows "Schedule (NewSchedulerWithConfig NewSingleProfileHandler [(name, p)]) ord pord request cands w =
    Some (case profile_Run ord p request cands w of
        Panic \<Rightarrow> Panic
      | Ret (Inl e, w') \<Rightarrow> Ret (single_ProcessResults request [(name, None)] w')
      | Ret (Inr res, w') \<Rightarrow> Ret (Inr \<lparr>ProfileResults = [(name, Some res)], PrimaryProfileName = name\<rparr>, w'))"
proof -
  have m: "mset (pord [(name, p)]) = mset [(name, p)]" using assms by blast
  then have "pord [(name, p)] = [(name, p)]" by simp
  then show ?thesis using single_handler_runs(1) [of "[(name, p)]" pord ord request cands w]
    by (auto simp: single_ProcessResults_def split: go.split sum.split)
qed

text \<open>
  With the single profile handler the scheduling loop always ends, for any number of profiles and
  any order of ranging over them. With exactly one profile the outcome is that of running it: its
  target pods under its name, or an error when it failed. Otherwise the outcome is an error.
\<close>

lemma schedule_single_handler:
  assumes "distinct (map fst ps)" "\<forall>xs. mset (pord xs) = mset xs"
  shows "\<exists>r. Schedule (NewSchedulerWithConfig NewSingleProfileHandler ps) ord pord request cands w = Some r \<and>
    (length ps \<noteq> 1 \<longrightarrow> (\<forall>res w'. r = Ret (res, w') \<longrightarrow> (\<exists>e. res = Inl e))) \<and>
    (\<forall>name p. ps = [(name, p)] \<longrightarrow>
       (case profile_Run ord p request cands w of
          Panic \<Rightarrow> r = Panic
        | Ret (Inl e, w') \<Rightarrow> (\<exists>e'. r = Ret (Inl e', w'))
        | Ret (Inr res, w') \<Rightarrow> r = Ret (Inr \<lparr>ProfileResults = [(name, Some res)], PrimaryProfileName = name\<rparr>, w')))"
proof (cases "length ps = 1")
  case True
  then obtain name p where ps: "ps = [(name, p)]" by (auto simp: length_Suc_conv)
  show ?thesis unfolding ps schedule_one_profile [OF assms(2)]
    by (auto simp: single_ProcessResults_def split: go.split sum.split)
next
  case False
  have m: "mset (pord ps) = mset ps" using assms(2) by blast
  show ?thesis
  proof (cases "ps = []")
    case True
    then show ?thesis by (simp add: Schedule_def pick_loop.simps single_handler_defs)
  next
    case ne: False
    note S = single_handler_runs [of ps pord, OF assms(1) m ne, of ord request cands w]
    show ?thesis
    proof (cases "run_profiles ord request cands (pord ps) [] w")
      case (Ret x)
      obtain rs w1 where x: "x = (rs, w1)" by force
      then have "\<exists>e. fst (single_ProcessResults request rs w1) = Inl e"
        using S(2) Ret False by (auto simp: single_ProcessResults_def split: list.splits)
      then show ?thesis using S(1) Ret x False by auto
    qed (use S(1) False in auto)
  qed
qed

text \<open>A candidate, a profile with one scorer and the scheduling of a request with it.\<close>

definition wPod :: "nat \<Rightarrow> int \<Rightarrow> Pod" where
  "wPod i q = \<lparr>pod_ptr = i, GetPod = \<lparr>bp_NamespacedName = \<lparr>nn_Namespace = ''ns'', nn_Name = ''pod''\<rparr>, bp_Address = ''10.0.0.1'', bp_Labels = Map.empty\<rparr>,
     GetMetrics = NewMetricsState\<lparr>WaitingQueueSize := q\<rparr>\<rparr>"

definition wLLM :: LLMRequest where
  "wLLM = \<lparr>RequestId = ''r'', TargetModel = ''m'', Prompt = [], lr_Headers = Map.empty\<rparr>"

definition wProfile :: "nat SchedulerProfile" where
  "wProfile = \<lparr>filters = [], scorers = [NewWeightedScorer (\<lambda>request pods w. (map (\<lambda>pod. (pod, 1 / 2)) (remdups pods), w + 1)) 3],
     picker = Some (\<lambda>sps w. (\<lparr>TargetPods = map sp_Pod sps\<rparr>, w)), postCyclePlugins = []\<rparr>"

lemma wProfile_proper: "\<forall>sc\<in>set (scorers wProfile). proper_scorer sc"
  by (auto simp: wProfile_def proper_scorer_def comp_def)

lemma wProfile_scores: "runScorerPlugins wProfile wLLM [wPod 0 1, wPod 1 5] 0 = ([(wPod 0 1, 3 / 2), (wPod 1 5, 3 / 2)], 1)"
  by (simp add: runScorerPlugins_def wProfile_def wPod_def enforceScoreRange_def)

lemma weighted_scores_exact_witness:
  "list_all proper_scorer (scorers wProfile) \<and> snd ` set (fst (runScorerPlugins wProfile wLLM [wPod 0 1, wPod 1 5] 0)) \<subseteq> {0..3}"
proof -
  have "\<forall>sc\<in>set (scorers wProfile). 0 \<le> Weight sc" by (simp add: wProfile_def)
  moreover have "(\<Sum>sc\<leftarrow>scorers wProfile. of_int (Weight sc)) = (3 :: rat)" by (simp add: wProfile_def)
  ultimately show ?thesis
    using weighted_scores_exact [OF wProfile_proper wProfile_scores] wProfile_proper wProfile_scores by (simp add: list_all_iff)
qed

lemma schedule_single_handler_witness:
  "distinct (map fst [(''default'', wProfile)]) \<and> (\<forall>xs :: (string \<times> nat SchedulerProfile) list. mset (rev xs) = mset xs) \<and>
   Schedule (NewSchedulerWithConfig NewSingleProfileHandler [(''default'', wProfile)]) id rev wLLM [wPod 0 1] 0 =
     Some (Ret (Inr \<lparr>ProfileResults = [(''default'', Some \<lparr>TargetPods = [wPod 0 1]\<rparr>)], PrimaryProfileName = ''default''\<rparr>, 1))"
proof -
  have "profile_Run id wProfile wLLM [wPod 0 1] 0 = Ret (Inr \<lparr>TargetPods = [wPod 0 1]\<rparr>, 1)"
    by (simp add: profile_Run_def runScorerPlugins_def runPickerPlugin_def wProfile_def)
  then show ?thesis
    using schedule_single_handler [of "[(''default'', wProfile)]" rev id wLLM "[wPod 0 1]" 0] by simp
qed

end
