(* ===== verification/SchedPlugins.thy ===== *)
theory SchedPlugins
  imports SchedulerProfile
begin

text \<open>
  The pickers and the scorers of the program (\<open>scheduling/framework/plugins\<close>). The random
  shuffle of \<open>math/rand\<close> is an argument; all that is assumed of it is that it permutes.
\<close>

section \<open>Pickers\<close>

definition DefaultMaxNumOfEndpoints :: int where "DefaultMaxNumOfEndpoints = 1"

record Picker =
  pk_typedName :: TypedName
  maxNumOfEndpoints :: int

definition newPicker :: "string \<Rightarrow> int \<Rightarrow> Picker" where
  "newPicker ty n = \<lparr>pk_typedName = \<lparr>tn_Type = ty, tn_Name = ty\<rparr>,
     maxNumOfEndpoints = (if n \<le> 0 then DefaultMaxNumOfEndpoints else n)\<rparr>"

definition NewMaxScorePicker :: "int \<Rightarrow> Picker" where "NewMaxScorePicker = newPicker ''max-score-picker''"

definition NewRandomPicker :: "int \<Rightarrow> Picker" where "NewRandomPicker = newPicker ''random-picker''"

text \<open>The parameters are decoded from JSON by \<open>unmarshal\<close>, which starts from the default.\<close>

definition pickerFactory ::
  "(string \<Rightarrow> int \<Rightarrow> goError + int) \<Rightarrow> (int \<Rightarrow> Picker) \<Rightarrow> string \<Rightarrow> string option \<Rightarrow> goError + Picker" where
  "pickerFactory unmarshal new name rawParameters =
     (case rawParameters of
        None \<Rightarrow> Inr (new DefaultMaxNumOfEndpoints\<lparr>pk_typedName := (pk_typedName (new DefaultMaxNumOfEndpoints))\<lparr>tn_Name := name\<rparr>\<rparr>)
      | Some raw \<Rightarrow>
          (case unmarshal raw DefaultMaxNumOfEndpoints of
             Inl err \<Rightarrow> Inl (Errorf ''failed to parse the parameters of the picker'' [err])
           | Inr n \<Rightarrow> Inr (new n\<lparr>pk_typedName := (pk_typedName (new n))\<lparr>tn_Name := name\<rparr>\<rparr>)))"

definition keep_max :: "int \<Rightarrow> ScoredPod list \<Rightarrow> ScoredPod list" where
  "keep_max n xs = (if n < int (length xs) then take (nat n) xs else xs)"

definition MaxScorePicker_Pick :: "(ScoredPod list \<Rightarrow> ScoredPod list) \<Rightarrow> Picker \<Rightarrow> 'w PickFn" where
  "MaxScorePicker_Pick shuffle p scoredPods w =
     (let sorted = sort_key (\<lambda>sp. - Score sp) (shuffle scoredPods)
      in (\<lparr>TargetPods = map sp_Pod (keep_max (maxNumOfEndpoints p) sorted)\<rparr>, w))"

definition RandomPicker_Pick :: "(ScoredPod list \<Rightarrow> ScoredPod list) \<Rightarrow> Picker \<Rightarrow> 'w PickFn" where
  "RandomPicker_Pick shuffle p scoredPods w =
     (\<lparr>TargetPods = map sp_Pod (keep_max (maxNumOfEndpoints p) (shuffle scoredPods))\<rparr>, w)"

lemma newPicker_pos: "0 < maxNumOfEndpoints (newPicker ty n)"
  by (simp add: newPicker_def DefaultMaxNumOfEndpoints_def)

lemma keep_max_split:
  assumes "0 < n"
  shows "\<exists>zs. xs = keep_max n xs @ zs" "length (keep_max n xs) = min (nat n) (length xs)"
proof -
  show "\<exists>zs. xs = keep_max n xs @ zs"
    by (cases "n < int (length xs)") (auto simp: keep_max_def intro: exI [of _ "drop (nat n) xs"])
qed (use assms in \<open>auto simp: keep_max_def\<close>)

text \<open>
  The max-score picker returns as many of the scored pods as there are, up to its maximum (at
  least one), best first, and no pod that it leaves out has a higher score than one that it
  returns. This holds however the pods were shuffled before.
\<close>

lemma maxScore_picks_best:
  assumes "mset (shuffle scoredPods) = mset scoredPods" "p = NewMaxScorePicker n"
    "MaxScorePicker_Pick shuffle p scoredPods w = (res, w')"
  shows "w' = w \<and> (\<exists>picked rest. TargetPods res = map sp_Pod picked \<and> mset picked + mset rest = mset scoredPods \<and>
    length picked = min (nat (if n \<le> 0 then 1 else n)) (length scoredPods) \<and>
    sorted_wrt (\<lambda>a b. Score b \<le> Score a) picked \<and> (\<forall>a\<in>set picked. \<forall>b\<in>set rest. Score b \<le> Score a))"
proof -
  let ?xs = "sort_key (\<lambda>sp. - Score sp) (shuffle scoredPods)"
  let ?n = "maxNumOfEndpoints p"
  have n: "?n = (if n \<le> 0 then 1 else n)" by (simp add: assms(2) NewMaxScorePicker_def newPicker_def DefaultMaxNumOfEndpoints_def)
  then have pos: "0 < ?n" by simp
  obtain zs where zs: "?xs = keep_max ?n ?xs @ zs" using keep_max_split(1) [OF pos] by blast
  have m: "mset ?xs = mset scoredPods" using assms(1) by simp
  have "sorted (map (\<lambda>sp. - Score sp) (keep_max ?n ?xs @ zs))" unfolding zs [symmetric] by (rule sorted_sort_key)
  then have s: "sorted_wrt (\<lambda>a b. Score b \<le> Score a) (keep_max ?n ?xs)" "\<forall>a\<in>set (keep_max ?n ?xs). \<forall>b\<in>set zs. Score b \<le> Score a"
    by (auto simp: sorted_append sorted_map)
  have l: "length (keep_max ?n ?xs) = min (nat ?n) (length scoredPods)"
    using keep_max_split(2) [OF pos, of ?xs] arg_cong [OF m, of size] by simp
  have mm: "mset (keep_max ?n ?xs) + mset zs = mset scoredPods" using m zs by (metis mset_append)
  have r: "w' = w" "TargetPods res = map sp_Pod (keep_max ?n ?xs)" using assms(3) by (auto simp: MaxScorePicker_Pick_def Let_def)
  show ?thesis using r s l mm unfolding n by blast
qed

section \<open>Scorers\<close>

definition minMaxQueue :: "Pod list \<Rightarrow> int \<times> int" where
  "minMaxQueue pods =
     fold (\<lambda>pod (mn, mx).
       let queueSize = WaitingQueueSize (GetMetrics pod) in
       (if queueSize < mn then queueSize else mn, if queueSize > mx then queueSize else mx))
     pods (maxInt64, minInt64)"

definition QueueScorer_Score :: "'w ScoreFn" where
  "QueueScorer_Score request pods w =
     (let (minQueueSize, maxQueueSize) = minMaxQueue pods;
          podScoreFunc = (\<lambda>pod. if maxQueueSize = minQueueSize then 1
            else of_int (maxQueueSize - WaitingQueueSize (GetMetrics pod)) / of_int (maxQueueSize - minQueueSize))
      in (map (\<lambda>pod. (pod, podScoreFunc pod)) (remdups pods), w))"

definition KVCacheUtilizationScorer_Score :: "'w ScoreFn" where
  "KVCacheUtilizationScorer_Score request pods w =
     (map (\<lambda>pod. (pod, 1 - KVCacheUsagePercent (GetMetrics pod))) (remdups pods), w)"

definition loraScore :: "LLMRequest \<Rightarrow> Pod \<Rightarrow> float64" where
  "loraScore request pod =
     (let m = GetMetrics pod;
          active = (TargetModel request \<in> fst ` set (ActiveModels m));
          waiting = (TargetModel request \<in> fst ` set (WaitingModels m))
      in if active then 1
         else if int (length (ActiveModels m) + length (WaitingModels m)) < MaxActiveModels m then 8 / 10
         else if waiting then 6 / 10
         else 0)"

definition LoraAffinityScorer_Score :: "'w ScoreFn" where
  "LoraAffinityScorer_Score request pods w = (map (\<lambda>pod. (pod, loraScore request pod)) (remdups pods), w)"

lemma map_of_map_graph: "map_of (map (\<lambda>x. (x, f x)) (remdups xs)) p = (if p \<in> set xs then Some (f p) else None)"
  by (induction xs) auto

text \<open>
  What the profile relies on in a scorer of the program: it grades every candidate once, from the
  request and the candidates alone, and leaves the world as it is.
\<close>

locale pod_scorer =
  fixes score :: "'w ScoreFn" and grade :: "LLMRequest \<Rightarrow> Pod list \<Rightarrow> Pod \<Rightarrow> float64"
  assumes score_eq: "score request pods w = (map (\<lambda>pod. (pod, grade request pods pod)) (remdups pods), w)"
begin

lemma proper: "proper_scorer (NewWeightedScorer score weight)"
  by (auto simp: proper_scorer_def score_eq comp_def)

lemma weighted_grade:
  "pod \<in> set pods \<Longrightarrow> weighted weight (fst (score request pods w)) pod = enforceScoreRange (grade request pods pod) * of_int weight"
  by (simp add: weighted_def score_eq map_of_map_graph)

lemma results_Cons:
  "scorer_results (NewWeightedScorer score weight # scs) request pods w = (weight, fst (score request pods w)) # scorer_results scs request pods w"
  by (simp add: score_eq)

end

text \<open>A scorer whose grades are in range already is not changed by the clamping.\<close>

locale bounded_scorer = pod_scorer score grade
  for score :: "'w ScoreFn" and grade +
  assumes grade_range: "0 \<le> grade request pods pod" "grade request pods pod \<le> 1"
begin

lemma weighted_exact:
  "pod \<in> set pods \<Longrightarrow> weighted weight (fst (score request pods w)) pod = grade request pods pod * of_int weight"
  using grade_range [of request pods pod] by (simp add: weighted_grade enforceScoreRange_def)

end

definition queue_grade :: "Pod list \<Rightarrow> Pod \<Rightarrow> float64" where
  "queue_grade pods pod =
     (case minMaxQueue pods of (mn, mx) \<Rightarrow>
        if mx = mn then 1 else of_int (mx - WaitingQueueSize (GetMetrics pod)) / of_int (mx - mn))"

interpretation queue_scorer: pod_scorer QueueScorer_Score "\<lambda>request. queue_grade"
  by unfold_locales (simp add: QueueScorer_Score_def queue_grade_def split_def Let_def)

interpretation kvcache_scorer: pod_scorer KVCacheUtilizationScorer_Score "\<lambda>request pods pod. 1 - KVCacheUsagePercent (GetMetrics pod)"
  by unfold_locales (simp add: KVCacheUtilizationScorer_Score_def)

interpretation lora_scorer: bounded_scorer LoraAffinityScorer_Score "\<lambda>request pods. loraScore request"
  by unfold_locales (simp_all add: LoraAffinityScorer_Score_def loraScore_def Let_def)

lemmas scorers_proper = queue_scorer.proper kvcache_scorer.proper lora_scorer.proper

abbreviation queueSizeOf :: "Pod \<Rightarrow> int" where
  "queueSizeOf pod \<equiv> WaitingQueueSize (GetMetrics pod)"

lemma minMaxQueue_fold:
  assumes "fold (\<lambda>pod (mn, mx). let queueSize = queueSizeOf pod in
       (if queueSize < mn then queueSize else mn, if queueSize > mx then queueSize else mx)) xs (a, b) = (mn, mx)"
  shows "mn \<le> a \<and> b \<le> mx \<and> (\<forall>pod\<in>set xs. mn \<le> queueSizeOf pod \<and> queueSizeOf pod \<le> mx) \<and>
    (mn = a \<or> mn \<in> queueSizeOf ` set xs) \<and> (mx = b \<or> mx \<in> queueSizeOf ` set xs)"
  using assms
proof (induction xs arbitrary: a b)
  case (Cons x xs)
  let ?a = "if queueSizeOf x < a then queueSizeOf x else a" and ?b = "if queueSizeOf x > b then queueSizeOf x else b"
  have "mn \<le> ?a \<and> ?b \<le> mx \<and> (\<forall>pod\<in>set xs. mn \<le> queueSizeOf pod \<and> queueSizeOf pod \<le> mx) \<and>
    (mn = ?a \<or> mn \<in> queueSizeOf ` set xs) \<and> (mx = ?b \<or> mx \<in> queueSizeOf ` set xs)"
    using Cons.prems by (intro Cons.IH) (simp add: Let_def)
  then show ?case by (auto split: if_splits)
qed simp

lemma minMaxQueue_ok:
  assumes "minMaxQueue pods = (mn, mx)" "pod \<in> set pods"
    and r: "\<forall>pod\<in>set pods. minInt64 \<le> queueSizeOf pod \<and> queueSizeOf pod \<le> maxInt64"
  shows "mn \<le> queueSizeOf pod" "queueSizeOf pod \<le> mx" "mn \<in> queueSizeOf ` set pods" "mx \<in> queueSizeOf ` set pods"
proof -
  note F = minMaxQueue_fold [OF assms(1) [unfolded minMaxQueue_def]]
  show 1: "mn \<le> queueSizeOf pod" "queueSizeOf pod \<le> mx" using F assms(2) by auto
  have "mn = maxInt64 \<Longrightarrow> mn = queueSizeOf pod" "mx = minInt64 \<Longrightarrow> mx = queueSizeOf pod"
    using 1 bspec [OF r assms(2)] by linarith+
  then show "mn \<in> queueSizeOf ` set pods" "mx \<in> queueSizeOf ` set pods"
    using F imageI [OF assms(2), of queueSizeOf] by metis+
qed

text \<open>
  The queue scorer scores exactly the candidates, within the range from 0 to 1; a shorter queue
  never scores lower than a longer one, a pod with the shortest queue gets 1, and when the queues
  differ in length a pod with the longest one gets 0.
\<close>

lemma queueScorer_correct:
  assumes "\<forall>pod\<in>set pods. minInt64 \<le> queueSizeOf pod \<and> queueSizeOf pod \<le> maxInt64"
    "QueueScorer_Score request pods w = (scores, w')" "map_of scores a = Some x" "map_of scores b = Some y"
  shows "w' = w \<and> fst ` set scores = set pods \<and> 0 \<le> x \<and> x \<le> 1 \<and> (queueSizeOf a \<le> queueSizeOf b \<longrightarrow> y \<le> x) \<and>
    ((\<forall>pod\<in>set pods. queueSizeOf a \<le> queueSizeOf pod) \<longrightarrow> x = 1) \<and>
    (queueSizeOf b < queueSizeOf a \<and> (\<forall>pod\<in>set pods. queueSizeOf pod \<le> queueSizeOf a) \<longrightarrow> x = 0)"
proof -
  obtain mn mx where m: "minMaxQueue pods = (mn, mx)" by force
  define f where "f = (\<lambda>pod. if mx = mn then 1 else of_int (mx - queueSizeOf pod) / of_int (mx - mn) :: rat)"
  have sc: "scores = map (\<lambda>pod. (pod, f pod)) (remdups pods)" "w' = w"
    using assms(2) by (auto simp: QueueScorer_Score_def m f_def Let_def)
  have keys: "fst ` set scores = set pods" by (auto simp: sc image_iff)
  have mo: "map_of scores p = (if p \<in> set pods then Some (f p) else None)" for p
    by (simp add: sc(1) map_of_map_graph)
  have ab: "a \<in> set pods" "b \<in> set pods" "x = f a" "y = f b" using assms(3,4) by (auto simp: mo split: if_splits)
  note A = minMaxQueue_ok [OF m ab(1) assms(1)] and B = minMaxQueue_ok [OF m ab(2) assms(1)]
  have d: "mx \<noteq> mn \<Longrightarrow> (0 :: rat) < of_int (mx - mn)" using A(1,2) by simp
  have "0 \<le> x" "x \<le> 1" using A d by (auto simp: ab f_def divide_le_eq)
  moreover have "y \<le> x" if "queueSizeOf a \<le> queueSizeOf b" using d that by (auto simp: ab f_def divide_right_mono)
  moreover have "x = 1" if "\<forall>pod\<in>set pods. queueSizeOf a \<le> queueSizeOf pod"
  proof -
    have "queueSizeOf a = mn" using that A(1,3) by auto
    then show ?thesis using d by (auto simp: ab f_def)
  qed
  moreover have "x = 0" if "queueSizeOf b < queueSizeOf a" "\<forall>pod\<in>set pods. queueSizeOf pod \<le> queueSizeOf a"
  proof -
    have "queueSizeOf a = mx" using that(2) A(2,4) by auto
    moreover have "mx \<noteq> mn" using that(1) B(1) calculation by auto
    ultimately show ?thesis by (simp add: ab f_def)
  qed
  ultimately show ?thesis using sc keys by blast
qed

section \<open>A profile that picks the best pods\<close>

text \<open>The weighted score of a pod in a run of the profile.\<close>

definition total_score :: "'w SchedulerProfile \<Rightarrow> LLMRequest \<Rightarrow> Pod list \<Rightarrow> 'w \<Rightarrow> Pod \<Rightarrow> float64" where
  "total_score p request pods w pod = (\<Sum>(weight, scores)\<leftarrow>scorer_results (scorers p) request pods w. weighted weight scores pod)"

text \<open>
  With the three scorers of the program the weighted score of a candidate is computed from its own
  metrics, the shortest and the longest queue and the request; the order of the scorers does not
  matter.
\<close>

lemma total_score_program:
  assumes "scorers p = [NewWeightedScorer QueueScorer_Score a, NewWeightedScorer KVCacheUtilizationScorer_Score b,
      NewWeightedScorer LoraAffinityScorer_Score c]" "pod \<in> set pods"
  shows "total_score p request pods w pod = enforceScoreRange (queue_grade pods pod) * of_int a +
    enforceScoreRange (1 - KVCacheUsagePercent (GetMetrics pod)) * of_int b + loraScore request pod * of_int c"
  unfolding total_score_def assms(1) queue_scorer.results_Cons kvcache_scorer.results_Cons lora_scorer.results_Cons
  using assms(2) by (simp add: queue_scorer.weighted_grade kvcache_scorer.weighted_grade lora_scorer.weighted_exact)

text \<open>
  A profile with a max-score picker fails exactly when its filters leave no candidate.
  Otherwise it returns different pods that passed the filters, as many as there are up to the
  maximum of the picker, and no pod that passed the filters and is left out has a higher weighted
  score than one that is returned, whatever the orders of the maps and of the shuffle are.
\<close>

lemma profile_Run_best:
  assumes "\<forall>sc\<in>set (scorers p). proper_scorer sc" "\<forall>xs. mset (ord xs) = mset xs" "\<forall>xs. mset (shuffle xs) = mset xs"
    "picker p = Some (MaxScorePicker_Pick shuffle (NewMaxScorePicker n))" "postCyclePlugins p = []"
    "runFilterPlugins (filters p) request candidatePods w = (pods, w1)"
  shows "if pods = [] then \<exists>e. profile_Run ord p request candidatePods w = Ret (Inl e, w1)
    else \<exists>res w'. profile_Run ord p request candidatePods w = Ret (Inr res, w') \<and> distinct (TargetPods res) \<and>
      set (TargetPods res) \<subseteq> set pods \<and> length (TargetPods res) = min (nat (if n \<le> 0 then 1 else n)) (card (set pods)) \<and>
      (\<forall>a\<in>set (TargetPods res). \<forall>b\<in>set pods - set (TargetPods res). total_score p request pods w1 b \<le> total_score p request pods w1 a)"
proof (cases "pods = []")
  case True
  then show ?thesis using assms(6) by (simp add: profile_Run_def)
next
  case False
  obtain m w2 where m: "runScorerPlugins p request pods w1 = (m, w2)" by force
  note K = runScorerPlugins_ok [OF assms(1) m]
  let ?sps = "map (\<lambda>(pod, score). \<lparr>sp_Pod = pod, Score = score\<rparr>) (ord m)"
  obtain res w3 where r: "MaxScorePicker_Pick shuffle (NewMaxScorePicker n) ?sps w2 = (res, w3)" by force
  obtain picked rest where P: "w3 = w2" "TargetPods res = map sp_Pod picked" "mset picked + mset rest = mset ?sps"
    "length picked = min (nat (if n \<le> 0 then 1 else n)) (length ?sps)" "\<forall>a\<in>set picked. \<forall>b\<in>set rest. Score b \<le> Score a"
    using maxScore_picks_best [OF _ refl r] assms(3) by blast
  have om: "mset (ord m) = mset m" using assms(2) by blast
  have sp: "map sp_Pod ?sps = map fst (ord m)" by (auto simp: comp_def)
  have dm: "mset (map sp_Pod picked) + mset (map sp_Pod rest) = mset (map fst m)"
    using arg_cong [OF P(3), of "image_mset sp_Pod"] sp om by (metis image_mset_union mset_map)
  have d: "distinct (map sp_Pod picked @ map sp_Pod rest)" using K(2) dm by (metis mset_append mset_eq_imp_distinct_iff)
  have s: "sp_Pod ` set picked \<union> sp_Pod ` set rest = set pods"
    using arg_cong [OF dm, of set_mset] K(1) by simp
  have l: "length ?sps = card (set pods)"
    using arg_cong [OF om, of size] distinct_card [OF K(2)] K(1) by simp
  have v: "Score a = total_score p request pods w1 (sp_Pod a)" if "a \<in> set picked \<union> set rest" for a
  proof -
    have "set picked \<union> set rest = set ?sps" using arg_cong [OF P(3), of set_mset] by simp
    then have "a \<in> set ?sps" using that by blast
    then have "(sp_Pod a, Score a) \<in> set (ord m)" by auto
    then have "(sp_Pod a, Score a) \<in> set m" using om by (metis set_mset_mset)
    then have "map_of m (sp_Pod a) = Some (Score a)" "sp_Pod a \<in> set pods" using K(1,2) by (simp, metis fst_conv imageI)
    then show ?thesis using K(3) by (simp add: total_score_def)
  qed
  have "total_score p request pods w1 b \<le> total_score p request pods w1 a"
    if a: "a \<in> set (TargetPods res)" and b: "b \<in> set pods - set (TargetPods res)" for a b
  proof -
    obtain a' b' where "a = sp_Pod a'" "a' \<in> set picked" "b = sp_Pod b'" "b' \<in> set rest" using a b P(2) s by auto
    then show ?thesis using P(5) v by (metis UnI1 UnI2)
  qed
  moreover have "profile_Run ord p request candidatePods w = Ret (Inr res, w2)"
    using False assms(4,5,6) m r P(1) by (simp add: profile_Run_def runPickerPlugin_def)
  moreover have "distinct (TargetPods res)" "set (TargetPods res) \<subseteq> set pods" using d s P(2) by auto
  ultimately show ?thesis using False P(2,4) l by auto
qed

text \<open>A profile with the queue scorer: the pod with the shorter queue is picked.\<close>

definition wBest :: "unit SchedulerProfile" where
  "wBest = \<lparr>filters = [], scorers = [NewWeightedScorer QueueScorer_Score 2],
     picker = Some (MaxScorePicker_Pick rev (NewMaxScorePicker 1)), postCyclePlugins = []\<rparr>"

lemma wQueue_scores:
  "QueueScorer_Score wLLM [wPod 0 1, wPod 2 5] () = ([(wPod 0 1, 1), (wPod 2 5, 0)], ())"
  by (simp add: QueueScorer_Score_def minMaxQueue_def wPod_def maxInt64_def minInt64_def)

lemma profile_best_example:
  "list_all proper_scorer (scorers wBest) \<and> (\<forall>xs :: (Pod \<times> float64) list. mset (rev xs) = mset xs) \<and>
   (\<forall>xs :: ScoredPod list. mset (rev xs) = mset xs) \<and>
   (\<exists>res w'. profile_Run rev wBest wLLM [wPod 0 1, wPod 2 5] () = Ret (Inr res, w') \<and> TargetPods res = [wPod 0 1])"
proof -
  have p: "\<forall>sc\<in>set (scorers wBest). proper_scorer sc" by (simp add: wBest_def scorers_proper)
  have ne: "wPod 0 1 \<noteq> wPod 2 5" by (simp add: wPod_def)
  have t: "total_score wBest wLLM [wPod 0 1, wPod 2 5] () (wPod 0 1) = 2" "total_score wBest wLLM [wPod 0 1, wPod 2 5] () (wPod 2 5) = 0"
    using ne by (simp_all add: total_score_def wBest_def wQueue_scores weighted_def enforceScoreRange_def)
  obtain res w' where r: "profile_Run rev wBest wLLM [wPod 0 1, wPod 2 5] () = Ret (Inr res, w')"
    "set (TargetPods res) \<subseteq> {wPod 0 1, wPod 2 5}" "length (TargetPods res) = 1"
    "\<forall>a\<in>set (TargetPods res). \<forall>b\<in>{wPod 0 1, wPod 2 5} - set (TargetPods res).
       total_score wBest wLLM [wPod 0 1, wPod 2 5] () b \<le> total_score wBest wLLM [wPod 0 1, wPod 2 5] () a"
    using profile_Run_best [OF p, of rev rev 1 wLLM "[wPod 0 1, wPod 2 5]" "()" "[wPod 0 1, wPod 2 5]" "()"] ne
    by (auto simp: wBest_def)
  obtain a where a: "TargetPods res = [a]" using r(3) by (auto simp: length_Suc_conv)
  have "a = wPod 0 1"
  proof (rule ccontr)
    assume "a \<noteq> wPod 0 1"
    then have "a = wPod 2 5" "wPod 0 1 \<in> {wPod 0 1, wPod 2 5} - set (TargetPods res)" using r(2) a ne by auto
    then show False using bspec [OF bspec [OF r(4), of a]] a t by force
  qed
  then show ?thesis using p r(1) a by (auto simp: list_all_iff)
qed

lemma queueScorer_correct_witness:
  "(\<forall>pod\<in>set [wPod 0 1, wPod 2 5]. minInt64 \<le> queueSizeOf pod \<and> queueSizeOf pod \<le> maxInt64) \<and>
   QueueScorer_Score wLLM [wPod 0 1, wPod 2 5] () = ([(wPod 0 1, 1), (wPod 2 5, 0)], ()) \<and>
   fst ` set (fst (QueueScorer_Score wLLM [wPod 0 1, wPod 2 5] ())) = {wPod 0 1, wPod 2 5}"
proof -
  have r: "\<forall>pod\<in>set [wPod 0 1, wPod 2 5]. minInt64 \<le> queueSizeOf pod \<and> queueSizeOf pod \<le> maxInt64"
    by (simp add: wPod_def maxInt64_def minInt64_def)
  have ne: "wPod 0 1 \<noteq> wPod 2 5" by (simp add: wPod_def)
  then show ?thesis
    using queueScorer_correct [OF r wQueue_scores, of "wPod 0 1" 1 "wPod 2 5" 0] r by (simp add: wQueue_scores)
qed

end
