(* ===== verification/Director.thy ===== *)
theory Director
  imports RequestTypes Saturation SchedPlugins
begin

text \<open>
  The director (\<open>requestcontrol/director.go\<close>, \<open>request_control_config.go\<close>, \<open>types.go\<close>): admission,
  candidate pods, scheduling and the preparation of the request. The scheduler, the saturation
  detector and the plugins are interface values; they share the state \<open>'w\<close>. Outcomes: \<open>None\<close> when
  the scheduler never returns, \<open>Panic\<close>, or the values returned.
\<close>

section \<open>Configuration\<close>

type_synonym 'w PreRequestFn = "LLMRequest \<Rightarrow> SchedulingResult \<Rightarrow> int \<Rightarrow> 'w \<Rightarrow> 'w"

record ControlResponse =
  cr_RequestId :: string
  cr_Headers :: "string \<rightharpoonup> string"

type_synonym 'w PostResponseFn = "LLMRequest option \<Rightarrow> ControlResponse \<Rightarrow> backendPod option \<Rightarrow> 'w \<Rightarrow> 'w"

record 'w controlPlugin =
  cp_PreRequest :: "'w PreRequestFn option"
  cp_PostResponse :: "'w PostResponseFn option"

record 'w ControlConfig =
  preRequestPlugins :: "'w PreRequestFn list"
  postResponsePlugins :: "'w PostResponseFn list"

definition control_NewConfig :: "'w ControlConfig" where
  "control_NewConfig = \<lparr>preRequestPlugins = [], postResponsePlugins = []\<rparr>"

definition WithPreRequestPlugins :: "'w PreRequestFn list \<Rightarrow> 'w ControlConfig \<Rightarrow> 'w ControlConfig" where
  "WithPreRequestPlugins ps c = c\<lparr>preRequestPlugins := ps\<rparr>"

definition WithPostResponsePlugins :: "'w PostResponseFn list \<Rightarrow> 'w ControlConfig \<Rightarrow> 'w ControlConfig" where
  "WithPostResponsePlugins ps c = c\<lparr>postResponsePlugins := ps\<rparr>"

fun control_AddPlugins :: "'w controlPlugin list \<Rightarrow> 'w ControlConfig \<Rightarrow> 'w ControlConfig" where
  "control_AddPlugins [] c = c"
| "control_AddPlugins (p # ps) c =
     (let c1 = (case cp_PreRequest p of None \<Rightarrow> c | Some f \<Rightarrow> c\<lparr>preRequestPlugins := preRequestPlugins c @ [f]\<rparr>);
          c2 = (case cp_PostResponse p of None \<Rightarrow> c1 | Some f \<Rightarrow> c1\<lparr>postResponsePlugins := postResponsePlugins c1 @ [f]\<rparr>)
      in control_AddPlugins ps c2)"

section \<open>The director\<close>

type_synonym 'w scheduleFn = "LLMRequest \<Rightarrow> Pod list \<Rightarrow> 'w \<Rightarrow> ((goError + SchedulingResult) \<times> 'w) go option"

record 'w Director =
  dir_scheduler :: "'w scheduleFn"
  dir_IsSaturated :: "datastore \<Rightarrow> bool"
  dir_preRequest :: "'w PreRequestFn list"
  dir_postResponse :: "'w PostResponseFn list"

definition NewDirectorWithConfig :: "'w scheduleFn \<Rightarrow> (datastore \<Rightarrow> bool) \<Rightarrow> 'w ControlConfig \<Rightarrow> 'w Director" where
  "NewDirectorWithConfig scheduler saturated config =
     \<lparr>dir_scheduler = scheduler, dir_IsSaturated = saturated, dir_preRequest = preRequestPlugins config,
      dir_postResponse = postResponsePlugins config\<rparr>"

definition defaultCriticality :: int where "defaultCriticality = 0"

definition admitRequest :: "'w Director \<Rightarrow> datastore \<Rightarrow> int \<Rightarrow> eppError option" where
  "admitRequest d ds requestCriticality =
     (if requestCriticality \<ge> 2 then None
      else if dir_IsSaturated d ds
        then Some (newError InferencePoolResourceExhausted ''system saturated, non-critical request dropped'')
      else None)"

text \<open>The snapshots are fresh objects, numbered from 0.\<close>

definition toSchedulerPodMetrics :: "podMetrics list \<Rightarrow> Pod list" where
  "toSchedulerPodMetrics pods =
     map (\<lambda>(i, pm). \<lparr>pod_ptr = i, GetPod = the (Pod_Clone (Some (pm_pod pm))), GetMetrics = the (MetricsState_Clone (Some (pm_metrics pm)))\<rparr>)
       (enumerate 0 pods)"

text \<open>The address part of each endpoint; a value that is not a string panics.\<close>

fun endpoint_addresses :: "json list \<Rightarrow> string list go" where
  "endpoint_addresses [] = Ret []"
| "endpoint_addresses (e # es) =
     (case e of
        JStr s \<Rightarrow> (case endpoint_addresses es of Panic \<Rightarrow> Panic | Ret as \<Rightarrow> Ret (hd (str_Split (CHR '':'') s) # as))
      | _ \<Rightarrow> Panic)"

definition getCandidatePodsForScheduling :: "NamespacedName list \<Rightarrow> datastore \<Rightarrow> jmap \<Rightarrow> Pod list go" where
  "getCandidatePodsForScheduling ord ds requestMetadata =
     (case requestMetadata SubsetFilterNamespace of
        Some (JObj subsetMap) \<Rightarrow>
          (case map_of subsetMap SubsetFilterKey of
             Some (JList endpointSubsetList) \<Rightarrow>
               if length endpointSubsetList = 0 then Ret []
               else (case endpoint_addresses endpointSubsetList of
                       Panic \<Rightarrow> Panic
                     | Ret endpoints \<Rightarrow>
                         Ret (toSchedulerPodMetrics (PodList ord (\<lambda>pm. bp_Address (pm_pod pm) \<in> set endpoints) ds)))
           | _ \<Rightarrow> Ret (toSchedulerPodMetrics (PodList ord AllPodsPredicate ds)))
      | _ \<Rightarrow> Ret (toSchedulerPodMetrics (PodList ord AllPodsPredicate ds)))"

fun runPreRequestPlugins :: "'w PreRequestFn list \<Rightarrow> LLMRequest \<Rightarrow> SchedulingResult \<Rightarrow> int \<Rightarrow> 'w \<Rightarrow> 'w" where
  "runPreRequestPlugins [] request result targetPort w = w"
| "runPreRequestPlugins (p # ps) request result targetPort w =
     runPreRequestPlugins ps request result targetPort (p request result targetPort w)"

fun runPostResponsePlugins :: "'w PostResponseFn list \<Rightarrow> LLMRequest option \<Rightarrow> ControlResponse \<Rightarrow> backendPod option \<Rightarrow> 'w \<Rightarrow> 'w" where
  "runPostResponsePlugins [] request response targetPod w = w"
| "runPostResponsePlugins (p # ps) request response targetPod w =
     runPostResponsePlugins ps request response targetPod (p request response targetPod w)"

text \<open>A primary profile without a result, and one without target pods, panic.\<close>

definition prepareRequest ::
  "'w Director \<Rightarrow> datastore \<Rightarrow> RequestContext \<Rightarrow> LLMRequest \<Rightarrow> SchedulingResult \<Rightarrow> 'w \<Rightarrow> (RequestContext \<times> eppError option \<times> 'w) go" where
  "prepareRequest d ds reqCtx request result w =
     (if length (ProfileResults result) = 0
      then Ret (reqCtx, Some (newError Internal ''results must be greater than zero''), w)
      else case PoolGet ds of
        Inl err \<Rightarrow> Ret (reqCtx, Some (OtherError err), w)
      | Inr pool \<Rightarrow>
          (case map_of (ProfileResults result) (PrimaryProfileName result) of
             Some (Some r) \<Rightarrow>
               (let targetPort = TargetPortNumber pool;
                    targetPods = map GetPod (TargetPods r);
                    targetEndpoints = map (\<lambda>p. net_JoinHostPort (bp_Address p) (strconv_Itoa targetPort)) targetPods;
                    multiEndpointString = str_Join '','' targetEndpoints
                in case targetPods of
                     [] \<Rightarrow> Panic
                   | p # _ \<Rightarrow>
                       Ret (reqCtx\<lparr>TargetPod := Some p, TargetEndpoint := multiEndpointString\<rparr>, None,
                            runPreRequestPlugins (dir_preRequest d) request result targetPort w))
           | _ \<Rightarrow> Panic))"

text \<open>The criticality of the objective; a missing one is filled in in the stored object.\<close>

definition criticality_of :: "string \<Rightarrow> datastore \<Rightarrow> int \<times> datastore" where
  "criticality_of key ds =
     (case ObjectiveGet key ds of
        None \<Rightarrow> (defaultCriticality, ds)
      | Some infObjective \<Rightarrow>
          (case obj_Criticality infObjective of
             None \<Rightarrow> (defaultCriticality,
               ds\<lparr>ds_objectives := (ds_objectives ds)(key \<mapsto> infObjective\<lparr>obj_Criticality := Some defaultCriticality\<rparr>)\<rparr>)
           | Some c \<Rightarrow> (c, ds)))"

text \<open>
  The first section of \<open>HandleRequest\<close>: the model of the body, the model it is rewritten to, the
  context with them, and the request for the scheduler.
\<close>

definition incoming :: "RequestContext \<Rightarrow> string option" where
  "incoming ctx = (case rq_Body (rc_Request ctx) ''model'' of Some (JStr m) \<Rightarrow> Some m | _ \<Rightarrow> None)"

definition target_model :: "RequestContext \<Rightarrow> string" where
  "target_model ctx = (if TargetModelName ctx = [] then the (incoming ctx) else TargetModelName ctx)"

definition ctx_parsed :: "RequestContext \<Rightarrow> RequestContext" where
  "ctx_parsed ctx = ctx\<lparr>IncomingModelName := the (incoming ctx), TargetModelName := target_model ctx,
     rc_Request := (rc_Request ctx)\<lparr>rq_Body := (rq_Body (rc_Request ctx))(''model'' \<mapsto> JStr (target_model ctx))\<rparr>\<rparr>"

definition llm_request :: "RequestContext \<Rightarrow> string \<Rightarrow> LLMRequest" where
  "llm_request ctx prompt = \<lparr>RequestId = (case rq_Headers (rc_Request ctx) RequestIdHeaderKey of None \<Rightarrow> [] | Some v \<Rightarrow> v),
     TargetModel = target_model ctx, Prompt = bytes_of prompt, lr_Headers = rq_Headers (rc_Request ctx)\<rparr>"

definition HandleRequest ::
  "'w Director \<Rightarrow> NamespacedName list \<Rightarrow> RequestContext \<Rightarrow> datastore \<Rightarrow> 'w \<Rightarrow>
   (RequestContext \<times> eppError option \<times> datastore \<times> 'w) go option" where
  "HandleRequest d ord ctx ds w =
     (if incoming ctx = None
      then Some (Ret (ctx\<lparr>IncomingModelName := []\<rparr>, Some (newError BadRequest ''model not found in request body''), ds, w))
      else case ExtractPromptFromRequestBody (rq_Body (rc_Request (ctx_parsed ctx))) of
        Inl err \<Rightarrow> Some (Ret (ctx_parsed ctx, Some err, ds, w))
      | Inr prompt \<Rightarrow>
          (let (c, ds1) = criticality_of (rc_ObjectiveKey ctx) ds;
               request = llm_request ctx prompt;
               ctx2 = (ctx_parsed ctx)\<lparr>SchedulingRequest := Some request\<rparr>
           in case admitRequest d ds1 c of
                Some err \<Rightarrow> Some (Ret (ctx2, Some err, ds1, w))
              | None \<Rightarrow>
                  (case getCandidatePodsForScheduling ord ds1 (rq_Metadata (rc_Request ctx)) of
                     Panic \<Rightarrow> Some Panic
                   | Ret cands \<Rightarrow>
                       if length cands = 0
                       then Some (Ret (ctx2, Some (newError ServiceUnavailable ''failed to find candidate pods for serving the request''), ds1, w))
                       else case dir_scheduler d request cands w of
                         None \<Rightarrow> None
                       | Some Panic \<Rightarrow> Some Panic
                       | Some (Ret (Inl err, w1)) \<Rightarrow>
                           Some (Ret (ctx2, Some (newError InferencePoolResourceExhausted ''failed to find target pod''), ds1, w1))
                       | Some (Ret (Inr result, w1)) \<Rightarrow>
                           (case prepareRequest d ds1 ctx2 request result w1 of
                              Panic \<Rightarrow> Some Panic
                            | Ret (ctx3, err, w2) \<Rightarrow> Some (Ret (ctx3, err, ds1, w2))))))"

definition HandleResponse :: "'w Director \<Rightarrow> RequestContext \<Rightarrow> 'w \<Rightarrow> RequestContext \<times> eppError option \<times> 'w" where
  "HandleResponse d reqCtx w =
     (let response = \<lparr>cr_RequestId = (case rq_Headers (rc_Request reqCtx) RequestIdHeaderKey of None \<Rightarrow> [] | Some v \<Rightarrow> v),
                      cr_Headers = rc_ResponseHeaders reqCtx\<rparr>
      in (reqCtx, None, runPostResponsePlugins (dir_postResponse d) (SchedulingRequest reqCtx) response (TargetPod reqCtx) w))"

text \<open>\<open>rnd n\<close> is the number below \<open>n\<close> that \<open>rand.Intn\<close> draws.\<close>

definition GetRandomPod :: "(nat \<Rightarrow> nat) \<Rightarrow> NamespacedName list \<Rightarrow> datastore \<Rightarrow> backendPod option" where
  "GetRandomPod rnd ord ds =
     (let pods = PodList ord AllPodsPredicate ds in
      if length pods = 0 then None else Some (pm_pod (pods ! rnd (length pods))))"

section \<open>Candidates\<close>

text \<open>The endpoints that the metadata asks for, if it has a list of them.\<close>

definition wanted :: "jmap \<Rightarrow> json list option" where
  "wanted md = (case md SubsetFilterNamespace of
     Some (JObj m) \<Rightarrow> (case map_of m SubsetFilterKey of Some (JList es) \<Rightarrow> Some es | _ \<Rightarrow> None)
   | _ \<Rightarrow> None)"

definition may_serve :: "jmap \<Rightarrow> backendPod \<Rightarrow> bool" where
  "may_serve md p = (case wanted md of None \<Rightarrow> True | Some es \<Rightarrow> \<exists>s. JStr s \<in> set es \<and> bp_Address p = takeWhile (\<lambda>c. c \<noteq> CHR '':'') s)"

lemma hd_str_Split: "hd (str_Split c s) = takeWhile (\<lambda>x. x \<noteq> c) s"
proof (induction c s rule: str_Split.induct)
  case (2 c x xs)
  then show ?case by (cases "str_Split c xs") auto
qed simp

lemma endpoint_addresses_eq:
  "endpoint_addresses es = (if \<forall>e\<in>set es. \<exists>s. e = JStr s
     then Ret (map (\<lambda>e. case e of JStr s \<Rightarrow> takeWhile (\<lambda>c. c \<noteq> CHR '':'') s | _ \<Rightarrow> []) es) else Panic)"
  by (induction es rule: endpoint_addresses.induct) (auto simp: hd_str_Split split: json.splits)

lemma toScheduler_pods: "map GetPod (toSchedulerPodMetrics pms) = map pm_pod pms"
  "map GetMetrics (toSchedulerPodMetrics pms) = map pm_metrics pms" "map pod_ptr (toSchedulerPodMetrics pms) = [0..<length pms]"
proof -
  have c: "the (Pod_Clone (Some p)) = p" "the (MetricsState_Clone (Some m)) = m" for p :: backendPod and m :: MetricsState
    by (simp_all add: Pod_Clone_def MetricsState_Clone_def)
  show "map GetPod (toSchedulerPodMetrics pms) = map pm_pod pms" "map GetMetrics (toSchedulerPodMetrics pms) = map pm_metrics pms"
    "map pod_ptr (toSchedulerPodMetrics pms) = [0..<length pms]"
    by (rule nth_equalityI; simp add: toSchedulerPodMetrics_def c nth_enumerate_eq)+
qed

lemma candidates_ok:
  assumes "set ord = dom (ds_pods ds)"
  shows "case getCandidatePodsForScheduling ord ds md of
     Panic \<Rightarrow> \<exists>es e. wanted md = Some es \<and> e \<in> set es \<and> (\<nexists>s. e = JStr s)
   | Ret cands \<Rightarrow> distinct (map pod_ptr cands) \<and> GetPod ` set cands = {pm_pod pm |pm. pm \<in> ran (ds_pods ds) \<and> may_serve md (pm_pod pm)}"
proof -
  have snap: "distinct (map pod_ptr (toSchedulerPodMetrics (PodList ord P ds))) \<and>
      GetPod ` set (toSchedulerPodMetrics (PodList ord P ds)) = {pm_pod pm |pm. pm \<in> ran (ds_pods ds) \<and> P pm}" for P
    using toScheduler_pods(3) arg_cong [OF toScheduler_pods(1) [of "PodList ord P ds"], of set] PodList_set [OF assms, of P] by auto
  show ?thesis
  proof (cases "wanted md")
    case None
    then have "getCandidatePodsForScheduling ord ds md = Ret (toSchedulerPodMetrics (PodList ord AllPodsPredicate ds))"
      by (auto simp: wanted_def getCandidatePodsForScheduling_def split: option.splits json.splits)
    then show ?thesis using snap [of AllPodsPredicate] None by (simp add: may_serve_def AllPodsPredicate_def)
  next
    case (Some es)
    have e: "getCandidatePodsForScheduling ord ds md = (if length es = 0 then Ret [] else
        case endpoint_addresses es of Panic \<Rightarrow> Panic
        | Ret as \<Rightarrow> Ret (toSchedulerPodMetrics (PodList ord (\<lambda>pm. bp_Address (pm_pod pm) \<in> set as) ds)))"
      using Some by (auto simp: wanted_def getCandidatePodsForScheduling_def split: option.splits json.splits)
    show ?thesis
    proof (cases "es \<noteq> [] \<and> (\<forall>e\<in>set es. \<exists>s. e = JStr s)")
      case True
      let ?as = "map (\<lambda>e. case e of JStr s \<Rightarrow> takeWhile (\<lambda>c. c \<noteq> CHR '':'') s | _ \<Rightarrow> []) es"
      have "x \<in> set ?as \<longleftrightarrow> (\<exists>s. JStr s \<in> set es \<and> x = takeWhile (\<lambda>c. c \<noteq> CHR '':'') s)" for x using True by force
      then show ?thesis using True snap [of "\<lambda>pm. bp_Address (pm_pod pm) \<in> set ?as"] Some
        by (simp add: e endpoint_addresses_eq may_serve_def)
    next
      case False
      then show ?thesis using Some by (auto simp: e endpoint_addresses_eq may_serve_def)
    qed
  qed
qed

section \<open>Requests\<close>

text \<open>
  What the director needs of a scheduler: it returns, and a result names a profile with at least
  one target, all among the candidates.
\<close>

definition picks_candidates :: "'w scheduleFn \<Rightarrow> bool" where
  "picks_candidates sched \<longleftrightarrow> (\<forall>request cands w. cands \<noteq> [] \<longrightarrow>
     (\<exists>res w'. sched request cands w = Some (Ret (res, w')) \<and>
       (\<forall>result. res = Inr result \<longrightarrow> (\<exists>r. map_of (ProfileResults result) (PrimaryProfileName result) = Some (Some r) \<and>
          TargetPods r \<noteq> [] \<and> set (TargetPods r) \<subseteq> set cands))))"

definition strings_only :: "jmap \<Rightarrow> bool" where
  "strings_only md \<longleftrightarrow> (\<forall>es e. wanted md = Some es \<and> e \<in> set es \<longrightarrow> (\<exists>s. e = JStr s))"

lemma candidates_Ret:
  assumes "set ord = dom (ds_pods ds)" "strings_only md"
  obtains cands where "getCandidatePodsForScheduling ord ds md = Ret cands"
    "GetPod ` set cands = {pm_pod pm |pm. pm \<in> ran (ds_pods ds) \<and> may_serve md (pm_pod pm)}"
  using candidates_ok [OF assms(1), of md] assms(2)
  by (cases "getCandidatePodsForScheduling ord ds md") (auto simp: strings_only_def)

lemma criticality_of_pods: "criticality_of key ds = (c, ds1) \<Longrightarrow> ds_pods ds1 = ds_pods ds \<and> ds_pool ds1 = ds_pool ds"
  by (auto simp: criticality_of_def split: option.splits)

lemma prepareRequest_ok:
  assumes "ds_pool ds = Some pool" "map_of (ProfileResults result) (PrimaryProfileName result) = Some (Some r)" "TargetPods r = p # ps"
  shows "prepareRequest d ds ctx request result w =
    Ret (ctx\<lparr>TargetPod := Some (GetPod p),
        TargetEndpoint := str_Join '','' (map (\<lambda>q. net_JoinHostPort (bp_Address (GetPod q)) (strconv_Itoa (TargetPortNumber pool))) (p # ps))\<rparr>,
      None, runPreRequestPlugins (dir_preRequest d) request result (TargetPortNumber pool) w)"
proof -
  have "ProfileResults result \<noteq> []" using assms(2) by auto
  then show ?thesis using assms by (simp add: prepareRequest_def PoolGet_def PoolHasSynced_def comp_def Let_def)
qed

lemma str_Join_prefix: "prefix p (str_Join sep (p # ps))"
  by (cases ps) auto

definition served :: "RequestContext \<Rightarrow> datastore \<Rightarrow> InferencePool \<Rightarrow> RequestContext \<Rightarrow> bool" where
  "served ctx ds pool ctx' \<longleftrightarrow> (\<exists>pm\<in>ran (ds_pods ds). TargetPod ctx' = Some (pm_pod pm) \<and> may_serve (rq_Metadata (rc_Request ctx)) (pm_pod pm) \<and>
     prefix (net_JoinHostPort (bp_Address (pm_pod pm)) (strconv_Itoa (TargetPortNumber pool))) (TargetEndpoint ctx') \<and>
     rq_Body (rc_Request ctx') ''model'' = Some (JStr (target_model ctx)))"

lemma handle_unparsed:
  assumes "incoming ctx = None \<or> (\<nexists>p. ExtractPromptFromRequestBody (rq_Body (rc_Request (ctx_parsed ctx))) = Inr p)"
  shows "\<exists>ctx' e. HandleRequest d ord ctx ds w = Some (Ret (ctx', Some e, ds, w)) \<and> CanonicalCode e = BadRequest"
  using assms prompt_error
  by (cases "ExtractPromptFromRequestBody (rq_Body (rc_Request (ctx_parsed ctx)))") (auto simp: HandleRequest_def newError_def CanonicalCode_def)

text \<open>A request that is parsed and admitted and for which the scheduler has picked candidates.\<close>

lemma handle_scheduled:
  assumes "incoming ctx = Some model" "ExtractPromptFromRequestBody (rq_Body (rc_Request (ctx_parsed ctx))) = Inr prompt"
    "criticality_of (rc_ObjectiveKey ctx) ds = (c, ds1)" "admitRequest d ds1 c = None"
    "getCandidatePodsForScheduling ord ds1 (rq_Metadata (rc_Request ctx)) = Ret cands" "cands \<noteq> []"
    "GetPod ` set cands = {pm_pod pm |pm. pm \<in> ran (ds_pods ds) \<and> may_serve (rq_Metadata (rc_Request ctx)) (pm_pod pm)}"
    "dir_scheduler d (llm_request ctx prompt) cands w = Some (Ret (Inr result, w1))"
    "map_of (ProfileResults result) (PrimaryProfileName result) = Some (Some r)" "TargetPods r \<noteq> []" "set (TargetPods r) \<subseteq> set cands"
    "ds_pool ds = Some pool"
  shows "\<exists>ctx' w'. HandleRequest d ord ctx ds w = Some (Ret (ctx', None, ds1, w')) \<and> served ctx ds pool ctx'"
proof -
  let ?r = "llm_request ctx prompt"
  let ?ctx = "(ctx_parsed ctx)\<lparr>SchedulingRequest := Some ?r\<rparr>"
  let ?ep = "\<lambda>q. net_JoinHostPort (bp_Address (GetPod q)) (strconv_Itoa (TargetPortNumber pool))"
  obtain q qs where q: "TargetPods r = q # qs" using assms(10) by (cases "TargetPods r") auto
  let ?ctx' = "?ctx\<lparr>TargetPod := Some (GetPod q), TargetEndpoint := str_Join '','' (map ?ep (q # qs))\<rparr>"
  have pool: "ds_pool ds1 = Some pool" using criticality_of_pods [OF assms(3)] assms(12) by simp
  have h: "\<exists>w'. HandleRequest d ord ctx ds w = Some (Ret (?ctx', None, ds1, w'))"
    using assms(1-6,8) prepareRequest_ok [OF pool assms(9) q, of d ?ctx ?r w1] by (simp add: HandleRequest_def Let_def)
  have "GetPod q \<in> GetPod ` set cands" using assms(11) q by auto
  then obtain pm where pm: "pm \<in> ran (ds_pods ds)" "may_serve (rq_Metadata (rc_Request ctx)) (pm_pod pm)" "GetPod q = pm_pod pm" using assms(7) by auto
  have "served ctx ds pool ?ctx'"
    unfolding served_def by (rule bexI [OF _ pm(1)]) (use pm str_Join_prefix [of "?ep q"] in \<open>simp add: ctx_parsed_def\<close>)
  then show ?thesis using h by blast
qed


section \<open>From the request to the best pod\<close>

text \<open>
  The path of a request through the director, the scheduler with one profile and the profile
  with its filters, weighted scorers and max-score picker for one pod.
\<close>

lemma request_reaches_best_pod:
  assumes "dir_scheduler d = Schedule (NewSchedulerWithConfig NewSingleProfileHandler [(name, p)]) mord pord"
    "\<forall>sc\<in>set (scorers p). proper_scorer sc" "\<forall>xs. mset (mord xs) = mset xs" "\<forall>xs. mset (pord xs) = mset xs" "\<forall>xs. mset (shuffle xs) = mset xs"
    "picker p = Some (MaxScorePicker_Pick shuffle (NewMaxScorePicker 1))" "postCyclePlugins p = []"
    "incoming ctx = Some model" "ExtractPromptFromRequestBody (rq_Body (rc_Request (ctx_parsed ctx))) = Inr prompt"
    "criticality_of (rc_ObjectiveKey ctx) ds = (c, ds1)" "admitRequest d ds1 c = None"
    "getCandidatePodsForScheduling ord ds1 (rq_Metadata (rc_Request ctx)) = Ret cands"
    "runFilterPlugins (filters p) (llm_request ctx prompt) cands w = (pods, w1)" "pods \<noteq> []" "cands \<noteq> []" "ds_pool ds = Some pool"
  shows "\<exists>ctx' w' best. HandleRequest d ord ctx ds w = Some (Ret (ctx', None, ds1, w')) \<and> best \<in> set pods \<and>
    (\<forall>q\<in>set pods. total_score p (llm_request ctx prompt) pods w1 q \<le> total_score p (llm_request ctx prompt) pods w1 best) \<and>
    TargetPod ctx' = Some (GetPod best) \<and> rq_Body (rc_Request ctx') = rq_Body (rc_Request (ctx_parsed ctx)) \<and>
    TargetEndpoint ctx' = net_JoinHostPort (bp_Address (GetPod best)) (strconv_Itoa (TargetPortNumber pool))"
proof -
  let ?r = "llm_request ctx prompt"
  let ?ctx = "(ctx_parsed ctx)\<lparr>SchedulingRequest := Some ?r\<rparr>"
  obtain res w2 where R: "profile_Run mord p ?r cands w = Ret (Inr res, w2)" "set (TargetPods res) \<subseteq> set pods"
    "length (TargetPods res) = min 1 (card (set pods))"
    "\<forall>a\<in>set (TargetPods res). \<forall>b\<in>set pods - set (TargetPods res). total_score p ?r pods w1 b \<le> total_score p ?r pods w1 a"
    using profile_Run_best [OF assms(2,3,5,6,7,13)] assms(14) by auto
  have "0 < card (set pods)" using assms(14) by (simp add: card_gt_0_iff)
  then have "length (TargetPods res) = 1" using R(3) by simp
  then obtain best where b: "TargetPods res = [best]" by (auto simp: length_Suc_conv)
  have pool: "ds_pool ds1 = Some pool" using criticality_of_pods [OF assms(10)] assms(16) by simp
  let ?res = "\<lparr>ProfileResults = [(name, Some res)], PrimaryProfileName = name\<rparr>"
  have S: "dir_scheduler d ?r cands w = Some (Ret (Inr ?res, w2))"
    using schedule_one_profile [OF assms(4)] R(1) assms(1) by simp
  have P: "prepareRequest d ds1 ?ctx ?r ?res w2 = Ret (?ctx\<lparr>TargetPod := Some (GetPod best),
      TargetEndpoint := net_JoinHostPort (bp_Address (GetPod best)) (strconv_Itoa (TargetPortNumber pool))\<rparr>, None,
      runPreRequestPlugins (dir_preRequest d) ?r ?res (TargetPortNumber pool) w2)"
    using prepareRequest_ok [OF pool, of ?res res best "[]" d ?ctx ?r w2] b by simp
  have "HandleRequest d ord ctx ds w = Some (Ret (?ctx\<lparr>TargetPod := Some (GetPod best),
      TargetEndpoint := net_JoinHostPort (bp_Address (GetPod best)) (strconv_Itoa (TargetPortNumber pool))\<rparr>, None, ds1,
      runPreRequestPlugins (dir_preRequest d) ?r ?res (TargetPortNumber pool) w2))"
    using assms(8-12,15) S P by (simp add: HandleRequest_def Let_def)
  moreover have "\<forall>q\<in>set pods. total_score p ?r pods w1 q \<le> total_score p ?r pods w1 best" using R(4) b by auto
  ultimately show ?thesis using R(2) b by auto
qed

text \<open>The scheduler of the program keeps the contract the director relies on.\<close>

definition proper_filter :: "'w FilterFn \<Rightarrow> bool" where
  "proper_filter f \<longleftrightarrow> (\<forall>request pods w pods' w'. f request pods w = (pods', w') \<longrightarrow> set pods' \<subseteq> set pods)"

lemma runFilterPlugins_subset:
  "\<forall>f\<in>set fs. proper_filter f \<Longrightarrow> runFilterPlugins fs request pods w = (pods', w') \<Longrightarrow> set pods' \<subseteq> set pods"
proof (induction fs request pods w rule: runFilterPlugins.induct)
  case (2 f fs request pods w)
  obtain p1 w1 where f: "f request pods w = (p1, w1)" by force
  then have "set p1 \<subseteq> set pods" using "2.prems"(1) unfolding proper_filter_def by (metis list.set_intros(1))
  then show ?case using 2 f by (fastforce split: if_splits)
qed simp

lemma schedule_picks_candidates:
  assumes "\<forall>sc\<in>set (scorers p). proper_scorer sc" "\<forall>f\<in>set (filters p). proper_filter f" "\<forall>xs. mset (mord xs) = mset xs"
    "\<forall>xs. mset (pord xs) = mset xs" "\<forall>xs. mset (shuffle xs) = mset xs"
    "picker p = Some (MaxScorePicker_Pick shuffle (NewMaxScorePicker n))" "postCyclePlugins p = []"
  shows "picks_candidates (Schedule (NewSchedulerWithConfig NewSingleProfileHandler [(name, p)]) mord pord)"
  unfolding picks_candidates_def
proof (intro allI impI)
  fix request cands w
  let ?S = "Schedule (NewSchedulerWithConfig NewSingleProfileHandler [(name, p)]) mord pord request cands w"
  obtain pods w1 where f: "runFilterPlugins (filters p) request cands w = (pods, w1)" by force
  note B = profile_Run_best [OF assms(1,3,5,6,7) f]
  show "\<exists>res w'. ?S = Some (Ret (res, w')) \<and> (\<forall>result. res = Inr result \<longrightarrow>
      (\<exists>r. map_of (ProfileResults result) (PrimaryProfileName result) = Some (Some r) \<and> TargetPods r \<noteq> [] \<and> set (TargetPods r) \<subseteq> set cands))"
  proof (cases "pods = []")
    case True
    then obtain e where "profile_Run mord p request cands w = Ret (Inl e, w1)" using B by auto
    then show ?thesis by (simp add: schedule_one_profile [OF assms(4)] single_ProcessResults_def)
  next
    case False
    then obtain r w' where r: "profile_Run mord p request cands w = Ret (Inr r, w')" "set (TargetPods r) \<subseteq> set pods"
      "length (TargetPods r) = min (nat (if n \<le> 0 then 1 else n)) (card (set pods))" using B by auto
    have "0 < card (set pods)" using False by (simp add: card_gt_0_iff)
    then have "TargetPods r \<noteq> []" using r(3) by (auto split: if_splits)
    then show ?thesis using r(1,2) runFilterPlugins_subset [OF assms(2) f] by (simp add: schedule_one_profile [OF assms(4)])
  qed
qed

definition wDirector :: "unit Director" where
  "wDirector = NewDirectorWithConfig (Schedule (NewSchedulerWithConfig NewSingleProfileHandler [(''default'', wBest)]) id rev)
     (\<lambda>ds. False) control_NewConfig"

definition wStore :: datastore where
  "wStore = NewDatastore\<lparr>ds_pool := Some wPool, ds_pods := [pod_key (wCore ''a'') \<mapsto> NewPodMetrics (wCore ''a'')]\<rparr>"

definition newContext :: RequestContext where
  "newContext = \<lparr>TargetPod = None, TargetEndpoint = [], IncomingModelName = [], TargetModelName = [], FairnessID = [], rc_ObjectiveKey = [],
     RequestReceivedTimestamp = 0, ResponseCompleteTimestamp = 0, RequestSize = 0,
     rc_Usage = \<lparr>PromptTokens = 0, CompletionTokens = 0, TotalTokens = 0\<rparr>, ResponseSize = 0, ResponseComplete = False, ResponseStatusCode = [],
     RequestRunning = False, rc_Request = \<lparr>rq_Headers = Map.empty, rq_Body = Map.empty, rq_Metadata = Map.empty\<rparr>,
     SchedulingRequest = None, RequestState = RequestReceived, modelServerStreaming = False, rc_ResponseHeaders = Map.empty,
     reqHeaderResp = None, reqBodyResp = [], reqTrailerResp = None, respHeaderResp = None, respBodyResp = [], respTrailerResp = None\<rparr>"

definition wContext :: RequestContext where
  "wContext = newContext\<lparr>rc_Request := \<lparr>rq_Headers = Map.empty, rq_Body = [''model'' \<mapsto> JStr ''m'', ''prompt'' \<mapsto> JStr ''hi''], rq_Metadata = Map.empty\<rparr>\<rparr>"

lemma wBest_picks: "picks_candidates (dir_scheduler wDirector)"
  unfolding wDirector_def NewDirectorWithConfig_def
  by (simp, rule schedule_picks_candidates [where shuffle = rev and n = 1]) (simp_all add: wBest_def scorers_proper)


abbreviation wCands :: "Pod list" where
  "wCands \<equiv> toSchedulerPodMetrics [NewPodMetrics (wCore ''a'')]"

lemma wContext_parsed:
  "incoming wContext = Some ''m''"
  "rq_Body (rc_Request (ctx_parsed wContext)) = [''model'' \<mapsto> JStr ''m'', ''prompt'' \<mapsto> JStr ''hi'']"
  "ExtractPromptFromRequestBody (rq_Body (rc_Request (ctx_parsed wContext))) = Inr ''hi''"
proof -
  show i: "incoming wContext = Some ''m''" by (simp add: incoming_def wContext_def newContext_def)
  show b: "rq_Body (rc_Request (ctx_parsed wContext)) = [''model'' \<mapsto> JStr ''m'', ''prompt'' \<mapsto> JStr ''hi'']"
    by (auto simp: ctx_parsed_def i target_model_def incoming_def wContext_def newContext_def)
  show "ExtractPromptFromRequestBody (rq_Body (rc_Request (ctx_parsed wContext))) = Inr ''hi''"
    by (simp add: b ExtractPromptFromRequestBody_def extractPromptField_def)
qed

lemma wContext_admitted:
  "criticality_of (rc_ObjectiveKey wContext) wStore = (0, wStore)"
  "admitRequest wDirector wStore 0 = None"
  "getCandidatePodsForScheduling [pod_key (wCore ''a'')] wStore (rq_Metadata (rc_Request wContext)) = Ret wCands"
proof -
  show "criticality_of (rc_ObjectiveKey wContext) wStore = (0, wStore)"
    by (simp add: criticality_of_def ObjectiveGet_def wContext_def newContext_def wStore_def NewDatastore_def defaultCriticality_def)
  show "admitRequest wDirector wStore 0 = None" by (simp add: admitRequest_def wDirector_def NewDirectorWithConfig_def)
  show "getCandidatePodsForScheduling [pod_key (wCore ''a'')] wStore (rq_Metadata (rc_Request wContext)) = Ret wCands"
    by (simp add: getCandidatePodsForScheduling_def wContext_def newContext_def PodList_def List.map_filter_def wStore_def AllPodsPredicate_def)
qed

lemma wCands_endpoint:
  "best \<in> set wCands \<Longrightarrow> net_JoinHostPort (bp_Address (GetPod best)) (strconv_Itoa (TargetPortNumber wPool)) = ''10.0.0.1:8000''"
  by (auto simp: toSchedulerPodMetrics_def Pod_Clone_def NewPodMetrics_def toInternalPod_def wCore_def wPool_def net_JoinHostPort_def
      strconv_Itoa_def utoa.simps digit_def char_of_def bit_0)

end
