(* ===== verification/StreamServer.thy ===== *)
theory StreamServer
  imports Director
begin

text \<open>
  The external processing server (\<open>handlers/server.go\<close>, \<open>request.go\<close>, \<open>response.go\<close>): the loop
  over the messages of a stream, what it sends back and in which order. The JSON codec, the
  order in which Go ranges over maps, the clock and the success of a send are arguments.
  Metrics and logging are left out.
\<close>

section \<open>Bodies in chunks\<close>

definition bodyByteLimit :: nat where "bodyByteLimit = 62000"

text \<open>The loop; it would never end with a limit of 0, which is \<open>None\<close>.\<close>

partial_function (option) chunk_loop :: "bytes \<Rightarrow> nat \<Rightarrow> bool \<Rightarrow> nat \<Rightarrow> CommonResponse list \<Rightarrow> CommonResponse list option" where
  "chunk_loop bodyBytes byteLimit setEos startingIndex responses =
     (let bodyLen = length bodyBytes in
      if startingIndex < bodyLen then
        let len = min (bodyLen - startingIndex) byteLimit;
            chunk = take len (drop startingIndex bodyBytes);
            eos = (setEos \<and> len + startingIndex \<ge> bodyLen)
        in chunk_loop bodyBytes byteLimit setEos (startingIndex + len) (responses @ [\<lparr>cr_Body = chunk, cr_EndOfStream = eos\<rparr>])
      else Some responses)"

definition buildCommonResponses :: "bytes \<Rightarrow> nat \<Rightarrow> bool \<Rightarrow> CommonResponse list option" where
  "buildCommonResponses bodyBytes byteLimit setEos =
     (if length bodyBytes = 0 then Some [\<lparr>cr_Body = bodyBytes, cr_EndOfStream = setEos\<rparr>]
      else chunk_loop bodyBytes byteLimit setEos 0 [])"

definition generateRequestBodyResponses :: "bytes \<Rightarrow> ProcessingResponse list" where
  "generateRequestBodyResponses requestBodyBytes = map RespRequestBody (the (buildCommonResponses requestBodyBytes bodyByteLimit True))"

definition generateResponseBodyResponses :: "bytes \<Rightarrow> bool \<Rightarrow> ProcessingResponse list" where
  "generateResponseBodyResponses responseBodyBytes setEoS =
     map RespResponseBody (the (buildCommonResponses responseBodyBytes bodyByteLimit setEoS))"

lemma chunk_loop_ok:
  assumes "0 < n" "i < length b"
  shows "\<exists>rs. chunk_loop b n eos i acc = Some (acc @ rs) \<and> concat (map cr_Body rs) = drop i b \<and> rs \<noteq> [] \<and>
    (\<forall>r\<in>set rs. length (cr_Body r) \<le> n \<and> cr_Body r \<noteq> []) \<and> map cr_EndOfStream rs = replicate (length rs - 1) False @ [eos]"
  using assms(2)
proof (induction "length b - i" arbitrary: i acc rule: less_induct)
  case less
  define len where "len = min (length b - i) n"
  define r where "r = \<lparr>cr_Body = take len (drop i b), cr_EndOfStream = (eos \<and> len + i \<ge> length b)\<rparr>"
  have pos: "0 < len" "len \<le> n" "len \<le> length b - i" using less.prems assms(1) by (simp_all add: len_def)
  have one: "chunk_loop b n eos i acc = chunk_loop b n eos (i + len) (acc @ [r])"
    using less.prems by (subst chunk_loop.simps) (simp add: Let_def len_def r_def)
  show ?case
  proof (cases "i + len < length b")
    case False
    then have e: "chunk_loop b n eos (i + len) (acc @ [r]) = Some (acc @ [r])" by (subst chunk_loop.simps) (simp add: Let_def)
    have "len + i \<ge> length b" using False by linarith
    then have "cr_Body r = drop i b" "cr_EndOfStream r = eos" "length (drop i b) \<le> n" using pos by (simp_all add: r_def)
    then show ?thesis using one e less.prems by (intro exI [of _ "[r]"]) simp
  next
    case True
    then have "length b - (i + len) < length b - i" using pos by linarith
    from less.hyps [OF this True, of "acc @ [r]"] obtain rs where rs:
      "chunk_loop b n eos (i + len) (acc @ [r]) = Some ((acc @ [r]) @ rs)" "concat (map cr_Body rs) = drop (i + len) b" "rs \<noteq> []"
      "\<forall>r\<in>set rs. length (cr_Body r) \<le> n \<and> cr_Body r \<noteq> []" "map cr_EndOfStream rs = replicate (length rs - 1) False @ [eos]" by blast
    have f: "cr_EndOfStream r = False" "cr_Body r = take len (drop i b)" using True by (simp_all add: r_def)
    have "map cr_EndOfStream (r # rs) = replicate (length (r # rs) - 1) False @ [eos]"
      using rs(3,5) f(1) by (cases rs) simp_all
    moreover have "concat (map cr_Body (r # rs)) = drop i b"
      using rs(2) f(2) append_take_drop_id [of len "drop i b"] by (simp add: add.commute)
    moreover have "cr_Body r \<noteq> []" "length (cr_Body r) \<le> n" using pos less.prems f(2) by auto
    ultimately show ?thesis using one rs(1,4) by (intro exI [of _ "r # rs"]) auto
  qed
qed

lemma buildCommonResponses_ok:
  assumes "0 < n"
  shows "\<exists>rs. buildCommonResponses b n eos = Some rs \<and> concat (map cr_Body rs) = b \<and> rs \<noteq> [] \<and>
    (\<forall>r\<in>set rs. length (cr_Body r) \<le> n) \<and> map cr_EndOfStream rs = replicate (length rs - 1) False @ [eos]"
proof (cases "b = []")
  case False
  then obtain rs where "chunk_loop b n eos 0 [] = Some rs" "concat (map cr_Body rs) = b" "rs \<noteq> []"
    "\<forall>r\<in>set rs. length (cr_Body r) \<le> n" "map cr_EndOfStream rs = replicate (length rs - 1) False @ [eos]"
    using chunk_loop_ok [OF assms, of 0 b eos "[]"] by auto
  then show ?thesis using False by (simp add: buildCommonResponses_def)
qed (simp add: buildCommonResponses_def)

text \<open>
  A body is cut into at least one chunk, none longer than the limit; together the chunks are
  the body, and only the last one can carry the end of the stream. The cutting always ends.
\<close>

lemma buildCommonResponses_chunks:
  "\<exists>rs. buildCommonResponses b bodyByteLimit eos = Some rs \<and> concat (map cr_Body rs) = b \<and> rs \<noteq> [] \<and>
    (\<forall>r\<in>set rs. length (cr_Body r) \<le> bodyByteLimit) \<and> map cr_EndOfStream rs = replicate (length rs - 1) False @ [eos]"
  by (rule buildCommonResponses_ok) (simp add: bodyByteLimit_def)

section \<open>Request messages\<close>

definition header_value :: "HeaderValue \<Rightarrow> string" where
  "header_value h = (case hv_RawValue h of Some v \<Rightarrow> v | None \<Rightarrow> hv_Value h)"

definition header_step :: "HeaderValue \<Rightarrow> RequestContext \<Rightarrow> RequestContext" where
  "header_step h ctx =
     (let value = header_value h;
          hs = (rq_Headers (rc_Request ctx))(hv_Key h \<mapsto> value);
          put = (\<lambda>m c. c\<lparr>rc_Request := (rc_Request c)\<lparr>rq_Headers := m\<rparr>\<rparr>)
      in if hv_Key h = FlowFairnessIDKey then put (hs(hv_Key h := None)) (ctx\<lparr>FairnessID := value\<rparr>)
         else if hv_Key h = ObjectiveKeyHeader then put (hs(hv_Key h := None)) (ctx\<lparr>rc_ObjectiveKey := value\<rparr>)
         else if hv_Key h = ModelNameRewriteKey then put (hs(hv_Key h := None)) (ctx\<lparr>TargetModelName := value\<rparr>)
         else put hs ctx)"

text \<open>\<open>hord\<close> is the order in which Go ranges over the headers.\<close>

type_synonym headerOrder = "(string \<rightharpoonup> string) \<Rightarrow> string list"

definition generateHeaders :: "headerOrder \<Rightarrow> RequestContext \<Rightarrow> (string \<times> string) list" where
  "generateHeaders hord ctx =
     [(DestinationEndpointKey, TargetEndpoint ctx)] @
     (if RequestSize ctx > 0 then [(''Content-Length'', strconv_Itoa (RequestSize ctx))] else []) @
     List.map_filter (\<lambda>k. map_option (Pair k) (rq_Headers (rc_Request ctx) k)) (hord (rq_Headers (rc_Request ctx)))"

definition generateMetadata :: "string \<Rightarrow> (string \<times> json) list" where
  "generateMetadata endpoint = [(DestinationEndpointNamespace, JObj [(DestinationEndpointKey, JStr endpoint)])]"

definition generateRequestHeaderResponse :: "headerOrder \<Rightarrow> RequestContext \<Rightarrow> ProcessingResponse" where
  "generateRequestHeaderResponse hord ctx = RespRequestHeaders (generateHeaders hord ctx) (generateMetadata (TargetEndpoint ctx))"

definition HandleRequestHeaders ::
  "headerOrder \<Rightarrow> (nat \<Rightarrow> nat) \<Rightarrow> NamespacedName list \<Rightarrow> time \<Rightarrow> HeaderValue list \<Rightarrow> bool \<Rightarrow> datastore \<Rightarrow> RequestContext \<Rightarrow> RequestContext \<times> eppError option" where
  "HandleRequestHeaders hord rnd ord now headers endOfStream ds ctx0 =
     (let ctx = ctx0\<lparr>RequestReceivedTimestamp := now\<rparr> in
      if endOfStream then
        (case GetRandomPod rnd ord ds of
           None \<Rightarrow> (ctx, Some (newError Internal ''no pods available in datastore''))
         | Some pod \<Rightarrow>
             (case PoolGet ds of
                Inl err \<Rightarrow> (ctx, Some (OtherError err))
              | Inr pool \<Rightarrow>
                  (let ctx1 = ctx\<lparr>TargetEndpoint := bp_Address pod @ '':'' @ strconv_Itoa (TargetPortNumber pool), RequestSize := 0\<rparr>
                   in (ctx1\<lparr>reqHeaderResp := Some (generateRequestHeaderResponse hord ctx1)\<rparr>, None))))
      else (fold header_step headers ctx, None))"

section \<open>Response messages\<close>

definition generateResponseHeaders :: "headerOrder \<Rightarrow> RequestContext \<Rightarrow> (string \<times> string) list" where
  "generateResponseHeaders hord ctx =
     [(''x-went-into-resp-headers'', ''true'')] @
     List.map_filter (\<lambda>k. map_option (Pair k) (rc_ResponseHeaders ctx k)) (hord (rc_ResponseHeaders ctx))"

definition generateResponseHeaderResponse :: "headerOrder \<Rightarrow> RequestContext \<Rightarrow> ProcessingResponse" where
  "generateResponseHeaderResponse hord ctx = RespResponseHeaders (generateResponseHeaders hord ctx)"

definition HandleResponseHeaders :: "'w Director \<Rightarrow> HeaderValue list \<Rightarrow> RequestContext \<Rightarrow> 'w \<Rightarrow> RequestContext \<times> eppError option \<times> 'w" where
  "HandleResponseHeaders d headers ctx w =
     HandleResponse d (fold (\<lambda>h c. c\<lparr>rc_ResponseHeaders := (rc_ResponseHeaders c)(hv_Key h \<mapsto> header_value h)\<rparr>) headers ctx) w"

text \<open>A type assertion that fails panics.\<close>

definition token_count :: "(string \<times> json) list \<Rightarrow> string \<Rightarrow> int go" where
  "token_count usg key = (case map_of usg key of Some (JNum x) \<Rightarrow> Ret (trunc_int x) | _ \<Rightarrow> Panic)"

definition read_usage :: "jmap \<Rightarrow> Usage \<Rightarrow> Usage go" where
  "read_usage response old =
     (case response ''usage'' of
        None \<Rightarrow> Ret old
      | Some JNull \<Rightarrow> Ret old
      | Some (JObj usg) \<Rightarrow>
          (case (token_count usg ''prompt_tokens'', token_count usg ''completion_tokens'', token_count usg ''total_tokens'') of
             (Ret p, Ret c, Ret t) \<Rightarrow> Ret \<lparr>PromptTokens = p, CompletionTokens = c, TotalTokens = t\<rparr>
           | _ \<Rightarrow> Panic)
      | Some _ \<Rightarrow> Panic)"

definition HandleResponseBody :: "(jmap \<Rightarrow> bytes option) \<Rightarrow> RequestContext \<Rightarrow> jmap \<Rightarrow> (RequestContext \<times> bool) go" where
  "HandleResponseBody marshal ctx response =
     (case marshal response of
        None \<Rightarrow> Ret (ctx, False)
      | Some responseBytes \<Rightarrow>
          (case read_usage response (rc_Usage ctx) of
             Panic \<Rightarrow> Panic
           | Ret usage \<Rightarrow>
               Ret (ctx\<lparr>rc_Usage := usage, ResponseSize := int (length responseBytes), ResponseComplete := True,
                        respBodyResp := generateResponseBodyResponses responseBytes True\<rparr>, True)))"

definition streamingRespPrefix :: string where "streamingRespPrefix = ''data: ''"
definition streamingEndMsg :: string where "streamingEndMsg = ''data: [DONE]''"

text \<open>\<open>unmarshalUsage\<close> decodes a line into the usage read so far.\<close>

definition parseRespForUsage :: "(string \<Rightarrow> Usage \<Rightarrow> Usage) \<Rightarrow> string \<Rightarrow> Usage" where
  "parseRespForUsage unmarshalUsage responseText =
     fold (\<lambda>line u.
         if \<not> str_HasPrefix line streamingRespPrefix then u
         else let content = str_TrimPrefix line streamingRespPrefix in
              if content = ''[DONE]'' then u else unmarshalUsage content u)
       (str_Split (CHR 0x0A) responseText) \<lparr>PromptTokens = 0, CompletionTokens = 0, TotalTokens = 0\<rparr>"

definition HandleResponseBodyModelStreaming :: "(string \<Rightarrow> Usage \<Rightarrow> Usage) \<Rightarrow> RequestContext \<Rightarrow> string \<Rightarrow> RequestContext" where
  "HandleResponseBodyModelStreaming unmarshalUsage ctx responseText =
     (if str_Contains responseText streamingEndMsg
      then ctx\<lparr>rc_Usage := parseRespForUsage unmarshalUsage responseText\<rparr> else ctx)"

end
