(* ===== verification/StreamProcess.thy ===== *)
theory StreamProcess
  imports StreamServer
begin

text \<open>
  The loop \<open>Process\<close> of the external processing server: one turn per message, the responses that
  become due in the order of the protocol, and the immediate response to an error.
\<close>

section \<open>Sending\<close>

text \<open>
  \<open>ok k\<close> tells whether the send number \<open>k\<close> of the stream succeeds. A stage gives the context, what
  has been sent, and whether to go on.
\<close>

type_synonym stage = "RequestContext \<times> ProcessingResponse list \<times> bool"

definition sendReqHeader :: "(nat \<Rightarrow> bool) \<Rightarrow> RequestContext \<Rightarrow> ProcessingResponse list \<Rightarrow> stage" where
  "sendReqHeader ok r sent =
     (case reqHeaderResp r of
        Some resp \<Rightarrow>
          if RequestState r = RequestReceived then
            (if ok (length sent) then (r\<lparr>RequestState := HeaderRequestResponseComplete\<rparr>, sent @ [resp], True) else (r, sent, False))
          else (r, sent, True)
      | None \<Rightarrow> (r, sent, True))"

fun send_all :: "(nat \<Rightarrow> bool) \<Rightarrow> ProcessingResponse list \<Rightarrow> ProcessingResponse list \<Rightarrow> ProcessingResponse list \<times> bool" where
  "send_all ok [] sent = (sent, True)"
| "send_all ok (resp # resps) sent = (if ok (length sent) then send_all ok resps (sent @ [resp]) else (sent, False))"

definition sendReqBody :: "(nat \<Rightarrow> bool) \<Rightarrow> RequestContext \<Rightarrow> ProcessingResponse list \<Rightarrow> stage" where
  "sendReqBody ok r sent =
     (if RequestState r = HeaderRequestResponseComplete \<and> length (reqBodyResp r) > 0 then
        (case send_all ok (reqBodyResp r) sent of
           (sent', True) \<Rightarrow> (r\<lparr>RequestState := BodyRequestResponsesComplete, RequestRunning := True, reqBodyResp := []\<rparr>, sent', True)
         | (sent', False) \<Rightarrow> (r, sent', False))
      else (r, sent, True))"

definition sendTrailer :: "StreamRequestState \<Rightarrow> ProcessingResponse option \<Rightarrow> (nat \<Rightarrow> bool) \<Rightarrow> RequestContext \<Rightarrow> ProcessingResponse list \<Rightarrow> stage" where
  "sendTrailer due trailer ok r sent =
     (case trailer of
        Some resp \<Rightarrow>
          if RequestState r = due then (if ok (length sent) then (r, sent @ [resp], True) else (r, sent, False)) else (r, sent, True)
      | None \<Rightarrow> (r, sent, True))"

definition sendRespHeader :: "(nat \<Rightarrow> bool) \<Rightarrow> RequestContext \<Rightarrow> ProcessingResponse list \<Rightarrow> stage" where
  "sendRespHeader ok r sent =
     (case respHeaderResp r of
        Some resp \<Rightarrow>
          if RequestState r = ResponseRecieved then
            (if ok (length sent) then (r\<lparr>RequestState := HeaderResponseResponseComplete\<rparr>, sent @ [resp], True) else (r, sent, False))
          else (r, sent, True)
      | None \<Rightarrow> (r, sent, True))"

definition ends_stream :: "ProcessingResponse \<Rightarrow> bool" where
  "ends_stream resp = (case resp of RespResponseBody c \<Rightarrow> cr_EndOfStream c | _ \<Rightarrow> False)"

fun send_resp_bodies :: "(nat \<Rightarrow> bool) \<Rightarrow> ProcessingResponse list \<Rightarrow> RequestContext \<Rightarrow> ProcessingResponse list \<Rightarrow> stage" where
  "send_resp_bodies ok [] r sent = (r\<lparr>respBodyResp := []\<rparr>, sent, True)"
| "send_resp_bodies ok (resp # resps) r sent =
     (if ok (length sent)
      then send_resp_bodies ok resps (if ends_stream resp then r\<lparr>RequestState := BodyResponseResponsesComplete\<rparr> else r) (sent @ [resp])
      else (r, sent, False))"

definition sendRespBody :: "(nat \<Rightarrow> bool) \<Rightarrow> RequestContext \<Rightarrow> ProcessingResponse list \<Rightarrow> stage" where
  "sendRespBody ok r sent =
     (if RequestState r = HeaderResponseResponseComplete \<and> length (respBodyResp r) > 0
      then send_resp_bodies ok (respBodyResp r) r sent else (r, sent, True))"

definition andThen :: "stage \<Rightarrow> (RequestContext \<Rightarrow> ProcessingResponse list \<Rightarrow> stage) \<Rightarrow> stage" where
  "andThen s f = (case s of (r, sent, True) \<Rightarrow> f r sent | (r, sent, False) \<Rightarrow> (r, sent, False))"

definition updateStateAndSendIfNeeded :: "(nat \<Rightarrow> bool) \<Rightarrow> RequestContext \<Rightarrow> ProcessingResponse list \<Rightarrow> stage" where
  "updateStateAndSendIfNeeded ok r sent =
     andThen (andThen (andThen (andThen (andThen (sendReqHeader ok r sent)
       (sendReqBody ok))
       (\<lambda>r. sendTrailer BodyRequestResponsesComplete (reqTrailerResp r) ok r))
       (sendRespHeader ok))
       (sendRespBody ok))
       (\<lambda>r. sendTrailer BodyResponseResponsesComplete (respTrailerResp r) ok r)"

definition error_text :: "eppError \<Rightarrow> string" where
  "error_text err = (case err of EppError e \<Rightarrow> Error_Error e | OtherError e \<Rightarrow> ''error'')"

definition buildErrResponse :: "eppError \<Rightarrow> ProcessingResponse option" where
  "buildErrResponse err =
     (let code = CanonicalCode err;
          body = error_text err
      in if code = InferencePoolResourceExhausted then Some (ImmediateResponse 429 body)
         else if code = Internal then Some (ImmediateResponse 500 body)
         else if code = ServiceUnavailable then Some (ImmediateResponse 503 body)
         else if code = BadRequest then Some (ImmediateResponse 400 body)
         else if code = BadConfiguration then Some (ImmediateResponse 404 body)
         else None)"

section \<open>The loop\<close>

datatype ProcessingRequest =
    MsgRequestHeaders "HeaderValue list" bool
  | MsgRequestBody bytes bool
  | MsgRequestTrailers
  | MsgResponseHeaders "HeaderValue list"
  | MsgResponseBody bytes bool
  | MsgResponseTrailers

text \<open>What surrounds the server: the codec, the orders of maps, the random numbers, the director and the success of sends.\<close>

record 'w env =
  env_unmarshal :: "bytes \<Rightarrow> jmap \<Rightarrow> jmap option"
  env_marshal :: "jmap \<Rightarrow> bytes option"
  env_unmarshalUsage :: "string \<Rightarrow> Usage \<Rightarrow> Usage"
  env_hord :: headerOrder
  env_rnd :: "nat \<Rightarrow> nat"
  env_ord :: "datastore \<Rightarrow> NamespacedName list"
  env_director :: "'w Director"
  env_sendOk :: "nat \<Rightarrow> bool"

record 'w conn =
  cn_ctx :: RequestContext
  cn_body :: bytes
  cn_responseBody :: jmap
  cn_ds :: datastore
  cn_w :: 'w

text \<open>A turn: an error to report, the state after it, a crash, or a call that never returns.\<close>

datatype 'w turn = Turn "eppError option" "'w conn" | Crash | Stuck

definition status_step :: "HeaderValue \<Rightarrow> RequestContext \<Rightarrow> RequestContext" where
  "status_step h ctx =
     (let value = raw_string h in
      if hv_Key h = ''status'' \<and> value \<noteq> ''200'' then ctx\<lparr>ResponseStatusCode := ModelServerError\<rparr>
      else if hv_Key h = ''content-type'' \<and> str_Contains value ''text/event-stream'' then ctx\<lparr>modelServerStreaming := True\<rparr>
      else ctx)"

definition process_request_body :: "'w env \<Rightarrow> bytes \<Rightarrow> bool \<Rightarrow> 'w conn \<Rightarrow> 'w turn" where
  "process_request_body env chunk endOfStream c =
     (let body = cn_body c @ chunk; c1 = c\<lparr>cn_body := body\<rparr>; ctx = cn_ctx c in
      if \<not> endOfStream then Turn None c1
      else case env_unmarshal env body (rq_Body (rc_Request ctx)) of
        None \<Rightarrow> Turn (Some (newError BadRequest ''Error unmarshaling request body'')) c1
      | Some m \<Rightarrow>
          (case HandleRequest (env_director env) (env_ord env (cn_ds c)) (ctx\<lparr>rc_Request := (rc_Request ctx)\<lparr>rq_Body := m\<rparr>\<rparr>) (cn_ds c) (cn_w c) of
             None \<Rightarrow> Stuck
           | Some Panic \<Rightarrow> Crash
           | Some (Ret (ctx1, Some err, ds, w)) \<Rightarrow> Turn (Some err) (c\<lparr>cn_body := [], cn_ctx := ctx1, cn_ds := ds, cn_w := w\<rparr>)
           | Some (Ret (ctx1, None, ds, w)) \<Rightarrow>
               (let c2 = c\<lparr>cn_body := [], cn_ctx := ctx1, cn_ds := ds, cn_w := w\<rparr> in
                case env_marshal env (rq_Body (rc_Request ctx1)) of
                  None \<Rightarrow> Turn None c2
                | Some requestBodyBytes \<Rightarrow>
                    (let ctx2 = ctx1\<lparr>RequestSize := int (length requestBodyBytes)\<rparr>;
                         ctx3 = ctx2\<lparr>reqHeaderResp := Some (generateRequestHeaderResponse (env_hord env) ctx2),
                                     reqBodyResp := generateRequestBodyResponses requestBodyBytes\<rparr>
                     in Turn None (c2\<lparr>cn_ctx := ctx3\<rparr>)))))"

definition process_response_body :: "'w env \<Rightarrow> time \<Rightarrow> bytes \<Rightarrow> bool \<Rightarrow> 'w conn \<Rightarrow> 'w turn" where
  "process_response_body env now chunk endOfStream c =
     (let ctx = cn_ctx c in
      if modelServerStreaming ctx then
        (let ctx1 = HandleResponseBodyModelStreaming (env_unmarshalUsage env) ctx (string_of chunk);
             ctx2 = (if endOfStream then ctx1\<lparr>ResponseCompleteTimestamp := now\<rparr> else ctx1)
         in Turn None (c\<lparr>cn_ctx := ctx2\<lparr>respBodyResp := generateResponseBodyResponses chunk endOfStream\<rparr>\<rparr>))
      else
        let body = cn_body c @ chunk; c1 = c\<lparr>cn_body := body\<rparr> in
        if \<not> endOfStream then Turn None c1
        else case env_unmarshal env body (cn_responseBody c) of
          None \<Rightarrow> Turn None (c1\<lparr>cn_ctx := ctx\<lparr>respBodyResp := generateResponseBodyResponses body True\<rparr>\<rparr>)
        | Some responseBody \<Rightarrow>
            (let c2 = c1\<lparr>cn_responseBody := responseBody\<rparr> in
             case HandleResponseBody (env_marshal env) ctx responseBody of
               Panic \<Rightarrow> Crash
             | Ret (ctx1, True) \<Rightarrow>
                 Turn None (c2\<lparr>cn_ctx := (if ResponseComplete ctx1 then ctx1\<lparr>ResponseCompleteTimestamp := now\<rparr> else ctx1)\<rparr>)
             | Ret (ctx1, False) \<Rightarrow> Turn None (c2\<lparr>cn_ctx := ctx1\<rparr>)))"

definition process_response_headers :: "'w env \<Rightarrow> HeaderValue list \<Rightarrow> 'w conn \<Rightarrow> 'w turn" where
  "process_response_headers env headers c =
     (let ctx1 = (fold status_step headers (cn_ctx c))\<lparr>RequestState := ResponseRecieved\<rparr> in
      case HandleResponseHeaders (env_director env) headers ctx1 (cn_w c) of
        (ctx2, err, w) \<Rightarrow>
          Turn None (c\<lparr>cn_ctx := ctx2\<lparr>respHeaderResp := Some (generateResponseHeaderResponse (env_hord env) ctx2)\<rparr>, cn_w := w\<rparr>))"

text \<open>A message comes with its filter metadata and the reading of the clock.\<close>

type_synonym message = "(string \<rightharpoonup> (string \<times> json) list) option \<times> time \<times> ProcessingRequest"

definition process_message :: "'w env \<Rightarrow> message \<Rightarrow> 'w conn \<Rightarrow> 'w turn" where
  "process_message env m c0 =
     (case m of (md, now, req) \<Rightarrow>
        (let ctx = (cn_ctx c0)\<lparr>rc_Request := (rc_Request (cn_ctx c0))\<lparr>rq_Metadata := ExtractMetadataValues md\<rparr>\<rparr>;
             c = c0\<lparr>cn_ctx := ctx\<rparr>
         in case req of
              MsgRequestHeaders headers endOfStream \<Rightarrow>
                (case HandleRequestHeaders (env_hord env) (env_rnd env) (env_ord env (cn_ds c)) now headers endOfStream (cn_ds c) ctx of
                   (ctx1, err) \<Rightarrow> Turn err (c\<lparr>cn_ctx := ctx1\<rparr>))
            | MsgRequestBody chunk endOfStream \<Rightarrow> process_request_body env chunk endOfStream c
            | MsgRequestTrailers \<Rightarrow> Turn None c
            | MsgResponseHeaders headers \<Rightarrow> process_response_headers env headers c
            | MsgResponseBody chunk endOfStream \<Rightarrow> process_response_body env now chunk endOfStream c
            | MsgResponseTrailers \<Rightarrow> Turn None c))"

text \<open>
  What one turn of the loop finds: the context cancelled, a result of \<open>Recv\<close> that is the end of the
  stream or an error, or a message.
\<close>

datatype event = CtxDone | RecvEOF | RecvCanceled | RecvError | Recv message

text \<open>How the loop ends: with or without an error for the proxy, by a crash, in a call that never returns, or it still waits.\<close>

datatype ending = Waiting | Returned bool | Crashed | Never

fun Process :: "'w env \<Rightarrow> event list \<Rightarrow> 'w conn \<Rightarrow> ProcessingResponse list \<Rightarrow> ending \<times> ProcessingResponse list" where
  "Process env [] c sent = (Waiting, sent)"
| "Process env (CtxDone # es) c sent = (Returned False, sent)"
| "Process env (RecvEOF # es) c sent = (Returned True, sent)"
| "Process env (RecvCanceled # es) c sent = (Returned True, sent)"
| "Process env (RecvError # es) c sent = (Returned False, sent)"
| "Process env (Recv m # es) c sent =
     (case process_message env m c of
        Crash \<Rightarrow> (Crashed, sent)
      | Stuck \<Rightarrow> (Never, sent)
      | Turn (Some err) c' \<Rightarrow>
          (case buildErrResponse err of
             None \<Rightarrow> (Returned False, sent)
           | Some resp \<Rightarrow> if env_sendOk env (length sent) then (Returned True, sent @ [resp]) else (Returned False, sent))
      | Turn None c' \<Rightarrow>
          (case updateStateAndSendIfNeeded (env_sendOk env) (cn_ctx c') sent of
             (ctx, sent', True) \<Rightarrow> Process env es (c'\<lparr>cn_ctx := ctx\<rparr>) sent'
           | (ctx, sent', False) \<Rightarrow> (Returned False, sent')))"

section \<open>The order of the responses\<close>

definition is_reqH :: "ProcessingResponse \<Rightarrow> bool" where "is_reqH r = (case r of RespRequestHeaders _ _ \<Rightarrow> True | _ \<Rightarrow> False)"
definition is_reqB :: "ProcessingResponse \<Rightarrow> bool" where "is_reqB r = (case r of RespRequestBody _ \<Rightarrow> True | _ \<Rightarrow> False)"
definition is_respH :: "ProcessingResponse \<Rightarrow> bool" where "is_respH r = (case r of RespResponseHeaders _ \<Rightarrow> True | _ \<Rightarrow> False)"
definition is_respB :: "ProcessingResponse \<Rightarrow> bool" where "is_respB r = (case r of RespResponseBody _ \<Rightarrow> True | _ \<Rightarrow> False)"
definition is_imm :: "ProcessingResponse \<Rightarrow> bool" where "is_imm r = (case r of ImmediateResponse _ _ \<Rightarrow> True | _ \<Rightarrow> False)"

text \<open>A part is empty, or one header followed by bodies.\<close>

definition part :: "(ProcessingResponse \<Rightarrow> bool) \<Rightarrow> (ProcessingResponse \<Rightarrow> bool) \<Rightarrow> ProcessingResponse list \<Rightarrow> bool" where
  "part H B xs \<longleftrightarrow> xs = [] \<or> (\<exists>h bs. xs = h # bs \<and> H h \<and> list_all B bs)"

definition well_ordered :: "ProcessingResponse list \<Rightarrow> bool" where
  "well_ordered sent \<longleftrightarrow> (\<exists>s1 s2 s3. sent = s1 @ s2 @ s3 \<and> part is_reqH is_reqB s1 \<and> part is_respH is_respB s2 \<and> part is_imm (\<lambda>_. False) s3)"

text \<open>The responses that wait in a context have the right kind; trailers are not answered.\<close>

definition typed :: "RequestContext \<Rightarrow> bool" where
  "typed r \<longleftrightarrow> pred_option is_reqH (reqHeaderResp r) \<and> list_all is_reqB (reqBodyResp r) \<and> reqTrailerResp r = None \<and>
     pred_option is_respH (respHeaderResp r) \<and> list_all is_respB (respBodyResp r) \<and> respTrailerResp r = None"

text \<open>What has been sent in a state, before and after the response headers have arrived.\<close>

definition phase :: "bool \<Rightarrow> RequestContext \<Rightarrow> ProcessingResponse list \<Rightarrow> bool" where
  "phase answered r sent \<longleftrightarrow>
     (if answered then
        RequestState r = ResponseRecieved \<and> part is_reqH is_reqB sent \<or>
        RequestState r \<in> {HeaderResponseResponseComplete, BodyResponseResponsesComplete} \<and>
          (\<exists>s1 s2. sent = s1 @ s2 \<and> s2 \<noteq> [] \<and> part is_reqH is_reqB s1 \<and> part is_respH is_respB s2)
      else
        RequestState r = RequestReceived \<and> sent = [] \<or>
        RequestState r \<in> {HeaderRequestResponseComplete, BodyRequestResponsesComplete} \<and> sent \<noteq> [] \<and> part is_reqH is_reqB sent)"

lemma phase_cong: "RequestState r' = RequestState r \<Longrightarrow> phase a r' sent = phase a r sent"
  by (simp add: phase_def)

lemma phase_respI:
  "part is_reqH is_reqB s1 \<Longrightarrow> part is_respH is_respB s2 \<Longrightarrow> s2 \<noteq> [] \<Longrightarrow>
   RequestState r \<in> {HeaderResponseResponseComplete, BodyResponseResponsesComplete} \<Longrightarrow> phase True r (s1 @ s2)"
  by (auto simp: phase_def)

definition ordered2 :: "ProcessingResponse list \<Rightarrow> bool" where
  "ordered2 sent \<longleftrightarrow> (\<exists>s1 s2. sent = s1 @ s2 \<and> part is_reqH is_reqB s1 \<and> part is_respH is_respB s2)"

lemma part_append: "part H B xs \<Longrightarrow> xs \<noteq> [] \<Longrightarrow> list_all B ys \<Longrightarrow> part H B (xs @ ys)"
  by (auto simp: part_def)

lemma phase_ordered: "phase a r sent \<Longrightarrow> ordered2 sent"
proof -
  assume p: "phase a r sent"
  have e: "part H B []" for H B by (simp add: part_def)
  show ?thesis
  proof (cases "\<exists>s1 s2. sent = s1 @ s2 \<and> s2 \<noteq> [] \<and> part is_reqH is_reqB s1 \<and> part is_respH is_respB s2")
    case False
    then have "part is_reqH is_reqB sent" using p e by (auto simp: phase_def split: if_splits)
    then show ?thesis unfolding ordered2_def using e by (metis append_Nil2)
  qed (auto simp: ordered2_def)
qed

definition stage_ok :: "bool \<Rightarrow> stage \<Rightarrow> bool" where
  "stage_ok a s \<longleftrightarrow> (case s of (r, sent, go) \<Rightarrow> typed r \<and> ordered2 sent \<and> (go \<longrightarrow> phase a r sent))"

lemma stage_okI: "typed r \<Longrightarrow> phase a r sent \<Longrightarrow> stage_ok a (r, sent, b)"
  by (simp add: stage_ok_def phase_ordered)

lemma andThen_ok:
  assumes "stage_ok a s" "\<And>r sent. typed r \<Longrightarrow> phase a r sent \<Longrightarrow> stage_ok a (f r sent)"
  shows "stage_ok a (andThen s f)"
proof -
  obtain r sent b where s: "s = (r, sent, b)" by (cases s)
  then show ?thesis using assms by (cases b) (auto simp: andThen_def stage_ok_def)
qed

lemma send_all_split: "send_all ok rs sent = (sent', b) \<Longrightarrow> \<exists>k. sent' = sent @ take k rs \<and> (b \<longrightarrow> sent' = sent @ rs)"
proof (induction ok rs sent rule: send_all.induct)
  case (2 ok x xs sent)
  show ?case
  proof (cases "ok (length sent)")
    case True
    then obtain k where "sent' = (sent @ [x]) @ take k xs \<and> (b \<longrightarrow> sent' = (sent @ [x]) @ xs)" using 2 by auto
    then show ?thesis by (intro exI [of _ "Suc k"]) auto
  next
    case False
    then show ?thesis using "2.prems" by (intro exI [of _ 0]) auto
  qed
qed simp

lemma list_all_take: "list_all P xs \<Longrightarrow> list_all P (take k xs)"
  by (auto simp: list_all_iff dest: in_set_takeD)

lemma sendReqHeader_ok:
  assumes "typed r" "phase a r sent"
  shows "stage_ok a (sendReqHeader ok r sent)"
proof (cases "reqHeaderResp r")
  case (Some h)
  show ?thesis
  proof (cases "RequestState r = RequestReceived")
    case True
    then have p: "\<not> a" "sent = []" using assms(2) by (auto simp: phase_def split: if_splits)
    have "part is_reqH is_reqB [h]" using assms(1) Some by (simp add: part_def typed_def)
    then have "phase a (r\<lparr>RequestState := HeaderRequestResponseComplete\<rparr>) (sent @ [h])" using p by (auto simp: phase_def)
    then show ?thesis using Some True assms by (auto simp: sendReqHeader_def intro!: stage_okI) (simp add: typed_def)
  qed (use Some assms in \<open>auto simp: sendReqHeader_def intro: stage_okI\<close>)
qed (use assms in \<open>auto simp: sendReqHeader_def intro: stage_okI\<close>)

lemma sendTrailer_ok: "typed r \<Longrightarrow> phase a r sent \<Longrightarrow> stage_ok a (sendTrailer due (reqTrailerResp r) ok r sent)"
  "typed r \<Longrightarrow> phase a r sent \<Longrightarrow> stage_ok a (sendTrailer due (respTrailerResp r) ok r sent)"
  by (auto simp: sendTrailer_def typed_def intro!: stage_okI)

lemma sendReqBody_ok:
  assumes "typed r" "phase a r sent"
  shows "stage_ok a (sendReqBody ok r sent)"
proof (cases "RequestState r = HeaderRequestResponseComplete \<and> length (reqBodyResp r) > 0")
  case True
  then have p: "\<not> a" "sent \<noteq> []" "part is_reqH is_reqB sent" using assms(2) by (auto simp: phase_def split: if_splits)
  have t: "list_all is_reqB (reqBodyResp r)" using assms(1) by (simp add: typed_def)
  obtain sent' b where s: "send_all ok (reqBodyResp r) sent = (sent', b)" by force
  obtain k where k: "sent' = sent @ take k (reqBodyResp r)" "b \<Longrightarrow> sent' = sent @ reqBodyResp r" using send_all_split [OF s] by blast
  have "part is_reqH is_reqB sent'" "sent' \<noteq> []" using part_append [OF p(3,2) list_all_take [OF t]] k(1) p(2) by auto
  moreover have "part is_respH is_respB []" by (simp add: part_def)
  ultimately show ?thesis using True s p(1) assms(1)
    by (cases b) (auto simp: sendReqBody_def stage_ok_def phase_def ordered2_def typed_def)
qed (use assms in \<open>auto simp: sendReqBody_def intro: stage_okI\<close>)

lemma sendRespHeader_ok:
  assumes "typed r" "phase a r sent"
  shows "stage_ok a (sendRespHeader ok r sent)"
proof (cases "respHeaderResp r")
  case (Some h)
  show ?thesis
  proof (cases "RequestState r = ResponseRecieved")
    case True
    then have p: "a" "part is_reqH is_reqB sent" using assms(2) by (auto simp: phase_def split: if_splits)
    have "part is_respH is_respB [h]" using assms(1) Some by (simp add: part_def typed_def)
    then have "phase a (r\<lparr>RequestState := HeaderResponseResponseComplete\<rparr>) (sent @ [h])" using p by (auto simp: phase_def)
    then show ?thesis using Some True assms by (auto simp: sendRespHeader_def intro!: stage_okI) (simp add: typed_def)
  qed (use Some assms in \<open>auto simp: sendRespHeader_def intro: stage_okI\<close>)
qed (use assms in \<open>auto simp: sendRespHeader_def intro: stage_okI\<close>)

lemma send_resp_bodies_ok:
  "\<lbrakk>typed r; phase True r sent; list_all is_respB rs; RequestState r \<noteq> ResponseRecieved\<rbrakk> \<Longrightarrow> stage_ok True (send_resp_bodies ok rs r sent)"
proof (induction ok rs r sent rule: send_resp_bodies.induct)
  case (1 ok r sent)
  then show ?case using phase_cong [of "r\<lparr>respBodyResp := []\<rparr>" r True sent] by (auto simp: typed_def intro!: stage_okI)
next
  case (2 ok x xs r sent)
  let ?r = "if ends_stream x then r\<lparr>RequestState := BodyResponseResponsesComplete\<rparr> else r"
  obtain s1 s2 where s: "sent = s1 @ s2" "s2 \<noteq> []" "part is_reqH is_reqB s1" "part is_respH is_respB s2" "RequestState r \<in> {HeaderResponseResponseComplete, BodyResponseResponsesComplete}"
    using "2.prems"(2,4) by (auto simp: phase_def)
  have "part is_respH is_respB (s2 @ [x])" using part_append [OF s(4,2), of "[x]"] "2.prems"(3) by simp
  then have "phase True ?r (sent @ [x])" using phase_respI [OF s(3), of "s2 @ [x]" ?r] s(1,5) by auto
  moreover have "typed ?r" using "2.prems"(1) by (simp add: typed_def)
  ultimately show ?case using 2 s(5) by (auto intro: stage_okI)
qed

lemma sendRespBody_ok:
  assumes "typed r" "phase a r sent"
  shows "stage_ok a (sendRespBody ok r sent)"
proof (cases "RequestState r = HeaderResponseResponseComplete \<and> length (respBodyResp r) > 0")
  case True
  then have "a" using assms(2) by (auto simp: phase_def split: if_splits)
  then show ?thesis using True assms send_resp_bodies_ok [of r sent "respBodyResp r" ok] by (simp add: sendRespBody_def typed_def)
qed (use assms in \<open>auto simp: sendRespBody_def intro: stage_okI\<close>)

lemma updateState_ok: "typed r \<Longrightarrow> phase a r sent \<Longrightarrow> stage_ok a (updateStateAndSendIfNeeded ok r sent)"
  unfolding updateStateAndSendIfNeeded_def
  by (intro andThen_ok sendReqHeader_ok sendReqBody_ok sendTrailer_ok sendRespHeader_ok sendRespBody_ok)

text \<open>What the director and the header loops leave alone.\<close>

definition keeps :: "RequestContext \<Rightarrow> RequestContext \<Rightarrow> bool" where
  "keeps r r' \<longleftrightarrow> RequestState r' = RequestState r \<and> reqHeaderResp r' = reqHeaderResp r \<and> reqBodyResp r' = reqBodyResp r \<and>
     reqTrailerResp r' = reqTrailerResp r \<and> respHeaderResp r' = respHeaderResp r \<and> respBodyResp r' = respBodyResp r \<and>
     respTrailerResp r' = respTrailerResp r"

lemma keeps_typed: "keeps r r' \<Longrightarrow> typed r' = typed r"
  by (simp add: keeps_def typed_def)

lemma keeps_trans: "keeps r1 r2 \<Longrightarrow> keeps r2 r3 \<Longrightarrow> keeps r1 r3"
  by (simp add: keeps_def)

lemma prepareRequest_keeps: "prepareRequest d ds ctx request result w = Ret (ctx', e, w') \<Longrightarrow> keeps ctx ctx'"
  by (auto simp: prepareRequest_def keeps_def Let_def split: if_splits sum.splits option.splits list.splits)

lemma HandleRequest_keeps:
  assumes "HandleRequest d ord ctx ds w = Some (Ret (ctx', e, ds', w'))"
  shows "keeps ctx ctx'"
proof -
  have p: "keeps ctx (ctx_parsed ctx)" "keeps ctx ((ctx_parsed ctx)\<lparr>SchedulingRequest := x\<rparr>)" "keeps ctx (ctx\<lparr>IncomingModelName := y\<rparr>)" for x y
    by (simp_all add: keeps_def ctx_parsed_def)
  show ?thesis using assms
    by (auto simp: HandleRequest_def Let_def split_def p split: if_splits sum.splits option.splits go.splits prod.splits
        dest!: prepareRequest_keeps intro: keeps_trans [OF p(2)])
qed

lemma fold_keeps:
  assumes "\<And>x r. keeps r (f x r)"
  shows "keeps r (fold f xs r)"
proof (induction xs arbitrary: r)
  case Nil
  then show ?case by (simp add: keeps_def)
next
  case (Cons x xs)
  then show ?case using keeps_trans [OF assms Cons.IH] by simp
qed

lemma generated_typed:
  "is_reqH (generateRequestHeaderResponse hord ctx)" "list_all is_reqB (generateRequestBodyResponses b)"
  "is_respH (generateResponseHeaderResponse hord ctx)" "list_all is_respB (generateResponseBodyResponses b eos)"
  by (auto simp: generateRequestHeaderResponse_def is_reqH_def generateRequestBodyResponses_def is_reqB_def list_all_iff
      generateResponseHeaderResponse_def is_respH_def generateResponseBodyResponses_def is_respB_def)

lemma process_request_body_typed:
  assumes "process_request_body env chunk eos c = Turn err c'" "typed (cn_ctx c)"
  shows "typed (cn_ctx c') \<and> RequestState (cn_ctx c') = RequestState (cn_ctx c)"
proof -
  have h: "typed ctx1 \<and> RequestState ctx1 = RequestState (cn_ctx c)"
    if "HandleRequest d ord ((cn_ctx c)\<lparr>rc_Request := x\<rparr>) ds w = Some (Ret (ctx1, e, ds', w'))" for d ord x ds w ctx1 e ds' w'
  proof -
    have "keeps (cn_ctx c) ((cn_ctx c)\<lparr>rc_Request := x\<rparr>)" by (simp add: keeps_def)
    then have "keeps (cn_ctx c) ctx1" by (rule keeps_trans) (rule HandleRequest_keeps [OF that])
    then show ?thesis using keeps_typed [of "cn_ctx c" ctx1] assms(2) by (simp add: keeps_def)
  qed
  show ?thesis
  proof (cases "eos \<and> env_unmarshal env (cn_body c @ chunk) (rq_Body (rc_Request (cn_ctx c))) \<noteq> None")
    case True
    then obtain m where m: "env_unmarshal env (cn_body c @ chunk) (rq_Body (rc_Request (cn_ctx c))) = Some m" by auto
    let ?H = "HandleRequest (env_director env) (env_ord env (cn_ds c)) ((cn_ctx c)\<lparr>rc_Request := (rc_Request (cn_ctx c))\<lparr>rq_Body := m\<rparr>\<rparr>) (cn_ds c) (cn_w c)"
    obtain ctx1 e ds w where H: "?H = Some (Ret (ctx1, e, ds, w))"
      using assms(1) True m by (auto simp: process_request_body_def Let_def split: option.splits go.splits)
    show ?thesis using assms(1) True m H h [OF H]
      by (cases e) (auto simp: process_request_body_def Let_def typed_def generated_typed split: option.splits)
  qed (use assms in \<open>auto simp: process_request_body_def Let_def split: if_splits\<close>)
qed

lemma process_response_body_typed:
  assumes "process_response_body env now chunk eos c = Turn err c'" "typed (cn_ctx c)"
  shows "typed (cn_ctx c') \<and> RequestState (cn_ctx c') = RequestState (cn_ctx c) \<and> err = None"
  using assms
  by (auto simp: process_response_body_def HandleResponseBodyModelStreaming_def HandleResponseBody_def Let_def typed_def generated_typed
      split: if_splits option.splits go.splits prod.splits bool.splits)

lemma process_response_headers_typed:
  assumes "process_response_headers env headers c = Turn err c'" "typed (cn_ctx c)"
  shows "typed (cn_ctx c') \<and> RequestState (cn_ctx c') = ResponseRecieved"
proof -
  let ?f = "\<lambda>h r. r\<lparr>rc_ResponseHeaders := (rc_ResponseHeaders r)(hv_Key h \<mapsto> header_value h)\<rparr>"
  have k: "keeps r (status_step h r)" "keeps r (?f h r)" for h r by (auto simp: keeps_def status_step_def Let_def)
  have "keeps (cn_ctx c) (fold status_step headers (cn_ctx c))" by (rule fold_keeps) (rule k(1))
  moreover have "keeps r (fold ?f headers r)" for r by (rule fold_keeps) (rule k(2))
  ultimately show ?thesis using assms
    by (auto simp: process_response_headers_def HandleResponseHeaders_def HandleResponse_def Let_def typed_def keeps_def generated_typed)
qed

lemma process_message_typed:
  assumes "process_message env (md, now, req) c = Turn err c'" "typed (cn_ctx c)"
  shows "typed (cn_ctx c') \<and> RequestState (cn_ctx c') = (case req of MsgResponseHeaders _ \<Rightarrow> ResponseRecieved | _ \<Rightarrow> RequestState (cn_ctx c))"
proof -
  let ?c = "c\<lparr>cn_ctx := (cn_ctx c)\<lparr>rc_Request := (rc_Request (cn_ctx c))\<lparr>rq_Metadata := ExtractMetadataValues md\<rparr>\<rparr>\<rparr>"
  have t: "typed (cn_ctx ?c)" "RequestState (cn_ctx ?c) = RequestState (cn_ctx c)" using assms(2) by (simp_all add: typed_def)
  show ?thesis
  proof (cases req)
    case (MsgRequestHeaders headers eos)
    have k: "keeps r (header_step h r)" for h r by (auto simp: keeps_def header_step_def Let_def)
    have "keeps r (fold header_step headers r)" for r by (rule fold_keeps) (rule k)
    then show ?thesis using assms(1) t MsgRequestHeaders
      by (auto simp: process_message_def HandleRequestHeaders_def Let_def typed_def keeps_def generated_typed
          split: if_splits option.splits sum.splits)
  next
    case (MsgRequestBody b eos)
    then show ?thesis using assms(1) process_request_body_typed [of env b eos ?c err c'] t by (simp add: process_message_def)
  next
    case (MsgResponseHeaders headers)
    then show ?thesis using assms(1) process_response_headers_typed [of env headers ?c err c'] t by (simp add: process_message_def)
  next
    case (MsgResponseBody b eos)
    then show ?thesis using assms(1) process_response_body_typed [of env now b eos ?c err c'] t by (simp add: process_message_def)
  qed (use assms(1) t in \<open>auto simp: process_message_def\<close>)
qed

lemma buildErrResponse_imm: "buildErrResponse err = Some resp \<Longrightarrow> is_imm resp"
  by (auto simp: buildErrResponse_def Let_def is_imm_def split: if_splits)

lemma ordered2_well: "ordered2 sent \<Longrightarrow> well_ordered sent"
  unfolding ordered2_def well_ordered_def by (metis append_Nil2 part_def)

lemma ordered2_imm: "ordered2 sent \<Longrightarrow> is_imm resp \<Longrightarrow> well_ordered (sent @ [resp])"
proof -
  assume "ordered2 sent" "is_imm resp"
  then obtain s1 s2 where "sent = s1 @ s2" "part is_reqH is_reqB s1" "part is_respH is_respB s2" by (auto simp: ordered2_def)
  moreover have "part is_imm (\<lambda>_. False) [resp]" using \<open>is_imm resp\<close> by (simp add: part_def)
  ultimately have "sent @ [resp] = s1 @ s2 @ [resp] \<and> part is_reqH is_reqB s1 \<and> part is_respH is_respB s2 \<and> part is_imm (\<lambda>_. False) [resp]" by simp
  then show ?thesis unfolding well_ordered_def by blast
qed

definition answers :: "event \<Rightarrow> bool" where
  "answers e = (case e of Recv (_, _, MsgResponseHeaders _) \<Rightarrow> True | _ \<Rightarrow> False)"

lemma process_message_phase:
  assumes "process_message env m c = Turn err c'" "typed (cn_ctx c)" "phase a (cn_ctx c) sent" "answers (Recv m) \<Longrightarrow> \<not> a"
  shows "typed (cn_ctx c') \<and> phase (a \<or> answers (Recv m)) (cn_ctx c') sent"
proof -
  obtain md now req where m: "m = (md, now, req)" by (cases m)
  note t = process_message_typed [OF assms(1) [unfolded m] assms(2)]
  show ?thesis
  proof (cases "answers (Recv m)")
    case True
    then have "RequestState (cn_ctx c') = ResponseRecieved" using t m by (auto simp: answers_def split: ProcessingRequest.splits)
    moreover have "part is_reqH is_reqB sent" using assms(3,4) True by (auto simp: phase_def part_def)
    ultimately show ?thesis using t True by (simp add: phase_def)
  next
    case False
    then have "RequestState (cn_ctx c') = RequestState (cn_ctx c)" using t m by (auto simp: answers_def split: ProcessingRequest.splits)
    then show ?thesis using t False assms(3) phase_cong [of "cn_ctx c'" "cn_ctx c" a sent] by simp
  qed
qed

lemma Process_ordered:
  "\<lbrakk>typed (cn_ctx c); phase a (cn_ctx c) sent; length (filter answers es) + of_bool a \<le> 1\<rbrakk> \<Longrightarrow> well_ordered (snd (Process env es c sent))"
proof (induction es arbitrary: c a sent)
  case Nil
  then show ?case by (simp add: ordered2_well phase_ordered)
next
  case (Cons e es)
  note o2 = phase_ordered [OF Cons.prems(2)]
  show ?case
  proof (cases e)
    case (Recv m)
    show ?thesis
    proof (cases "process_message env m c")
      case (Turn err c')
      have "answers (Recv m) \<Longrightarrow> \<not> a" using Cons.prems(3) Recv by auto
      note t = process_message_phase [OF Turn Cons.prems(1,2) this]
      show ?thesis
      proof (cases err)
        case (Some x)
        then show ?thesis using Recv Turn o2 by (auto simp: ordered2_well ordered2_imm buildErrResponse_imm split: option.splits)
      next
        case None
        obtain ctx sent' b where u: "updateStateAndSendIfNeeded (env_sendOk env) (cn_ctx c') sent = (ctx, sent', b)" by (metis prod_cases3)
        have s: "typed ctx" "ordered2 sent'" "b \<Longrightarrow> phase (a \<or> answers (Recv m)) ctx sent'"
          using updateState_ok [of "cn_ctx c'" "a \<or> answers (Recv m)" sent "env_sendOk env"] t u by (auto simp: stage_ok_def)
        have "length (filter answers es) + of_bool (a \<or> answers (Recv m)) \<le> 1" using Cons.prems(3) Recv by (auto split: if_splits)
        then show ?thesis using Recv Turn None u s Cons.IH [of "c'\<lparr>cn_ctx := ctx\<rparr>" "a \<or> answers (Recv m)" sent']
          by (cases b) (auto simp: ordered2_well)
      qed
    qed (use Recv o2 in \<open>auto simp: ordered2_well\<close>)
  qed (use o2 in \<open>auto simp: ordered2_well\<close>)
qed


definition wEnv :: "unit env" where
  "wEnv = \<lparr>env_unmarshal = (\<lambda>b m. if b = [1, 2, 3] then None else Some [''usage'' \<mapsto> JObj []]), env_marshal = (\<lambda>m. Some [123, 125]),
     env_unmarshalUsage = (\<lambda>s u. u), env_hord = (\<lambda>m. []), env_rnd = (\<lambda>n. 0), env_ord = (\<lambda>ds. [pod_key (wCore ''a'')]),
     env_director = wDirector, env_sendOk = (\<lambda>n. True)\<rparr>"

definition wConn :: "unit conn" where
  "wConn = \<lparr>cn_ctx = newContext, cn_body = [], cn_responseBody = Map.empty, cn_ds = wStore, cn_w = ()\<rparr>"


section \<open>What the client gets\<close>

definition streams :: "HeaderValue list \<Rightarrow> bool" where
  "streams headers \<longleftrightarrow> (\<exists>h\<in>set headers. hv_Key h = ''content-type'' \<and> str_Contains (raw_string h) ''text/event-stream'')"

lemma status_steps_streaming: "modelServerStreaming (fold status_step hs ctx) \<longleftrightarrow> modelServerStreaming ctx \<or> streams hs"
proof (induction hs arbitrary: ctx)
  case (Cons h hs)
  have "modelServerStreaming (status_step h ctx) \<longleftrightarrow> modelServerStreaming ctx \<or> streams [h]"
    by (auto simp: status_step_def Let_def streams_def)
  then show ?case using Cons.IH [of "status_step h ctx"] by (auto simp: streams_def)
qed (simp add: streams_def)

text \<open>A context in which only response bodies can become due.\<close>

definition answering :: "RequestContext \<Rightarrow> bool" where
  "answering r \<longleftrightarrow> RequestState r = HeaderResponseResponseComplete \<and> reqTrailerResp r = None \<and> respTrailerResp r = None"

lemma send_resp_bodies_all:
  "\<forall>n. ok n \<Longrightarrow> send_resp_bodies ok rs r sent =
     (r\<lparr>RequestState := (if list_ex ends_stream rs then BodyResponseResponsesComplete else RequestState r), respBodyResp := []\<rparr>, sent @ rs, True)"
  by (induction ok rs r sent rule: send_resp_bodies.induct) auto

lemma updateState_bodies:
  assumes "answering r" "\<forall>n. ok n"
  shows "updateStateAndSendIfNeeded ok r sent =
    (r\<lparr>RequestState := (if list_ex ends_stream (respBodyResp r) then BodyResponseResponsesComplete else HeaderResponseResponseComplete), respBodyResp := []\<rparr>,
     sent @ respBodyResp r, True)"
proof -
  have h: "sendReqHeader ok r sent = (r, sent, True)" "sendReqBody ok r sent = (r, sent, True)" "sendRespHeader ok r sent = (r, sent, True)"
    "reqTrailerResp r = None" "respTrailerResp r = None" "RequestState r = HeaderResponseResponseComplete"
    using assms(1) by (auto simp: answering_def sendReqHeader_def sendReqBody_def sendRespHeader_def split: option.splits)
  have "sendRespBody ok r sent = (r\<lparr>RequestState := (if list_ex ends_stream (respBodyResp r) then BodyResponseResponsesComplete else HeaderResponseResponseComplete), respBodyResp := []\<rparr>,
     sent @ respBodyResp r, True)"
    using h(6) send_resp_bodies_all [OF assms(2), of "respBodyResp r" r sent] by (auto simp: sendRespBody_def)
  then show ?thesis using h by (simp add: updateStateAndSendIfNeeded_def andThen_def sendTrailer_def)
qed

lemma generateResponseBody_ok:
  "\<exists>rs. generateResponseBodyResponses b eos = map RespResponseBody rs \<and> concat (map cr_Body rs) = b \<and> rs \<noteq> [] \<and>
     map cr_EndOfStream rs = replicate (length rs - 1) False @ [eos]"
proof -
  have "0 < bodyByteLimit" by (simp add: bodyByteLimit_def)
  from buildCommonResponses_ok [OF this, of b eos] show ?thesis by (auto simp: generateResponseBodyResponses_def)
qed

lemma ends_stream_iff: "list_ex ends_stream (generateResponseBodyResponses b eos) \<longleftrightarrow> eos"
proof -
  obtain rs where rs: "generateResponseBodyResponses b eos = map RespResponseBody rs" "map cr_EndOfStream rs = replicate (length rs - 1) False @ [eos]"
    using generateResponseBody_ok by blast
  have "list_ex ends_stream (map RespResponseBody rs) = list_ex id (map cr_EndOfStream rs)" by (simp add: list_ex_iff ends_stream_def)
  then show ?thesis using rs by (auto simp: list_ex_iff)
qed

lemma stream_body_step:
  assumes "modelServerStreaming (cn_ctx c)" "answering (cn_ctx c)" "\<forall>n. env_sendOk env n"
  shows "\<exists>c'. Process env (Recv (md, now, MsgResponseBody b eos) # es) c sent = Process env es c' (sent @ generateResponseBodyResponses b eos) \<and>
    modelServerStreaming (cn_ctx c') \<and> (\<not> eos \<longrightarrow> answering (cn_ctx c'))"
proof -
  obtain ctx where m: "process_message env (md, now, MsgResponseBody b eos) c = Turn None (c\<lparr>cn_ctx := ctx\<rparr>)"
    and ctx: "modelServerStreaming ctx" "answering ctx" "respBodyResp ctx = generateResponseBodyResponses b eos"
    using assms(1,2) by (auto simp: process_message_def process_response_body_def Let_def HandleResponseBodyModelStreaming_def answering_def)
  show ?thesis using m ctx updateState_bodies [OF ctx(2) assms(3)]
    by (intro exI [of _ "c\<lparr>cn_ctx := ctx\<lparr>RequestState := (if eos then BodyResponseResponsesComplete else HeaderResponseResponseComplete), respBodyResp := []\<rparr>\<rparr>"] conjI)
       (simp_all add: ends_stream_iff answering_def)
qed

text \<open>The messages that carry \<open>bs\<close> and then \<open>b\<close> as the body of the response.\<close>

definition body_events :: "((string \<rightharpoonup> (string \<times> json) list) option \<times> time \<times> bytes) list \<Rightarrow> time \<Rightarrow> bytes \<Rightarrow> event list" where
  "body_events bs now b = map (\<lambda>(md, t, x). Recv (md, t, MsgResponseBody x False)) bs @ [Recv (None, now, MsgResponseBody b True)]"

definition carries :: "bytes \<Rightarrow> CommonResponse list \<Rightarrow> bool" where
  "carries b rs \<longleftrightarrow> concat (map cr_Body rs) = b \<and> rs \<noteq> [] \<and> map cr_EndOfStream rs = replicate (length rs - 1) False @ [True]"

lemma generate_carries: "\<exists>rs. generateResponseBodyResponses b True = map RespResponseBody rs \<and> carries b rs"
  using generateResponseBody_ok [of b True] by (auto simp: carries_def)

lemma carries_append:
  assumes "map cr_EndOfStream xs = replicate (length xs - 1) False @ [False]" "xs \<noteq> []" "carries b rs"
  shows "carries (concat (map cr_Body xs) @ b) (xs @ rs)"
proof -
  obtain n where n: "length xs = Suc n" using assms(2) by (cases xs) auto
  obtain k where k: "length rs = Suc k" using assms(3) by (cases rs) (auto simp: carries_def)
  have "map cr_EndOfStream xs = replicate (Suc n) False" using assms(1) n by (simp add: replicate_append_same)
  moreover have "map cr_EndOfStream rs = replicate k False @ [True]" using assms(3) k by (simp add: carries_def)
  ultimately show ?thesis using assms(3) n k by (simp add: carries_def replicate_add)
qed

lemma stream_bodies:
  "\<lbrakk>modelServerStreaming (cn_ctx c); answering (cn_ctx c); \<forall>n. env_sendOk env n\<rbrakk> \<Longrightarrow>
   \<exists>rs. Process env (body_events bs now b) c sent = (Waiting, sent @ map RespResponseBody rs) \<and> carries (concat (map (\<lambda>(md, t, x). x) bs) @ b) rs"
proof (induction bs arbitrary: c sent)
  case Nil
  then show ?case using stream_body_step [OF Nil, of None now b True "[]" sent] generate_carries [of b] by (auto simp: body_events_def)
next
  case (Cons m bs)
  obtain md t x where m: "m = (md, t, x)" by (cases m)
  obtain c' where c': "Process env (Recv (md, t, MsgResponseBody x False) # body_events bs now b) c sent =
      Process env (body_events bs now b) c' (sent @ generateResponseBodyResponses x False)" "modelServerStreaming (cn_ctx c')" "answering (cn_ctx c')"
    using stream_body_step [OF Cons.prems, of md t x False "body_events bs now b" sent] by auto
  obtain xs where xs: "generateResponseBodyResponses x False = map RespResponseBody xs" "concat (map cr_Body xs) = x" "xs \<noteq> []"
    "map cr_EndOfStream xs = replicate (length xs - 1) False @ [False]" using generateResponseBody_ok by blast
  obtain rs where rs: "Process env (body_events bs now b) c' (sent @ map RespResponseBody xs) = (Waiting, (sent @ map RespResponseBody xs) @ map RespResponseBody rs)"
    "carries (concat (map (\<lambda>(md, t, x). x) bs) @ b) rs" using Cons.IH [OF c'(2,3) Cons.prems(3)] by blast
  show ?case using c'(1) rs(1) xs(1,2) carries_append [OF xs(4,3) rs(2)] m by (intro exI [of _ "xs @ rs"]) (simp add: body_events_def)
qed

lemma response_headers_step:
  assumes "reqTrailerResp (cn_ctx c) = None" "respTrailerResp (cn_ctx c) = None" "respBodyResp (cn_ctx c) = []" "\<forall>n. env_sendOk env n"
  shows "\<exists>c' hs. Process env (Recv (md, now, MsgResponseHeaders headers) # es) c sent = Process env es c' (sent @ [RespResponseHeaders hs]) \<and>
    answering (cn_ctx c') \<and> modelServerStreaming (cn_ctx c') = (modelServerStreaming (cn_ctx c) \<or> streams headers) \<and> respBodyResp (cn_ctx c') = [] \<and>
    cn_body c' = cn_body c \<and> cn_responseBody c' = cn_responseBody c"
proof -
  let ?f = "\<lambda>h r. r\<lparr>rc_ResponseHeaders := (rc_ResponseHeaders r)(hv_Key h \<mapsto> header_value h)\<rparr>"
  let ?c0 = "(cn_ctx c)\<lparr>rc_Request := (rc_Request (cn_ctx c))\<lparr>rq_Metadata := ExtractMetadataValues md\<rparr>\<rparr>"
  have k: "keeps r (status_step h r)" "keeps r (?f h r)" for h r by (auto simp: keeps_def status_step_def Let_def)
  have k1: "keeps ?c0 (fold status_step headers ?c0)" by (rule fold_keeps) (rule k(1))
  have k2: "keeps r (fold ?f headers r)" for r by (rule fold_keeps) (rule k(2))
  have ms: "modelServerStreaming (fold ?f xs r) = modelServerStreaming r" for xs r by (induction xs arbitrary: r) simp_all
  obtain ctx w where m: "process_message env (md, now, MsgResponseHeaders headers) c = Turn None (c\<lparr>cn_ctx := ctx, cn_w := w\<rparr>)"
    and s: "RequestState ctx = ResponseRecieved" "reqTrailerResp ctx = None" "respTrailerResp ctx = None" "respBodyResp ctx = []"
      "modelServerStreaming ctx = (modelServerStreaming (cn_ctx c) \<or> streams headers)" and
    h: "\<exists>hs. respHeaderResp ctx = Some (RespResponseHeaders hs)"
    using k1 k2 assms(1-3)
    by (auto simp: process_message_def process_response_headers_def HandleResponseHeaders_def HandleResponse_def Let_def keeps_def ms
        status_steps_streaming generateResponseHeaderResponse_def)
  obtain hs where hs: "respHeaderResp ctx = Some (RespResponseHeaders hs)" using h by blast
  have "updateStateAndSendIfNeeded (env_sendOk env) ctx sent = (ctx\<lparr>RequestState := HeaderResponseResponseComplete\<rparr>, sent @ [RespResponseHeaders hs], True)"
    using s hs assms(4)
    by (auto simp: updateStateAndSendIfNeeded_def andThen_def sendReqHeader_def sendReqBody_def sendRespHeader_def sendRespBody_def sendTrailer_def split: option.splits)
  then show ?thesis using m s by (intro exI [of _ "c\<lparr>cn_w := w, cn_ctx := ctx\<lparr>RequestState := HeaderResponseResponseComplete\<rparr>\<rparr>"] exI [of _ hs]) (simp add: answering_def)
qed

text \<open>
  C8. When the model server streams its response and sends do not fail, the client gets the response
  headers and then, in order, exactly the bytes the model server sent, with the end of the stream
  on the last chunk only.
\<close>

theorem streaming_passthrough:
  assumes "reqTrailerResp (cn_ctx c) = None" "respTrailerResp (cn_ctx c) = None" "respBodyResp (cn_ctx c) = []" "\<forall>n. env_sendOk env n" "streams headers"
  shows "\<exists>hs rs. Process env (Recv (md, now, MsgResponseHeaders headers) # body_events bs fin b) c sent =
      (Waiting, sent @ RespResponseHeaders hs # map RespResponseBody rs) \<and>
    concat (map cr_Body rs) = concat (map (\<lambda>(md, t, x). x) bs) @ b \<and> map cr_EndOfStream rs = replicate (length rs - 1) False @ [True]"
proof -
  obtain c' hs where c': "Process env (Recv (md, now, MsgResponseHeaders headers) # body_events bs fin b) c sent = Process env (body_events bs fin b) c' (sent @ [RespResponseHeaders hs])"
    "answering (cn_ctx c')" "modelServerStreaming (cn_ctx c')"
    using response_headers_step [OF assms(1-4), of md now headers "body_events bs fin b" sent] assms(5) by auto
  obtain rs where "Process env (body_events bs fin b) c' (sent @ [RespResponseHeaders hs]) = (Waiting, (sent @ [RespResponseHeaders hs]) @ map RespResponseBody rs)"
    "carries (concat (map (\<lambda>(md, t, x). x) bs) @ b) rs" using stream_bodies [OF c'(3,2) assms(4)] by blast
  then show ?thesis using c'(1) by (intro exI [of _ hs] exI [of _ rs]) (simp add: carries_def)
qed

definition wSSE :: HeaderValue where
  "wSSE = \<lparr>hv_Key = ''content-type'', hv_RawValue = Some ''text/event-stream'', hv_Value = []\<rparr>"

theorem streaming_passthrough_witness:
  "\<exists>hs rs. Process wEnv (Recv (None, 0, MsgResponseHeaders [wSSE]) # body_events [(None, 1, [1, 2])] 2 [3]) wConn [] =
     (Waiting, RespResponseHeaders hs # map RespResponseBody rs) \<and> concat (map cr_Body rs) = [1, 2, 3]"
proof -
  have "streams [wSSE]" by (simp add: streams_def wSSE_def raw_string_def str_HasPrefix_def)
  moreover have "cn_ctx wConn = newContext" "\<forall>n. env_sendOk wEnv n" by (simp_all add: wConn_def wEnv_def)
  ultimately show ?thesis
    using streaming_passthrough [of wConn wEnv "[wSSE]" None 0 "[(None, 1, [1, 2])]" 2 "[3]" "[]"] by (auto simp: newContext_def)
qed

text \<open>The usage of a decoded response that the server can read: none at all, or an object with the three counts.\<close>

definition readable_usage :: "jmap \<Rightarrow> bool" where
  "readable_usage m \<longleftrightarrow> m ''usage'' \<in> {None, Some JNull} \<or>
     (\<exists>usg p c t. m ''usage'' = Some (JObj usg) \<and> map_of usg ''prompt_tokens'' = Some (JNum p) \<and>
        map_of usg ''completion_tokens'' = Some (JNum c) \<and> map_of usg ''total_tokens'' = Some (JNum t))"

lemma token_count_Panic: "token_count usg k = Panic \<longleftrightarrow> (\<nexists>x. map_of usg k = Some (JNum x))"
  by (auto simp: token_count_def split: option.splits json.splits)

lemma read_usage_Panic: "read_usage m old = Panic \<longleftrightarrow> \<not> readable_usage m"
proof (cases "\<exists>usg. m ''usage'' = Some (JObj usg)")
  case True
  then obtain usg where u: "m ''usage'' = Some (JObj usg)" by blast
  have "read_usage m old = Panic \<longleftrightarrow> token_count usg ''prompt_tokens'' = Panic \<or> token_count usg ''completion_tokens'' = Panic \<or> token_count usg ''total_tokens'' = Panic"
    using u by (auto simp: read_usage_def split: go.splits)
  then show ?thesis using u by (auto simp: token_count_Panic readable_usage_def)
next
  case False
  then show ?thesis by (auto simp: read_usage_def readable_usage_def split: option.splits json.splits)
qed

definition buffering :: "'w conn \<Rightarrow> bool" where
  "buffering c \<longleftrightarrow> answering (cn_ctx c) \<and> \<not> modelServerStreaming (cn_ctx c) \<and> respBodyResp (cn_ctx c) = []"

lemma buffer_step:
  assumes "buffering c" "\<forall>n. env_sendOk env n"
  shows "\<exists>c'. Process env (Recv (md, now, MsgResponseBody b False) # es) c sent = Process env es c' sent \<and>
    buffering c' \<and> cn_body c' = cn_body c @ b \<and> cn_responseBody c' = cn_responseBody c"
proof -
  obtain ctx where m: "process_message env (md, now, MsgResponseBody b False) c = Turn None (c\<lparr>cn_ctx := ctx, cn_body := cn_body c @ b\<rparr>)"
    and ctx: "answering ctx" "\<not> modelServerStreaming ctx" "respBodyResp ctx = []"
    using assms(1) by (auto simp: process_message_def process_response_body_def Let_def buffering_def answering_def)
  have "updateStateAndSendIfNeeded (env_sendOk env) ctx sent = (ctx, sent, True)"
    using updateState_bodies [OF ctx(1) assms(2), of sent] ctx by (simp add: answering_def)
  then show ?thesis using m ctx by (intro exI [of _ "c\<lparr>cn_body := cn_body c @ b, cn_ctx := ctx\<rparr>"]) (simp add: buffering_def)
qed

lemma buffer_end:
  assumes "buffering c" "\<forall>n. env_sendOk env n" "\<forall>m. env_marshal env m \<noteq> None"
  shows "case env_unmarshal env (cn_body c @ b) (cn_responseBody c) of
      None \<Rightarrow> \<exists>rs. Process env [Recv (md, now, MsgResponseBody b True)] c sent = (Waiting, sent @ map RespResponseBody rs) \<and> carries (cn_body c @ b) rs
    | Some m \<Rightarrow> (if readable_usage m
        then \<exists>rs. Process env [Recv (md, now, MsgResponseBody b True)] c sent = (Waiting, sent @ map RespResponseBody rs) \<and> carries (the (env_marshal env m)) rs
        else Process env [Recv (md, now, MsgResponseBody b True)] c sent = (Crashed, sent))"
proof -
  let ?M = "process_message env (md, now, MsgResponseBody b True) c"
  have st: "answering (cn_ctx c)" "\<not> modelServerStreaming (cn_ctx c)" using assms(1) by (simp_all add: buffering_def)
  have send: "\<exists>rs. Process env [Recv (md, now, MsgResponseBody b True)] c sent = (Waiting, sent @ map RespResponseBody rs) \<and> carries out rs"
    if "?M = Turn None c'" "answering (cn_ctx c')" "respBodyResp (cn_ctx c') = generateResponseBodyResponses out True" for c' out
    using that updateState_bodies [OF that(2) assms(2), of sent] generate_carries [of out] by auto
  show ?thesis
  proof (cases "env_unmarshal env (cn_body c @ b) (cn_responseBody c)")
    case None
    then obtain c' where "?M = Turn None c'" "answering (cn_ctx c')" "respBodyResp (cn_ctx c') = generateResponseBodyResponses (cn_body c @ b) True"
      using st by (auto simp: process_message_def process_response_body_def Let_def answering_def)
    from send [OF this] None show ?thesis by simp
  next
    case (Some m)
    obtain out where out: "env_marshal env m = Some out" using assms(3) by blast
    show ?thesis
    proof (cases "readable_usage m")
      case False
      then have "?M = Crash" using st Some out read_usage_Panic [of m]
        by (simp add: process_message_def process_response_body_def Let_def HandleResponseBody_def)
      then show ?thesis using Some False by simp
    next
      case True
      then obtain u where "read_usage m (rc_Usage (cn_ctx c)) = Ret u" using read_usage_Panic [of m "rc_Usage (cn_ctx c)"] by (cases "read_usage m (rc_Usage (cn_ctx c))") auto
      then obtain c' where "?M = Turn None c'" "answering (cn_ctx c')" "respBodyResp (cn_ctx c') = generateResponseBodyResponses out True"
        using st Some out by (auto simp: process_message_def process_response_body_def Let_def answering_def HandleResponseBody_def)
      from send [OF this] show ?thesis using Some True out by simp
    qed
  qed
qed

lemma buffer_bodies:
  "buffering c \<Longrightarrow> \<forall>n. env_sendOk env n \<Longrightarrow>
   \<exists>c'. Process env (body_events bs fin b) c sent = Process env [Recv (None, fin, MsgResponseBody b True)] c' sent \<and>
     buffering c' \<and> cn_body c' = cn_body c @ concat (map (\<lambda>(md, t, x). x) bs) \<and> cn_responseBody c' = cn_responseBody c"
proof (induction bs arbitrary: c)
  case (Cons m bs)
  obtain md t x where m: "m = (md, t, x)" by (cases m)
  obtain c' where c': "Process env (Recv (md, t, MsgResponseBody x False) # body_events bs fin b) c sent = Process env (body_events bs fin b) c' sent"
    "buffering c'" "cn_body c' = cn_body c @ x" "cn_responseBody c' = cn_responseBody c" using buffer_step [OF Cons.prems] by blast
  obtain d where d: "Process env (body_events bs fin b) c' sent = Process env [Recv (None, fin, MsgResponseBody b True)] d sent"
    "buffering d" "cn_body d = cn_body c' @ concat (map (\<lambda>(md, t, x). x) bs)" "cn_responseBody d = cn_responseBody c'"
    using Cons.IH [OF c'(2) Cons.prems(2)] by blast
  have "body_events (m # bs) fin b = Recv (md, t, MsgResponseBody x False) # body_events bs fin b" using m by (simp add: body_events_def)
  then show ?case using c' d m by (intro exI [of _ d]) (simp add: m del: Process.simps)
qed (auto simp: body_events_def)
text \<open>
  C30. When the model server does not stream, nothing of the body is sent before its last message.
  Then the client gets the bytes of the model server unchanged if they are not a JSON object,
  the object re-encoded if its usage can be read, and otherwise the server crashes.
\<close>

theorem buffered_response:
  assumes "reqTrailerResp (cn_ctx c) = None" "respTrailerResp (cn_ctx c) = None" "respBodyResp (cn_ctx c) = []" "\<forall>n. env_sendOk env n"
    "\<not> streams headers" "\<not> modelServerStreaming (cn_ctx c)" "cn_body c = []" "\<forall>m. env_marshal env m \<noteq> None"
  shows "\<exists>hs. case env_unmarshal env (concat (map (\<lambda>(md, t, x). x) bs) @ b) (cn_responseBody c) of
      None \<Rightarrow> \<exists>rs. Process env (Recv (md, now, MsgResponseHeaders headers) # body_events bs fin b) c sent =
          (Waiting, sent @ RespResponseHeaders hs # map RespResponseBody rs) \<and> carries (concat (map (\<lambda>(md, t, x). x) bs) @ b) rs
    | Some m \<Rightarrow> (if readable_usage m
        then \<exists>rs. Process env (Recv (md, now, MsgResponseHeaders headers) # body_events bs fin b) c sent =
          (Waiting, sent @ RespResponseHeaders hs # map RespResponseBody rs) \<and> carries (the (env_marshal env m)) rs
        else Process env (Recv (md, now, MsgResponseHeaders headers) # body_events bs fin b) c sent = (Crashed, sent @ [RespResponseHeaders hs]))"
proof -
  obtain c1 hs where c1: "Process env (Recv (md, now, MsgResponseHeaders headers) # body_events bs fin b) c sent = Process env (body_events bs fin b) c1 (sent @ [RespResponseHeaders hs])"
    "answering (cn_ctx c1)" "\<not> modelServerStreaming (cn_ctx c1)" "cn_body c1 = []" "cn_responseBody c1 = cn_responseBody c" "respBodyResp (cn_ctx c1) = []"
    using response_headers_step [OF assms(1-4), of md now headers "body_events bs fin b" sent] assms(5-7) by auto
  then have "buffering c1" by (simp add: buffering_def)
  then obtain c2 where c2: "Process env (body_events bs fin b) c1 (sent @ [RespResponseHeaders hs]) = Process env [Recv (None, fin, MsgResponseBody b True)] c2 (sent @ [RespResponseHeaders hs])"
    "buffering c2" "cn_body c2 = concat (map (\<lambda>(md, t, x). x) bs)" "cn_responseBody c2 = cn_responseBody c"
    using buffer_bodies [OF _ assms(4), of c1 bs fin b "sent @ [RespResponseHeaders hs]"] c1(4,5) by auto
  show ?thesis using buffer_end [OF c2(2) assms(4,8), of None fin b "sent @ [RespResponseHeaders hs]"]
    unfolding c1(1) c2(1,3,4) by (intro exI [of _ hs]) (auto split: option.splits simp del: Process.simps)
qed

lemma wConn_facts:
  "cn_ctx wConn = newContext" "\<forall>n. env_sendOk wEnv n" "\<forall>m. env_marshal wEnv m \<noteq> None" "cn_body wConn = []" "\<not> streams []"
  by (simp_all add: wConn_def wEnv_def streams_def)

theorem buffered_response_witness:
  "(\<exists>hs rs. Process wEnv (Recv (None, 0, MsgResponseHeaders []) # body_events [(None, 1, [1, 2])] 2 [3]) wConn [] =
     (Waiting, RespResponseHeaders hs # map RespResponseBody rs) \<and> concat (map cr_Body rs) = [1, 2, 3]) \<and>
   (\<exists>hs. Process wEnv (Recv (None, 0, MsgResponseHeaders []) # body_events [(None, 1, [1, 2])] 2 [4]) wConn [] = (Crashed, [RespResponseHeaders hs]))"
proof (rule conjI)
  show "\<exists>hs rs. Process wEnv (Recv (None, 0, MsgResponseHeaders []) # body_events [(None, 1, [1, 2])] 2 [3]) wConn [] =
     (Waiting, RespResponseHeaders hs # map RespResponseBody rs) \<and> concat (map cr_Body rs) = [1, 2, 3]"
    using buffered_response [where c = wConn and env = wEnv and headers = "[]" and bs = "[(None, 1, [1, 2])]" and b = "[3]" and md = None and now = 0 and fin = 2 and sent = "[]"] wConn_facts
    by (simp add: newContext_def carries_def wEnv_def del: Process.simps) blast
  show "\<exists>hs. Process wEnv (Recv (None, 0, MsgResponseHeaders []) # body_events [(None, 1, [1, 2])] 2 [4]) wConn [] = (Crashed, [RespResponseHeaders hs])"
    using buffered_response [where c = wConn and env = wEnv and headers = "[]" and bs = "[(None, 1, [1, 2])]" and b = "[4]" and md = None and now = 0 and fin = 2 and sent = "[]"] wConn_facts
    by (simp add: newContext_def carries_def wEnv_def readable_usage_def del: Process.simps)
qed

section \<open>What the proxy gets for a request\<close>

definition request_events :: "((string \<rightharpoonup> (string \<times> json) list) option \<times> time \<times> bytes) list \<Rightarrow> (string \<rightharpoonup> (string \<times> json) list) option \<Rightarrow> time \<Rightarrow> bytes \<Rightarrow> event list" where
  "request_events bs md now b = map (\<lambda>(md, t, x). Recv (md, t, MsgRequestBody x False)) bs @ [Recv (md, now, MsgRequestBody b True)]"

text \<open>A context in which nothing has been answered yet.\<close>

definition unanswered :: "RequestContext \<Rightarrow> bool" where
  "unanswered r \<longleftrightarrow> RequestState r = RequestReceived \<and> reqHeaderResp r = None \<and> reqTrailerResp r = None \<and> respTrailerResp r = None"

lemma unanswered_quiet: "unanswered r \<Longrightarrow> updateStateAndSendIfNeeded ok r sent = (r, sent, True)"
  by (simp add: unanswered_def updateStateAndSendIfNeeded_def andThen_def sendReqHeader_def sendReqBody_def sendRespHeader_def sendRespBody_def
      sendTrailer_def split: option.splits)

lemma send_all_ok: "\<forall>n. ok n \<Longrightarrow> send_all ok rs sent = (sent @ rs, True)"
  by (induction ok rs sent rule: send_all.induct) auto

lemma updateState_request:
  assumes "RequestState r = RequestReceived" "reqHeaderResp r = Some h" "reqBodyResp r \<noteq> []" "reqTrailerResp r = None" "respTrailerResp r = None" "\<forall>n. ok n"
  shows "\<exists>r'. updateStateAndSendIfNeeded ok r sent = (r', sent @ h # reqBodyResp r, True)"
proof -
  define r1 where "r1 = r\<lparr>RequestState := HeaderRequestResponseComplete\<rparr>"
  define r2 where "r2 = r1\<lparr>RequestState := BodyRequestResponsesComplete, RequestRunning := True, reqBodyResp := []\<rparr>"
  have f: "reqTrailerResp r2 = None" "respTrailerResp r2 = None" "RequestState r2 = BodyRequestResponsesComplete"
    using assms(4,5) by (simp_all add: r1_def r2_def)
  have "sendReqHeader ok r sent = (r1, sent @ [h], True)" using assms by (simp add: sendReqHeader_def r1_def)
  moreover have "sendReqBody ok r1 (sent @ [h]) = (r2, (sent @ [h]) @ reqBodyResp r, True)"
    using assms(3) send_all_ok [OF assms(6)] by (simp add: sendReqBody_def r1_def r2_def)
  moreover have "sendRespHeader ok r2 s = (r2, s, True)" "sendRespBody ok r2 s = (r2, s, True)" for s
    using f by (simp_all add: sendRespHeader_def sendRespBody_def split: option.split)
  ultimately show ?thesis using f by (simp add: updateStateAndSendIfNeeded_def andThen_def sendTrailer_def)
qed

lemma request_chunk_step:
  assumes "unanswered (cn_ctx c)"
  shows "Process env (Recv (md, t, MsgRequestBody x False) # es) c sent =
    Process env es (c\<lparr>cn_body := cn_body c @ x, cn_ctx := (cn_ctx c)\<lparr>rc_Request := (rc_Request (cn_ctx c))\<lparr>rq_Metadata := ExtractMetadataValues md\<rparr>\<rparr>\<rparr>) sent"
proof -
  have "unanswered ((cn_ctx c)\<lparr>rc_Request := (rc_Request (cn_ctx c))\<lparr>rq_Metadata := ExtractMetadataValues md\<rparr>\<rparr>)" using assms by (simp add: unanswered_def)
  from unanswered_quiet [OF this] show ?thesis by (simp add: process_message_def process_request_body_def Let_def)
qed

lemma request_chunks:
  "unanswered (cn_ctx c) \<Longrightarrow> \<exists>md'. Process env (request_events bs md now b) c sent =
    Process env [Recv (md, now, MsgRequestBody b True)]
      (c\<lparr>cn_body := cn_body c @ concat (map (\<lambda>(md, t, x). x) bs), cn_ctx := (cn_ctx c)\<lparr>rc_Request := (rc_Request (cn_ctx c))\<lparr>rq_Metadata := md'\<rparr>\<rparr>\<rparr>) sent"
proof (induction bs arbitrary: c)
  case Nil
  show ?case by (intro exI [of _ "rq_Metadata (rc_Request (cn_ctx c))"]) (simp add: request_events_def del: Process.simps)
next
  case (Cons m bs)
  obtain md1 t x where m: "m = (md1, t, x)" by (cases m)
  let ?c = "c\<lparr>cn_body := cn_body c @ x, cn_ctx := (cn_ctx c)\<lparr>rc_Request := (rc_Request (cn_ctx c))\<lparr>rq_Metadata := ExtractMetadataValues md1\<rparr>\<rparr>\<rparr>"
  have "unanswered (cn_ctx ?c)" using Cons.prems by (simp add: unanswered_def)
  from Cons.IH [OF this] show ?case
    using request_chunk_step [OF Cons.prems, of env md1 t x "request_events bs md now b" sent] m
    by (simp add: request_events_def del: Process.simps)
qed
lemma generate_request_carries: "\<exists>rs. generateRequestBodyResponses b = map RespRequestBody rs \<and> carries b rs"
proof -
  have "0 < bodyByteLimit" by (simp add: bodyByteLimit_def)
  from buildCommonResponses_ok [OF this, of b True] show ?thesis by (auto simp: generateRequestBodyResponses_def carries_def)
qed

lemmas code_defs = InferencePoolResourceExhausted_def Internal_def ServiceUnavailable_def BadRequest_def BadConfiguration_def

text \<open>The server when the last chunk of a request body arrives: the chunks before it are in the buffer.\<close>

lemma request_last_chunk:
  assumes "unanswered (cn_ctx c)"
    "HandleRequest (env_director env) (env_ord env (cn_ds c))
       ((cn_ctx c)\<lparr>rc_Request := (rc_Request (cn_ctx c))\<lparr>rq_Metadata := ExtractMetadataValues md, rq_Body := m\<rparr>\<rparr>) (cn_ds c) (cn_w c) = Some (Ret (ctx, err, ds, w))"
  obtains c1 where "Process env (request_events bs md now b) c [] = Process env [Recv (md, now, MsgRequestBody b True)] c1 []"
    "cn_body c1 @ b = cn_body c @ concat (map (\<lambda>(md, t, x). x) bs) @ b" "cn_ds c1 = cn_ds c" "cn_w c1 = cn_w c" "rq_Body (rc_Request (cn_ctx c1)) = rq_Body (rc_Request (cn_ctx c))"
    "(cn_ctx c1)\<lparr>rc_Request := (rc_Request (cn_ctx c1))\<lparr>rq_Metadata := ExtractMetadataValues md, rq_Body := m\<rparr>\<rparr> =
     (cn_ctx c)\<lparr>rc_Request := (rc_Request (cn_ctx c))\<lparr>rq_Metadata := ExtractMetadataValues md, rq_Body := m\<rparr>\<rparr>"
    "RequestState ctx = RequestReceived" "reqTrailerResp ctx = None" "respTrailerResp ctx = None"
proof -
  let ?c0 = "(cn_ctx c)\<lparr>rc_Request := (rc_Request (cn_ctx c))\<lparr>rq_Metadata := ExtractMetadataValues md, rq_Body := m\<rparr>\<rparr>"
  have "keeps ?c0 ctx" by (rule HandleRequest_keeps [OF assms(2)])
  then have k: "RequestState ctx = RequestReceived" "reqTrailerResp ctx = None" "respTrailerResp ctx = None" using assms(1) by (simp_all add: keeps_def unanswered_def)
  obtain c1 where "Process env (request_events bs md now b) c [] = Process env [Recv (md, now, MsgRequestBody b True)] c1 []"
    and "cn_body c1 @ b = cn_body c @ concat (map (\<lambda>(md, t, x). x) bs) @ b" "cn_ds c1 = cn_ds c" "cn_w c1 = cn_w c" "rq_Body (rc_Request (cn_ctx c1)) = rq_Body (rc_Request (cn_ctx c))"
      "(cn_ctx c1)\<lparr>rc_Request := (rc_Request (cn_ctx c1))\<lparr>rq_Metadata := ExtractMetadataValues md, rq_Body := m\<rparr>\<rparr> = ?c0"
    using request_chunks [OF assms(1), of env bs md now b "[]"] by (auto simp del: Process.simps)
  then show thesis by (rule that [OF _ _ _ _ _ _ k])
qed

lemma request_served:
  assumes "unanswered (cn_ctx c)" "\<forall>n. env_sendOk env n" "env_unmarshal env (cn_body c @ concat (map (\<lambda>(md, t, x). x) bs) @ b) (rq_Body (rc_Request (cn_ctx c))) = Some m"
    "HandleRequest (env_director env) (env_ord env (cn_ds c))
       ((cn_ctx c)\<lparr>rc_Request := (rc_Request (cn_ctx c))\<lparr>rq_Metadata := ExtractMetadataValues md, rq_Body := m\<rparr>\<rparr>) (cn_ds c) (cn_w c) = Some (Ret (ctx, None, ds, w))"
    "env_marshal env (rq_Body (rc_Request ctx)) = Some out"
  shows "\<exists>hs rs. Process env (request_events bs md now b) c [] =
      (Waiting, RespRequestHeaders hs (generateMetadata (TargetEndpoint ctx)) # map RespRequestBody rs) \<and>
    (DestinationEndpointKey, TargetEndpoint ctx) \<in> set hs \<and> (out = [] \<or> (''Content-Length'', strconv_Itoa (int (length out))) \<in> set hs) \<and> carries out rs"
proof -
  obtain c1 where P: "Process env (request_events bs md now b) c [] = Process env [Recv (md, now, MsgRequestBody b True)] c1 []"
    and c1: "cn_body c1 @ b = cn_body c @ concat (map (\<lambda>(md, t, x). x) bs) @ b" "cn_ds c1 = cn_ds c" "cn_w c1 = cn_w c" "rq_Body (rc_Request (cn_ctx c1)) = rq_Body (rc_Request (cn_ctx c))"
      "(cn_ctx c1)\<lparr>rc_Request := (rc_Request (cn_ctx c1))\<lparr>rq_Metadata := ExtractMetadataValues md, rq_Body := m\<rparr>\<rparr> =
       (cn_ctx c)\<lparr>rc_Request := (rc_Request (cn_ctx c))\<lparr>rq_Metadata := ExtractMetadataValues md, rq_Body := m\<rparr>\<rparr>"
    and k: "RequestState ctx = RequestReceived" "reqTrailerResp ctx = None" "respTrailerResp ctx = None"
    by (rule request_last_chunk [OF assms(1,4)])
  note M = process_message_def process_request_body_def Let_def assms(3,4,5) c1
  let ?ctx = "ctx\<lparr>RequestSize := int (length out)\<rparr>"
  let ?hs = "generateHeaders (env_hord env) ?ctx"
  obtain rs where rs: "generateRequestBodyResponses out = map RespRequestBody rs" "carries out rs" using generate_request_carries by blast
  obtain c2 where c2: "process_message env (md, now, MsgRequestBody b True) c1 = Turn None c2"
    "cn_ctx c2 = ?ctx\<lparr>reqHeaderResp := Some (RespRequestHeaders ?hs (generateMetadata (TargetEndpoint ctx))), reqBodyResp := map RespRequestBody rs\<rparr>"
    using rs(1) by (simp add: M generateRequestHeaderResponse_def)
  have "map RespRequestBody rs \<noteq> []" using rs(2) by (simp add: carries_def)
  then obtain r' where "updateStateAndSendIfNeeded (env_sendOk env) (cn_ctx c2) [] = (r', RespRequestHeaders ?hs (generateMetadata (TargetEndpoint ctx)) # map RespRequestBody rs, True)"
    using updateState_request [of "cn_ctx c2" _ "env_sendOk env" "[]"] k c2(2) assms(2) by auto
  then have "Process env (request_events bs md now b) c [] = (Waiting, RespRequestHeaders ?hs (generateMetadata (TargetEndpoint ctx)) # map RespRequestBody rs)"
    using P c2(1) by simp
  moreover have "(DestinationEndpointKey, TargetEndpoint ctx) \<in> set ?hs" "out = [] \<or> (''Content-Length'', strconv_Itoa (int (length out))) \<in> set ?hs"
    by (auto simp: generateHeaders_def)
  ultimately show ?thesis using rs(2) by auto
qed

lemma request_refused:
  assumes "unanswered (cn_ctx c)" "\<forall>n. env_sendOk env n" "env_unmarshal env (cn_body c @ concat (map (\<lambda>(md, t, x). x) bs) @ b) (rq_Body (rc_Request (cn_ctx c))) = Some m"
    "HandleRequest (env_director env) (env_ord env (cn_ds c))
       ((cn_ctx c)\<lparr>rc_Request := (rc_Request (cn_ctx c))\<lparr>rq_Metadata := ExtractMetadataValues md, rq_Body := m\<rparr>\<rparr>) (cn_ds c) (cn_w c) = Some (Ret (ctx, Some err, ds, w))"
  shows "Process env (request_events bs md now b) c [] =
    (case buildErrResponse err of None \<Rightarrow> (Returned False, []) | Some r \<Rightarrow> (Returned True, [r]))"
proof -
  obtain c1 where P: "Process env (request_events bs md now b) c [] = Process env [Recv (md, now, MsgRequestBody b True)] c1 []"
    and c1: "cn_body c1 @ b = cn_body c @ concat (map (\<lambda>(md, t, x). x) bs) @ b" "cn_ds c1 = cn_ds c" "cn_w c1 = cn_w c" "rq_Body (rc_Request (cn_ctx c1)) = rq_Body (rc_Request (cn_ctx c))"
      "(cn_ctx c1)\<lparr>rc_Request := (rc_Request (cn_ctx c1))\<lparr>rq_Metadata := ExtractMetadataValues md, rq_Body := m\<rparr>\<rparr> =
       (cn_ctx c)\<lparr>rc_Request := (rc_Request (cn_ctx c))\<lparr>rq_Metadata := ExtractMetadataValues md, rq_Body := m\<rparr>\<rparr>"
    by (rule request_last_chunk [OF assms(1,4)])
  then obtain c2 where "process_message env (md, now, MsgRequestBody b True) c1 = Turn (Some err) c2"
    using assms(3,4) by (simp add: process_message_def process_request_body_def Let_def)
  then show ?thesis using P assms(2) by (auto split: option.split sum.split)
qed

text \<open>
  C7. Once the last chunk of a request body has arrived, the server hands the decoded body to the
  director. If the director chooses an endpoint, the proxy gets the header response that names it,
  with the length of the re-encoded body, and then that body in chunks; if the director reports an
  error with a code of the program, the proxy gets one immediate response with the status of that
  code.
\<close>

theorem request_answered:
  assumes "unanswered (cn_ctx c)" "\<forall>n. env_sendOk env n" "env_unmarshal env (cn_body c @ concat (map (\<lambda>(md, t, x). x) bs) @ b) (rq_Body (rc_Request (cn_ctx c))) = Some m"
    "HandleRequest (env_director env) (env_ord env (cn_ds c))
       ((cn_ctx c)\<lparr>rc_Request := (rc_Request (cn_ctx c))\<lparr>rq_Metadata := ExtractMetadataValues md, rq_Body := m\<rparr>\<rparr>) (cn_ds c) (cn_w c) = Some (Ret (ctx, err, ds, w))"
    "env_marshal env (rq_Body (rc_Request ctx)) = Some out"
  shows "case err of
      None \<Rightarrow> \<exists>hs rs. Process env (request_events bs md now b) c [] =
          (Waiting, RespRequestHeaders hs (generateMetadata (TargetEndpoint ctx)) # map RespRequestBody rs) \<and>
        (DestinationEndpointKey, TargetEndpoint ctx) \<in> set hs \<and> (out = [] \<or> (''Content-Length'', strconv_Itoa (int (length out))) \<in> set hs) \<and> carries out rs
    | Some (EppError e) \<Rightarrow> (case map_of [(InferencePoolResourceExhausted, 429), (Internal, 500), (ServiceUnavailable, 503), (BadRequest, 400), (BadConfiguration, 404)] (Code e) of
          Some status \<Rightarrow> Process env (request_events bs md now b) c [] = (Returned True, [ImmediateResponse status (Error_Error e)])
        | None \<Rightarrow> Process env (request_events bs md now b) c [] = (Returned False, []))
    | Some (OtherError e) \<Rightarrow> Process env (request_events bs md now b) c [] = (Returned False, [])"
proof (cases err)
  case None
  then show ?thesis using request_served [OF assms(1-3) _ assms(5), of md ds w now] assms(4) by simp
next
  case (Some e)
  then show ?thesis using request_refused [OF assms(1-3), of md ctx e ds w now] assms(4)
    by (auto simp: buildErrResponse_def CanonicalCode_def error_text_def Let_def Unknown_def code_defs split: eppError.splits simp del: Process.simps)
qed

theorem request_answered_witness:
  "\<exists>msg. Process wEnv (request_events [(None, 1, [1, 2])] None 2 [4]) wConn [] = (Returned True, [ImmediateResponse 400 msg])"
proof -
  let ?ctx = "newContext\<lparr>rc_Request := (rc_Request newContext)\<lparr>rq_Metadata := ExtractMetadataValues None, rq_Body := [''usage'' \<mapsto> JObj []]\<rparr>\<rparr>"
  obtain ctx e where H: "HandleRequest (env_director wEnv) (env_ord wEnv (cn_ds wConn)) ?ctx (cn_ds wConn) (cn_w wConn) = Some (Ret (ctx, Some (EppError e), wStore, ()))" "Code e = BadRequest"
    by (auto simp: HandleRequest_def incoming_def newContext_def newError_def wConn_def)
  have u: "unanswered (cn_ctx wConn)" "env_unmarshal wEnv (cn_body wConn @ concat (map (\<lambda>(md, t, x). x) [(None, 1, [1, 2])]) @ [4]) (rq_Body (rc_Request (cn_ctx wConn))) = Some [''usage'' \<mapsto> JObj []]"
    by (simp_all add: wConn_def wEnv_def unanswered_def newContext_def)
  have "cn_ctx wConn = newContext" "env_marshal wEnv (rq_Body (rc_Request ctx)) = Some [123, 125]" by (simp_all add: wConn_def wEnv_def)
  note R = request_answered [OF u(1) wConn_facts(2) u(2) H(1) [folded \<open>cn_ctx wConn = newContext\<close>] this(2), of 2]
  then show ?thesis using H(2) by (simp add: code_defs del: Process.simps)
qed

end
