(* ===== verification/BodyRouter.thy ===== *)
theory BodyRouter
  imports StreamProcess
begin

text \<open>
  The body-based router (\<open>bbr/handlers\<close>): an external processing server that copies the model of
  a request body into a header so that the gateway can route by it. The JSON decoder and the
  success of sends are arguments; metrics and logging are left out.
\<close>

section \<open>Responses\<close>

text \<open>
  A response to headers carries nothing, or headers to set together with clearing the route
  cache. A response to a body carries nothing, such headers, or the body as one chunk that ends
  the stream.
\<close>

datatype bodyResult = BodyEmpty | BodyHeaders "(string \<times> string) list" | BodyStreamed bytes

datatype bbrResponse =
    BRequestHeaders "(string \<times> string) list option"
  | BRequestBody bodyResult
  | BRequestTrailers
  | BResponseHeaders
  | BResponseBody
  | BResponseTrailers

definition modelHeader :: string where "modelHeader = ''X-Gateway-Model-Name''"

definition addStreamedBodyResponse :: "bbrResponse list \<Rightarrow> bytes \<Rightarrow> bbrResponse list" where
  "addStreamedBodyResponse responses requestBodyBytes = responses @ [BRequestBody (BodyStreamed requestBodyBytes)]"

definition bbr_HandleRequestBody :: "(bytes \<Rightarrow> goError + jmap) \<Rightarrow> bool \<Rightarrow> bytes \<Rightarrow> goError + bbrResponse list" where
  "bbr_HandleRequestBody unmarshal streaming requestBodyBytes =
     (case unmarshal requestBodyBytes of
        Inl err \<Rightarrow> Inl err
      | Inr requestBody \<Rightarrow>
          (case requestBody ''model'' of
             None \<Rightarrow>
               if streaming then Inr (addStreamedBodyResponse [BRequestHeaders None] requestBodyBytes)
               else Inr [BRequestBody BodyEmpty]
           | Some (JStr modelStr) \<Rightarrow>
               if streaming then Inr (addStreamedBodyResponse [BRequestHeaders (Some [(modelHeader, modelStr)])] requestBodyBytes)
               else Inr [BRequestBody (BodyHeaders [(modelHeader, modelStr)])]
           | Some modelVal \<Rightarrow> Inl (Errorf ''the model parameter value is not a string'' [])))"

definition bbr_HandleRequestHeaders :: "bbrResponse list" where "bbr_HandleRequestHeaders = [BRequestHeaders None]"
definition bbr_HandleRequestTrailers :: "bbrResponse list" where "bbr_HandleRequestTrailers = [BRequestTrailers]"
definition bbr_HandleResponseHeaders :: "bbrResponse list" where "bbr_HandleResponseHeaders = [BResponseHeaders]"
definition bbr_HandleResponseBody :: "bbrResponse list" where "bbr_HandleResponseBody = [BResponseBody]"
definition bbr_HandleResponseTrailers :: "bbrResponse list" where "bbr_HandleResponseTrailers = [BResponseTrailers]"

section \<open>The server\<close>

definition processRequestBody :: "(bytes \<Rightarrow> goError + jmap) \<Rightarrow> bool \<Rightarrow> bytes \<Rightarrow> bool \<Rightarrow> bytes \<Rightarrow> (goError + bbrResponse list) \<times> bytes" where
  "processRequestBody unmarshal streaming chunk endOfStream streamedBody =
     (if streaming then
        (let body = streamedBody @ chunk in
         if endOfStream then (bbr_HandleRequestBody unmarshal streaming body, body) else (Inr [], body))
      else (bbr_HandleRequestBody unmarshal streaming chunk, streamedBody))"

text \<open>One message: an error or the responses to send, and the buffered body. \<open>None\<close> is a request type the server does not know.\<close>

definition bbr_message :: "(bytes \<Rightarrow> goError + jmap) \<Rightarrow> bool \<Rightarrow> ProcessingRequest \<Rightarrow> bytes \<Rightarrow> ((goError + bbrResponse list) \<times> bytes) option" where
  "bbr_message unmarshal streaming req streamedBody =
     (case req of
        MsgRequestHeaders headers endOfStream \<Rightarrow>
          Some (if streaming \<and> \<not> endOfStream then Inr [] else Inr bbr_HandleRequestHeaders, streamedBody)
      | MsgRequestBody chunk endOfStream \<Rightarrow> Some (processRequestBody unmarshal streaming chunk endOfStream streamedBody)
      | MsgRequestTrailers \<Rightarrow> Some (Inr bbr_HandleRequestTrailers, streamedBody)
      | MsgResponseHeaders headers \<Rightarrow> Some (Inr bbr_HandleResponseHeaders, streamedBody)
      | MsgResponseBody chunk endOfStream \<Rightarrow> Some (Inr bbr_HandleResponseBody, streamedBody)
      | MsgResponseTrailers \<Rightarrow> None)"

fun bbr_send :: "(nat \<Rightarrow> bool) \<Rightarrow> bbrResponse list \<Rightarrow> bbrResponse list \<Rightarrow> bbrResponse list \<times> bool" where
  "bbr_send ok [] sent = (sent, True)"
| "bbr_send ok (resp # resps) sent = (if ok (length sent) then bbr_send ok resps (sent @ [resp]) else (sent, False))"

fun bbr_Process :: "(bytes \<Rightarrow> goError + jmap) \<Rightarrow> bool \<Rightarrow> (nat \<Rightarrow> bool) \<Rightarrow> event list \<Rightarrow> bytes \<Rightarrow> bbrResponse list \<Rightarrow> ending \<times> bbrResponse list" where
  "bbr_Process unmarshal streaming ok [] body sent = (Waiting, sent)"
| "bbr_Process unmarshal streaming ok (CtxDone # es) body sent = (Returned False, sent)"
| "bbr_Process unmarshal streaming ok (RecvEOF # es) body sent = (Returned True, sent)"
| "bbr_Process unmarshal streaming ok (RecvCanceled # es) body sent = (Returned True, sent)"
| "bbr_Process unmarshal streaming ok (RecvError # es) body sent = (Returned False, sent)"
| "bbr_Process unmarshal streaming ok (Recv (md, now, req) # es) body sent =
     (case bbr_message unmarshal streaming req body of
        None \<Rightarrow> (Returned False, sent)
      | Some (Inl err, body') \<Rightarrow> (Returned False, sent)
      | Some (Inr responses, body') \<Rightarrow>
          (case bbr_send ok responses sent of
             (sent', True) \<Rightarrow> bbr_Process unmarshal streaming ok es body' sent'
           | (sent', False) \<Rightarrow> (Returned False, sent')))"

section \<open>What a request gets\<close>

lemma bbr_send_ok: "\<forall>n. ok n \<Longrightarrow> bbr_send ok rs sent = (sent @ rs, True)"
  by (induction ok rs sent rule: bbr_send.induct) auto

lemma bbr_chunks:
  "\<forall>n. ok n \<Longrightarrow> bbr_Process unmarshal True ok (map (\<lambda>(md, t, x). Recv (md, t, MsgRequestBody x False)) bs @ es) body sent =
     bbr_Process unmarshal True ok es (body @ concat (map (\<lambda>(md, t, x). x) bs)) sent"
  by (induction bs arbitrary: body) (auto simp: bbr_message_def processRequestBody_def Let_def)

text \<open>
  C31. A streaming router holds back the headers of a request until the whole body is there. Then
  the gateway gets a header response, which names the model if the body has one, and after it
  the body unchanged; a body that is not JSON, or whose model is not a string, ends the stream
  with an error before anything is sent.
\<close>

theorem bbr_streaming_request:
  assumes "\<forall>n. ok n"
  shows "bbr_Process unmarshal True ok (Recv (md, t, MsgRequestHeaders hs False) # request_events bs md' now b) [] [] =
    (let body = concat (map (\<lambda>(md, t, x). x) bs) @ b in
     case unmarshal body of
       Inl err \<Rightarrow> (Returned False, [])
     | Inr m \<Rightarrow>
         (case m ''model'' of
            None \<Rightarrow> (Waiting, [BRequestHeaders None, BRequestBody (BodyStreamed body)])
          | Some (JStr model) \<Rightarrow> (Waiting, [BRequestHeaders (Some [(''X-Gateway-Model-Name'', model)]), BRequestBody (BodyStreamed body)])
          | Some v \<Rightarrow> (Returned False, [])))"
proof -
  have "bbr_Process unmarshal True ok (Recv (md, t, MsgRequestHeaders hs False) # request_events bs md' now b) [] [] =
      bbr_Process unmarshal True ok [Recv (md', now, MsgRequestBody b True)] (concat (map (\<lambda>(md, t, x). x) bs)) []"
    using bbr_chunks [OF assms, of unmarshal bs "[Recv (md', now, MsgRequestBody b True)]" "[]" "[]"]
    by (simp add: bbr_message_def request_events_def del: bbr_Process.simps(1-5))
  then show ?thesis using bbr_send_ok [OF assms]
    by (auto simp: bbr_message_def processRequestBody_def bbr_HandleRequestBody_def addStreamedBodyResponse_def modelHeader_def Let_def
        split: sum.split option.split json.split)
qed

definition wDecode :: "bytes \<Rightarrow> goError + jmap" where "wDecode b = Inr [''model'' \<mapsto> JStr ''m'']"

theorem bbr_streaming_request_witness:
  "bbr_Process wDecode True (\<lambda>n. True) (Recv (None, 0, MsgRequestHeaders [] False) # request_events [(None, 1, [1, 2])] None 2 [3]) [] [] =
     (Waiting, [BRequestHeaders (Some [(''X-Gateway-Model-Name'', ''m'')]), BRequestBody (BodyStreamed [1, 2, 3])])"
  using bbr_streaming_request [of "\<lambda>n. True" wDecode None 0 "[]" "[(None, 1, [1, 2])]" None 2 "[3]"] by (simp add: wDecode_def del: bbr_Process.simps)

text \<open>A router that does not stream answers every message by itself; response trailers end its stream with an error.\<close>

lemma bbr_buffered_request:
  assumes "\<forall>n. ok n" "unmarshal b = Inr m" "m ''model'' = Some (JStr model)"
  shows "bbr_Process unmarshal False ok [Recv (md, t, MsgRequestHeaders hs False), Recv (md', t', MsgRequestBody b True)] [] [] =
    (Waiting, [BRequestHeaders None, BRequestBody (BodyHeaders [(modelHeader, model)])])"
  using assms by (simp add: bbr_message_def bbr_HandleRequestHeaders_def processRequestBody_def bbr_HandleRequestBody_def)

lemma bbr_response_trailers: "bbr_Process unmarshal streaming ok (Recv (md, t, MsgResponseTrailers) # es) body sent = (Returned False, sent)"
  by (simp add: bbr_message_def)

end
