(* ===== verification/ConfigLoader.thy ===== *)
theory ConfigLoader
  imports SchedPlugins
begin

text \<open>
  The loader of the configuration (\<open>config/loader\<close>) and the handle that keeps the instances of
  plugins (\<open>plugins/handle.go\<close>, \<open>plugins/registry.go\<close>): defaults, instantiation, validation and the
  profiles of the scheduler. Decoding of the text and the factories of plugins are arguments; so
  is the order in which Go ranges over the map of plugins, which may differ from one loop to the
  next.
\<close>

section \<open>The configuration\<close>

record PluginSpec =
  spec_Name :: string
  spec_Type :: string
  spec_Parameters :: "string option"

record SchedulingPlugin =
  PluginRef :: string
  ref_Weight :: "int option"

record SchedulingProfile =
  prof_Name :: string
  prof_Plugins :: "SchedulingPlugin list"

record EndpointPickerConfig =
  cfg_Plugins :: "PluginSpec list"
  cfg_SchedulingProfiles :: "SchedulingProfile list"

section \<open>The handle\<close>

text \<open>An instance of a plugin: its scheduling interfaces, and whether it is a profile handler.\<close>

record 'w pluginInstance =
  inst_obj :: "'w pluginObj"
  inst_ProfileHandler :: "'w ProfileHandler option"

type_synonym 'w handle = "(string \<times> 'w pluginInstance) list"

definition NewEppHandle :: "'w handle" where "NewEppHandle = []"

definition handle_Plugin :: "'w handle \<Rightarrow> string \<Rightarrow> 'w pluginInstance option" where
  "handle_Plugin h name = map_of h name"

definition AddPlugin :: "string \<Rightarrow> 'w pluginInstance \<Rightarrow> 'w handle \<Rightarrow> 'w handle" where
  "AddPlugin name plugin h = map_put name plugin h"

definition GetAllPlugins :: "('w handle \<Rightarrow> 'w handle) \<Rightarrow> 'w handle \<Rightarrow> 'w pluginInstance list" where
  "GetAllPlugins ord h = map snd (ord h)"

definition GetAllPluginsWithNames :: "'w handle \<Rightarrow> 'w handle" where "GetAllPluginsWithNames h = h"

text \<open>\<open>isP\<close> is the type assertion.\<close>

definition PluginByType :: "('w pluginInstance \<Rightarrow> 'p option) \<Rightarrow> 'w handle \<Rightarrow> string \<Rightarrow> goError + 'p" where
  "PluginByType isP h name =
     (case handle_Plugin h name of
        None \<Rightarrow> Inl (Errorf ''there is no plugin with this name defined'' [])
      | Some rawPlugin \<Rightarrow>
          (case isP rawPlugin of
             None \<Rightarrow> Inl (Errorf ''the plugin with this name is not an instance of the type'' [])
           | Some plugin \<Rightarrow> Inr plugin))"

type_synonym 'w FactoryFunc = "string \<Rightarrow> string option \<Rightarrow> 'w handle \<Rightarrow> goError + 'w pluginInstance"
type_synonym 'w Registry = "string \<rightharpoonup> 'w FactoryFunc"

definition Register :: "string \<Rightarrow> 'w FactoryFunc \<Rightarrow> 'w Registry \<Rightarrow> 'w Registry" where
  "Register pluginType factory r = r(pluginType \<mapsto> factory)"

section \<open>Defaults\<close>

definition DefaultScorerWeight :: int where "DefaultScorerWeight = 1"
definition SingleProfileHandlerType :: string where "SingleProfileHandlerType = ''single-profile-handler''"
definition MaxScorePickerType :: string where "MaxScorePickerType = ''max-score-picker''"

definition setDefaultsPhaseOne :: "EndpointPickerConfig \<Rightarrow> EndpointPickerConfig" where
  "setDefaultsPhaseOne cfg =
     cfg\<lparr>cfg_Plugins := map (\<lambda>p. if spec_Name p = [] then p\<lparr>spec_Name := spec_Type p\<rparr> else p) (cfg_Plugins cfg)\<rparr>"

definition is_scheduling :: "'w pluginInstance \<Rightarrow> bool" where
  "is_scheduling p \<longleftrightarrow> po_Filter (inst_obj p) \<noteq> None \<or> po_Picker (inst_obj p) \<noteq> None \<or> po_PostCycle (inst_obj p) \<noteq> None \<or> po_Scorer (inst_obj p) \<noteq> None"

definition is_scorer :: "'w pluginInstance option \<Rightarrow> bool" where
  "is_scorer p \<longleftrightarrow> (case p of None \<Rightarrow> False | Some i \<Rightarrow> po_Scorer (inst_obj i) \<noteq> None)"

definition is_picker :: "'w pluginInstance option \<Rightarrow> bool" where
  "is_picker p \<longleftrightarrow> (case p of None \<Rightarrow> False | Some i \<Rightarrow> po_Picker (inst_obj i) \<noteq> None)"

text \<open>The plugins that the loader itself adds; \<open>shuffle\<close> is the random shuffle of the picker.\<close>

definition singleProfileHandler_instance :: "'w pluginInstance" where
  "singleProfileHandler_instance =
     \<lparr>inst_obj = \<lparr>po_TypedName = \<lparr>tn_Type = SingleProfileHandlerType, tn_Name = SingleProfileHandlerType\<rparr>,
        po_Filter = None, po_Scorer = None, po_Picker = None, po_PostCycle = None\<rparr>,
      inst_ProfileHandler = Some NewSingleProfileHandler\<rparr>"

definition maxScorePicker_instance :: "(ScoredPod list \<Rightarrow> ScoredPod list) \<Rightarrow> 'w pluginInstance" where
  "maxScorePicker_instance shuffle =
     \<lparr>inst_obj = \<lparr>po_TypedName = \<lparr>tn_Type = MaxScorePickerType, tn_Name = MaxScorePickerType\<rparr>, po_Filter = None, po_Scorer = None,
        po_Picker = Some (MaxScorePicker_Pick shuffle (NewMaxScorePicker DefaultMaxNumOfEndpoints)), po_PostCycle = None\<rparr>,
      inst_ProfileHandler = None\<rparr>"

text \<open>The loop over the plugins of a profile stops at the first picker; it tells whether it found one.\<close>

fun default_weights :: "'w handle \<Rightarrow> SchedulingPlugin list \<Rightarrow> SchedulingPlugin list \<times> bool" where
  "default_weights h [] = ([], False)"
| "default_weights h (p # ps) =
     (if is_scorer (handle_Plugin h (PluginRef p)) \<and> ref_Weight p = None
      then case default_weights h ps of (ps', b) \<Rightarrow> (p\<lparr>ref_Weight := Some DefaultScorerWeight\<rparr> # ps', b)
      else if is_picker (handle_Plugin h (PluginRef p)) then (p # ps, True)
      else case default_weights h ps of (ps', b) \<Rightarrow> (p # ps', b))"

definition default_profile :: "'w handle \<Rightarrow> string \<Rightarrow> SchedulingProfile \<Rightarrow> SchedulingProfile" where
  "default_profile h maxScorePicker theProfile =
     (case default_weights h (prof_Plugins theProfile) of
        (ps, hasPicker) \<Rightarrow> theProfile\<lparr>prof_Plugins := (if hasPicker then ps else ps @ [\<lparr>PluginRef = maxScorePicker, ref_Weight = None\<rparr>])\<rparr>)"

definition first_picker :: "'w handle \<Rightarrow> string" where
  "first_picker h = (case List.find (\<lambda>(n, p). is_picker (Some p)) h of None \<Rightarrow> [] | Some (n, p) \<Rightarrow> n)"

text \<open>The three steps of the second phase before the loop over the profiles.\<close>

definition add_default_profile :: "'w handle \<Rightarrow> EndpointPickerConfig \<Rightarrow> EndpointPickerConfig" where
  "add_default_profile allPlugins cfg =
     (if length (cfg_SchedulingProfiles cfg) = 0
      then cfg\<lparr>cfg_SchedulingProfiles := [\<lparr>prof_Name = ''default'',
        prof_Plugins = map (\<lambda>(n, p). \<lparr>PluginRef = n, ref_Weight = None\<rparr>) (filter (\<lambda>(n, p). is_scheduling p) allPlugins)\<rparr>]\<rparr>
      else cfg)"

definition add_profile_handler :: "EndpointPickerConfig \<Rightarrow> 'w handle \<Rightarrow> EndpointPickerConfig \<times> 'w handle" where
  "add_profile_handler cfg h =
     (if length (cfg_SchedulingProfiles cfg) = 1 \<and> \<not> list_ex (\<lambda>(n, p). inst_ProfileHandler p \<noteq> None) h
      then (cfg\<lparr>cfg_Plugins := cfg_Plugins cfg @ [\<lparr>spec_Name = SingleProfileHandlerType, spec_Type = SingleProfileHandlerType, spec_Parameters = None\<rparr>]\<rparr>,
            AddPlugin SingleProfileHandlerType singleProfileHandler_instance h)
      else (cfg, h))"

definition add_picker ::
  "('w handle \<Rightarrow> 'w handle) \<Rightarrow> (ScoredPod list \<Rightarrow> ScoredPod list) \<Rightarrow> EndpointPickerConfig \<Rightarrow> 'w handle \<Rightarrow> string \<times> EndpointPickerConfig \<times> 'w handle" where
  "add_picker ord shuffle cfg h =
     (let maxScorePicker = first_picker (ord h) in
      if maxScorePicker = []
      then (MaxScorePickerType,
            cfg\<lparr>cfg_Plugins := cfg_Plugins cfg @ [\<lparr>spec_Name = MaxScorePickerType, spec_Type = MaxScorePickerType, spec_Parameters = None\<rparr>]\<rparr>,
            AddPlugin MaxScorePickerType (maxScorePicker_instance shuffle) h)
      else (maxScorePicker, cfg, h))"

definition setDefaultsPhaseTwo ::
  "(nat \<Rightarrow> 'w handle \<Rightarrow> 'w handle) \<Rightarrow> (ScoredPod list \<Rightarrow> ScoredPod list) \<Rightarrow> EndpointPickerConfig \<Rightarrow> 'w handle \<Rightarrow> EndpointPickerConfig \<times> 'w handle" where
  "setDefaultsPhaseTwo ord shuffle cfg h =
     (let cfg1 = add_default_profile (ord 0 (GetAllPluginsWithNames h)) cfg;
          (cfg2, h2) = add_profile_handler cfg1 h;
          (maxScorePicker, cfg3, h3) = add_picker (ord 1) shuffle cfg2 h2
      in (cfg3\<lparr>cfg_SchedulingProfiles := map (default_profile h3 maxScorePicker) (cfg_SchedulingProfiles cfg3)\<rparr>, h3))"

section \<open>Loading\<close>

fun instantiate_loop :: "'w Registry \<Rightarrow> PluginSpec list \<Rightarrow> string set \<Rightarrow> 'w handle \<Rightarrow> goError option \<times> 'w handle" where
  "instantiate_loop registry [] pluginNames h = (None, h)"
| "instantiate_loop registry (p # ps) pluginNames h =
     (if spec_Type p = [] then (Some (Errorf ''plugin definition is missing a type'' []), h)
      else if spec_Name p \<in> pluginNames then (Some (Errorf ''plugin name used more than once'' []), h)
      else case registry (spec_Type p) of
        None \<Rightarrow> (Some (Errorf ''plugin type is not found in registry'' []), h)
      | Some factory \<Rightarrow>
          (case factory (spec_Name p) (spec_Parameters p) h of
             Inl err \<Rightarrow> (Some (Errorf ''failed to instantiate the plugin type'' [err]), h)
           | Inr plugin \<Rightarrow> instantiate_loop registry ps (insert (spec_Name p) pluginNames) (AddPlugin (spec_Name p) plugin h)))"

definition instantiatePlugins :: "'w Registry \<Rightarrow> PluginSpec list \<Rightarrow> 'w handle \<Rightarrow> goError option \<times> 'w handle" where
  "instantiatePlugins registry configuredPlugins h = instantiate_loop registry configuredPlugins {} h"

fun validate_refs :: "PluginSpec list \<Rightarrow> SchedulingPlugin list \<Rightarrow> goError option" where
  "validate_refs specs [] = None"
| "validate_refs specs (p # ps) =
     (if length (PluginRef p) = 0 then Some (Errorf ''SchedulingProfile plugins must have a plugin reference'' [])
      else if PluginRef p \<notin> spec_Name ` set specs then Some (Errorf ''reference to an undefined Plugin'' [])
      else validate_refs specs ps)"

fun validate_profiles :: "PluginSpec list \<Rightarrow> SchedulingProfile list \<Rightarrow> string set \<Rightarrow> goError option" where
  "validate_profiles specs [] profileNames = None"
| "validate_profiles specs (p # ps) profileNames =
     (if prof_Name p = [] then Some (Errorf ''SchedulingProfile must have a name'' [])
      else if prof_Name p \<in> profileNames then Some (Errorf ''the name has been specified for more than one SchedulingProfile'' [])
      else case validate_refs specs (prof_Plugins p) of
        Some err \<Rightarrow> Some err
      | None \<Rightarrow> validate_profiles specs ps (insert (prof_Name p) profileNames))"

definition validateSchedulingProfiles :: "EndpointPickerConfig \<Rightarrow> goError option" where
  "validateSchedulingProfiles cfg = validate_profiles (cfg_Plugins cfg) (cfg_SchedulingProfiles cfg) {}"

text \<open>The inner loop of \<open>loadSchedulerConfig\<close>; the weight of a scorer is dereferenced, an unknown plugin has no interface.\<close>

fun load_plugins :: "'w handle \<Rightarrow> SchedulingPlugin list \<Rightarrow> 'w SchedulerProfile \<Rightarrow> (goError + 'w SchedulerProfile) go" where
  "load_plugins h [] p = Ret (Inr p)"
| "load_plugins h (r # rs) p =
     (case handle_Plugin h (PluginRef r) of
        None \<Rightarrow> load_plugins h rs p
      | Some i \<Rightarrow>
          (case (po_Scorer (inst_obj i), ref_Weight r) of
             (Some sc, None) \<Rightarrow> Panic
           | (Some sc, Some weight) \<Rightarrow>
               (case AddPlugins [Weighted (inst_obj i) sc weight] p of
                  (Some err, p') \<Rightarrow> Ret (Inl (Errorf ''failed to load scheduler config'' [err]))
                | (None, p') \<Rightarrow> load_plugins h rs p')
           | (None, _) \<Rightarrow>
               (case AddPlugins [Plain (inst_obj i)] p of
                  (Some err, p') \<Rightarrow> Ret (Inl (Errorf ''failed to load scheduler config'' [err]))
                | (None, p') \<Rightarrow> load_plugins h rs p')))"

fun load_profiles :: "'w handle \<Rightarrow> SchedulingProfile list \<Rightarrow> 'w profiles \<Rightarrow> (goError + 'w profiles) go" where
  "load_profiles h [] ps = Ret (Inr ps)"
| "load_profiles h (n # ns) ps =
     (case load_plugins h (prof_Plugins n) NewSchedulerProfile of
        Panic \<Rightarrow> Panic
      | Ret (Inl err) \<Rightarrow> Ret (Inl err)
      | Ret (Inr p) \<Rightarrow> load_profiles h ns (map_put (prof_Name n) p ps))"

fun find_handler :: "'w handle \<Rightarrow> 'w ProfileHandler option \<Rightarrow> goError + 'w ProfileHandler option" where
  "find_handler [] found = Inr found"
| "find_handler ((n, i) # h) found =
     (case inst_ProfileHandler i of
        None \<Rightarrow> find_handler h found
      | Some ph \<Rightarrow> if found \<noteq> None then Inl (Errorf ''only one profile handler is allowed'' []) else find_handler h (Some ph))"

record 'w SchedulerConfig =
  sc_profileHandler :: "'w ProfileHandler"
  sc_profiles :: "'w profiles"

definition NewSchedulerConfig :: "'w ProfileHandler \<Rightarrow> 'w profiles \<Rightarrow> 'w SchedulerConfig" where
  "NewSchedulerConfig handler ps = \<lparr>sc_profileHandler = handler, sc_profiles = ps\<rparr>"

definition loadSchedulerConfig :: "('w handle \<Rightarrow> 'w handle) \<Rightarrow> SchedulingProfile list \<Rightarrow> 'w handle \<Rightarrow> (goError + 'w SchedulerConfig) go" where
  "loadSchedulerConfig ord configProfiles h =
     (case load_profiles h configProfiles [] of
        Panic \<Rightarrow> Panic
      | Ret (Inl err) \<Rightarrow> Ret (Inl err)
      | Ret (Inr ps) \<Rightarrow>
          (case find_handler (ord h) None of
             Inl err \<Rightarrow> Ret (Inl err)
           | Inr None \<Rightarrow> Ret (Inl (Errorf ''no profile handler was specified'' []))
           | Inr (Some ph) \<Rightarrow> Ret (Inr (NewSchedulerConfig ph ps))))"

definition loadRawConfig :: "(string \<Rightarrow> goError + EndpointPickerConfig) \<Rightarrow> string \<Rightarrow> goError + EndpointPickerConfig" where
  "loadRawConfig decode configBytes =
     (case decode configBytes of Inl err \<Rightarrow> Inl (Errorf ''the configuration is invalid'' [err]) | Inr cfg \<Rightarrow> Inr cfg)"

text \<open>The handle is changed in place: the loader returns it.\<close>

definition LoadConfig ::
  "(string \<Rightarrow> goError + EndpointPickerConfig) \<Rightarrow> 'w Registry \<Rightarrow> (nat \<Rightarrow> 'w handle \<Rightarrow> 'w handle) \<Rightarrow> (ScoredPod list \<Rightarrow> ScoredPod list) \<Rightarrow>
   string \<Rightarrow> 'w handle \<Rightarrow> ((goError + 'w SchedulerConfig) \<times> 'w handle) go" where
  "LoadConfig decode registry ord shuffle configBytes h =
     (case loadRawConfig decode configBytes of
        Inl err \<Rightarrow> Ret (Inl err, h)
      | Inr raw \<Rightarrow>
          (let cfg1 = setDefaultsPhaseOne raw in
           case instantiatePlugins registry (cfg_Plugins cfg1) h of
             (Some err, h1) \<Rightarrow> Ret (Inl (Errorf ''failed to instantiate plugins'' [err]), h1)
           | (None, h1) \<Rightarrow>
               (let (cfg2, h2) = setDefaultsPhaseTwo ord shuffle cfg1 h1 in
                case validateSchedulingProfiles cfg2 of
                  Some err \<Rightarrow> Ret (Inl (Errorf ''failed to validate scheduling profiles'' [err]), h2)
                | None \<Rightarrow>
                    (case loadSchedulerConfig (ord 2) (cfg_SchedulingProfiles cfg2) h2 of
                       Panic \<Rightarrow> Panic
                     | Ret res \<Rightarrow> Ret (res, h2)))))"

section \<open>What the loader produces\<close>

lemma map_of_map_put: "map_of (map_put k v m) = (map_of m)(k \<mapsto> v)"
  by (induction k v m rule: map_put.induct) auto

lemma keys_map_put: "fst ` set (map_put k v m) = insert k (fst ` set m)"
  by (induction k v m rule: map_put.induct) auto

lemma distinct_map_put: "distinct (map fst m) \<Longrightarrow> distinct (map fst (map_put k v m))"
  by (induction k v m rule: map_put.induct) (auto simp: keys_map_put)

text \<open>The scorer a reference stands for, with the default weight if it has none.\<close>

definition scorer_ref :: "'w handle \<Rightarrow> SchedulingPlugin \<Rightarrow> 'w WeightedScorer option" where
  "scorer_ref h r =
     (case handle_Plugin h (PluginRef r) of
        None \<Rightarrow> None
      | Some i \<Rightarrow> map_option (\<lambda>sc. NewWeightedScorer sc (case ref_Weight r of None \<Rightarrow> DefaultScorerWeight | Some w \<Rightarrow> w)) (po_Scorer (inst_obj i)))"

definition weighted_ref :: "'w handle \<Rightarrow> SchedulingPlugin \<Rightarrow> bool" where
  "weighted_ref h r \<longleftrightarrow> (is_scorer (handle_Plugin h (PluginRef r)) \<longrightarrow> ref_Weight r \<noteq> None)"

lemma add_roles_ok:
  assumes "add_roles i p = Inr p'"
  shows "scorers p' = scorers p" "picker p' = (case po_Picker i of None \<Rightarrow> picker p | Some pk \<Rightarrow> Some pk)" "po_Picker i \<noteq> None \<Longrightarrow> picker p = None"
  using assms by (auto simp: add_roles_def Let_def split: option.splits if_splits)

lemma load_plugins_ok:
  "load_plugins h rs p = Ret (Inr p') \<Longrightarrow>
     scorers p' = scorers p @ List.map_filter (scorer_ref h) rs \<and> list_all (weighted_ref h) rs \<and>
     (picker p \<noteq> None \<or> list_ex (\<lambda>r. is_picker (handle_Plugin h (PluginRef r))) rs \<longleftrightarrow> picker p' \<noteq> None)"
proof (induction rs arbitrary: p)
  case Nil
  then show ?case by (simp add: List.map_filter_def)
next
  case (Cons r rs)
  show ?case
  proof (cases "handle_Plugin h (PluginRef r)")
    case None
    then show ?thesis using Cons by (simp add: List.map_filter_def scorer_ref_def weighted_ref_def is_scorer_def is_picker_def)
  next
    case (Some i)
    show ?thesis
    proof (cases "po_Scorer (inst_obj i)")
      case None
      then obtain p1 where p1: "add_roles (inst_obj i) p = Inr p1" "load_plugins h rs p1 = Ret (Inr p')"
        using Cons.prems Some by (auto split: sum.splits)
      from Cons.IH [OF p1(2)] show ?thesis using Some None add_roles_ok [OF p1(1)]
        by (auto simp: List.map_filter_def scorer_ref_def weighted_ref_def is_scorer_def is_picker_def split: option.splits)
    next
      case sc: (Some sc)
      then obtain weight where w: "ref_Weight r = Some weight" using Cons.prems Some by (auto split: option.splits)
      let ?p = "p\<lparr>scorers := scorers p @ [NewWeightedScorer sc weight]\<rparr>"
      obtain p1 where p1: "add_roles (inst_obj i) ?p = Inr p1" "load_plugins h rs p1 = Ret (Inr p')"
        using Cons.prems Some sc w by (auto simp: Let_def split: sum.splits)
      from Cons.IH [OF p1(2)] show ?thesis using Some sc w add_roles_ok [OF p1(1)]
        by (auto simp: List.map_filter_def scorer_ref_def weighted_ref_def is_scorer_def is_picker_def split: option.splits)
    qed
  qed
qed

lemma default_weights_ok:
  "default_weights h rs = (rs', b) \<Longrightarrow>
     (b \<longrightarrow> list_ex (\<lambda>r. is_picker (handle_Plugin h (PluginRef r))) rs') \<and>
     (list_all (weighted_ref h) rs' \<longrightarrow> List.map_filter (scorer_ref h) rs' = List.map_filter (scorer_ref h) rs)"
proof (induction rs arbitrary: rs' b)
  case (Cons r rs)
  obtain qs c where q: "default_weights h rs = (qs, c)" by force
  note IH = Cons.IH [OF q]
  show ?case
  proof (cases "is_scorer (handle_Plugin h (PluginRef r)) \<and> ref_Weight r = None")
    case True
    let ?r = "r\<lparr>ref_Weight := Some DefaultScorerWeight\<rparr>"
    have "scorer_ref h ?r = scorer_ref h r" using True by (simp add: scorer_ref_def split: option.split)
    then show ?thesis using Cons.prems True q IH by (auto simp: List.map_filter_def)
  next
    case False
    then show ?thesis using Cons.prems q IH by (auto simp: List.map_filter_def split: if_splits)
  qed
qed simp

lemma default_profile_ok:
  assumes "is_picker (handle_Plugin h pk)" "load_plugins h (prof_Plugins (default_profile h pk n)) NewSchedulerProfile = Ret (Inr p)"
  shows "scorers p = List.map_filter (scorer_ref h) (prof_Plugins n) \<and> picker p \<noteq> None"
proof -
  obtain rs b where d: "default_weights h (prof_Plugins n) = (rs, b)" by force
  let ?a = "\<lparr>PluginRef = pk, ref_Weight = None\<rparr>"
  have L: "scorers p = List.map_filter (scorer_ref h) (if b then rs else rs @ [?a])" "list_all (weighted_ref h) (if b then rs else rs @ [?a])"
    "list_ex (\<lambda>r. is_picker (handle_Plugin h (PluginRef r))) (if b then rs else rs @ [?a]) \<longleftrightarrow> picker p \<noteq> None"
    using load_plugins_ok [OF assms(2)] d by (simp_all add: default_profile_def NewSchedulerProfile_def)
  have "weighted_ref h ?a \<Longrightarrow> scorer_ref h ?a = None" by (auto simp: weighted_ref_def scorer_ref_def is_scorer_def split: option.splits)
  then show ?thesis using L default_weights_ok [OF d] assms(1) by (cases b) (auto simp: List.map_filter_def)
qed

lemma load_profiles_ok:
  "\<lbrakk>load_profiles h ns ps = Ret (Inr ps'); distinct (map fst ps @ map prof_Name ns)\<rbrakk> \<Longrightarrow>
   \<exists>qs. ps' = ps @ qs \<and> list_all2 (\<lambda>n q. fst q = prof_Name n \<and> load_plugins h (prof_Plugins n) NewSchedulerProfile = Ret (Inr (snd q))) ns qs"
proof (induction ns arbitrary: ps)
  case (Cons n ns)
  obtain p where p: "load_plugins h (prof_Plugins n) NewSchedulerProfile = Ret (Inr p)" "load_profiles h ns (map_put (prof_Name n) p ps) = Ret (Inr ps')"
    using Cons.prems(1) by (auto split: go.splits sum.splits)
  have m: "map_put (prof_Name n) p ps = ps @ [(prof_Name n, p)]" using Cons.prems(2) by (intro map_put_new) auto
  obtain qs where "ps' = (ps @ [(prof_Name n, p)]) @ qs" "list_all2 (\<lambda>n q. fst q = prof_Name n \<and> load_plugins h (prof_Plugins n) NewSchedulerProfile = Ret (Inr (snd q))) ns qs"
    using Cons.IH [OF p(2)] Cons.prems(2) unfolding m by auto
  then show ?case using p(1) by (intro exI [of _ "(prof_Name n, p) # qs"]) simp
qed simp

lemma validate_profiles_distinct:
  "validate_profiles specs ps seen = None \<Longrightarrow> distinct (map prof_Name ps) \<and> prof_Name ` set ps \<inter> seen = {} \<and> [] \<notin> prof_Name ` set ps"
proof (induction ps arbitrary: seen)
  case (Cons p ps)
  then have "validate_profiles specs ps (insert (prof_Name p) seen) = None" by (auto split: if_splits option.splits)
  from Cons.IH [OF this] Cons.prems show ?case by (auto split: if_splits)
qed simp

lemma instantiate_distinct:
  "instantiate_loop registry ps seen h = (e, h') \<Longrightarrow> distinct (map fst h) \<Longrightarrow> distinct (map fst h')"
  by (induction registry ps seen h rule: instantiate_loop.induct)
     (auto simp: AddPlugin_def distinct_map_put split: if_splits option.splits sum.splits)

lemma first_picker_ok:
  assumes "mset xs = mset h" "distinct (map fst h)" "first_picker xs \<noteq> []"
  shows "is_picker (handle_Plugin h (first_picker xs))"
proof -
  obtain n p where f: "List.find (\<lambda>(n, p). is_picker (Some p)) xs = Some (n, p)" using assms(3) by (auto simp: first_picker_def split: option.splits)
  then have "(n, p) \<in> set xs" "is_picker (Some p)" by (auto simp: find_Some_iff) (metis nth_mem)
  then have "map_of h n = Some p" using assms(1,2) by (metis map_of_is_SomeI mset_eq_setD)
  then show ?thesis using f \<open>is_picker (Some p)\<close> by (simp add: first_picker_def handle_Plugin_def)
qed

lemma phaseTwo_ok:
  assumes "setDefaultsPhaseTwo ord shuffle cfg h = (cfg', h')" "distinct (map fst h)" "\<forall>n xs. mset (ord n xs) = mset xs"
  shows "\<exists>pk profs. cfg_SchedulingProfiles cfg' = map (default_profile h' pk) profs \<and> is_picker (handle_Plugin h' pk) \<and>
    (if cfg_SchedulingProfiles cfg = [] then map prof_Name profs = [''default''] else profs = cfg_SchedulingProfiles cfg)"
proof -
  obtain cfg2 h2 where 2: "add_profile_handler (add_default_profile (ord 0 (GetAllPluginsWithNames h)) cfg) h = (cfg2, h2)" by force
  obtain pk cfg3 h3 where 3: "add_picker (ord 1) shuffle cfg2 h2 = (pk, cfg3, h3)" by (metis prod_cases3)
  have r: "cfg_SchedulingProfiles cfg' = map (default_profile h3 pk) (cfg_SchedulingProfiles cfg3)" "h' = h3"
    using assms(1) 2 3 by (auto simp: setDefaultsPhaseTwo_def)
  have "distinct (map fst h2)" using assms(2) 2 by (auto simp: add_profile_handler_def AddPlugin_def distinct_map_put split: if_splits)
  then have "is_picker (handle_Plugin h3 pk)" using 3 first_picker_ok [of "ord 1 h2" h2] assms(3)
    by (auto simp: add_picker_def Let_def AddPlugin_def handle_Plugin_def map_of_map_put maxScorePicker_instance_def is_picker_def split: if_splits)
  moreover have "if cfg_SchedulingProfiles cfg = [] then map prof_Name (cfg_SchedulingProfiles cfg3) = [''default'']
      else cfg_SchedulingProfiles cfg3 = cfg_SchedulingProfiles cfg"
    using 2 3 by (auto simp: add_picker_def Let_def add_profile_handler_def add_default_profile_def split: if_splits)
  ultimately show ?thesis using r by blast
qed

text \<open>
  A configuration that loads gives exactly the profiles it names (or one default profile if it
  names none), each with a picker, and in each profile the scorers it refers to in their order
  with their configured weights, 1 where none is configured. The names are distinct and not
  empty.
\<close>

lemma loadConfig_profiles:
  assumes "decode configBytes = Inr raw" "LoadConfig decode registry ord shuffle configBytes h = Ret (Inr config, h')"
    "distinct (map fst h)" "\<forall>n xs. mset (ord n xs) = mset xs"
  shows "map fst (sc_profiles config) = (if cfg_SchedulingProfiles raw = [] then [''default''] else map prof_Name (cfg_SchedulingProfiles raw)) \<and>
    distinct (map fst (sc_profiles config)) \<and> [] \<notin> fst ` set (sc_profiles config) \<and>
    list_all (\<lambda>(name, p). picker p \<noteq> None) (sc_profiles config) \<and>
    (cfg_SchedulingProfiles raw \<noteq> [] \<longrightarrow>
       map (scorers \<circ> snd) (sc_profiles config) = map (\<lambda>n. List.map_filter (scorer_ref h') (prof_Plugins n)) (cfg_SchedulingProfiles raw))"
proof -
  let ?raw = "setDefaultsPhaseOne raw"
  obtain h1 where h1: "instantiatePlugins registry (cfg_Plugins ?raw) h = (None, h1)"
    using assms(1,2) by (auto simp: LoadConfig_def loadRawConfig_def Let_def split: prod.splits option.splits)
  obtain cfg2 h2 where P: "setDefaultsPhaseTwo ord shuffle ?raw h1 = (cfg2, h2)" by force
  have V: "validateSchedulingProfiles cfg2 = None" "h' = h2" "loadSchedulerConfig (ord 2) (cfg_SchedulingProfiles cfg2) h2 = Ret (Inr config)"
    using assms(1,2) h1 P by (auto simp: LoadConfig_def loadRawConfig_def Let_def split: option.splits go.splits)
  have "distinct (map fst h1)" using instantiate_distinct h1 assms(3) by (auto simp: instantiatePlugins_def)
  from phaseTwo_ok [OF P this assms(4)] obtain pk profs where
    R: "cfg_SchedulingProfiles cfg2 = map (default_profile h2 pk) profs" "is_picker (handle_Plugin h2 pk)"
      "if cfg_SchedulingProfiles raw = [] then map prof_Name profs = [''default''] else profs = cfg_SchedulingProfiles raw"
    by (auto simp: setDefaultsPhaseOne_def)
  have N: "map prof_Name (cfg_SchedulingProfiles cfg2) = map prof_Name profs" unfolding R(1) by (auto simp: default_profile_def split: prod.splits)
  note D = validate_profiles_distinct [OF V(1) [unfolded validateSchedulingProfiles_def]]
  have "load_profiles h2 (cfg_SchedulingProfiles cfg2) [] = Ret (Inr (sc_profiles config))"
    using V(3) by (auto simp: loadSchedulerConfig_def NewSchedulerConfig_def split: go.splits sum.splits option.splits)
  then have Q: "list_all2 (\<lambda>n q. fst q = prof_Name n \<and> load_plugins h2 (prof_Plugins n) NewSchedulerProfile = Ret (Inr (snd q)))
      (map (default_profile h2 pk) profs) (sc_profiles config)"
    using load_profiles_ok [of h2 "cfg_SchedulingProfiles cfg2" "[]"] D R(1) by auto
  have names: "map fst (sc_profiles config) = map prof_Name profs"
    using Q unfolding N [symmetric] R(1) by (auto simp: list_all2_conv_all_nth intro!: nth_equalityI)
  have each: "scorers (snd q) = List.map_filter (scorer_ref h2) (prof_Plugins n) \<and> picker (snd q) \<noteq> None"
    if "load_plugins h2 (prof_Plugins (default_profile h2 pk n)) NewSchedulerProfile = Ret (Inr (snd q))" for n q
    using default_profile_ok [OF R(2) that] .
  have S: "map (scorers \<circ> snd) (sc_profiles config) = map (\<lambda>n. List.map_filter (scorer_ref h2) (prof_Plugins n)) profs"
    using Q each by (auto simp: list_all2_conv_all_nth intro!: nth_equalityI)
  have "picker (snd (sc_profiles config ! i)) \<noteq> None" if "i < length (sc_profiles config)" for i
    using Q each [of "profs ! i" "sc_profiles config ! i"] that by (auto simp: list_all2_conv_all_nth)
  then have "\<forall>q\<in>set (sc_profiles config). picker (snd q) \<noteq> None" by (metis in_set_conv_nth)
  moreover have "fst ` set (sc_profiles config) = prof_Name ` set (cfg_SchedulingProfiles cfg2)"
    using names N by (metis list.set_map)
  ultimately show ?thesis using names N D R(3) S V(2) by (auto simp: list_all_iff)
qed

section \<open>Weights after a picker\<close>

text \<open>The queue scorer and the max-score picker of the program, registered under their types.\<close>

definition wQueueScorer :: "unit pluginInstance" where
  "wQueueScorer = \<lparr>inst_obj = \<lparr>po_TypedName = \<lparr>tn_Type = ''queue-scorer'', tn_Name = ''queue-scorer''\<rparr>, po_Filter = None,
     po_Scorer = Some QueueScorer_Score, po_Picker = None, po_PostCycle = None\<rparr>, inst_ProfileHandler = None\<rparr>"

definition wRegistry :: "unit Registry" where
  "wRegistry = Register ''queue-scorer'' (\<lambda>name params h. Inr wQueueScorer)
     (Register MaxScorePickerType (\<lambda>name params h. Inr (maxScorePicker_instance id)) Map.empty)"

definition wSpecs :: "PluginSpec list" where
  "wSpecs = [\<lparr>spec_Name = [], spec_Type = ''queue-scorer'', spec_Parameters = None\<rparr>, \<lparr>spec_Name = [], spec_Type = MaxScorePickerType, spec_Parameters = None\<rparr>]"

definition wRaw :: EndpointPickerConfig where
  "wRaw = \<lparr>cfg_Plugins = wSpecs, cfg_SchedulingProfiles = []\<rparr>"

lemmas wLoad = wQueueScorer_def wRegistry_def Register_def wSpecs_def MaxScorePickerType_def SingleProfileHandlerType_def LoadConfig_def loadRawConfig_def
  setDefaultsPhaseOne_def instantiatePlugins_def AddPlugin_def setDefaultsPhaseTwo_def add_default_profile_def add_profile_handler_def add_picker_def
  is_scheduling_def GetAllPluginsWithNames_def maxScorePicker_instance_def singleProfileHandler_instance_def first_picker_def default_profile_def
  is_scorer_def is_picker_def handle_Plugin_def validateSchedulingProfiles_def loadSchedulerConfig_def NewSchedulerConfig_def NewSchedulerProfile_def
  add_roles_def

text \<open>
  C39. Whether a configuration with a scorer and a picker but no profiles loads depends on the order
  in which Go ranges over the map of plugins: in one order it loads, in the other the loader
  dereferences the weight of the scorer, which was never set, and crashes.
\<close>

theorem loadConfig_order_crash:
  "\<exists>ord1 ord2. (\<forall>n xs. mset (ord1 n xs) = mset xs) \<and> (\<forall>n xs. mset (ord2 n xs) = mset xs) \<and>
     (\<exists>config h. LoadConfig (\<lambda>b. Inr wRaw) wRegistry ord1 id configBytes NewEppHandle = Ret (Inr config, h)) \<and>
     LoadConfig (\<lambda>b. Inr wRaw) wRegistry ord2 id configBytes NewEppHandle = Panic"
proof -
  have "LoadConfig (\<lambda>b. Inr wRaw) wRegistry (\<lambda>n. rev) id configBytes NewEppHandle = Panic"
    by (simp add: wLoad wRaw_def NewEppHandle_def Let_def)
  moreover have "\<exists>config h. LoadConfig (\<lambda>b. Inr wRaw) wRegistry (\<lambda>n. id) id configBytes NewEppHandle = Ret (Inr config, h)"
    by (simp add: wLoad wRaw_def NewEppHandle_def Let_def)
  ultimately show ?thesis by (intro exI [of _ "\<lambda>n. id"] exI [of _ "\<lambda>n. rev"]) simp
qed

lemma loadConfig_profiles_witness:
  "\<exists>config h'. LoadConfig (\<lambda>b. Inr \<lparr>cfg_Plugins = wSpecs, cfg_SchedulingProfiles = [\<lparr>prof_Name = ''p'', prof_Plugins = [\<lparr>PluginRef = ''queue-scorer'', ref_Weight = Some 2\<rparr>]\<rparr>]\<rparr>)
     wRegistry (\<lambda>n. id) id [] NewEppHandle = Ret (Inr config, h') \<and>
   map fst (sc_profiles config) = [''p''] \<and> list_all (\<lambda>(name, p). picker p \<noteq> None) (sc_profiles config)"
proof -
  let ?raw = "\<lparr>cfg_Plugins = wSpecs, cfg_SchedulingProfiles = [\<lparr>prof_Name = ''p'', prof_Plugins = [\<lparr>PluginRef = ''queue-scorer'', ref_Weight = Some 2\<rparr>]\<rparr>]\<rparr>"
  obtain config h' where L: "LoadConfig (\<lambda>b. Inr ?raw) wRegistry (\<lambda>n. id) id [] NewEppHandle = Ret (Inr config, h')"
    by (auto simp: wLoad NewEppHandle_def Let_def)
  from loadConfig_profiles [of "\<lambda>b. Inr ?raw" "[]" ?raw, OF refl L] show ?thesis using L by (auto simp: NewEppHandle_def)
qed

end
