(* ===== verification/DataLayer.thy ===== *)
theory DataLayer
  imports Datastore
begin

text \<open>
  The pluggable data layer (\<open>datalayer\<close>): attributes of an endpoint, the endpoint itself, the
  registry of data sources and the collector that polls them. Attribute values are objects that
  are shared by their addresses, so they live in an explicit heap.
\<close>

section \<open>Pods and metrics\<close>

record PodInfo =
  pi_NamespacedName :: NamespacedName
  pi_Address :: string
  pi_Labels :: "string \<rightharpoonup> string"

definition ToPodInfo :: "corePod \<Rightarrow> PodInfo" where
  "ToPodInfo pod = \<lparr>pi_NamespacedName = \<lparr>nn_Namespace = kp_Namespace pod, nn_Name = kp_Name pod\<rparr>, pi_Address = kp_PodIP pod, pi_Labels = kp_Labels pod\<rparr>"

definition PodInfo_Clone :: "PodInfo option \<Rightarrow> PodInfo option" where
  "PodInfo_Clone p = (case p of None \<Rightarrow> None
     | Some i \<Rightarrow> Some \<lparr>pi_NamespacedName = \<lparr>nn_Namespace = nn_Namespace (pi_NamespacedName i), nn_Name = nn_Name (pi_NamespacedName i)\<rparr>,
         pi_Address = pi_Address i, pi_Labels = pi_Labels i\<rparr>)"

definition GetNamespacedName :: "PodInfo \<Rightarrow> NamespacedName" where "GetNamespacedName p = pi_NamespacedName p"
definition GetIPAddress :: "PodInfo \<Rightarrow> string" where "GetIPAddress p = pi_Address p"

text \<open>The metrics have the fields of \<open>MetricsState\<close>.\<close>

type_synonym Metrics = MetricsState

definition NewMetrics :: Metrics where
  "NewMetrics = \<lparr>ActiveModels = [], WaitingModels = [], MaxActiveModels = 0, RunningQueueSize = 0,
     WaitingQueueSize = 0, KVCacheUsagePercent = 0, KvCacheMaxTokenCapacity = 0, UpdateTime = 0\<rparr>"

definition Metrics_Clone :: "Metrics option \<Rightarrow> Metrics option" where
  "Metrics_Clone s = (case s of None \<Rightarrow> None
     | Some m \<Rightarrow> Some \<lparr>ActiveModels = ActiveModels m, WaitingModels = WaitingModels m, MaxActiveModels = MaxActiveModels m,
         RunningQueueSize = RunningQueueSize m, WaitingQueueSize = WaitingQueueSize m, KVCacheUsagePercent = KVCacheUsagePercent m,
         KvCacheMaxTokenCapacity = KvCacheMaxTokenCapacity m, UpdateTime = UpdateTime m\<rparr>)"

lemma Metrics_Clone_id [simp]: "Metrics_Clone m = m"
  by (cases m) (simp_all add: Metrics_Clone_def)

section \<open>Attributes\<close>

text \<open>Objects by address; \<open>Clone\<close> of a value makes a new object with the same contents.\<close>

record 'v objects =
  obj_at :: "nat \<rightharpoonup> 'v"
  obj_next :: nat

definition obj_new :: "'v \<Rightarrow> 'v objects \<Rightarrow> nat \<times> 'v objects" where
  "obj_new v hp = (obj_next hp, hp\<lparr>obj_at := (obj_at hp)(obj_next hp \<mapsto> v), obj_next := Suc (obj_next hp)\<rparr>)"

definition obj_write :: "nat \<Rightarrow> 'v \<Rightarrow> 'v objects \<Rightarrow> 'v objects" where
  "obj_write a v hp = hp\<lparr>obj_at := (obj_at hp)(a \<mapsto> v)\<rparr>"

type_synonym Attributes = "string \<rightharpoonup> nat"

definition NewAttributes :: Attributes where "NewAttributes = Map.empty"

text \<open>\<open>None\<close> is the nil value.\<close>

definition attr_Put :: "string \<Rightarrow> nat option \<Rightarrow> Attributes \<Rightarrow> Attributes" where
  "attr_Put key value attrs = (case value of None \<Rightarrow> attrs | Some a \<Rightarrow> attrs(key \<mapsto> a))"

definition attr_Get :: "string \<Rightarrow> Attributes \<Rightarrow> 'v objects \<Rightarrow> nat option \<times> 'v objects" where
  "attr_Get key attrs hp =
     (case attrs key of
        None \<Rightarrow> (None, hp)
      | Some a \<Rightarrow> (case obj_at hp a of None \<Rightarrow> (None, hp) | Some v \<Rightarrow> (case obj_new v hp of (a', hp') \<Rightarrow> (Some a', hp'))))"

text \<open>\<open>ord\<close> is the order of \<open>sync.Map.Range\<close>.\<close>

definition attr_Keys :: "(Attributes \<Rightarrow> string list) \<Rightarrow> Attributes \<Rightarrow> string list" where
  "attr_Keys ord attrs = ord attrs"

definition attr_Clone :: "(Attributes \<Rightarrow> string list) \<Rightarrow> Attributes \<Rightarrow> Attributes" where
  "attr_Clone ord attrs = fold (\<lambda>k clone. attr_Put k (attrs k) clone) (ord attrs) NewAttributes"

section \<open>Endpoints\<close>

record ModelServer =
  ms_pod :: "PodInfo option"
  ms_metrics :: "Metrics option"
  ms_attributes :: Attributes

definition NewEndpoint :: ModelServer where
  "NewEndpoint = \<lparr>ms_pod = None, ms_metrics = None, ms_attributes = NewAttributes\<rparr>"

definition ms_UpdatePod :: "corePod \<Rightarrow> ModelServer \<Rightarrow> ModelServer" where
  "ms_UpdatePod pod srv = srv\<lparr>ms_pod := Some (ToPodInfo pod)\<rparr>"

definition ms_UpdateMetrics :: "Metrics option \<Rightarrow> ModelServer \<Rightarrow> ModelServer" where
  "ms_UpdateMetrics m srv = srv\<lparr>ms_metrics := m\<rparr>"

definition ms_Put :: "string \<Rightarrow> nat option \<Rightarrow> ModelServer \<Rightarrow> ModelServer" where
  "ms_Put key value srv = srv\<lparr>ms_attributes := attr_Put key value (ms_attributes srv)\<rparr>"

definition ms_Get :: "string \<Rightarrow> ModelServer \<Rightarrow> 'v objects \<Rightarrow> nat option \<times> 'v objects" where
  "ms_Get key srv hp = attr_Get key (ms_attributes srv) hp"

definition ms_Keys :: "(Attributes \<Rightarrow> string list) \<Rightarrow> ModelServer \<Rightarrow> string list" where
  "ms_Keys ord srv = attr_Keys ord (ms_attributes srv)"

definition ms_Clone :: "(Attributes \<Rightarrow> string list) \<Rightarrow> ModelServer \<Rightarrow> ModelServer" where
  "ms_Clone ord srv = \<lparr>ms_pod = PodInfo_Clone (ms_pod srv), ms_metrics = Metrics_Clone (ms_metrics srv), ms_attributes = attr_Clone ord (ms_attributes srv)\<rparr>"

section \<open>Data sources\<close>

text \<open>A data source: its name and its \<open>Collect\<close>, which may change the endpoint and the world.\<close>

record ('e) DataSource =
  src_Name :: string
  src_Collect :: "'e \<Rightarrow> goError option \<times> 'e"

type_synonym 'e DataSourceRegistry = "string \<rightharpoonup> 'e DataSource"

definition dsr_Register :: "'e DataSource option \<Rightarrow> 'e DataSourceRegistry \<Rightarrow> goError option \<times> 'e DataSourceRegistry" where
  "dsr_Register src dsr =
     (case src of
        None \<Rightarrow> (Some (Errorf ''unable to register a nil data source'' []), dsr)
      | Some s \<Rightarrow>
          if dsr (src_Name s) \<noteq> None then (Some (Errorf ''unable to register duplicate data source'' []), dsr)
          else (None, dsr(src_Name s \<mapsto> s)))"

definition dsr_GetNamedSource :: "string \<Rightarrow> 'e DataSourceRegistry \<Rightarrow> 'e DataSource option" where
  "dsr_GetNamedSource name dsr = dsr name"

definition dsr_GetSources :: "('e DataSourceRegistry \<Rightarrow> string list) \<Rightarrow> 'e DataSourceRegistry \<Rightarrow> 'e DataSource list" where
  "dsr_GetSources ord dsr = List.map_filter dsr (ord dsr)"

text \<open>Types of \<open>reflect\<close>: what the check reads of them. \<open>None\<close> is nil.\<close>

record reflectType =
  rt_Name :: string
  rt_Interface :: bool
  rt_NumMethod :: nat

definition ValidateExtractorType :: "(reflectType \<Rightarrow> reflectType \<Rightarrow> bool) \<Rightarrow> reflectType option \<Rightarrow> reflectType option \<Rightarrow> goError option" where
  "ValidateExtractorType implements collectorOutput extractorInput =
     (case (collectorOutput, extractorInput) of
        (Some out, Some inp) \<Rightarrow>
          if out = inp \<or> rt_Interface inp \<and> rt_NumMethod inp = 0 \<or> rt_Interface inp \<and> implements out inp then None
          else Some (Errorf ''extractor input type cannot handle data source output type'' [])
      | _ \<Rightarrow> Some (Errorf ''extractor input type or data source output type cannot be nil'' []))"

section \<open>The collector\<close>

text \<open>\<open>col_ctx\<close> is the context of the collector: not made yet, or whether it is cancelled.\<close>

record Collector =
  col_ctx :: "bool option"
  col_started :: bool
  col_stopped :: bool

definition NewCollector :: Collector where "NewCollector = \<lparr>col_ctx = None, col_started = False, col_stopped = False\<rparr>"

text \<open>
  \<open>ctxDone\<close> tells whether the context of the caller is cancelled, \<open>seen\<close> whether the \<open>select\<close> then
  takes that case.
\<close>

definition collector_Start :: "bool \<Rightarrow> bool \<Rightarrow> Collector \<Rightarrow> goError option \<times> Collector" where
  "collector_Start ctxDone seen c =
     (if col_started c then (Some (Errorf ''collector start called multiple times'' []), c)
      else let c1 = c\<lparr>col_ctx := Some ctxDone, col_started := True\<rparr> in
        if ctxDone \<and> seen then (Some (Errorf ''context canceled'' []), c1\<lparr>col_ctx := Some True\<rparr>) else (None, c1))"

definition collector_Stop :: "Collector \<Rightarrow> goError option \<times> Collector" where
  "collector_Stop c =
     (if col_ctx c = None then (Some (Errorf ''collector stop called before start'' []), c)
      else if col_stopped c then (Some (Errorf ''collector stop called multiple times'' []), c)
      else (None, c\<lparr>col_stopped := True, col_ctx := Some True\<rparr>))"

text \<open>One tick: every source in turn; errors are dropped.\<close>

definition collect_tick :: "'e DataSource list \<Rightarrow> 'e \<Rightarrow> 'e" where
  "collect_tick sources ep = fold (\<lambda>src e. snd (src_Collect src e)) sources ep"

text \<open>
  A turn of the goroutine: it ends when the context is cancelled, unless a tick is there as well
  and the \<open>select\<close> takes the tick.
\<close>

definition collector_turn :: "Collector \<Rightarrow> bool \<Rightarrow> bool \<Rightarrow> 'e DataSource list \<Rightarrow> 'e \<Rightarrow> bool \<times> 'e" where
  "collector_turn c tick takeTick sources ep =
     (if tick \<and> (col_ctx c \<noteq> Some True \<or> takeTick) then (True, collect_tick sources ep)
      else (col_ctx c \<noteq> Some True, ep))"

section \<open>Sharing of attribute values\<close>

definition attr_value :: "string \<Rightarrow> Attributes \<Rightarrow> 'v objects \<Rightarrow> 'v option" where
  "attr_value k attrs hp = (case attrs k of None \<Rightarrow> None | Some a \<Rightarrow> obj_at hp a)"

definition objects_ok :: "Attributes \<Rightarrow> 'v objects \<Rightarrow> bool" where
  "objects_ok attrs hp \<longleftrightarrow> dom (obj_at hp) \<subseteq> {..<obj_next hp} \<and> ran attrs \<subseteq> dom (obj_at hp)"

lemma attr_Clone_eq: "set (ord attrs) = dom attrs \<Longrightarrow> attr_Clone ord attrs = attrs"
proof -
  assume o: "set (ord attrs) = dom attrs"
  have "fold (\<lambda>k clone. attr_Put k (attrs k) clone) ks m = (\<lambda>k. if k \<in> set ks \<and> attrs k \<noteq> None then attrs k else m k)" for ks m
    by (induction ks arbitrary: m) (auto simp: attr_Put_def fun_eq_iff split: option.splits)
  then show ?thesis using o by (auto simp: attr_Clone_def NewAttributes_def fun_eq_iff)
qed

text \<open>
  \<open>Get\<close> hands out a copy: whatever the caller writes to it, no attribute changes. \<open>Clone\<close> does
  not copy values: writing to the value that an attribute of the original refers to changes the
  attribute of the clone as well.
\<close>

lemma attributes_sharing:
  assumes "objects_ok attrs hp" "attrs k = Some a" "set (ord attrs) = dom attrs"
  shows "\<exists>a' hp'. attr_Get k attrs hp = (Some a', hp') \<and> obj_at hp' a' = attr_value k attrs hp \<and> objects_ok attrs hp' \<and>
      (\<forall>k' v. attr_value k' attrs (obj_write a' v hp') = attr_value k' attrs hp) \<and>
      (\<forall>v. attr_value k (attr_Clone ord attrs) (obj_write a v hp) = Some v)"
proof -
  obtain v where v: "obj_at hp a = Some v" using assms(1,2) by (force simp: objects_ok_def ran_def)
  let ?n = "obj_next hp"
  define hp' where "hp' = hp\<lparr>obj_at := (obj_at hp)(?n \<mapsto> v), obj_next := Suc ?n\<rparr>"
  have G: "attr_Get k attrs hp = (Some ?n, hp')" "obj_at hp' ?n = Some v" "attr_value k attrs hp = Some v"
    using assms(2) v by (simp_all add: attr_Get_def obj_new_def hp'_def attr_value_def)
  have "b \<noteq> ?n" if "attrs k' = Some b" for k' b using assms(1) that by (force simp: objects_ok_def ran_def)
  then have "attr_value k' attrs (obj_write ?n x hp') = attr_value k' attrs hp" for k' x
    by (auto simp: attr_value_def obj_write_def hp'_def split: option.splits)
  moreover have "objects_ok attrs hp'" using assms(1) by (auto simp: objects_ok_def hp'_def)
  moreover have "attr_value k (attr_Clone ord attrs) (obj_write a x hp) = Some x" for x
    using assms(2) attr_Clone_eq [of ord attrs, OF assms(3)] by (simp add: attr_value_def obj_write_def)
  ultimately show ?thesis using G by (intro exI [of _ ?n] exI [of _ hp']) simp
qed

lemma attributes_sharing_witness:
  "\<exists>a' hp'. attr_Get ''k'' [''k'' \<mapsto> 0] \<lparr>obj_at = [0 \<mapsto> (7 :: int)], obj_next = 1\<rparr> = (Some a', hp') \<and>
     attr_value ''k'' [''k'' \<mapsto> 0] (obj_write a' 8 hp') = Some 7 \<and>
     attr_value ''k'' (attr_Clone (\<lambda>m. [''k'']) [''k'' \<mapsto> 0]) (obj_write 0 8 \<lparr>obj_at = [0 \<mapsto> (7 :: int)], obj_next = 1\<rparr>) = Some 8"
proof -
  let ?m = "[''k'' \<mapsto> 0] :: Attributes" and ?hp = "\<lparr>obj_at = [0 \<mapsto> (7 :: int)], obj_next = 1\<rparr>"
  have ok: "objects_ok ?m ?hp" "?m ''k'' = Some 0" "set [''k''] = dom ?m" "attr_value ''k'' ?m ?hp = Some 7"
    by (simp_all add: objects_ok_def attr_value_def)
  from attributes_sharing [where ord = "\<lambda>m. [''k'']", OF ok(1,2,3)] show ?thesis using ok(4) by metis
qed

section \<open>Calls of a collector\<close>

datatype collectorCall = CallStart bool bool | CallStop

fun collector_call :: "collectorCall \<Rightarrow> Collector \<Rightarrow> goError option \<times> Collector" where
  "collector_call (CallStart ctxDone seen) c = collector_Start ctxDone seen c"
| "collector_call CallStop c = collector_Stop c"

text \<open>The calls of a sequence that succeed.\<close>

fun collector_calls :: "collectorCall list \<Rightarrow> Collector \<Rightarrow> collectorCall list" where
  "collector_calls [] c = []"
| "collector_calls (x # xs) c =
     (case collector_call x c of (err, c') \<Rightarrow> (if err = None then [x] else []) @ collector_calls xs c')"

lemma collector_calls_once:
  "length (filter (\<lambda>x. x \<noteq> CallStop) (collector_calls xs c)) + of_bool (col_started c) \<le> 1 \<and>
   length (filter (\<lambda>x. x = CallStop) (collector_calls xs c)) + of_bool (col_stopped c) \<le> 1"
proof (induction xs arbitrary: c)
  case (Cons x xs)
  obtain err c' where s: "collector_call x c = (err, c')" by force
  have "of_bool (col_started c) + of_bool (err = None \<and> x \<noteq> CallStop) \<le> (of_bool (col_started c') :: nat)"
    "of_bool (col_stopped c) + of_bool (err = None \<and> x = CallStop) \<le> (of_bool (col_stopped c') :: nat)"
    using s by (cases x; auto simp: collector_Start_def collector_Stop_def Let_def split: if_splits)+
  moreover have "length (filter (\<lambda>x. x \<noteq> CallStop) (collector_calls (x # xs) c)) = of_bool (err = None \<and> x \<noteq> CallStop) + length (filter (\<lambda>x. x \<noteq> CallStop) (collector_calls xs c'))"
    "length (filter (\<lambda>x. x = CallStop) (collector_calls (x # xs) c)) = of_bool (err = None \<and> x = CallStop) + length (filter (\<lambda>x. x = CallStop) (collector_calls xs c'))"
    using s by simp_all
  ultimately show ?case using Cons.IH [of c'] by linarith
qed auto

text \<open>A collector that was stopped collects nothing more, except in a turn whose tick was already there.\<close>

lemma collector_stopped: "collector_Stop c = (None, c') \<Longrightarrow> collector_turn c' False b sources ep = (False, ep)"
  by (auto simp: collector_Stop_def collector_turn_def split: if_splits)

end
