(* ===== verification/DataMetrics.thy ===== *)
theory DataMetrics
  imports DataLayer
begin

text \<open>
  The metrics source of the data layer (\<open>datalayer/metrics\<close>): specifications in the syntax of
  PromQL, the extractor that updates an endpoint from scraped metrics, and the data source that
  runs its extractors. The PromQL parser and the HTTP client are arguments.
\<close>

section \<open>Specifications\<close>

record Spec =
  dl_Name :: string
  dl_Labels :: "(string \<times> string) list"

datatype LoRASpec = LoRASpec (lora_Spec: "Spec option")

text \<open>The result of the parser, as far as the program looks at it.\<close>

record Matcher =
  mt_Equal :: bool
  mt_Name :: string
  mt_Value :: string

datatype promExpr = VectorSelector string "Matcher list" | OtherExpr

text \<open>The character classes \<open>\w\<close> and \<open>\s\<close> of the regular expression.\<close>

definition re_word :: "char \<Rightarrow> bool" where
  "re_word c \<longleftrightarrow> (let n = of_char c :: nat in 48 \<le> n \<and> n \<le> 57 \<or> 65 \<le> n \<and> n \<le> 90 \<or> n = 95 \<or> 97 \<le> n \<and> n \<le> 122)"

definition re_space :: "char \<Rightarrow> bool" where
  "re_space c \<longleftrightarrow> c \<in> set [CHR 0x09, CHR 0x0A, CHR 0x0C, CHR 0x0D, CHR '' '']"

definition re_value :: "char \<Rightarrow> bool" where
  "re_value c \<longleftrightarrow> c \<noteq> CHR 0x22 \<and> c \<noteq> CHR '','' \<and> c \<noteq> CHR ''}'' \<and> \<not> re_space c"

text \<open>
  A match that starts with a word: the word, the equals sign between optional spaces, and the
  value. The classes exclude one another where they meet, so greedy matching never backtracks.
\<close>

definition re_match :: "string \<Rightarrow> (string \<times> string \<times> string) option" where
  "re_match s =
     (let w = takeWhile re_word s;
          s1 = dropWhile re_space (drop (length w) s)
      in case s1 of
           [] \<Rightarrow> None
         | c # s2 \<Rightarrow>
             (let s3 = dropWhile re_space s2; v = takeWhile re_value s3 in
              if w \<noteq> [] \<and> c = CHR ''='' \<and> v \<noteq> [] then Some (w, v, drop (length v) s3) else None))"

lemma re_match_shorter: "re_match s = Some (w, v, rest) \<Longrightarrow> length rest < length s"
proof -
  assume m: "re_match s = Some (w, v, rest)"
  define s1 where "s1 = dropWhile re_space (drop (length (takeWhile re_word s)) s)"
  obtain c s2 where s1: "s1 = c # s2" and r: "rest = drop (length (takeWhile re_value (dropWhile re_space s2))) (dropWhile re_space s2)"
    using m by (auto simp: re_match_def Let_def s1_def split: list.splits if_splits)
  have "length (c # s2) \<le> length s" unfolding s1 [symmetric] s1_def using length_dropWhile_le [of re_space] by (metis le_trans length_drop diff_le_self)
  moreover have "length rest \<le> length s2" using r length_dropWhile_le [of re_space s2] by simp
  ultimately show ?thesis by simp
qed

text \<open>\<open>ReplaceAllString\<close>: at a word without a match, the whole word is copied.\<close>

function addQuotesToLabelValues :: "string \<Rightarrow> string" where
  "addQuotesToLabelValues s =
     (case s of
        [] \<Rightarrow> []
      | c # s' \<Rightarrow>
          (case re_match s of
             Some (w, v, rest) \<Rightarrow> w @ [CHR ''='', CHR 0x22] @ v @ [CHR 0x22] @ addQuotesToLabelValues rest
           | None \<Rightarrow>
               if re_word c then takeWhile re_word s @ addQuotesToLabelValues (dropWhile re_word s)
               else c # addQuotesToLabelValues s'))"
  by pat_completeness auto
termination
  by (relation "measure length") (auto dest!: re_match_shorter simp: le_imp_less_Suc length_dropWhile_le)

declare addQuotesToLabelValues.simps [simp del]

definition parseStringToSpec :: "(string \<Rightarrow> goError + promExpr) \<Rightarrow> string \<Rightarrow> goError + Spec option" where
  "parseStringToSpec parseExpr spec =
     (if spec = [] then Inr None
      else case parseExpr (addQuotesToLabelValues spec) of
        Inl err \<Rightarrow> Inl err
      | Inr OtherExpr \<Rightarrow> Inl (Errorf ''not a valid metric specification'' [])
      | Inr (VectorSelector name matchers) \<Rightarrow>
          (let metricLabels = fold (\<lambda>m ls. if mt_Equal m \<and> \<not> str_HasPrefix (mt_Name m) ''__'' then label_put (mt_Name m) (mt_Value m) ls else ls) matchers []
           in if name = [] then Inl (Errorf ''empty metric name in specification'' [])
              else Inr (Some \<lparr>dl_Name = name, dl_Labels = metricLabels\<rparr>)))"

definition parseStringToLoRASpec :: "(string \<Rightarrow> goError + promExpr) \<Rightarrow> string \<Rightarrow> goError + LoRASpec" where
  "parseStringToLoRASpec parseExpr spec =
     (case parseStringToSpec parseExpr spec of Inl err \<Rightarrow> Inl err | Inr baseSpec \<Rightarrow> Inr (LoRASpec baseSpec))"

record Mapping =
  map_TotalQueuedRequests :: "Spec option"
  map_KVCacheUtilization :: "Spec option"
  map_LoraRequestInfo :: "LoRASpec option"

definition sum_errors :: "goError + 'a \<Rightarrow> goError list" where
  "sum_errors r = (case r of Inl err \<Rightarrow> [err] | Inr _ \<Rightarrow> [])"

definition NewMapping :: "(string \<Rightarrow> goError + promExpr) \<Rightarrow> string \<Rightarrow> string \<Rightarrow> string \<Rightarrow> goError + Mapping" where
  "NewMapping parseExpr queue kvusage lora =
     (case (parseStringToSpec parseExpr queue, parseStringToSpec parseExpr kvusage, parseStringToLoRASpec parseExpr lora) of
        (Inr queueSpec, Inr kvusageSpec, Inr loraSpec) \<Rightarrow>
          Inr \<lparr>map_TotalQueuedRequests = queueSpec, map_KVCacheUtilization = kvusageSpec, map_LoraRequestInfo = Some loraSpec\<rparr>
      | (q, k, l) \<Rightarrow> Inl (Errorf [] (sum_errors q @ sum_errors k @ sum_errors l)))"

section \<open>Reading scraped metrics\<close>

text \<open>A scraped metric: what its getters return, whether it has a gauge, and its counter.\<close>

record PromMetric =
  prom_Metric :: Metric
  prom_HasGauge :: bool
  prom_Counter :: "float64 option"

type_synonym PrometheusMetricMap = "string \<rightharpoonup> PromMetric list"

definition extractFamily :: "Spec option \<Rightarrow> PrometheusMetricMap \<Rightarrow> goError + PromMetric list" where
  "extractFamily spec families =
     (case spec of
        None \<Rightarrow> Inl (Errorf ''metric specification is nil'' [])
      | Some s \<Rightarrow>
          (case families (dl_Name s) of
             None \<Rightarrow> Inl (Errorf ''metric family not found'' [])
           | Some family \<Rightarrow> if length family = 0 then Inl (Errorf ''no metrics found'' []) else Inr family))"

text \<open>Of two labels with the same name the last one counts.\<close>

definition spec_labelsMatch :: "Spec \<Rightarrow> LabelPair list \<Rightarrow> bool" where
  "spec_labelsMatch spec metricLabels \<longleftrightarrow>
     (length (dl_Labels spec) = 0 \<or> list_all (\<lambda>(name, value). map_of (rev metricLabels) name = Some value) (dl_Labels spec))"

definition extractValue :: "PromMetric \<Rightarrow> float64" where
  "extractValue m = (if prom_HasGauge m then GaugeValue (prom_Metric m) else case prom_Counter m of Some v \<Rightarrow> v | None \<Rightarrow> 0)"

fun spec_latest :: "Spec \<Rightarrow> PromMetric list \<Rightarrow> PromMetric option \<Rightarrow> int \<Rightarrow> PromMetric option" where
  "spec_latest spec [] latest recent = latest"
| "spec_latest spec (m # ms) latest recent =
     (if spec_labelsMatch spec (GetLabel (prom_Metric m)) \<and> TimestampMs (prom_Metric m) > recent
      then spec_latest spec ms (Some m) (TimestampMs (prom_Metric m))
      else spec_latest spec ms latest recent)"

definition spec_getLatestMetric :: "Spec \<Rightarrow> PrometheusMetricMap \<Rightarrow> goError + PromMetric" where
  "spec_getLatestMetric spec families =
     (case extractFamily (Some spec) families of
        Inl err \<Rightarrow> Inl err
      | Inr family \<Rightarrow>
          (case spec_latest spec family None (-1) of
             None \<Rightarrow> Inl (Errorf ''no matching metric found'' [])
           | Some latest \<Rightarrow> Inr latest))"

fun lora_latest :: "Spec \<Rightarrow> PromMetric list \<Rightarrow> PromMetric option \<Rightarrow> float64 \<Rightarrow> PromMetric option" where
  "lora_latest spec [] latest recent = latest"
| "lora_latest spec (m # ms) latest recent =
     (if spec_labelsMatch spec (GetLabel (prom_Metric m)) \<and> extractValue m > recent
      then lora_latest spec ms (Some m) (extractValue m)
      else lora_latest spec ms latest recent)"

definition lora_getLatestMetric :: "LoRASpec \<Rightarrow> PrometheusMetricMap \<Rightarrow> goError + PromMetric" where
  "lora_getLatestMetric spec families =
     (case extractFamily (lora_Spec spec) families of
        Inl err \<Rightarrow> Inl err
      | Inr family \<Rightarrow>
          (case lora_latest (the (lora_Spec spec)) family None (-1) of
             None \<Rightarrow> Inl (Errorf ''no matching lora metric found'' [])
           | Some latest \<Rightarrow> Inr latest))"

section \<open>The extractor\<close>

definition addAdapters :: "(string \<times> int) list \<Rightarrow> string \<Rightarrow> (string \<times> int) list" where
  "addAdapters m csv = adapters (filter (\<lambda>name. name \<noteq> []) (map str_TrimSpace (str_Split (CHR '','') csv))) m"

fun populate_labels :: "LabelPair list \<Rightarrow> Metrics \<Rightarrow> goError list \<Rightarrow> Metrics \<times> goError list" where
  "populate_labels [] clone errs = (clone, errs)"
| "populate_labels ((name, value) # ls) clone errs =
     (if name = LoraInfoRunningAdaptersMetricName then populate_labels ls (clone\<lparr>ActiveModels := addAdapters (ActiveModels clone) value\<rparr>) errs
      else if name = LoraInfoWaitingAdaptersMetricName then populate_labels ls (clone\<lparr>WaitingModels := addAdapters (WaitingModels clone) value\<rparr>) errs
      else if name = LoraInfoMaxAdaptersMetricName \<and> value \<noteq> [] then
        (case strconv_Atoi value of
           (val, True) \<Rightarrow> populate_labels ls (clone\<lparr>MaxActiveModels := val\<rparr>) errs
         | (val, False) \<Rightarrow> populate_labels ls clone (errs @ [Errorf ''Atoi'' []]))
      else populate_labels ls clone errs)"

definition populateLoRAMetrics :: "Metrics \<Rightarrow> PromMetric \<Rightarrow> goError list \<Rightarrow> Metrics \<times> goError list" where
  "populateLoRAMetrics clone metric errs = populate_labels (GetLabel (prom_Metric metric)) (clone\<lparr>ActiveModels := [], WaitingModels := []\<rparr>) errs"

text \<open>The clone (\<open>None\<close> is a nil pointer: writing to it panics), whether it was updated, and the errors.\<close>

type_synonym extraction = "Metrics option \<times> bool \<times> goError list"

definition extract_field :: "PrometheusMetricMap \<Rightarrow> Spec option \<Rightarrow> (float64 \<Rightarrow> Metrics \<Rightarrow> Metrics) \<Rightarrow> extraction \<Rightarrow> extraction go" where
  "extract_field families spec put x =
     (case x of (clone, updated, errs) \<Rightarrow>
        (case spec of
           None \<Rightarrow> Ret x
         | Some s \<Rightarrow>
             (case spec_getLatestMetric s families of
                Inl err \<Rightarrow> Ret (clone, updated, errs @ [err])
              | Inr metric \<Rightarrow> (case clone of None \<Rightarrow> Panic | Some m \<Rightarrow> Ret (Some (put (extractValue metric) m), True, errs)))))"

definition extract_lora :: "PrometheusMetricMap \<Rightarrow> LoRASpec option \<Rightarrow> extraction \<Rightarrow> extraction go" where
  "extract_lora families spec x =
     (case x of (clone, updated, errs) \<Rightarrow>
        (case spec of
           None \<Rightarrow> Ret x
         | Some s \<Rightarrow>
             (case lora_getLatestMetric s families of
                Inl err \<Rightarrow> Ret (clone, updated, errs @ [err])
              | Inr metric \<Rightarrow>
                  (case clone of
                     None \<Rightarrow> Panic
                   | Some m \<Rightarrow> (case populateLoRAMetrics m metric errs of (m', errs') \<Rightarrow> Ret (Some m', True, errs'))))))"

definition go_bind :: "'a go \<Rightarrow> ('a \<Rightarrow> 'b go) \<Rightarrow> 'b go" where
  "go_bind r f = (case r of Panic \<Rightarrow> Panic | Ret x \<Rightarrow> f x)"

text \<open>\<open>data\<close> is \<open>None\<close> when it is not of the expected type.\<close>

definition Extract :: "Mapping \<Rightarrow> time \<Rightarrow> PrometheusMetricMap option \<Rightarrow> ModelServer \<Rightarrow> (goError option \<times> ModelServer) go" where
  "Extract mapping now data ep =
     (case data of
        None \<Rightarrow> Ret (Some (Errorf ''unexpected input in Extract'' []), ep)
      | Some families \<Rightarrow>
          go_bind (go_bind (go_bind (Ret (Metrics_Clone (ms_metrics ep), False, []))
            (extract_field families (map_TotalQueuedRequests mapping) (\<lambda>v m. m\<lparr>WaitingQueueSize := trunc_int v\<rparr>)))
            (extract_field families (map_KVCacheUtilization mapping) (\<lambda>v m. m\<lparr>KVCacheUsagePercent := v\<rparr>)))
            (\<lambda>x. go_bind (extract_lora families (map_LoraRequestInfo mapping) x)
              (\<lambda>(clone, updated, errs).
                 Ret (if length errs \<noteq> 0 then Some (Errorf [] errs) else None,
                      if updated then ms_UpdateMetrics (map_option (\<lambda>m. m\<lparr>UpdateTime := now\<rparr>) clone) ep else ep))))"

record Extractor =
  ext_mapping :: Mapping

definition NewExtractor :: "(string \<Rightarrow> goError + promExpr) \<Rightarrow> string \<Rightarrow> string \<Rightarrow> string \<Rightarrow> goError + Extractor" where
  "NewExtractor parseExpr queueSpec kvusageSpec loraSpec =
     (case NewMapping parseExpr queueSpec kvusageSpec loraSpec of
        Inl err \<Rightarrow> Inl (Errorf ''failed to create extractor metrics Mapping'' [err])
      | Inr mapping \<Rightarrow> Inr \<lparr>ext_mapping = mapping\<rparr>)"

section \<open>The data source\<close>

text \<open>An extractor object: its name, the type it expects and its \<open>Extract\<close>.\<close>

record ExtractorObj =
  ex_Name :: string
  ex_Type :: "reflectType option"
  ex_Extract :: "time \<Rightarrow> PrometheusMetricMap option \<Rightarrow> ModelServer \<Rightarrow> (goError option \<times> ModelServer) go"

record MetricsDataSource =
  metricsScheme :: string
  metricsPort :: string
  metricsPath :: string
  mds_extractors :: "string \<rightharpoonup> ExtractorObj"

definition SetPort :: "int \<Rightarrow> MetricsDataSource \<Rightarrow> MetricsDataSource" where
  "SetPort port d = d\<lparr>metricsPort := strconv_Itoa port\<rparr>"

definition NewDataSource :: "string \<Rightarrow> int \<Rightarrow> string \<Rightarrow> MetricsDataSource" where
  "NewDataSource scheme port path = SetPort port \<lparr>metricsScheme = scheme, metricsPort = [], metricsPath = path, mds_extractors = Map.empty\<rparr>"

definition PrometheusMetricType :: reflectType where
  "PrometheusMetricType = \<lparr>rt_Name = ''map[string]*dto.MetricFamily'', rt_Interface = False, rt_NumMethod = 0\<rparr>"

definition AddExtractor :: "(reflectType \<Rightarrow> reflectType \<Rightarrow> bool) \<Rightarrow> ExtractorObj \<Rightarrow> MetricsDataSource \<Rightarrow> goError option \<times> MetricsDataSource" where
  "AddExtractor implements ex d =
     (case ValidateExtractorType implements (Some PrometheusMetricType) (ex_Type ex) of
        Some err \<Rightarrow> (Some err, d)
      | None \<Rightarrow>
          if mds_extractors d (ex_Name ex) \<noteq> None then (Some (Errorf ''attempt to add extractor with duplicate name'' []), d)
          else (None, d\<lparr>mds_extractors := (mds_extractors d)(ex_Name ex \<mapsto> ex)\<rparr>))"

text \<open>Scheme, host and path of the URL; the address of a pod that was never set panics.\<close>

definition getMetricsEndpoint :: "MetricsDataSource \<Rightarrow> PodInfo option \<Rightarrow> (string \<times> string \<times> string) go" where
  "getMetricsEndpoint d ep =
     (case ep of None \<Rightarrow> Panic | Some p \<Rightarrow> Ret (metricsScheme d, net_JoinHostPort (GetIPAddress p) (metricsPort d), metricsPath d))"

fun run_extractors :: "ExtractorObj list \<Rightarrow> time \<Rightarrow> PrometheusMetricMap \<Rightarrow> ModelServer \<Rightarrow> goError list \<Rightarrow> (goError list \<times> ModelServer) go" where
  "run_extractors [] now families ep errs = Ret (errs, ep)"
| "run_extractors (ex # exs) now families ep errs =
     (case ex_Extract ex now (Some families) ep of
        Panic \<Rightarrow> Panic
      | Ret (err, ep') \<Rightarrow> run_extractors exs now families ep' (case err of None \<Rightarrow> errs | Some e \<Rightarrow> errs @ [e]))"

text \<open>\<open>get\<close> is the client; \<open>ord\<close> the order in which the extractors are visited.\<close>

definition mds_Collect ::
  "(string \<times> string \<times> string \<Rightarrow> goError + PrometheusMetricMap) \<Rightarrow> ((string \<rightharpoonup> ExtractorObj) \<Rightarrow> string list) \<Rightarrow> time \<Rightarrow>
   MetricsDataSource \<Rightarrow> ModelServer \<Rightarrow> (goError option \<times> ModelServer) go" where
  "mds_Collect get ord now d ep =
     (case getMetricsEndpoint d (ms_pod ep) of
        Panic \<Rightarrow> Panic
      | Ret target \<Rightarrow>
          (case get target of
             Inl err \<Rightarrow> Ret (Some err, ep)
           | Inr families \<Rightarrow>
               (case run_extractors (List.map_filter (mds_extractors d) (ord (mds_extractors d))) now families ep [] of
                  Panic \<Rightarrow> Panic
                | Ret (errs, ep') \<Rightarrow> Ret (if length errs \<noteq> 0 then Some (Errorf [] errs) else None, ep'))))"

section \<open>Agreement with the metrics client\<close>

text \<open>The specification, the families and the mapping as the metrics client of \<open>backend/metrics\<close> has them.\<close>

definition old_families :: "PrometheusMetricMap \<Rightarrow> metricFamilies" where
  "old_families families name = map_option (map prom_Metric) (families name)"

definition new_spec :: "MetricSpec \<Rightarrow> Spec" where "new_spec s = \<lparr>dl_Name = MetricName s, dl_Labels = Labels s\<rparr>"

definition new_mapping :: "MetricMapping \<Rightarrow> Mapping" where
  "new_mapping mapping =
     \<lparr>map_TotalQueuedRequests = map_option new_spec (TotalQueuedRequests mapping), map_KVCacheUtilization = map_option new_spec (KVCacheUtilization mapping),
      map_LoraRequestInfo = Some (LoRASpec (map_option new_spec (LoraRequestInfo mapping)))\<rparr>"

text \<open>Gauges whose label names are distinct.\<close>

definition plain_metric :: "PromMetric \<Rightarrow> bool" where
  "plain_metric m \<longleftrightarrow> prom_HasGauge m \<and> distinct (map fst (GetLabel (prom_Metric m)))"

text \<open>
  A series of the LoRA metric as the model server protocol describes it: its value is a time, it
  lists running or waiting adapters, names are separated by commas alone, the maximum is a number.
\<close>

definition lora_label :: "LabelPair \<Rightarrow> bool" where
  "lora_label l \<longleftrightarrow>
     (fst l \<in> {LoraInfoRunningAdaptersMetricName, LoraInfoWaitingAdaptersMetricName} \<longrightarrow>
        snd l = [] \<or> list_all (\<lambda>a. a \<noteq> [] \<and> str_TrimSpace a = a) (str_Split (CHR '','') (snd l))) \<and>
     (fst l = LoraInfoMaxAdaptersMetricName \<longrightarrow> snd l = [] \<or> snd (strconv_Atoi (snd l)))"

definition lora_series :: "PromMetric \<Rightarrow> bool" where
  "lora_series m \<longleftrightarrow> plain_metric m \<and> 0 < GaugeValue (prom_Metric m) \<and> list_all lora_label (GetLabel (prom_Metric m)) \<and>
     (label_value LoraInfoRunningAdaptersMetricName (GetLabel (prom_Metric m)) \<noteq> [] \<or> label_value LoraInfoWaitingAdaptersMetricName (GetLabel (prom_Metric m)) \<noteq> [])"

lemma labelsMatch_agree:
  assumes "distinct (map fst ls)"
  shows "spec_labelsMatch (new_spec s) ls \<longleftrightarrow> labelsMatch ls (Labels s)"
proof -
  have "map_of (rev ls) n = Some v \<longleftrightarrow> (n, v) \<in> set ls" for n v using assms by (simp add: rev_map [symmetric])
  then show ?thesis by (auto simp: spec_labelsMatch_def labelsMatch_def new_spec_def)
qed

lemma spec_latest_agree:
  "list_all plain_metric ms \<Longrightarrow>
   map_option prom_Metric (spec_latest (new_spec s) ms latest recent) = latest_from s (map prom_Metric ms) (map_option prom_Metric latest) recent"
proof (induction ms arbitrary: latest recent)
  case (Cons m ms)
  then have "spec_labelsMatch (new_spec s) (GetLabel (prom_Metric m)) \<longleftrightarrow> labelsMatch (GetLabel (prom_Metric m)) (Labels s)"
    by (simp add: plain_metric_def labelsMatch_agree)
  then show ?case using Cons.prems Cons.IH [of "Some m"] Cons.IH [of latest recent] by simp
qed simp

lemma spec_latest_plain: "list_all P ms \<Longrightarrow> pred_option P latest \<Longrightarrow> pred_option P (spec_latest s ms latest recent)"
  by (induction s ms latest recent rule: spec_latest.induct) auto

lemma getLatest_agree:
  assumes "pred_option (list_all plain_metric) (families (MetricName s))"
  shows "case getMetric (old_families families) s of
      Inl _ \<Rightarrow> \<exists>e. spec_getLatestMetric (new_spec s) families = Inl e
    | Inr m \<Rightarrow> \<exists>p. spec_getLatestMetric (new_spec s) families = Inr p \<and> extractValue p = GaugeValue m"
proof (cases "families (MetricName s)")
  case None
  then show ?thesis by (simp add: getMetric_def old_families_def spec_getLatestMetric_def extractFamily_def new_spec_def)
next
  case (Some ms)
  show ?thesis
  proof (cases "ms = []")
    case False
    have P: "list_all plain_metric ms" using Some assms by simp
    have L: "map_option prom_Metric (spec_latest (new_spec s) ms None (-1)) = latest_from s (map prom_Metric ms) None (-1)"
      using spec_latest_agree [OF P, of s None] by simp
    have V: "extractValue p = GaugeValue (prom_Metric p)" if "spec_latest (new_spec s) ms None (-1) = Some p" for p
      using spec_latest_plain [OF P, of None "new_spec s" "-1"] that by (simp add: plain_metric_def extractValue_def)
    have g: "getMetric (old_families families) s = getLatestMetric (map prom_Metric ms) s"
      using Some False by (simp add: getMetric_def old_families_def)
    have "spec_getLatestMetric (new_spec s) families = (case spec_latest (new_spec s) ms None (-1) of
        None \<Rightarrow> Inl (Errorf ''no matching metric found'' []) | Some latest \<Rightarrow> Inr latest)"
      using Some False by (simp add: spec_getLatestMetric_def extractFamily_def new_spec_def)
    then show ?thesis unfolding g getLatestMetric_def L [symmetric] using V
      by (cases "spec_latest (new_spec s) ms None (-1)") auto
  qed (use Some in \<open>simp add: getMetric_def old_families_def spec_getLatestMetric_def extractFamily_def new_spec_def\<close>)
qed

lemma lora_latest_agree:
  "list_all lora_series ms \<Longrightarrow> dl_Labels spec = [] \<Longrightarrow>
   recent' = recent \<or> latest = None \<and> recent = -1 \<and> recent' = 0 \<Longrightarrow>
   map_option prom_Metric (lora_latest spec ms latest recent) = lora_from (map prom_Metric ms) (map_option prom_Metric latest) recent'"
proof (induction ms arbitrary: latest recent recent')
  case (Cons m ms)
  have s: "lora_series m" "list_all lora_series ms" using Cons.prems(1) by simp_all
  then have v: "extractValue m = GaugeValue (prom_Metric m)" "0 < extractValue m" by (simp_all add: lora_series_def plain_metric_def extractValue_def)
  have "spec_labelsMatch spec (GetLabel (prom_Metric m))" using Cons.prems(2) by (simp add: spec_labelsMatch_def)
  moreover have "extractValue m > recent \<longleftrightarrow> GaugeValue (prom_Metric m) > recent'" using v Cons.prems(3) by auto
  moreover have "\<not> (label_value LoraInfoRunningAdaptersMetricName (GetLabel (prom_Metric m)) = [] \<and> label_value LoraInfoWaitingAdaptersMetricName (GetLabel (prom_Metric m)) = [])"
    using s(1) by (auto simp: lora_series_def)
  ultimately show ?case
    using Cons.IH [OF s(2) Cons.prems(2), of "extractValue m" "extractValue m" "Some m"] Cons.IH [OF s(2) Cons.prems(2,3)] v(1)
    by (auto simp: Let_def)
qed simp

lemma addAdapters_agree:
  assumes "value = [] \<or> list_all (\<lambda>a. a \<noteq> [] \<and> str_TrimSpace a = a) (str_Split (CHR '','') value)"
  shows "addAdapters m value = (if value = [] then m else adapters (str_Split (CHR '','') value) m)"
proof (cases "value = []")
  case True
  then show ?thesis by (simp add: addAdapters_def str_TrimSpace_def)
next
  case False
  then have a: "\<forall>a\<in>set (str_Split (CHR '','') value). a \<noteq> [] \<and> str_TrimSpace a = a" using assms by (simp add: list_all_iff)
  then have "map str_TrimSpace (str_Split (CHR '','') value) = str_Split (CHR '','') value" by (simp add: map_idI)
  moreover have "filter (\<lambda>a. a \<noteq> []) (str_Split (CHR '','') value) = str_Split (CHR '','') value" using a by (simp add: filter_id_conv)
  ultimately show ?thesis using False by (simp add: addAdapters_def)
qed

lemma populate_agree: "list_all lora_label ls \<Longrightarrow> fst (populate_labels ls c errs) = fst (lora_labels ls c errs')"
proof (induction ls arbitrary: c errs errs')
  case (Cons l ls)
  obtain name val where l: "l = (name, val)" by force
  have ne: "LoraInfoRunningAdaptersMetricName \<noteq> LoraInfoWaitingAdaptersMetricName" "LoraInfoRunningAdaptersMetricName \<noteq> LoraInfoMaxAdaptersMetricName"
    "LoraInfoWaitingAdaptersMetricName \<noteq> LoraInfoMaxAdaptersMetricName"
    by (simp_all add: LoraInfoRunningAdaptersMetricName_def LoraInfoWaitingAdaptersMetricName_def LoraInfoMaxAdaptersMetricName_def)
  have IH: "fst (populate_labels ls c errs) = fst (lora_labels ls c errs')" for c errs errs' using Cons by simp
  have lab: "lora_label (name, val)" using Cons.prems l by simp
  consider "name = LoraInfoRunningAdaptersMetricName" | "name = LoraInfoWaitingAdaptersMetricName" | "name = LoraInfoMaxAdaptersMetricName" |
    "name \<notin> {LoraInfoRunningAdaptersMetricName, LoraInfoWaitingAdaptersMetricName, LoraInfoMaxAdaptersMetricName}" by blast
  then show ?case
  proof cases
    case 3
    obtain n k where "strconv_Atoi val = (n, k)" by force
    then show ?thesis using 3 l lab ne IH by (cases k) (auto simp: Let_def lora_label_def)
  qed (use l lab ne IH in \<open>auto simp: Let_def lora_label_def addAdapters_agree\<close>)
qed simp

text \<open>What the metrics client makes of the metrics, field by field.\<close>

definition old_field :: "PrometheusMetricMap \<Rightarrow> MetricSpec option \<Rightarrow> (float64 \<Rightarrow> Metrics \<Rightarrow> Metrics) \<Rightarrow> Metrics \<Rightarrow> Metrics" where
  "old_field families spec put m =
     (case spec of None \<Rightarrow> m | Some s \<Rightarrow> (case getMetric (old_families families) s of Inl _ \<Rightarrow> m | Inr q \<Rightarrow> put (GaugeValue q) m))"

definition old_lora :: "PrometheusMetricMap \<Rightarrow> MetricSpec option \<Rightarrow> Metrics \<Rightarrow> Metrics" where
  "old_lora families spec m =
     (case spec of None \<Rightarrow> m | Some s \<Rightarrow>
        (case old_families families (MetricName s) of
           None \<Rightarrow> m
         | Some ms \<Rightarrow> (case lora_from ms None 0 of None \<Rightarrow> m | Some x \<Rightarrow> fst (lora_labels (GetLabel x) (m\<lparr>ActiveModels := [], WaitingModels := []\<rparr>) []))))"

lemma lora_labels_errs: "fst (lora_labels ls c errs) = fst (lora_labels ls c errs')"
proof (induction ls arbitrary: c errs errs')
  case (Cons l ls)
  obtain name val where l: "l = (name, val)" by force
  obtain n k where a: "strconv_Atoi val = (n, k)" by force
  define u where "u = (let u1 = (if name = LoraInfoRunningAdaptersMetricName \<and> val \<noteq> [] then c\<lparr>ActiveModels := adapters (str_Split (CHR '','') val) (ActiveModels c)\<rparr> else c)
    in if name = LoraInfoWaitingAdaptersMetricName \<and> val \<noteq> [] then u1\<lparr>WaitingModels := adapters (str_Split (CHR '','') val) (WaitingModels u1)\<rparr> else u1)"
  have e: "lora_labels (l # ls) c errs =
      (if name = LoraInfoMaxAdaptersMetricName \<and> val \<noteq> [] then lora_labels ls (u\<lparr>MaxActiveModels := n\<rparr>) (if k then errs else errs @ [Errorf ''Atoi'' []])
       else lora_labels ls u errs)" for errs
    by (simp only: l lora_labels.simps Let_def a prod.case u_def)
  show ?case unfolding e
    using Cons.IH [of "u\<lparr>MaxActiveModels := n\<rparr>" "if k then errs else errs @ [Errorf ''Atoi'' []]" "if k then errs' else errs' @ [Errorf ''Atoi'' []]"]
      Cons.IH [of u errs errs'] by presburger
qed simp

lemma promToPodMetrics_fields:
  "fst (promToPodMetrics mapping (old_families families) m) =
     old_lora families (LoraRequestInfo mapping) (old_field families (KVCacheUtilization mapping) (\<lambda>v m. m\<lparr>KVCacheUsagePercent := v\<rparr>)
       (old_field families (TotalQueuedRequests mapping) (\<lambda>v m. m\<lparr>WaitingQueueSize := trunc_int v\<rparr>) m))"
  using lora_labels_errs
  by (auto simp: promToPodMetrics_def Let_def old_lora_def old_field_def getLatestLoraMetric_def split: option.splits sum.splits)

lemma extract_field_agree:
  assumes "\<And>s. spec = Some s \<Longrightarrow> pred_option (list_all plain_metric) (families (MetricName s))" "upd \<or> m = m0"
  shows "\<exists>upd' errs'. extract_field families (map_option new_spec spec) put (Some m, upd, errs) = Ret (Some (old_field families spec put m), upd', errs') \<and>
    (upd' \<or> old_field families spec put m = m0)"
proof (cases spec)
  case (Some s)
  then show ?thesis using getLatest_agree [where families = families and s = s, OF assms(1) [OF Some]] assms(2)
    by (auto simp: extract_field_def old_field_def split: sum.splits)
qed (use assms(2) in \<open>auto simp: extract_field_def old_field_def\<close>)

lemma extract_lora_agree:
  assumes "\<And>s. spec = Some s \<Longrightarrow> Labels s = [] \<and> pred_option (list_all lora_series) (families (MetricName s))" "upd \<or> m = m0"
  shows "\<exists>upd' errs'. extract_lora families (Some (LoRASpec (map_option new_spec spec))) (Some m, upd, errs) = Ret (Some (old_lora families spec m), upd', errs') \<and>
    (upd' \<or> old_lora families spec m = m0)"
proof (cases "\<exists>s ms. spec = Some s \<and> families (MetricName s) = Some ms \<and> ms \<noteq> []")
  case True
  then obtain s ms where s: "spec = Some s" "families (MetricName s) = Some ms" "ms \<noteq> []" by blast
  have ls: "list_all lora_series ms" "Labels s = []" using assms(1) [OF s(1)] s(2) by simp_all
  have L: "map_option prom_Metric (lora_latest (new_spec s) ms None (-1)) = lora_from (map prom_Metric ms) None 0"
    using lora_latest_agree [OF ls(1), of "new_spec s" 0 "-1" None] ls(2) by (simp add: new_spec_def)
  have G: "lora_getLatestMetric (LoRASpec (Some (new_spec s))) families = (case lora_latest (new_spec s) ms None (-1) of
      None \<Rightarrow> Inl (Errorf ''no matching lora metric found'' []) | Some latest \<Rightarrow> Inr latest)"
    using s by (simp add: lora_getLatestMetric_def extractFamily_def new_spec_def)
  show ?thesis
  proof (cases "lora_latest (new_spec s) ms None (-1)")
    case None
    then show ?thesis using L G s assms(2) by (simp add: extract_lora_def old_lora_def old_families_def)
  next
    case (Some p)
    have "pred_option lora_series (lora_latest (new_spec s) xs latest r)" if "list_all lora_series xs" "pred_option lora_series latest" for xs latest r
      using that by (induction "new_spec s" xs latest r rule: lora_latest.induct) auto
    from this [OF ls(1), of None "-1"] have p: "list_all lora_label (GetLabel (prom_Metric p))" using Some by (simp add: lora_series_def)
    obtain m' errs' where pop: "populateLoRAMetrics m p errs = (m', errs')" by force
    then have "m' = fst (lora_labels (GetLabel (prom_Metric p)) (m\<lparr>ActiveModels := [], WaitingModels := []\<rparr>) [])"
      using populate_agree [OF p, of "m\<lparr>ActiveModels := [], WaitingModels := []\<rparr>" errs "[]"] by (simp add: populateLoRAMetrics_def)
    moreover have "lora_from (map prom_Metric ms) None 0 = Some (prom_Metric p)" using L Some by simp
    ultimately show ?thesis using G Some s pop by (intro exI [of _ True]) (simp add: extract_lora_def old_lora_def old_families_def)
  qed
next
  case False
  then have "\<exists>e. lora_getLatestMetric (LoRASpec (map_option new_spec spec)) families = Inl e"
    by (cases spec; cases "families (MetricName (the spec))") (auto simp: lora_getLatestMetric_def extractFamily_def new_spec_def)
  moreover have "old_lora families spec m = m" using False by (auto simp: old_lora_def old_families_def split: option.splits)
  ultimately show ?thesis using assms(2) by (auto simp: extract_lora_def)
qed


definition wSeries :: PromMetric where
  "wSeries = \<lparr>prom_Metric = \<lparr>GetLabel = [(''running_lora_adapters'', ''a,b''), (''max_lora'', ''4'')], GaugeValue = 5, TimestampMs = 0\<rparr>, prom_HasGauge = True, prom_Counter = None\<rparr>"

definition wQueueGauge :: PromMetric where
  "wQueueGauge = \<lparr>prom_Metric = \<lparr>GetLabel = [], GaugeValue = 3, TimestampMs = 0\<rparr>, prom_HasGauge = True, prom_Counter = None\<rparr>"

definition wScrape :: PrometheusMetricMap where "wScrape = [''l'' \<mapsto> [wSeries], ''q'' \<mapsto> [wQueueGauge]]"

definition wOldMapping :: MetricMapping where
  "wOldMapping = \<lparr>TotalQueuedRequests = Some \<lparr>MetricName = ''q'', Labels = []\<rparr>, KVCacheUtilization = None, LoraRequestInfo = Some \<lparr>MetricName = ''l'', Labels = []\<rparr>\<rparr>"

lemma wSeries_ok: "lora_series wSeries"
  by (simp add: lora_series_def plain_metric_def wSeries_def lora_label_def LoraInfoRunningAdaptersMetricName_def LoraInfoWaitingAdaptersMetricName_def
      LoraInfoMaxAdaptersMetricName_def label_value_def str_TrimSpace_def is_space_def strconv_Atoi_def is_digit_def atou_def maxInt64_def minInt64_def)


text \<open>
  Two situations the extractor does not handle: with an empty LoRA specification every
  extraction reports an error, since the specification is wrapped before it is compared to nil;
  and on an endpoint that has no metrics yet it crashes as soon as it finds a value.
\<close>

lemma extract_failures:
  assumes "NewMapping parseExpr queue kvusage [] = Inr mapping"
  shows "(\<forall>data ep err ep'. Extract mapping now data ep = Ret (err, ep') \<longrightarrow> err \<noteq> None) \<and>
    (\<forall>s families m. map_TotalQueuedRequests mapping = Some s \<longrightarrow> spec_getLatestMetric s families = Inr m \<longrightarrow> Extract mapping now (Some families) NewEndpoint = Panic)"
proof -
  have l: "map_LoraRequestInfo mapping = Some (LoRASpec None)"
    using assms by (auto simp: NewMapping_def parseStringToLoRASpec_def parseStringToSpec_def split: sum.splits)
  have "extract_lora families (Some (LoRASpec None)) x = Ret (fst x, fst (snd x), snd (snd x) @ [Errorf ''metric specification is nil'' []])" for families x
    by (cases x) (simp add: extract_lora_def lora_getLatestMetric_def extractFamily_def)
  then show ?thesis using l
    by (auto simp: Extract_def go_bind_def NewEndpoint_def extract_field_def split: option.splits go.splits)
qed

definition wParse :: "string \<Rightarrow> goError + promExpr" where "wParse s = Inr (VectorSelector s [])"

lemma extract_failures_witness:
  "Extract \<lparr>map_TotalQueuedRequests = Some \<lparr>dl_Name = ''q'', dl_Labels = []\<rparr>, map_KVCacheUtilization = None, map_LoraRequestInfo = Some (LoRASpec None)\<rparr>
     9 (Some wScrape) NewEndpoint = Panic"
proof -
  have "addQuotesToLabelValues ''q'' = ''q''" by (code_simp)
  then have "NewMapping wParse ''q'' [] [] = Inr \<lparr>map_TotalQueuedRequests = Some \<lparr>dl_Name = ''q'', dl_Labels = []\<rparr>, map_KVCacheUtilization = None, map_LoraRequestInfo = Some (LoRASpec None)\<rparr>"
    by (simp add: NewMapping_def parseStringToSpec_def parseStringToLoRASpec_def wParse_def)
  from extract_failures [OF this, of 9] show ?thesis
    by (simp add: spec_getLatestMetric_def extractFamily_def wScrape_def spec_labelsMatch_def wQueueGauge_def)
qed

text \<open>
  The quoting of label values also rewrites text inside quotes: a quoted value with an equals sign
  gets quotes in its middle.
\<close>

lemma quotes_inside:
  "addQuotesToLabelValues (''m{l='' @ [CHR 0x22] @ ''a=b'' @ [CHR 0x22] @ ''}'') = ''m{l='' @ [CHR 0x22] @ ''a='' @ [CHR 0x22] @ ''b'' @ [CHR 0x22, CHR 0x22] @ ''}''"
  by code_simp

lemma quotes_added: "addQuotesToLabelValues ''m{l = v}'' = ''m{l='' @ [CHR 0x22] @ ''v'' @ [CHR 0x22] @ ''}''"
  by code_simp

end
