(* ===== verification/PoolMetrics.thy ===== *)
theory PoolMetrics
  imports Datastore FlowTypes
begin

text \<open>
  What surrounds the data store: the client that scrapes a pod
  (\<open>backend/metrics/metrics.go\<close>), the aggregates of the pool (\<open>backend/metrics/logger.go\<close>), the
  collector of queue sizes (\<open>metrics/collectors\<close>), the health service
  (\<open>cmd/epp/runner/health.go\<close>), and the order of resources (\<open>common/kubemeta.go\<close>). The HTTP client and the
  parser of the exposition format are arguments.
\<close>

section \<open>Scraping a pod\<close>

record PodMetricsClientImpl =
  pmc_MetricMapping :: MetricMapping
  ModelServerMetricsPort :: int
  ModelServerMetricsPath :: string
  ModelServerMetricsScheme :: string

text \<open>The client is changed: the first target port is kept.\<close>

definition getMetricEndpoint :: "backendPod \<Rightarrow> int \<Rightarrow> PodMetricsClientImpl \<Rightarrow> string \<times> PodMetricsClientImpl" where
  "getMetricEndpoint pod targetPortNumber p =
     (let p1 = (if ModelServerMetricsPort p = 0 then p\<lparr>ModelServerMetricsPort := targetPortNumber\<rparr> else p)
      in (ModelServerMetricsScheme p1 @ ''://'' @ bp_Address pod @ '':'' @ strconv_Itoa (ModelServerMetricsPort p1) @ ModelServerMetricsPath p1, p1))"

text \<open>\<open>get\<close> gives an error, or the status and the body; \<open>parse\<close> reads the body.\<close>

definition FetchMetrics ::
  "(string \<Rightarrow> goError + int \<times> string) \<Rightarrow> (string \<Rightarrow> goError + metricFamilies) \<Rightarrow> backendPod \<Rightarrow> MetricsState \<Rightarrow> int \<Rightarrow> PodMetricsClientImpl \<Rightarrow>
   (MetricsState option \<times> goError list) \<times> PodMetricsClientImpl" where
  "FetchMetrics get parse pod existing port p =
     (case getMetricEndpoint pod port p of (url, p1) \<Rightarrow>
        ((case get url of
            Inl err \<Rightarrow> (None, [Errorf ''failed to fetch metrics'' [err]])
          | Inr (status, body) \<Rightarrow>
              if status \<noteq> 200 then (None, [Errorf ''unexpected status code'' []])
              else case parse body of
                Inl err \<Rightarrow> (None, [err])
              | Inr families \<Rightarrow> (case promToPodMetrics (pmc_MetricMapping p1) families existing of (updated, errs) \<Rightarrow> (Some updated, errs))),
         p1))"

section \<open>Aggregates of the pool\<close>

record poolGauges =
  avgKVCache :: float64
  avgQueueSize :: float64
  readyPods :: nat

text \<open>\<open>None\<close> when nothing is recorded. The average of the queues is an integer division.\<close>

definition refreshPrometheusMetrics :: "NamespacedName list \<Rightarrow> time \<Rightarrow> duration \<Rightarrow> datastore \<Rightarrow> (string \<times> poolGauges) option" where
  "refreshPrometheusMetrics ord now metricsStalenessThreshold ds =
     (case PoolGet ds of
        Inl err \<Rightarrow> None
      | Inr pool \<Rightarrow>
          (let podMetrics = PodList ord (\<lambda>pm. PodsWithFreshMetrics now metricsStalenessThreshold (Some pm)) ds in
           if length podMetrics = 0 then None
           else
             let kvCacheTotal = fold (\<lambda>pm t. t + KVCacheUsagePercent (pm_metrics pm)) podMetrics 0;
                 queueTotal = fold (\<lambda>pm t. t + WaitingQueueSize (pm_metrics pm)) podMetrics 0;
                 podTotalCount = length podMetrics
             in Some (pool_Name pool, \<lparr>avgKVCache = kvCacheTotal / of_nat podTotalCount,
                  avgQueueSize = of_int (trunc_int (of_int queueTotal / of_nat podTotalCount)), readyPods = podTotalCount\<rparr>)))"

text \<open>The gauges of the collector: pool, pod and queue size.\<close>

definition pool_Collect :: "NamespacedName list \<Rightarrow> datastore \<Rightarrow> (string \<times> string \<times> float64) list" where
  "pool_Collect ord ds =
     (case PoolGet ds of
        Inl err \<Rightarrow> []
      | Inr pool \<Rightarrow>
          (let podMetrics = PodList ord AllPodsPredicate ds in
           if length podMetrics = 0 then []
           else map (\<lambda>pm. (pool_Name pool, nn_Name (bp_NamespacedName (pm_pod pm)), of_int (WaitingQueueSize (pm_metrics pm)))) podMetrics))"

section \<open>Health\<close>

datatype servingStatus = SERVING | NOT_SERVING

definition health_Check :: "string \<Rightarrow> datastore \<Rightarrow> servingStatus" where
  "health_Check service ds = (if \<not> PoolHasSynced ds then NOT_SERVING else SERVING)"

text \<open>\<open>serviceName\<close> is the name of the external processing service.\<close>

definition health_List :: "string \<Rightarrow> datastore \<Rightarrow> (string \<times> servingStatus) list" where
  "health_List serviceName ds = [(serviceName, health_Check serviceName ds)]"

definition health_Watch :: goError where "health_Watch = Errorf ''Watch is not implemented'' []"

section \<open>The order of resources\<close>

record GKNN =
  gk_Group :: string
  gk_Kind :: string
  gk_Namespace :: string
  gk_Name :: string

definition gknn_Compare :: "GKNN \<Rightarrow> GKNN \<Rightarrow> int" where
  "gknn_Compare a b =
     (if strings_Compare (gk_Group a) (gk_Group b) \<noteq> 0 then strings_Compare (gk_Group a) (gk_Group b)
      else if strings_Compare (gk_Kind a) (gk_Kind b) \<noteq> 0 then strings_Compare (gk_Kind a) (gk_Kind b)
      else if strings_Compare (gk_Namespace a) (gk_Namespace b) \<noteq> 0 then strings_Compare (gk_Namespace a) (gk_Namespace b)
      else strings_Compare (gk_Name a) (gk_Name b))"

definition gknn_Less :: "GKNN \<Rightarrow> GKNN \<Rightarrow> bool" where "gknn_Less a b \<longleftrightarrow> gknn_Compare a b < 0"

lemma gknn_Compare_refl: "gknn_Compare a b = 0 \<longleftrightarrow> a = b"
  by (cases a; cases b) (auto simp: gknn_Compare_def strings_Compare_def)

lemma gknn_Compare_antisym: "gknn_Compare b a = - gknn_Compare a b"
  by (auto simp: gknn_Compare_def strings_Compare_def)

lemma gknn_Less_trans: "gknn_Less a b \<Longrightarrow> gknn_Less b c \<Longrightarrow> gknn_Less a c"
  by (auto simp: gknn_Less_def gknn_Compare_def strings_Compare_def split: if_splits)

lemma gknn_Less_total: "gknn_Less a b \<or> a = b \<or> gknn_Less b a"
  using gknn_Compare_refl [of a b] gknn_Compare_antisym [of a b] by (auto simp: gknn_Less_def)

section \<open>What is recorded\<close>

text \<open>
  The client that scrapes pods keeps the first port it is given: when no port is configured and
  the target port of the pool changes, it goes on asking for the old one.
\<close>

lemma scrape_port_sticks:
  assumes "ModelServerMetricsPort p = 0" "port \<noteq> 0"
    "getMetricEndpoint pod port p = (url1, p1)" "getMetricEndpoint pod port' p1 = (url2, p2)"
  shows "url2 = url1 \<and> p2 = p1"
  using assms by (auto simp: getMetricEndpoint_def Let_def)

lemma scrape_port_sticks_witness:
  "\<exists>p p1. getMetricEndpoint (toInternalPod (wCore ''a'')) 8000 p = (''http://10.0.0.1:8000/metrics'', p1) \<and>
     getMetricEndpoint (toInternalPod (wCore ''a'')) 9000 p1 = (''http://10.0.0.1:8000/metrics'', p1)"
proof -
  let ?m = "\<lparr>TotalQueuedRequests = None, KVCacheUtilization = None, LoraRequestInfo = None\<rparr>"
  let ?p = "\<lparr>pmc_MetricMapping = ?m, ModelServerMetricsPort = 0, ModelServerMetricsPath = ''/metrics'', ModelServerMetricsScheme = ''http''\<rparr>"
  obtain p1 where 1: "getMetricEndpoint (toInternalPod (wCore ''a'')) 8000 ?p = (''http://10.0.0.1:8000/metrics'', p1)"
    by (simp add: getMetricEndpoint_def toInternalPod_def wCore_def strconv_Itoa_def utoa.simps digit_def char_of_def bit_0)
  obtain url2 p2 where 2: "getMetricEndpoint (toInternalPod (wCore ''a'')) 9000 p1 = (url2, p2)" by force
  show ?thesis using scrape_port_sticks [OF _ _ 1 2] 1 2 by auto
qed

text \<open>
  The average recorded for the queues of a pool is the true average rounded down: it is wrong by
  less than one request per pod, and exact only when the total is divisible.
\<close>

lemma pool_average_rounded:
  assumes "refreshPrometheusMetrics ord now th ds = Some (name, g)" "\<forall>pm. WaitingQueueSize (pm_metrics pm) \<ge> 0 \<or> pm \<notin> ran (ds_pods ds)"
  shows "\<exists>total. avgQueueSize g \<le> of_int total / of_nat (readyPods g) \<and> of_int total / of_nat (readyPods g) < avgQueueSize g + 1 \<and>
    total = sum_list (map (\<lambda>pm. WaitingQueueSize (pm_metrics pm)) (PodList ord (\<lambda>pm. PodsWithFreshMetrics now th (Some pm)) ds))"
proof -
  let ?l = "PodList ord (\<lambda>pm. PodsWithFreshMetrics now th (Some pm)) ds"
  define total where "total = sum_list (map (\<lambda>pm. WaitingQueueSize (pm_metrics pm)) ?l)"
  have fold_sum: "fold (\<lambda>pm t. t + f pm) xs a = a + sum_list (map f xs)" for f :: "podMetrics \<Rightarrow> int" and xs a by (induction xs arbitrary: a) auto
  have q: "avgQueueSize g = of_int (trunc_int (of_int total / of_nat (length ?l)))" "readyPods g = length ?l"
    using assms(1) by (auto simp: refreshPrometheusMetrics_def Let_def fold_sum total_def split: sum.splits if_splits)
  have "pm \<in> ran (ds_pods ds)" if "pm \<in> set ?l" for pm using that by (auto simp: PodList_def List.map_filter_def ran_def)
  then have "\<forall>pm\<in>set ?l. 0 \<le> WaitingQueueSize (pm_metrics pm)" using assms(2) by blast
  then have "0 \<le> total" unfolding total_def by (intro sum_list_nonneg) auto
  then have "(0 :: rat) \<le> of_int total / of_nat (length ?l)" by simp
  then show ?thesis using q by (intro exI [of _ total]) (simp add: trunc_int_def total_def floor_less_iff le_floor_iff, linarith)
qed

end
