(* ===== verification/HeaderFilter.thy ===== *)
theory HeaderFilter
  imports Director
begin

text \<open>
  The filter of the conformance tests
  (\<open>pkg/epp/scheduling/framework/plugins/test/filter/request_header_based_filter.go\<close>), which keeps
  the pods whose addresses a request header lists, and that it meets the condition on filters under
  which the scheduler picks among the candidates.
\<close>

section \<open>The filter\<close>

definition HeaderTestEppEndPointSelectionKey :: string where
  "HeaderTestEppEndPointSelectionKey = ''test-epp-endpoint-selection''"

definition HeaderBasedTestingFilterType :: string where
  "HeaderBasedTestingFilterType = ''header-based-testing-filter''"

record HeaderBasedTestingFilter =
  hf_typedName :: TypedName

definition NewHeaderBasedTestingFilter :: HeaderBasedTestingFilter where
  "NewHeaderBasedTestingFilter = \<lparr>hf_typedName = \<lparr>tn_Type = HeaderBasedTestingFilterType, tn_Name = HeaderBasedTestingFilterType\<rparr>\<rparr>"

definition hf_WithName :: "string \<Rightarrow> HeaderBasedTestingFilter \<Rightarrow> HeaderBasedTestingFilter" where
  "hf_WithName name f = f\<lparr>hf_typedName := (hf_typedName f)\<lparr>tn_Name := name\<rparr>\<rparr>"

definition HeaderBasedTestingFilterFactory :: "string \<Rightarrow> goError + HeaderBasedTestingFilter" where
  "HeaderBasedTestingFilterFactory name = Inr (hf_WithName name NewHeaderBasedTestingFilter)"

fun pod_address_map :: "Pod list \<Rightarrow> (string \<rightharpoonup> Pod) \<Rightarrow> (string \<rightharpoonup> Pod)" where
  "pod_address_map [] m = m"
| "pod_address_map (pod # pods) m = pod_address_map pods (m(bp_Address (GetPod pod) \<mapsto> pod))"

fun select_endpoints :: "(string \<rightharpoonup> Pod) \<Rightarrow> string list \<Rightarrow> Pod list \<Rightarrow> Pod list" where
  "select_endpoints m [] filteredPods = filteredPods"
| "select_endpoints m (endpoint # endpoints) filteredPods =
     (case m (str_TrimSpace endpoint) of
        Some pod \<Rightarrow> select_endpoints m endpoints (filteredPods @ [pod])
      | None \<Rightarrow> select_endpoints m endpoints filteredPods)"

definition hf_Filter :: "'w FilterFn" where
  "hf_Filter request pods w =
     (case lr_Headers request HeaderTestEppEndPointSelectionKey of
        None \<Rightarrow> ([], w)
      | Some headerValue \<Rightarrow>
          if headerValue = [] then ([], w)
          else (select_endpoints (pod_address_map pods Map.empty) (str_Split (CHR '','') headerValue) [], w))"

section \<open>What it selects\<close>

lemma pod_address_map_eq:
  "pod_address_map pods m a = (case find (\<lambda>pod. bp_Address (GetPod pod) = a) (rev pods) of Some pod \<Rightarrow> Some pod | None \<Rightarrow> m a)"
proof (induction pods m rule: pod_address_map.induct)
  case (2 pod pods m)
  have "find P (xs @ ys) = (case find P xs of Some x \<Rightarrow> Some x | None \<Rightarrow> find P ys)" for P and xs ys :: "Pod list"
    by (induction xs) auto
  then show ?case unfolding pod_address_map.simps 2 by (auto split: option.split)
qed simp

lemma select_endpoints_eq:
  "select_endpoints m endpoints acc = acc @ List.map_filter (m \<circ> str_TrimSpace) endpoints"
  by (induction m endpoints acc rule: select_endpoints.induct) (simp_all add: map_filter_simps split: option.split)

text \<open>
  The filter keeps, in the order of the header and once for every time it is listed, each address
  of a candidate; the pod is the last candidate with the address.
\<close>

lemma hf_Filter_eq:
  assumes "lr_Headers request HeaderTestEppEndPointSelectionKey = Some v" "v \<noteq> []"
  shows "hf_Filter request pods w =
    (List.map_filter (\<lambda>e. find (\<lambda>pod. bp_Address (GetPod pod) = str_TrimSpace e) (rev pods)) (str_Split (CHR '','') v), w)"
proof -
  have "pod_address_map pods Map.empty = (\<lambda>a. find (\<lambda>pod. bp_Address (GetPod pod) = a) (rev pods))"
    by (rule ext) (simp add: pod_address_map_eq split: option.split)
  then show ?thesis using assms by (simp add: hf_Filter_def select_endpoints_eq comp_def)
qed

lemma hf_Filter_proper: "proper_filter hf_Filter"
  unfolding proper_filter_def
proof (intro allI impI)
  fix request pods and w :: 'w and pods' w'
  assume f: "hf_Filter request pods w = (pods', w')"
  show "set pods' \<subseteq> set pods"
  proof (cases "\<exists>v. lr_Headers request HeaderTestEppEndPointSelectionKey = Some v \<and> v \<noteq> []")
    case True
    then obtain v where v: "lr_Headers request HeaderTestEppEndPointSelectionKey = Some v" "v \<noteq> []" by blast
    have "find P xs = Some x \<Longrightarrow> x \<in> set xs" for P x and xs :: "Pod list" by (auto simp: find_Some_iff)
    then have "find P (rev pods) = Some x \<Longrightarrow> x \<in> set pods" for P x by force
    then show ?thesis using f hf_Filter_eq [OF v, of pods w] by (auto simp: List.map_filter_def)
  next
    case False
    then show ?thesis using f by (auto simp: hf_Filter_def split: option.splits if_splits)
  qed
qed

text \<open>With this filter the scheduler answers every request and picks among the candidates.\<close>

lemma hf_schedule_picks_candidates:
  assumes "\<forall>sc\<in>set (scorers p). proper_scorer sc" "filters p = [hf_Filter]" "\<forall>xs. mset (mord xs) = mset xs"
    "\<forall>xs. mset (pord xs) = mset xs" "\<forall>xs. mset (shuffle xs) = mset xs"
    "picker p = Some (MaxScorePicker_Pick shuffle (NewMaxScorePicker n))" "postCyclePlugins p = []"
  shows "picks_candidates (Schedule (NewSchedulerWithConfig NewSingleProfileHandler [(name, p)]) mord pord)"
  using assms(2) hf_Filter_proper by (intro schedule_picks_candidates [OF assms(1) _ assms(3-7)]) simp

end
