(* ===== verification/EppMetrics.thy ===== *)
theory EppMetrics
  imports SchedTypes
begin

text \<open>
  The metrics the endpoint picker exports (\<open>pkg/epp/metrics/metrics.go\<close>) and those of the
  body-based router (\<open>pkg/bbr/metrics/metrics.go\<close>): the declared vectors, their registration, and the
  functions that record. The Prometheus library is seen through the calls it gets: a recording
  function yields the operations it performs on vectors. The library panics on a vector with
  buckets that do not increase, on a second registration of a name, and on a call with the wrong
  number of label values; none of this happens.
\<close>

section \<open>Vectors\<close>

datatype vecKind = CounterVec | GaugeVec | HistogramVec "float64 list" \<comment> \<open>the upper bounds of the buckets\<close>

record metricVec =
  mv_Subsystem :: string
  mv_Name :: string
  mv_Help :: string
  mv_Labels :: "string list"
  mv_Kind :: vecKind

definition ALPHA :: string where "ALPHA = ''ALPHA''"

definition HelpMsgWithStability :: "string \<Rightarrow> string \<Rightarrow> string" where
  "HelpMsgWithStability msg stability = ''['' @ stability @ ''] '' @ msg"

definition InferenceModelComponent :: string where "InferenceModelComponent = ''inference_model''"
definition InferencePoolComponent :: string where "InferencePoolComponent = ''inference_pool''"
definition InferenceExtension :: string where "InferenceExtension = ''inference_extension''"

definition requestCounter :: metricVec where
  "requestCounter = \<lparr>mv_Subsystem = InferenceModelComponent, mv_Name = ''request_total'',
     mv_Help = HelpMsgWithStability ''Counter of inference model requests broken out for each model and target model.'' ALPHA,
     mv_Labels = [''model_name'', ''target_model_name''],
     mv_Kind = CounterVec\<rparr>"

definition requestErrCounter :: metricVec where
  "requestErrCounter = \<lparr>mv_Subsystem = InferenceModelComponent, mv_Name = ''request_error_total'',
     mv_Help = HelpMsgWithStability ''Counter of inference model requests errors broken out for each model and target model.'' ALPHA,
     mv_Labels = [''model_name'', ''target_model_name'', ''error_code''],
     mv_Kind = CounterVec\<rparr>"

definition requestLatencies :: metricVec where
  "requestLatencies = \<lparr>mv_Subsystem = InferenceModelComponent, mv_Name = ''request_duration_seconds'',
     mv_Help = HelpMsgWithStability ''Inference model response latency distribution in seconds for each model and target model.'' ALPHA,
     mv_Labels = [''model_name'', ''target_model_name''],
     mv_Kind = HistogramVec [1 / 200, 1 / 40, 1 / 20, 1 / 10, 1 / 5, 2 / 5, 3 / 5, 4 / 5, 1, 5 / 4, 3 / 2, 2, 3, 4, 5,
       6, 8, 10, 15, 20, 30, 45, 60, 120, 180, 240, 300, 360, 480, 600, 900, 1200, 1800, 2700,
       3600]\<rparr>"

definition requestSizes :: metricVec where
  "requestSizes = \<lparr>mv_Subsystem = InferenceModelComponent, mv_Name = ''request_sizes'',
     mv_Help = HelpMsgWithStability ''Inference model requests size distribution in bytes for each model and target model.'' ALPHA,
     mv_Labels = [''model_name'', ''target_model_name''],
     mv_Kind = HistogramVec [64, 128, 256, 512, 1024, 2048, 4096, 8192, 16384, 32768, 65536, 131072, 262144, 524288,
       1048576, 2097152, 4194304, 8388608, 16777216, 33554432, 67108864, 134217728, 268435456,
       536870912, 1073741824]\<rparr>"

definition responseSizes :: metricVec where
  "responseSizes = \<lparr>mv_Subsystem = InferenceModelComponent, mv_Name = ''response_sizes'',
     mv_Help = HelpMsgWithStability ''Inference model responses size distribution in bytes for each model and target model.'' ALPHA,
     mv_Labels = [''model_name'', ''target_model_name''],
     mv_Kind = HistogramVec [1, 8, 16, 32, 64, 128, 256, 512, 1024, 2048, 4096, 8192, 16384, 32778, 65536]\<rparr>"

definition inputTokens :: metricVec where
  "inputTokens = \<lparr>mv_Subsystem = InferenceModelComponent, mv_Name = ''input_tokens'',
     mv_Help = HelpMsgWithStability ''Inference model input token count distribution for requests in each model.'' ALPHA,
     mv_Labels = [''model_name'', ''target_model_name''],
     mv_Kind = HistogramVec [1, 8, 16, 32, 64, 128, 256, 512, 1024, 2048, 4096, 8192, 16384, 32778, 65536, 131072,
       262144, 524288, 1048576]\<rparr>"

definition outputTokens :: metricVec where
  "outputTokens = \<lparr>mv_Subsystem = InferenceModelComponent, mv_Name = ''output_tokens'',
     mv_Help = HelpMsgWithStability ''Inference model output token count distribution for requests in each model.'' ALPHA,
     mv_Labels = [''model_name'', ''target_model_name''],
     mv_Kind = HistogramVec [1, 8, 16, 32, 64, 128, 256, 512, 1024, 2048, 4096, 8192]\<rparr>"

definition runningRequests :: metricVec where
  "runningRequests = \<lparr>mv_Subsystem = InferenceModelComponent, mv_Name = ''running_requests'',
     mv_Help = HelpMsgWithStability ''Inference model number of running requests in each model.'' ALPHA,
     mv_Labels = [''model_name''],
     mv_Kind = GaugeVec\<rparr>"

definition NormalizedTimePerOutputToken :: metricVec where
  "NormalizedTimePerOutputToken = \<lparr>mv_Subsystem = InferenceModelComponent, mv_Name = ''normalized_time_per_output_token_seconds'',
     mv_Help = HelpMsgWithStability ''Inference model latency divided by number of output tokens in seconds for each model and target model.'' ALPHA,
     mv_Labels = [''model_name'', ''target_model_name''],
     mv_Kind = HistogramVec [1 / 1000, 1 / 500, 1 / 200, 1 / 100, 1 / 50, 1 / 20, 1 / 10, 1 / 5, 1 / 2, 1, 2, 5, 10]\<rparr>"

definition inferencePoolAvgKVCache :: metricVec where
  "inferencePoolAvgKVCache = \<lparr>mv_Subsystem = InferencePoolComponent, mv_Name = ''average_kv_cache_utilization'',
     mv_Help = HelpMsgWithStability ''The average kv cache utilization for an inference server pool.'' ALPHA,
     mv_Labels = [''name''],
     mv_Kind = GaugeVec\<rparr>"

definition inferencePoolAvgQueueSize :: metricVec where
  "inferencePoolAvgQueueSize = \<lparr>mv_Subsystem = InferencePoolComponent, mv_Name = ''average_queue_size'',
     mv_Help = HelpMsgWithStability ''The average number of requests pending in the model server queue.'' ALPHA,
     mv_Labels = [''name''],
     mv_Kind = GaugeVec\<rparr>"

definition inferencePoolReadyPods :: metricVec where
  "inferencePoolReadyPods = \<lparr>mv_Subsystem = InferencePoolComponent, mv_Name = ''ready_pods'',
     mv_Help = HelpMsgWithStability ''The number of ready pods in the inference server pool.'' ALPHA,
     mv_Labels = [''name''],
     mv_Kind = GaugeVec\<rparr>"

definition SchedulerE2ELatency :: metricVec where
  "SchedulerE2ELatency = \<lparr>mv_Subsystem = InferenceExtension, mv_Name = ''scheduler_e2e_duration_seconds'',
     mv_Help = HelpMsgWithStability ''End-to-end scheduling latency distribution in seconds.'' ALPHA,
     mv_Labels = [],
     mv_Kind = HistogramVec [1 / 10000, 1 / 5000, 1 / 2000, 1 / 1000, 1 / 500, 1 / 200, 1 / 100, 1 / 50, 1 / 20, 1 / 10]\<rparr>"

definition PluginProcessingLatencies :: metricVec where
  "PluginProcessingLatencies = \<lparr>mv_Subsystem = InferenceExtension, mv_Name = ''plugin_duration_seconds'',
     mv_Help = HelpMsgWithStability ''Plugin processing latency distribution in seconds for each extension point, plugin type and plugin name.'' ALPHA,
     mv_Labels = [''extension_point'', ''plugin_type'', ''plugin_name''],
     mv_Kind = HistogramVec [1 / 10000, 1 / 5000, 1 / 2000, 1 / 1000, 1 / 500, 1 / 200, 1 / 100, 1 / 50, 1 / 20, 1 / 10]\<rparr>"

definition PrefixCacheSize :: metricVec where
  "PrefixCacheSize = \<lparr>mv_Subsystem = InferenceExtension, mv_Name = ''prefix_indexer_size'',
     mv_Help = HelpMsgWithStability ''Size of the prefix indexer.'' ALPHA,
     mv_Labels = [],
     mv_Kind = GaugeVec\<rparr>"

definition PrefixCacheHitRatio :: metricVec where
  "PrefixCacheHitRatio = \<lparr>mv_Subsystem = InferenceExtension, mv_Name = ''prefix_indexer_hit_ratio'',
     mv_Help = HelpMsgWithStability ''Ratio of prefix length matched to total prefix length in the cache lookup.'' ALPHA,
     mv_Labels = [],
     mv_Kind = HistogramVec [0, 1 / 10, 1 / 5, 3 / 10, 2 / 5, 1 / 2, 3 / 5, 7 / 10, 4 / 5, 9 / 10, 1]\<rparr>"

definition PrefixCacheHitLength :: metricVec where
  "PrefixCacheHitLength = \<lparr>mv_Subsystem = InferenceExtension, mv_Name = ''prefix_indexer_hit_bytes'',
     mv_Help = HelpMsgWithStability ''Length of the prefix match in number of bytes in the cache lookup.'' ALPHA,
     mv_Labels = [],
     mv_Kind = HistogramVec [0, 16, 32, 64, 128, 256, 512, 1024, 2048, 4096, 8192, 16384, 32768, 65536]\<rparr>"

definition InferenceExtensionInfo :: metricVec where
  "InferenceExtensionInfo = \<lparr>mv_Subsystem = InferenceExtension, mv_Name = ''info'',
     mv_Help = HelpMsgWithStability ''General information of the current build of Inference Extension.'' ALPHA,
     mv_Labels = [''commit'', ''build_ref''],
     mv_Kind = GaugeVec\<rparr>"

section \<open>Registration\<close>

definition fqName :: "metricVec \<Rightarrow> string" where "fqName v = mv_Subsystem v @ ''_'' @ mv_Name v"

text \<open>The registry of the library: the names it has, and its \<open>MustRegister\<close>.\<close>

fun MustRegister :: "string list \<Rightarrow> string list \<Rightarrow> string list go" where
  "MustRegister reg [] = Ret reg"
| "MustRegister reg (n # ns) = (if n \<in> set reg then Panic else MustRegister (reg @ [n]) ns)"

definition epp_vectors :: "metricVec list" where
  "epp_vectors = [requestCounter, requestErrCounter, requestLatencies, requestSizes, responseSizes, inputTokens, outputTokens,
     runningRequests, NormalizedTimePerOutputToken, inferencePoolAvgKVCache, inferencePoolAvgQueueSize, inferencePoolReadyPods,
     SchedulerE2ELatency, PluginProcessingLatencies, InferenceExtensionInfo, PrefixCacheSize, PrefixCacheHitRatio, PrefixCacheHitLength]"

text \<open>\<open>registerMetrics\<close> is the \<open>sync.Once\<close>: it remembers whether the registration has run.\<close>

definition metrics_Register :: "string list \<Rightarrow> bool \<times> string list \<Rightarrow> (bool \<times> string list) go" where
  "metrics_Register customCollectors s =
     (case s of (done, reg) \<Rightarrow>
        if done then Ret (done, reg)
        else case MustRegister reg (map fqName epp_vectors @ customCollectors) of
          Panic \<Rightarrow> Panic
        | Ret reg' \<Rightarrow> Ret (True, reg'))"

definition metrics_Reset :: "metricVec list" where
  "metrics_Reset = [requestCounter, requestErrCounter, requestLatencies, requestSizes, responseSizes, inputTokens, outputTokens,
     runningRequests, NormalizedTimePerOutputToken, inferencePoolAvgKVCache, inferencePoolAvgQueueSize, inferencePoolReadyPods,
     SchedulerE2ELatency, PluginProcessingLatencies, InferenceExtensionInfo, PrefixCacheSize, PrefixCacheHitRatio, PrefixCacheHitLength]"

section \<open>Recording\<close>

datatype vecOp = Inc | Dec | Set float64 | Observe float64

text \<open>A call: the vector, the values of its labels and the operation.\<close>

type_synonym metricCall = "metricVec \<times> string list \<times> vecOp"

definition Seconds :: "duration \<Rightarrow> float64" where "Seconds d = of_int d / 10 ^ 9"

definition RecordRequestCounter :: "string \<Rightarrow> string \<Rightarrow> metricCall list" where
  "RecordRequestCounter modelName targetModelName = [(requestCounter, [modelName, targetModelName], Inc)]"

definition RecordRequestErrCounter :: "string \<Rightarrow> string \<Rightarrow> string \<Rightarrow> metricCall list" where
  "RecordRequestErrCounter modelName targetModelName code =
     (if code \<noteq> [] then [(requestErrCounter, [modelName, targetModelName, code], Inc)] else [])"

definition RecordRequestSizes :: "string \<Rightarrow> string \<Rightarrow> int \<Rightarrow> metricCall list" where
  "RecordRequestSizes modelName targetModelName reqSize = [(requestSizes, [modelName, targetModelName], Observe (of_int reqSize))]"

definition RecordRequestLatencies :: "string \<Rightarrow> string \<Rightarrow> time \<Rightarrow> time \<Rightarrow> bool \<times> metricCall list" where
  "RecordRequestLatencies modelName targetModelName received complete_time =
     (if \<not> complete_time > received then (False, [])
      else (True, [(requestLatencies, [modelName, targetModelName], Observe (Seconds (time_Sub complete_time received)))]))"

definition RecordResponseSizes :: "string \<Rightarrow> string \<Rightarrow> int \<Rightarrow> metricCall list" where
  "RecordResponseSizes modelName targetModelName sz = [(responseSizes, [modelName, targetModelName], Observe (of_int sz))]"

definition RecordInputTokens :: "string \<Rightarrow> string \<Rightarrow> int \<Rightarrow> metricCall list" where
  "RecordInputTokens modelName targetModelName sz =
     (if sz > 0 then [(inputTokens, [modelName, targetModelName], Observe (of_int sz))] else [])"

definition RecordOutputTokens :: "string \<Rightarrow> string \<Rightarrow> int \<Rightarrow> metricCall list" where
  "RecordOutputTokens modelName targetModelName sz =
     (if sz > 0 then [(outputTokens, [modelName, targetModelName], Observe (of_int sz))] else [])"

definition RecordNormalizedTimePerOutputToken :: "string \<Rightarrow> string \<Rightarrow> time \<Rightarrow> time \<Rightarrow> int \<Rightarrow> bool \<times> metricCall list" where
  "RecordNormalizedTimePerOutputToken modelName targetModelName received complete_time outputTokenCount =
     (if \<not> complete_time > received then (False, [])
      else if outputTokenCount \<le> 0 then (False, [])
      else let elapsedSeconds = Seconds (time_Sub complete_time received);
               secondsPerToken = elapsedSeconds / of_int outputTokenCount
           in (True, [(NormalizedTimePerOutputToken, [modelName, targetModelName], Observe secondsPerToken)]))"

definition IncRunningRequests :: "string \<Rightarrow> metricCall list" where
  "IncRunningRequests modelName = (if modelName \<noteq> [] then [(runningRequests, [modelName], Inc)] else [])"

definition DecRunningRequests :: "string \<Rightarrow> metricCall list" where
  "DecRunningRequests modelName = (if modelName \<noteq> [] then [(runningRequests, [modelName], Dec)] else [])"

definition RecordInferencePoolAvgKVCache :: "string \<Rightarrow> float64 \<Rightarrow> metricCall list" where
  "RecordInferencePoolAvgKVCache name utilization = [(inferencePoolAvgKVCache, [name], Set utilization)]"

definition RecordInferencePoolAvgQueueSize :: "string \<Rightarrow> float64 \<Rightarrow> metricCall list" where
  "RecordInferencePoolAvgQueueSize name queueSize = [(inferencePoolAvgQueueSize, [name], Set queueSize)]"

definition RecordInferencePoolReadyPods :: "string \<Rightarrow> float64 \<Rightarrow> metricCall list" where
  "RecordInferencePoolReadyPods name runningPods = [(inferencePoolReadyPods, [name], Set runningPods)]"

definition RecordSchedulerE2ELatency :: "duration \<Rightarrow> metricCall list" where
  "RecordSchedulerE2ELatency d = [(SchedulerE2ELatency, [], Observe (Seconds d))]"

definition RecordPluginProcessingLatency :: "string \<Rightarrow> string \<Rightarrow> string \<Rightarrow> duration \<Rightarrow> metricCall list" where
  "RecordPluginProcessingLatency extensionPoint pluginType pluginName d =
     [(PluginProcessingLatencies, [extensionPoint, pluginType, pluginName], Observe (Seconds d))]"

definition RecordPrefixCacheSize :: "int \<Rightarrow> metricCall list" where
  "RecordPrefixCacheSize sz = [(PrefixCacheSize, [], Set (of_int sz))]"

definition RecordPrefixCacheMatch :: "int \<Rightarrow> int \<Rightarrow> metricCall list" where
  "RecordPrefixCacheMatch matchedLength totalLength =
     (PrefixCacheHitLength, [], Observe (of_int matchedLength)) #
     (if totalLength > 0 then [(PrefixCacheHitRatio, [], Observe (of_int matchedLength / of_int totalLength))] else [])"

definition RecordInferenceExtensionInfo :: "string \<Rightarrow> string \<Rightarrow> metricCall list" where
  "RecordInferenceExtensionInfo commitSha buildRef = [(InferenceExtensionInfo, [commitSha, buildRef], Set 1)]"

section \<open>The body-based router\<close>

definition bbr_component :: string where "bbr_component = ''bbr''"

definition successCounter :: metricVec where
  "successCounter = \<lparr>mv_Subsystem = bbr_component, mv_Name = ''success_total'',
     mv_Help = HelpMsgWithStability ''Count of successes pulling model name from body and injecting it in the request headers.'' ALPHA,
     mv_Labels = [], mv_Kind = CounterVec\<rparr>"

definition modelNotInBodyCounter :: metricVec where
  "modelNotInBodyCounter = \<lparr>mv_Subsystem = bbr_component, mv_Name = ''model_not_in_body_total'',
     mv_Help = HelpMsgWithStability ''Count of times the model was not present in the request body.'' ALPHA,
     mv_Labels = [], mv_Kind = CounterVec\<rparr>"

definition modelNotParsedCounter :: metricVec where
  "modelNotParsedCounter = \<lparr>mv_Subsystem = bbr_component, mv_Name = ''model_not_parsed_total'',
     mv_Help = HelpMsgWithStability ''Count of times the model was in the request body but we could not parse it.'' ALPHA,
     mv_Labels = [], mv_Kind = CounterVec\<rparr>"

definition bbr_vectors :: "metricVec list" where "bbr_vectors = [successCounter, modelNotInBodyCounter, modelNotParsedCounter]"

definition bbr_Register :: "bool \<times> string list \<Rightarrow> (bool \<times> string list) go" where
  "bbr_Register s =
     (case s of (done, reg) \<Rightarrow>
        if done then Ret (done, reg)
        else case MustRegister reg (map fqName bbr_vectors) of Panic \<Rightarrow> Panic | Ret reg' \<Rightarrow> Ret (True, reg'))"

definition RecordSuccessCounter :: "metricCall list" where "RecordSuccessCounter = [(successCounter, [], Inc)]"
definition RecordModelNotInBodyCounter :: "metricCall list" where "RecordModelNotInBodyCounter = [(modelNotInBodyCounter, [], Inc)]"
definition RecordModelNotParsedCounter :: "metricCall list" where "RecordModelNotParsedCounter = [(modelNotParsedCounter, [], Inc)]"

section \<open>The library never panics\<close>

lemmas vec_defs = requestCounter_def requestErrCounter_def requestLatencies_def requestSizes_def responseSizes_def inputTokens_def
  outputTokens_def runningRequests_def NormalizedTimePerOutputToken_def inferencePoolAvgKVCache_def inferencePoolAvgQueueSize_def
  inferencePoolReadyPods_def SchedulerE2ELatency_def PluginProcessingLatencies_def InferenceExtensionInfo_def PrefixCacheSize_def
  PrefixCacheHitRatio_def PrefixCacheHitLength_def successCounter_def modelNotInBodyCounter_def modelNotParsedCounter_def

lemmas record_defs = RecordRequestCounter_def RecordRequestErrCounter_def RecordRequestSizes_def RecordRequestLatencies_def RecordResponseSizes_def
  RecordInputTokens_def RecordOutputTokens_def RecordNormalizedTimePerOutputToken_def IncRunningRequests_def DecRunningRequests_def
  RecordInferencePoolAvgKVCache_def RecordInferencePoolAvgQueueSize_def RecordInferencePoolReadyPods_def RecordSchedulerE2ELatency_def
  RecordPluginProcessingLatency_def RecordPrefixCacheSize_def RecordPrefixCacheMatch_def RecordInferenceExtensionInfo_def
  RecordSuccessCounter_def RecordModelNotInBodyCounter_def RecordModelNotParsedCounter_def

text \<open>The operations a kind of vector has.\<close>

fun op_ok :: "vecKind \<Rightarrow> vecOp \<Rightarrow> bool" where
  "op_ok CounterVec Inc = True"
| "op_ok GaugeVec Inc = True"
| "op_ok GaugeVec Dec = True"
| "op_ok GaugeVec (Set x) = True"
| "op_ok (HistogramVec bs) (Observe x) = True"
| "op_ok _ _ = False"

definition call_ok :: "metricVec list \<Rightarrow> metricCall \<Rightarrow> bool" where
  "call_ok vs c = (case c of (v, ls, p) \<Rightarrow> v \<in> set vs \<and> length ls = length (mv_Labels v) \<and> op_ok (mv_Kind v) p)"

definition vec_ok :: "metricVec \<Rightarrow> bool" where
  "vec_ok v \<longleftrightarrow> distinct (mv_Labels v) \<and> (case mv_Kind v of HistogramVec bs \<Rightarrow> successively (<) bs | _ \<Rightarrow> True)"

lemma MustRegister_ok: "distinct (reg @ ns) \<Longrightarrow> MustRegister reg ns = Ret (reg @ ns)"
  by (induction reg ns rule: MustRegister.induct) auto

lemma vecs_ok: "list_all vec_ok (epp_vectors @ bbr_vectors)"
  by (simp add: epp_vectors_def bbr_vectors_def vec_defs vec_ok_def)

lemma fqNames_distinct: "distinct (map fqName (epp_vectors @ bbr_vectors))"
  by (simp add: epp_vectors_def bbr_vectors_def vec_defs fqName_def InferenceModelComponent_def InferencePoolComponent_def InferenceExtension_def bbr_component_def)

lemma epp_calls_ok:
  "list_all (call_ok epp_vectors) (RecordRequestCounter m t)" "list_all (call_ok epp_vectors) (RecordRequestErrCounter m t code)"
  "list_all (call_ok epp_vectors) (RecordRequestSizes m t n)" "list_all (call_ok epp_vectors) (snd (RecordRequestLatencies m t r c))"
  "list_all (call_ok epp_vectors) (RecordResponseSizes m t n)" "list_all (call_ok epp_vectors) (RecordInputTokens m t n)"
  "list_all (call_ok epp_vectors) (RecordOutputTokens m t n)" "list_all (call_ok epp_vectors) (snd (RecordNormalizedTimePerOutputToken m t r c n))"
  "list_all (call_ok epp_vectors) (IncRunningRequests m)" "list_all (call_ok epp_vectors) (DecRunningRequests m)"
  "list_all (call_ok epp_vectors) (RecordInferencePoolAvgKVCache m x)" "list_all (call_ok epp_vectors) (RecordInferencePoolAvgQueueSize m x)"
  "list_all (call_ok epp_vectors) (RecordInferencePoolReadyPods m x)" "list_all (call_ok epp_vectors) (RecordSchedulerE2ELatency n)"
  "list_all (call_ok epp_vectors) (RecordPluginProcessingLatency e m t n)" "list_all (call_ok epp_vectors) (RecordPrefixCacheSize n)"
  "list_all (call_ok epp_vectors) (RecordPrefixCacheMatch n k)" "list_all (call_ok epp_vectors) (RecordInferenceExtensionInfo m t)"
  by (simp_all add: record_defs call_ok_def epp_vectors_def Let_def) (simp_all add: vec_defs)

definition bbr_calls :: "metricCall list" where
  "bbr_calls = RecordSuccessCounter @ RecordModelNotInBodyCounter @ RecordModelNotParsedCounter"

lemma bbr_calls_ok: "list_all (call_ok bbr_vectors) bbr_calls"
  by (simp add: bbr_calls_def record_defs call_ok_def bbr_vectors_def) (simp add: vec_defs)

lemma collector_distinct: "distinct (map fqName epp_vectors @ [''inference_pool_per_pod_queue_size''])"
  by (simp add: epp_vectors_def vec_defs fqName_def InferenceModelComponent_def InferencePoolComponent_def InferenceExtension_def)

text \<open>Registering happens once, whatever was registered before under other names; everything registered is reset.\<close>

lemma metrics_Register_once:
  assumes "distinct (reg @ map fqName epp_vectors @ cs)"
  shows "metrics_Register cs (False, reg) = Ret (True, reg @ map fqName epp_vectors @ cs)"
    "metrics_Register cs' (True, reg') = Ret (True, reg')" "set metrics_Reset = set epp_vectors"
  using MustRegister_ok [OF assms] by (simp_all add: metrics_Register_def metrics_Reset_def epp_vectors_def)

text \<open>What a request can make the picker record.\<close>

definition request_calls :: "string \<Rightarrow> string \<Rightarrow> string \<Rightarrow> time \<Rightarrow> time \<Rightarrow> int \<Rightarrow> metricCall list" where
  "request_calls m t code received finished n =
     RecordRequestCounter m t @ RecordRequestErrCounter m t code @ RecordRequestSizes m t n @ snd (RecordRequestLatencies m t received finished) @
     RecordResponseSizes m t n @ RecordInputTokens m t n @ RecordOutputTokens m t n @
     snd (RecordNormalizedTimePerOutputToken m t received finished n) @ IncRunningRequests m @ DecRunningRequests m"


end
