(* ===== verification/StreamMetrics.thy ===== *)
theory StreamMetrics
  imports StreamProcess EppMetrics
begin

text \<open>
  The metrics the external processing server records (\<open>handlers/server.go\<close>, \<open>handlers/response.go\<close>):
  the calls of a turn, of the sends after it and of the deferred function when the loop ends, in
  their order. The calls of the scheduler and its plugins are not among them.
\<close>

section \<open>The calls\<close>

definition request_body_metrics :: "'w env \<Rightarrow> bytes \<Rightarrow> bool \<Rightarrow> 'w conn \<Rightarrow> metricCall list" where
  "request_body_metrics env chunk endOfStream c =
     (let body = cn_body c @ chunk; ctx = cn_ctx c in
      if \<not> endOfStream then []
      else case env_unmarshal env body (rq_Body (rc_Request ctx)) of
        None \<Rightarrow> []
      | Some m \<Rightarrow>
          (case HandleRequest (env_director env) (env_ord env (cn_ds c)) (ctx\<lparr>rc_Request := (rc_Request ctx)\<lparr>rq_Body := m\<rparr>\<rparr>) (cn_ds c) (cn_w c) of
             Some (Ret (ctx1, None, ds, w)) \<Rightarrow>
               (case env_marshal env (rq_Body (rc_Request ctx1)) of
                  None \<Rightarrow> []
                | Some requestBodyBytes \<Rightarrow>
                    RecordRequestCounter (IncomingModelName ctx1) (TargetModelName ctx1) @
                    RecordRequestSizes (IncomingModelName ctx1) (TargetModelName ctx1) (int (length requestBodyBytes)))
           | _ \<Rightarrow> []))"

text \<open>The calls of \<open>HandleResponseBodyModelStreaming\<close>.\<close>

definition streaming_metrics :: "(string \<Rightarrow> Usage \<Rightarrow> Usage) \<Rightarrow> RequestContext \<Rightarrow> string \<Rightarrow> metricCall list" where
  "streaming_metrics unmarshalUsage ctx responseText =
     (if str_Contains responseText streamingEndMsg
      then let usage = parseRespForUsage unmarshalUsage responseText in
        RecordInputTokens (IncomingModelName ctx) (TargetModelName ctx) (PromptTokens usage) @
        RecordOutputTokens (IncomingModelName ctx) (TargetModelName ctx) (CompletionTokens usage)
      else [])"

definition completion_metrics :: "time \<Rightarrow> RequestContext \<Rightarrow> metricCall list" where
  "completion_metrics now ctx =
     snd (RecordRequestLatencies (IncomingModelName ctx) (TargetModelName ctx) (RequestReceivedTimestamp ctx) now) @
     RecordResponseSizes (IncomingModelName ctx) (TargetModelName ctx) (ResponseSize ctx)"

definition response_body_metrics :: "'w env \<Rightarrow> time \<Rightarrow> bytes \<Rightarrow> bool \<Rightarrow> 'w conn \<Rightarrow> metricCall list" where
  "response_body_metrics env now chunk endOfStream c =
     (let ctx = cn_ctx c in
      if modelServerStreaming ctx then
        streaming_metrics (env_unmarshalUsage env) ctx (string_of chunk) @ (if endOfStream then completion_metrics now ctx else [])
      else if \<not> endOfStream then []
      else case env_unmarshal env (cn_body c @ chunk) (cn_responseBody c) of
        None \<Rightarrow> []
      | Some responseBody \<Rightarrow>
          (case HandleResponseBody (env_marshal env) ctx responseBody of
             Ret (ctx1, True) \<Rightarrow>
               if ResponseComplete ctx1 then
                 completion_metrics now ctx1 @
                 RecordInputTokens (IncomingModelName ctx1) (TargetModelName ctx1) (PromptTokens (rc_Usage ctx1)) @
                 RecordOutputTokens (IncomingModelName ctx1) (TargetModelName ctx1) (CompletionTokens (rc_Usage ctx1))
               else []
           | _ \<Rightarrow> []))"

definition message_metrics :: "'w env \<Rightarrow> message \<Rightarrow> 'w conn \<Rightarrow> metricCall list" where
  "message_metrics env m c0 =
     (case m of (md, now, req) \<Rightarrow>
        (let c = c0\<lparr>cn_ctx := (cn_ctx c0)\<lparr>rc_Request := (rc_Request (cn_ctx c0))\<lparr>rq_Metadata := ExtractMetadataValues md\<rparr>\<rparr>\<rparr>
         in case req of
              MsgRequestBody chunk endOfStream \<Rightarrow> request_body_metrics env chunk endOfStream c
            | MsgResponseBody chunk endOfStream \<Rightarrow> response_body_metrics env now chunk endOfStream c
            | _ \<Rightarrow> []))"

text \<open>Whether the sends after a turn get through all request bodies; then the request counts as running.\<close>

definition started :: "(nat \<Rightarrow> bool) \<Rightarrow> RequestContext \<Rightarrow> ProcessingResponse list \<Rightarrow> bool" where
  "started ok r sent =
     (case sendReqHeader ok r sent of (r1, sent1, go) \<Rightarrow>
        go \<and> RequestState r1 = HeaderRequestResponseComplete \<and> length (reqBodyResp r1) > 0 \<and> snd (send_all ok (reqBodyResp r1) sent1))"

definition send_metrics :: "(nat \<Rightarrow> bool) \<Rightarrow> RequestContext \<Rightarrow> ProcessingResponse list \<Rightarrow> metricCall list" where
  "send_metrics ok r sent = (if started ok r sent then IncRunningRequests (IncomingModelName r) else [])"

text \<open>The deferred function, with the error of the last turn.\<close>

definition deferred_metrics :: "RequestContext \<Rightarrow> eppError option \<Rightarrow> metricCall list" where
  "deferred_metrics ctx err =
     (if ResponseStatusCode ctx \<noteq> [] then RecordRequestErrCounter (IncomingModelName ctx) (TargetModelName ctx) (ResponseStatusCode ctx)
      else case err of
        None \<Rightarrow> []
      | Some e \<Rightarrow> RecordRequestErrCounter (IncomingModelName ctx) (TargetModelName ctx) (CanonicalCode e)) @
     (if RequestRunning ctx then DecRunningRequests (IncomingModelName ctx) else [])"

fun Process_metrics :: "'w env \<Rightarrow> event list \<Rightarrow> 'w conn \<Rightarrow> ProcessingResponse list \<Rightarrow> metricCall list" where
  "Process_metrics env [] c sent = []"
| "Process_metrics env (CtxDone # es) c sent = deferred_metrics (cn_ctx c) None"
| "Process_metrics env (RecvEOF # es) c sent = deferred_metrics (cn_ctx c) None"
| "Process_metrics env (RecvCanceled # es) c sent = deferred_metrics (cn_ctx c) None"
| "Process_metrics env (RecvError # es) c sent = deferred_metrics (cn_ctx c) None"
| "Process_metrics env (Recv m # es) c sent =
     (case process_message env m c of
        Crash \<Rightarrow> []
      | Stuck \<Rightarrow> []
      | Turn (Some err) c' \<Rightarrow> message_metrics env m c @ deferred_metrics (cn_ctx c') (Some err)
      | Turn None c' \<Rightarrow>
          message_metrics env m c @ send_metrics (env_sendOk env) (cn_ctx c') sent @
          (case updateStateAndSendIfNeeded (env_sendOk env) (cn_ctx c') sent of
             (ctx, sent', True) \<Rightarrow> Process_metrics env es (c'\<lparr>cn_ctx := ctx\<rparr>) sent'
           | (ctx, sent', False) \<Rightarrow> deferred_metrics ctx None))"

section \<open>Counting\<close>

text \<open>How often an operation is applied to the gauge of running requests of a model.\<close>

definition running :: "vecOp \<Rightarrow> string \<Rightarrow> metricCall list \<Rightarrow> nat" where
  "running p model cs = length (filter (\<lambda>c. c = (runningRequests, [model], p)) cs)"

lemma running_append [simp]: "running p model (xs @ ys) = running p model xs + running p model ys"
  by (simp add: running_def)

lemma running_Nil [simp]: "running p model [] = 0"
  by (simp add: running_def)

lemma running_other [simp]:
  "running p model (RecordRequestCounter a b) = 0" "running p model (RecordRequestErrCounter a b code) = 0"
  "running p model (RecordRequestSizes a b n) = 0" "running p model (snd (RecordRequestLatencies a b t u)) = 0"
  "running p model (RecordResponseSizes a b n) = 0" "running p model (RecordInputTokens a b n) = 0" "running p model (RecordOutputTokens a b n) = 0"
  by (simp_all add: running_def record_defs vec_defs)

lemma running_IncDec [simp]:
  "running Inc model (IncRunningRequests x) = of_bool (x = model \<and> model \<noteq> [])" "running Dec model (IncRunningRequests x) = 0"
  "running Dec model (DecRunningRequests x) = of_bool (x = model \<and> model \<noteq> [])" "running Inc model (DecRunningRequests x) = 0"
  by (auto simp: running_def record_defs)

lemma running_message [simp]: "running p model (message_metrics env m c) = 0"
  by (auto simp: message_metrics_def request_body_metrics_def response_body_metrics_def streaming_metrics_def completion_metrics_def Let_def
      split: ProcessingRequest.split option.split go.split prod.split bool.split)

lemma running_deferred [simp]:
  "running Inc model (deferred_metrics ctx err) = 0"
  "running Dec model (deferred_metrics ctx err) = of_bool (RequestRunning ctx \<and> IncomingModelName ctx = model \<and> model \<noteq> [])"
  by (auto simp: deferred_metrics_def split: option.split)

section \<open>Running requests\<close>

text \<open>The states in which the request bodies have been sent.\<close>

definition past :: "RequestContext \<Rightarrow> bool" where
  "past r \<longleftrightarrow> RequestState r \<notin> {RequestReceived, HeaderRequestResponseComplete}"

text \<open>What a step leaves alone.\<close>

definition idle :: "RequestContext \<Rightarrow> RequestContext \<Rightarrow> bool" where
  "idle r r' \<longleftrightarrow> RequestRunning r' = RequestRunning r \<and> reqBodyResp r' = reqBodyResp r \<and> IncomingModelName r' = IncomingModelName r \<and> (past r \<longrightarrow> past r')"

lemma idle_refl [simp]: "idle r r"
  by (simp add: idle_def)

lemma idle_trans: "idle r1 r2 \<Longrightarrow> idle r2 r3 \<Longrightarrow> idle r1 r3"
  by (simp add: idle_def)

lemma idle_andThen: "(\<And>r sent. idle r (fst (f r sent))) \<Longrightarrow> idle r0 (fst s) \<Longrightarrow> idle r0 (fst (andThen s f))"
  by (cases s) (auto simp: andThen_def split: bool.split intro: idle_trans)

lemma idle_stages:
  "idle r (fst (sendTrailer due trailer ok r sent))" "idle r (fst (sendRespHeader ok r sent))" "idle r (fst (sendRespBody ok r sent))"
proof -
  have "idle r0 r \<Longrightarrow> idle r0 (fst (send_resp_bodies ok rs r sent))" for r0 rs
  proof (induction ok rs r sent rule: send_resp_bodies.induct)
    case (2 ok resp resps r sent)
    have "idle r0 (if ends_stream resp then r\<lparr>RequestState := BodyResponseResponsesComplete\<rparr> else r)"
      using "2.prems" by (simp add: idle_def past_def)
    then show ?case using 2 by simp
  qed (simp add: idle_def past_def)
  then show "idle r (fst (sendRespBody ok r sent))" by (simp add: sendRespBody_def)
qed (auto simp: sendTrailer_def sendRespHeader_def idle_def past_def split: option.split)

lemma updateState_idle:
  "idle (fst (andThen (sendReqHeader ok r sent) (sendReqBody ok))) (fst (updateStateAndSendIfNeeded ok r sent))"
  unfolding updateStateAndSendIfNeeded_def by (intro idle_andThen idle_stages idle_refl)

lemma request_sends:
  assumes "andThen (sendReqHeader ok r sent) (sendReqBody ok) = (r', sent', go)"
  shows "RequestRunning r' \<longleftrightarrow> RequestRunning r \<or> started ok r sent" "IncomingModelName r' = IncomingModelName r"
    "reqBodyResp r' = (if started ok r sent then [] else reqBodyResp r)"
    "started ok r sent \<Longrightarrow> past r' \<and> \<not> past r" "\<not> started ok r sent \<Longrightarrow> past r \<Longrightarrow> past r'"
proof -
  obtain r1 sent1 go1 where h: "sendReqHeader ok r sent = (r1, sent1, go1)" by (metis prod_cases3)
  have r1: "RequestRunning r1 = RequestRunning r" "IncomingModelName r1 = IncomingModelName r" "reqBodyResp r1 = reqBodyResp r"
    "past r \<Longrightarrow> past r1" "RequestState r1 = HeaderRequestResponseComplete \<Longrightarrow> \<not> past r"
    using h by (auto simp: sendReqHeader_def past_def split: option.splits if_splits)
  obtain sent2 go2 where a: "send_all ok (reqBodyResp r1) sent1 = (sent2, go2)" by force
  have *: "started ok r sent \<longleftrightarrow> go1 \<and> RequestState r1 = HeaderRequestResponseComplete \<and> reqBodyResp r1 \<noteq> [] \<and> go2"
    by (simp add: started_def h a)
  have b: "r' = (if started ok r sent then r1\<lparr>RequestState := BodyRequestResponsesComplete, RequestRunning := True, reqBodyResp := []\<rparr> else r1)"
    using assms unfolding * by (cases go1; cases go2) (auto simp: h a andThen_def sendReqBody_def split: if_splits)
  show "RequestRunning r' \<longleftrightarrow> RequestRunning r \<or> started ok r sent" "IncomingModelName r' = IncomingModelName r"
    "reqBodyResp r' = (if started ok r sent then [] else reqBodyResp r)" by (simp_all add: b r1)
  show "started ok r sent \<Longrightarrow> past r' \<and> \<not> past r" using r1(5) by (simp add: b * past_def)
  show "\<not> started ok r sent \<Longrightarrow> past r \<Longrightarrow> past r'" using r1(4) by (simp add: b)
qed

lemma updateState_running:
  assumes "updateStateAndSendIfNeeded ok r sent = (r', sent', go)"
  shows "RequestRunning r' \<longleftrightarrow> RequestRunning r \<or> started ok r sent" "IncomingModelName r' = IncomingModelName r"
    "reqBodyResp r' = (if started ok r sent then [] else reqBodyResp r)"
    "started ok r sent \<Longrightarrow> past r' \<and> \<not> past r" "\<not> started ok r sent \<Longrightarrow> past r \<Longrightarrow> past r'"
proof -
  obtain r1 sent1 go1 where h: "andThen (sendReqHeader ok r sent) (sendReqBody ok) = (r1, sent1, go1)" by (metis prod_cases3)
  have "idle r1 r'" using updateState_idle [of ok r sent] by (simp add: h assms)
  then show "RequestRunning r' \<longleftrightarrow> RequestRunning r \<or> started ok r sent" "IncomingModelName r' = IncomingModelName r"
    "reqBodyResp r' = (if started ok r sent then [] else reqBodyResp r)"
    "started ok r sent \<Longrightarrow> past r' \<and> \<not> past r" "\<not> started ok r sent \<Longrightarrow> past r \<Longrightarrow> past r'"
    using request_sends [OF h] by (auto simp: idle_def)
qed

text \<open>A turn changes the model and the bodies to send only at the last chunk of a request.\<close>

definition last_chunk :: "ProcessingRequest \<Rightarrow> bool" where
  "last_chunk req = (case req of MsgRequestBody _ eos \<Rightarrow> eos | _ \<Rightarrow> False)"

definition ends_request :: "event \<Rightarrow> bool" where
  "ends_request e = (case e of Recv (_, _, req) \<Rightarrow> last_chunk req | _ \<Rightarrow> False)"

lemma HandleRequest_running:
  assumes "HandleRequest d ord ctx ds w = Some (Ret (ctx', e, ds', w'))"
  shows "RequestRunning ctx' = RequestRunning ctx"
proof -
  have p: "prepareRequest d ds ctx request result w = Ret (ctx', e, w') \<Longrightarrow> RequestRunning ctx' = RequestRunning ctx" for d ds ctx request result w ctx' e w'
    by (auto simp: prepareRequest_def Let_def split: if_splits sum.splits option.splits list.splits)
  show ?thesis using assms
    by (auto simp: HandleRequest_def Let_def split_def ctx_parsed_def split: if_splits sum.splits option.splits go.splits prod.splits dest!: p)
qed

lemma request_body_running:
  assumes "process_request_body env chunk eos c = Turn err c'"
  shows "RequestRunning (cn_ctx c') = RequestRunning (cn_ctx c)" "past (cn_ctx c) \<Longrightarrow> past (cn_ctx c')" "\<not> eos \<Longrightarrow> cn_ctx c' = cn_ctx c"
proof -
  show "\<not> eos \<Longrightarrow> cn_ctx c' = cn_ctx c" using assms by (auto simp: process_request_body_def Let_def)
  have *: "RequestRunning ctx1 = RequestRunning (cn_ctx c) \<and> RequestState ctx1 = RequestState (cn_ctx c)"
    if "HandleRequest d ord ((cn_ctx c)\<lparr>rc_Request := x\<rparr>) ds w = Some (Ret (ctx1, e, ds', w'))" for d ord x ds w ctx1 e ds' w'
    using HandleRequest_running [OF that] HandleRequest_keeps [OF that] by (simp add: keeps_def)
  have "RequestRunning (cn_ctx c') = RequestRunning (cn_ctx c) \<and> RequestState (cn_ctx c') = RequestState (cn_ctx c)"
    using assms by (auto simp: process_request_body_def Let_def split: if_splits option.splits go.splits dest!: *)
  then show "RequestRunning (cn_ctx c') = RequestRunning (cn_ctx c)" "past (cn_ctx c) \<Longrightarrow> past (cn_ctx c')" by (simp_all add: past_def)
qed

lemma idle_time: "idle r (r\<lparr>RequestReceivedTimestamp := t\<rparr>)"
  by (simp add: idle_def past_def)

lemma fold_idle:
  assumes "\<And>x r. idle r (f x r)"
  shows "idle r (fold f xs r)"
proof (induction xs arbitrary: r)
  case (Cons x xs)
  then show ?case using idle_trans [OF assms Cons.IH] by simp
qed simp

lemma response_headers_idle:
  assumes "process_response_headers env headers c = Turn err c'"
  shows "idle (cn_ctx c) (cn_ctx c')"
proof -
  let ?f = "\<lambda>h r. r\<lparr>rc_ResponseHeaders := (rc_ResponseHeaders r)(hv_Key h \<mapsto> header_value h)\<rparr>"
  have k: "idle r (status_step h r)" "idle r (?f h r)" for h r by (auto simp: idle_def past_def status_step_def Let_def)
  let ?r1 = "(fold status_step headers (cn_ctx c))\<lparr>RequestState := ResponseRecieved\<rparr>" and ?r2 = "\<lambda>r. fold ?f headers r"
  have 1: "idle (cn_ctx c) (fold status_step headers (cn_ctx c))" by (rule fold_idle) (rule k(1))
  have 2: "idle (fold status_step headers (cn_ctx c)) ?r1" by (simp add: idle_def past_def)
  have 3: "idle ?r1 (?r2 ?r1)" by (rule fold_idle) (rule k(2))
  have 4: "idle r (r\<lparr>respHeaderResp := x\<rparr>)" for r x by (simp add: idle_def past_def)
  have c': "cn_ctx c' = (?r2 ?r1)\<lparr>respHeaderResp := Some (generateResponseHeaderResponse (env_hord env) (?r2 ?r1))\<rparr>"
    using assms by (simp only: process_response_headers_def HandleResponseHeaders_def HandleResponse_def Let_def prod.case turn.inject) auto
  show ?thesis unfolding c' by (rule idle_trans [OF idle_trans [OF idle_trans [OF 1 2] 3] 4])
qed

lemma message_running:
  assumes "process_message env (md, now, req) c = Turn err c'"
  shows "RequestRunning (cn_ctx c') = RequestRunning (cn_ctx c)" "past (cn_ctx c) \<Longrightarrow> past (cn_ctx c')"
    "\<not> last_chunk req \<Longrightarrow> idle (cn_ctx c) (cn_ctx c')"
proof -
  let ?c = "c\<lparr>cn_ctx := (cn_ctx c)\<lparr>rc_Request := (rc_Request (cn_ctx c))\<lparr>rq_Metadata := ExtractMetadataValues md\<rparr>\<rparr>\<rparr>"
  have c: "idle (cn_ctx c) (cn_ctx ?c)" by (simp add: idle_def past_def)
  have *: "RequestRunning (cn_ctx c') = RequestRunning (cn_ctx ?c) \<and> (past (cn_ctx ?c) \<longrightarrow> past (cn_ctx c')) \<and> (\<not> last_chunk req \<longrightarrow> idle (cn_ctx ?c) (cn_ctx c'))"
  proof (cases req)
    case (MsgRequestHeaders headers eos)
    have k: "idle r (header_step h r)" for h r by (auto simp: idle_def past_def header_step_def Let_def)
    have h: "idle (cn_ctx ?c) (fold header_step headers ((cn_ctx ?c)\<lparr>RequestReceivedTimestamp := now\<rparr>))"
      by (rule idle_trans [OF _ fold_idle]) (rule idle_time k)+
    have "idle (cn_ctx ?c) (cn_ctx c')"
    proof (cases eos)
      case True
      then show ?thesis using assms MsgRequestHeaders
        by (auto simp: process_message_def HandleRequestHeaders_def Let_def idle_def past_def split: option.splits sum.splits)
    next
      case False
      then have "cn_ctx c' = fold header_step headers ((cn_ctx ?c)\<lparr>RequestReceivedTimestamp := now\<rparr>)"
        using assms MsgRequestHeaders by (auto simp: process_message_def HandleRequestHeaders_def Let_def)
      then show ?thesis using h by simp
    qed
    then show ?thesis by (simp add: idle_def)
  next
    case (MsgRequestBody b eos)
    then have "process_request_body env b eos ?c = Turn err c'" using assms by (simp add: process_message_def)
    from request_body_running [OF this] MsgRequestBody show ?thesis by (auto simp: last_chunk_def)
  next
    case (MsgResponseHeaders headers)
    then have "idle (cn_ctx ?c) (cn_ctx c')" using assms by (intro response_headers_idle) (simp add: process_message_def)
    then show ?thesis by (simp add: idle_def)
  next
    case (MsgResponseBody b eos)
    then have "process_response_body env now b eos ?c = Turn err c'" using assms by (simp add: process_message_def)
    then have "idle (cn_ctx ?c) (cn_ctx c')"
      by (auto simp: process_response_body_def HandleResponseBodyModelStreaming_def HandleResponseBody_def Let_def idle_def past_def
          split: if_splits option.splits go.splits prod.splits bool.splits)
    then show ?thesis by (simp add: idle_def)
  qed (use assms in \<open>auto simp: process_message_def idle_def\<close>)
  show "RequestRunning (cn_ctx c') = RequestRunning (cn_ctx c)" "past (cn_ctx c) \<Longrightarrow> past (cn_ctx c')"
    "\<not> last_chunk req \<Longrightarrow> idle (cn_ctx c) (cn_ctx c')"
    using * c idle_trans [OF c] by (auto simp: idle_def)
qed

text \<open>The state of a stream: a request runs only when its bodies are sent, and its last chunk does not come again.\<close>

definition run_ok :: "RequestContext \<Rightarrow> event list \<Rightarrow> bool" where
  "run_ok r es \<longleftrightarrow> (RequestRunning r \<longrightarrow> past r) \<and> (RequestRunning r \<or> reqBodyResp r \<noteq> [] \<longrightarrow> filter ends_request es = []) \<and> length (filter ends_request es) \<le> 1"

lemma message_run_ok:
  assumes "run_ok (cn_ctx c) (Recv m # es)" "process_message env m c = Turn err c'"
  shows "run_ok (cn_ctx c') es" "RequestRunning (cn_ctx c') = RequestRunning (cn_ctx c)"
    "RequestRunning (cn_ctx c) \<Longrightarrow> IncomingModelName (cn_ctx c') = IncomingModelName (cn_ctx c)"
proof -
  obtain md now req where m: "m = (md, now, req)" by (cases m)
  note r = message_running [OF assms(2) [unfolded m]]
  have e: "ends_request (Recv m) \<longleftrightarrow> last_chunk req" by (simp add: ends_request_def m)
  show "RequestRunning (cn_ctx c') = RequestRunning (cn_ctx c)" by (rule r(1))
  show "run_ok (cn_ctx c') es"
    using assms(1) r e by (cases "last_chunk req") (auto simp: run_ok_def idle_def)
  show "RequestRunning (cn_ctx c) \<Longrightarrow> IncomingModelName (cn_ctx c') = IncomingModelName (cn_ctx c)"
    using assms(1) r(3) e by (auto simp: run_ok_def idle_def split: if_splits)
qed

lemma send_run_ok:
  assumes "run_ok r es" "updateStateAndSendIfNeeded ok r sent = (r', sent', go)"
  shows "run_ok r' es"
  using assms(1) updateState_running [OF assms(2)] unfolding run_ok_def
  by (cases "started ok r sent") (auto simp: started_def sendReqHeader_def split: prod.splits option.splits if_splits)

abbreviation runs :: "RequestContext \<Rightarrow> string \<Rightarrow> nat" where
  "runs r model \<equiv> of_bool (RequestRunning r \<and> IncomingModelName r = model \<and> model \<noteq> [])"

lemma running_send [simp]:
  "running Inc model (send_metrics ok r sent) = of_bool (started ok r sent \<and> IncomingModelName r = model \<and> model \<noteq> [])"
  "running Dec model (send_metrics ok r sent) = 0"
  by (simp_all add: send_metrics_def)

lemma send_runs:
  assumes "run_ok r es" "updateStateAndSendIfNeeded ok r sent = (r', sent', go)"
  shows "runs r' model = running Inc model (send_metrics ok r sent) + runs r model"
  using assms(1) updateState_running [OF assms(2)] unfolding run_ok_def by (cases "started ok r sent") auto

lemma message_runs:
  assumes "run_ok (cn_ctx c) (Recv m # es)" "process_message env m c = Turn err c'"
  shows "runs (cn_ctx c') model = runs (cn_ctx c) model"
  using message_run_ok(2,3) [OF assms] by (cases "RequestRunning (cn_ctx c)") auto

lemma Process_balance:
  "\<lbrakk>run_ok (cn_ctx c) es; fst (Process env es c sent) = Returned b\<rbrakk> \<Longrightarrow>
   running Dec model (Process_metrics env es c sent) = running Inc model (Process_metrics env es c sent) + runs (cn_ctx c) model"
proof (induction es arbitrary: c sent)
  case (Cons e es)
  show ?case
  proof (cases e)
    case (Recv m)
    show ?thesis
    proof (cases "process_message env m c")
      case (Turn err c')
      note ok = message_run_ok(1) [OF Cons.prems(1) [unfolded Recv] Turn] and r = message_runs [OF Cons.prems(1) [unfolded Recv] Turn, of model]
      show ?thesis
      proof (cases err)
        case (Some x)
        then show ?thesis using Recv Turn r by simp
      next
        case None
        obtain ctx sent' go where u: "updateStateAndSendIfNeeded (env_sendOk env) (cn_ctx c') sent = (ctx, sent', go)" by (metis prod_cases3)
        note s = send_runs [OF ok u, of model] and ok' = send_run_ok [OF ok u]
        show ?thesis
        proof (cases go)
          case True
          have P: "fst (Process env es (c'\<lparr>cn_ctx := ctx\<rparr>) sent') = Returned b" using Cons.prems(2) by (simp add: Recv Turn None u True)
          have "running Dec model (Process_metrics env es (c'\<lparr>cn_ctx := ctx\<rparr>) sent') =
              running Inc model (Process_metrics env es (c'\<lparr>cn_ctx := ctx\<rparr>) sent') + runs ctx model"
            using Cons.IH [OF _ P] ok' by simp
          then show ?thesis unfolding s r by (simp add: Recv Turn None u True)
        next
          case False
          show ?thesis using s r by (simp add: Recv Turn None u False)
        qed
      qed
    qed (use Recv Cons.prems(2) in auto)
  qed simp_all
qed simp

lemma Process_dec_once: "running Dec model (Process_metrics env es c sent) \<le> 1"
proof (induction es arbitrary: c sent)
  case (Cons e es)
  show ?case
  proof (cases e)
    case (Recv m)
    then show ?thesis using Cons.IH by (auto split: turn.split option.split prod.split bool.split)
  qed auto
qed simp

text \<open>
  C11. The gauge of running requests is balanced: over a stream that has ended, however it ended, with
  at most one last chunk of a request, the gauge of every model is decremented exactly as often as
  it is incremented, and at most once.
\<close>

theorem running_requests_balanced:
  assumes "cn_ctx c = newContext" "length (filter ends_request es) \<le> 1" "fst (Process env es c []) = Returned b"
  shows "running Inc model (Process_metrics env es c []) = running Dec model (Process_metrics env es c []) \<and>
    running Inc model (Process_metrics env es c []) \<le> 1"
proof -
  have "run_ok (cn_ctx c) es" "runs (cn_ctx c) model = 0" using assms(1,2) by (simp_all add: newContext_def run_ok_def)
  then show ?thesis using Process_balance [OF _ assms(3), of model] Process_dec_once [of model env es c "[]"] by simp
qed

lemma Process_ends:
  "Process env es c sent = (Waiting, sent') \<Longrightarrow> Process env (es @ [RecvEOF]) c sent = (Returned True, sent')"
proof (induction es arbitrary: c sent)
  case (Cons e es)
  then show ?case by (cases e) (auto split: turn.splits option.splits prod.splits bool.splits if_splits)
qed simp

definition wRouteEnv :: "unit env" where
  "wRouteEnv = wEnv\<lparr>env_unmarshal := (\<lambda>b m. Some [''model'' \<mapsto> JStr ''m'', ''prompt'' \<mapsto> JStr ''hi''])\<rparr>"

lemma wRoute_served: "\<exists>sent. Process wRouteEnv (request_events [(None, 1, [1, 2])] None 2 [3]) wConn [] = (Waiting, sent)"
proof -
  have env: "env_director wRouteEnv = wDirector" "\<And>ds. env_ord wRouteEnv ds = [pod_key (wCore ''a'')]" "cn_ds wConn = wStore" "cn_w wConn = ()"
    by (simp_all add: wRouteEnv_def wEnv_def wConn_def)
  have ctx: "wContext = (cn_ctx wConn)\<lparr>rc_Request := (rc_Request (cn_ctx wConn))\<lparr>rq_Metadata := ExtractMetadataValues None,
      rq_Body := [''model'' \<mapsto> JStr ''m'', ''prompt'' \<mapsto> JStr ''hi'']\<rparr>\<rparr>"
    by (simp add: wContext_def wConn_def newContext_def ExtractMetadataValues_def)
  have "\<exists>ctx' w' best. HandleRequest wDirector [pod_key (wCore ''a'')] wContext wStore () = Some (Ret (ctx', None, wStore, w')) \<and> best \<in> set wCands \<and>
    (\<forall>q\<in>set wCands. total_score wBest (llm_request wContext ''hi'') wCands () q \<le> total_score wBest (llm_request wContext ''hi'') wCands () best) \<and>
    TargetPod ctx' = Some (GetPod best) \<and> rq_Body (rc_Request ctx') = rq_Body (rc_Request (ctx_parsed wContext)) \<and>
    TargetEndpoint ctx' = net_JoinHostPort (bp_Address (GetPod best)) (strconv_Itoa (TargetPortNumber wPool))"
    by (rule request_reaches_best_pod [where shuffle = rev and mord = id and pord = rev and name = "''default''" and c = 0, OF _ _ _ _ _ _ _ wContext_parsed(1,3) wContext_admitted])
       (simp_all add: wDirector_def NewDirectorWithConfig_def wBest_def scorers_proper toSchedulerPodMetrics_def wStore_def)
  then obtain ctx' where H: "HandleRequest wDirector [pod_key (wCore ''a'')] wContext wStore () = Some (Ret (ctx', None, wStore, ()))"
    "rq_Body (rc_Request ctx') = rq_Body (rc_Request (ctx_parsed wContext))" by auto
  have H': "HandleRequest (env_director wRouteEnv) (env_ord wRouteEnv (cn_ds wConn)) ((cn_ctx wConn)\<lparr>rc_Request := (rc_Request (cn_ctx wConn))
      \<lparr>rq_Metadata := ExtractMetadataValues None, rq_Body := [''model'' \<mapsto> JStr ''m'', ''prompt'' \<mapsto> JStr ''hi'']\<rparr>\<rparr>) (cn_ds wConn) (cn_w wConn) =
      Some (Ret (ctx', None, wStore, ()))"
    unfolding env ctx [symmetric] by (rule H(1))
  have m: "env_marshal wRouteEnv (rq_Body (rc_Request ctx')) = Some [123, 125]" by (simp add: wRouteEnv_def wEnv_def)
  have "\<exists>hs rs. Process wRouteEnv (request_events [(None, 1, [1, 2])] None 2 [3]) wConn [] =
      (Waiting, RespRequestHeaders hs (generateMetadata (TargetEndpoint ctx')) # map RespRequestBody rs) \<and>
    (DestinationEndpointKey, TargetEndpoint ctx') \<in> set hs \<and> ([123, 125] = ([] :: bytes) \<or> (''Content-Length'', strconv_Itoa (int (length ([123, 125] :: bytes)))) \<in> set hs) \<and> carries [123, 125] rs"
    by (rule request_served [where m = "[''model'' \<mapsto> JStr ''m'', ''prompt'' \<mapsto> JStr ''hi'']" and ds = wStore and w = "()", OF _ _ _ H' m])
       (simp_all add: wConn_def unanswered_def newContext_def wRouteEnv_def wEnv_def)
  then show ?thesis by blast
qed

lemma running_requests_balanced_witness:
  "\<exists>sent. Process wRouteEnv (request_events [(None, 1, [1, 2])] None 2 [3] @ [RecvEOF]) wConn [] = (Returned True, sent) \<and>
     running Inc ''m'' (Process_metrics wRouteEnv (request_events [(None, 1, [1, 2])] None 2 [3] @ [RecvEOF]) wConn []) =
     running Dec ''m'' (Process_metrics wRouteEnv (request_events [(None, 1, [1, 2])] None 2 [3] @ [RecvEOF]) wConn [])"
proof -
  obtain sent where P: "Process wRouteEnv (request_events [(None, 1, [1, 2])] None 2 [3] @ [RecvEOF]) wConn [] = (Returned True, sent)"
    using wRoute_served Process_ends by blast
  have "length (filter ends_request (request_events [(None, 1, [1, 2])] None 2 [3] @ [RecvEOF])) \<le> 1"
    by (simp add: request_events_def ends_request_def last_chunk_def)
  then show ?thesis using running_requests_balanced [of wConn _ wRouteEnv True "''m''"] P by (simp add: wConn_def del: Process.simps)
qed

section \<open>The sizes of streamed responses\<close>

text \<open>
  The size of a streamed response is never added up: when its last chunk arrives, the size recorded
  is the one of the context, which no chunk changes and which is 0 from the start.
\<close>

lemma streamed_size_zero:
  assumes "modelServerStreaming (cn_ctx c)" "ResponseSize (cn_ctx c) = 0" "process_response_body env now chunk eos c = Turn err c'"
  shows "modelServerStreaming (cn_ctx c') \<and> ResponseSize (cn_ctx c') = 0 \<and>
    (eos \<longrightarrow> (responseSizes, [IncomingModelName (cn_ctx c), TargetModelName (cn_ctx c)], Observe 0) \<in> set (response_body_metrics env now chunk eos c))"
  using assms by (auto simp: process_response_body_def response_body_metrics_def completion_metrics_def RecordResponseSizes_def
      HandleResponseBodyModelStreaming_def Let_def)

end
