(* ===== verification/InTreePlugins.thy ===== *)
theory InTreePlugins
  imports PrefixPlugin ConfigLoader HeaderFilter EppMetrics
begin

text \<open>
  The plugins that come with the endpoint picker, as the loader of the configuration sees them: their
  factories and their registration (\<open>registerInTreePlugins\<close> of \<open>cmd/epp/runner/runner.go\<close>). The
  plugins without a state of their own are functions on any world; the prefix cache plugin keeps
  its index in the world, under the name of the instance.
\<close>

section \<open>The world of the plugins\<close>

text \<open>
  The objects the plugins change: the prefix plugins that have been used, the cycle state and the
  calls to the metrics. A scorer cannot return after a panic; the flag records it, and the post-cycle
  step of the plugin, which runs in the same cycle, ends in the panic.
\<close>

record 'c pluginWorld =
  w_prefix :: "string \<rightharpoonup> 'c Plugin"
  w_cycle :: prefixCycle
  w_panicked :: bool
  w_metrics :: "metricCall list"

definition prefix_object :: "'c Plugin \<Rightarrow> 'c pluginWorld \<Rightarrow> 'c Plugin" where
  "prefix_object m w = (case w_prefix w (tn_Name (px_typedName m)) of None \<Rightarrow> m | Some m' \<Rightarrow> m')"

definition prefix_scores :: "(byte list \<Rightarrow> BlockHash) \<Rightarrow> (string \<Rightarrow> BlockHash) \<Rightarrow> byte list \<Rightarrow> 'c Plugin \<Rightarrow> 'c pluginWorld ScoreFn" where
  "prefix_scores sum64 sum64String spare m request pods w =
     (case prefix_Score sum64 sum64String spare (prefix_object m w) (w_cycle w) request pods of
        Panic \<Rightarrow> ([], w\<lparr>w_panicked := True\<rparr>)
      | Ret (scores, c) \<Rightarrow> (scores, w\<lparr>w_cycle := c\<rparr>))"

definition prefix_post :: "'c lru \<Rightarrow> 'c Plugin \<Rightarrow> 'c pluginWorld PostCycleFn" where
  "prefix_post ops m res w =
     (if w_panicked w then Panic
      else case prefix_PostCycle ops (prefix_object m w) (w_cycle w) res of
        Panic \<Rightarrow> Panic
      | Ret (m', report) \<Rightarrow>
          Ret (w\<lparr>w_prefix := (w_prefix w)(tn_Name (px_typedName m) \<mapsto> m'),
                w_metrics := w_metrics w @ (case report of None \<Rightarrow> [] | Some (matchedLength, totalLength) \<Rightarrow> RecordPrefixCacheMatch matchedLength totalLength)\<rparr>))"

section \<open>Factories\<close>

definition QueueScorerType :: string where "QueueScorerType = ''queue-scorer''"
definition KvCacheUtilizationScorerType :: string where "KvCacheUtilizationScorerType = ''kv-cache-utilization-scorer''"
definition LoraAffinityScorerType :: string where "LoraAffinityScorerType = ''lora-affinity-scorer''"
definition RandomPickerType :: string where "RandomPickerType = ''random-picker''"

text \<open>A plugin with no interface yet, named as \<open>WithName\<close> does.\<close>

definition plain_object :: "string \<Rightarrow> string \<Rightarrow> 'w pluginObj" where
  "plain_object ty name = \<lparr>po_TypedName = \<lparr>tn_Type = ty, tn_Name = name\<rparr>, po_Filter = None, po_Scorer = None, po_Picker = None, po_PostCycle = None\<rparr>"

definition plain_instance :: "'w pluginObj \<Rightarrow> 'w pluginInstance" where
  "plain_instance ob = \<lparr>inst_obj = ob, inst_ProfileHandler = None\<rparr>"

definition QueueScorerFactory :: "'w FactoryFunc" where
  "QueueScorerFactory name raw h = Inr (plain_instance (plain_object QueueScorerType name\<lparr>po_Scorer := Some QueueScorer_Score\<rparr>))"

definition KvCacheUtilizationScorerFactory :: "'w FactoryFunc" where
  "KvCacheUtilizationScorerFactory name raw h =
     Inr (plain_instance (plain_object KvCacheUtilizationScorerType name\<lparr>po_Scorer := Some KVCacheUtilizationScorer_Score\<rparr>))"

definition LoraAffinityScorerFactory :: "'w FactoryFunc" where
  "LoraAffinityScorerFactory name raw h =
     Inr (plain_instance (plain_object LoraAffinityScorerType name\<lparr>po_Scorer := Some LoraAffinityScorer_Score\<rparr>))"

definition SingleProfileHandlerFactory :: "'w FactoryFunc" where
  "SingleProfileHandlerFactory name raw h =
     Inr \<lparr>inst_obj = plain_object SingleProfileHandlerType name, inst_ProfileHandler = Some NewSingleProfileHandler\<rparr>"

definition picker_instance :: "(Picker \<Rightarrow> 'w PickFn) \<Rightarrow> Picker \<Rightarrow> 'w pluginInstance" where
  "picker_instance pick p =
     plain_instance (plain_object (tn_Type (pk_typedName p)) (tn_Name (pk_typedName p))\<lparr>po_Picker := Some (pick p)\<rparr>)"

text \<open>\<open>unmarshal\<close> decodes the parameters of a picker, \<open>shuffle\<close> is its random shuffle.\<close>

definition MaxScorePickerFactory :: "(string \<Rightarrow> int \<Rightarrow> goError + int) \<Rightarrow> (ScoredPod list \<Rightarrow> ScoredPod list) \<Rightarrow> 'w FactoryFunc" where
  "MaxScorePickerFactory unmarshal shuffle name raw h =
     map_sum id (picker_instance (MaxScorePicker_Pick shuffle)) (pickerFactory unmarshal NewMaxScorePicker name raw)"

definition RandomPickerFactory :: "(string \<Rightarrow> int \<Rightarrow> goError + int) \<Rightarrow> (ScoredPod list \<Rightarrow> ScoredPod list) \<Rightarrow> 'w FactoryFunc" where
  "RandomPickerFactory unmarshal shuffle name raw h =
     map_sum id (picker_instance (RandomPicker_Pick shuffle)) (pickerFactory unmarshal NewRandomPicker name raw)"

definition header_filter_factory :: "'w FactoryFunc" where
  "header_filter_factory name raw h =
     map_sum id (\<lambda>f. plain_instance (plain_object (tn_Type (hf_typedName f)) (tn_Name (hf_typedName f))\<lparr>po_Filter := Some hf_Filter\<rparr>))
       (HeaderBasedTestingFilterFactory name)"

text \<open>The parts of the plugins that are not of this repository: hashing, the LRU cache, JSON, random numbers.\<close>

record 'c pluginDeps =
  pd_sum64 :: "byte list \<Rightarrow> BlockHash"
  pd_sum64String :: "string \<Rightarrow> BlockHash"
  pd_spare :: "byte list"
  pd_lru :: "'c lru"
  pd_unmarshalPrefix :: "string \<Rightarrow> PrefixConfig \<Rightarrow> goError + PrefixConfig"
  pd_unmarshalPicker :: "string \<Rightarrow> int \<Rightarrow> goError + int"
  pd_shuffle :: "ScoredPod list \<Rightarrow> ScoredPod list"

definition prefix_instance :: "'c pluginDeps \<Rightarrow> 'c Plugin \<Rightarrow> 'c pluginWorld pluginInstance" where
  "prefix_instance d m =
     plain_instance (plain_object (tn_Type (px_typedName m)) (tn_Name (px_typedName m))
       \<lparr>po_Scorer := Some (prefix_scores (pd_sum64 d) (pd_sum64String d) (pd_spare d) m), po_PostCycle := Some (prefix_post (pd_lru d) m)\<rparr>)"

definition prefix_factory :: "'c pluginDeps \<Rightarrow> 'c pluginWorld FactoryFunc" where
  "prefix_factory d name raw h = map_sum id (prefix_instance d) (PrefixCachePluginFactory (pd_unmarshalPrefix d) name raw)"

section \<open>Registration\<close>

definition registerInTreePlugins :: "'c pluginDeps \<Rightarrow> 'c pluginWorld Registry \<Rightarrow> 'c pluginWorld Registry" where
  "registerInTreePlugins d r0 =
     (let r1 = Register PrefixCachePluginType (prefix_factory d) r0;
          r2 = Register MaxScorePickerType (MaxScorePickerFactory (pd_unmarshalPicker d) (pd_shuffle d)) r1;
          r3 = Register RandomPickerType (RandomPickerFactory (pd_unmarshalPicker d) (pd_shuffle d)) r2;
          r4 = Register SingleProfileHandlerType SingleProfileHandlerFactory r3;
          r5 = Register KvCacheUtilizationScorerType KvCacheUtilizationScorerFactory r4;
          r6 = Register QueueScorerType QueueScorerFactory r5;
          r7 = Register LoraAffinityScorerType LoraAffinityScorerFactory r6
      in Register HeaderBasedTestingFilterType header_filter_factory r7)"

lemmas type_names = PrefixCachePluginType_def MaxScorePickerType_def RandomPickerType_def SingleProfileHandlerType_def
  KvCacheUtilizationScorerType_def QueueScorerType_def LoraAffinityScorerType_def HeaderBasedTestingFilterType_def

lemma in_tree_registry:
  "registerInTreePlugins d r0 PrefixCachePluginType = Some (prefix_factory d)"
  "registerInTreePlugins d r0 MaxScorePickerType = Some (MaxScorePickerFactory (pd_unmarshalPicker d) (pd_shuffle d))"
  "registerInTreePlugins d r0 RandomPickerType = Some (RandomPickerFactory (pd_unmarshalPicker d) (pd_shuffle d))"
  "registerInTreePlugins d r0 SingleProfileHandlerType = Some SingleProfileHandlerFactory"
  "registerInTreePlugins d r0 KvCacheUtilizationScorerType = Some KvCacheUtilizationScorerFactory"
  "registerInTreePlugins d r0 QueueScorerType = Some QueueScorerFactory"
  "registerInTreePlugins d r0 LoraAffinityScorerType = Some LoraAffinityScorerFactory"
  "registerInTreePlugins d r0 HeaderBasedTestingFilterType = Some header_filter_factory"
  by (simp_all add: registerInTreePlugins_def Let_def Register_def) (simp_all add: type_names)

section \<open>Requests stick to their pod\<close>

abbreviation server_of :: "Pod \<Rightarrow> ServerID" where
  "server_of pod \<equiv> bp_NamespacedName (GetPod pod)"

lemma prefix_scores_proper: "proper_scorer (NewWeightedScorer (prefix_scores sum64 sum64String spare m) weight)"
  by (auto simp: proper_scorer_def prefix_scores_def prefix_Score_def Let_def comp_def split: go.splits)

text \<open>The post-cycle plugins run on what the profile without them returns.\<close>

lemma profile_Run_post:
  assumes "profile_Run ord (p\<lparr>postCyclePlugins := []\<rparr>) request cands w = Ret (Inr res, w1)" "runPostCyclePlugins (postCyclePlugins p) res w1 = Ret w2"
  shows "profile_Run ord p request cands w = Ret (Inr res, w2)"
  using assms by (auto simp: profile_Run_def runPickerPlugin_def runScorerPlugins_def split: prod.splits option.splits if_splits)

lemma profile_Run_world:
  assumes "picker p = Some (MaxScorePicker_Pick shuffle pk)" "filters p = []" "postCyclePlugins p = []" "cands \<noteq> []"
    "profile_Run ord p request cands w = Ret (Inr res, w')"
  shows "w' = snd (runScorerPlugins p request cands w)"
  using assms by (auto simp: profile_Run_def runPickerPlugin_def MaxScorePicker_Pick_def Let_def split: prod.splits)

text \<open>A profile that has the prefix plugin as its only scorer.\<close>

definition prefix_profile :: "'c pluginDeps \<Rightarrow> 'c Plugin \<Rightarrow> int \<Rightarrow> 'c pluginWorld SchedulerProfile" where
  "prefix_profile d m weight =
     \<lparr>filters = [], scorers = [NewWeightedScorer (prefix_scores (pd_sum64 d) (pd_sum64String d) (pd_spare d) m) weight],
      picker = Some (MaxScorePicker_Pick (pd_shuffle d) (NewMaxScorePicker 1)), postCyclePlugins = [prefix_post (pd_lru d) m]\<rparr>"

text \<open>It is what the loader makes of a reference to the plugin and one to the max-score picker.\<close>

lemma prefix_profile_loaded:
  assumes "handle_Plugin h a = Some (prefix_instance d m)" "handle_Plugin h b = Some (maxScorePicker_instance (pd_shuffle d))"
  shows "load_plugins h [\<lparr>PluginRef = a, ref_Weight = Some weight\<rparr>, \<lparr>PluginRef = b, ref_Weight = x\<rparr>] NewSchedulerProfile = Ret (Inr (prefix_profile d m weight))"
  using assms by (simp add: prefix_instance_def plain_instance_def plain_object_def maxScorePicker_instance_def add_roles_def NewSchedulerProfile_def
      prefix_profile_def DefaultMaxNumOfEndpoints_def)

text \<open>The share of the hashes that the index has for a pod.\<close>

definition share :: "'c Plugin \<Rightarrow> BlockHash list \<Rightarrow> Pod \<Rightarrow> float64" where
  "share m hashes pod = of_nat (hits (\<lambda>h. ix_Get h (px_indexer m)) (server_of pod) hashes) / of_nat (length hashes)"

lemma share_range: "0 \<le> share m hashes pod" "share m hashes pod \<le> 1"
proof -
  show "0 \<le> share m hashes pod" by (simp add: share_def)
  show "share m hashes pod \<le> 1" using hits_le [of _ "server_of pod" hashes] by (simp add: share_def divide_le_eq_1)
qed

lemma prefix_scores_share:
  assumes "hashPrompt (pd_sum64 d) (pd_sum64String d) (pd_spare d) request (HashBlockSize (px_Config m')) (MaxPrefixBlocksToMatch (px_Config m')) = Ret hashes"
    "hashes \<noteq> []" "prefix_object m w = m'"
  shows "prefix_scores (pd_sum64 d) (pd_sum64String d) (pd_spare d) m request pods w =
    (map (\<lambda>pod. (pod, share m' hashes pod)) (remdups pods),
     w\<lparr>w_cycle := cs_Write (tn_Type (px_typedName m')) \<lparr>PrefixHashes = hashes, PrefixCacheServers = matchLongestPrefix m' hashes\<rparr> (w_cycle w)\<rparr>)"
  using assms by (simp add: prefix_scores_def prefix_Score_def Let_def share_def matchLongestPrefix_len)

lemma prefix_total_score:
  assumes "hashPrompt (pd_sum64 d) (pd_sum64String d) (pd_spare d) request (HashBlockSize (px_Config m')) (MaxPrefixBlocksToMatch (px_Config m')) = Ret hashes"
    "hashes \<noteq> []" "prefix_object m w = m'" "pod \<in> set pods"
  shows "total_score (prefix_profile d m weight) request pods w pod = share m' hashes pod * of_int weight"
  using assms(4) share_range [of m' hashes pod]
  by (simp add: total_score_def prefix_profile_def prefix_scores_share [OF assms(1-3)] weighted_def map_of_map_graph enforceScoreRange_def)

text \<open>One run of the profile: it picks a pod with the greatest share and records the hashes for it.\<close>

lemma prefix_cycle:
  assumes "hashPrompt (pd_sum64 d) (pd_sum64String d) (pd_spare d) request (HashBlockSize (px_Config m')) (MaxPrefixBlocksToMatch (px_Config m')) = Ret hashes"
    "hashes \<noteq> []" "prefix_object m w = m'" "tn_Type (px_typedName m') = PrefixCachePluginType" "ix_live (px_indexer m')" "\<not> w_panicked w"
    "lru_laws (pd_lru d) cap keys" "\<forall>xs. mset (ord xs) = mset xs" "\<forall>xs. mset (pd_shuffle d xs) = mset xs" "0 < weight" "cands \<noteq> []"
  shows "\<exists>res w1 pod i. profile_Run ord (prefix_profile d m weight) request cands w = Ret (Inr res, w1) \<and> TargetPods res = [pod] \<and> pod \<in> set cands \<and>
    (\<forall>b\<in>set cands. share m' hashes b \<le> share m' hashes pod) \<and> ix_Add (pd_lru d) hashes (server_of pod) (px_indexer m') = Ret i \<and>
    prefix_object m w1 = m'\<lparr>px_indexer := i\<rparr> \<and> \<not> w_panicked w1"
proof -
  let ?p = "prefix_profile d m weight" and ?q = "(prefix_profile d m weight)\<lparr>postCyclePlugins := []\<rparr>"
  have p0: "\<forall>sc\<in>set (scorers ?q). proper_scorer sc" "picker ?q = Some (MaxScorePicker_Pick (pd_shuffle d) (NewMaxScorePicker 1))" "postCyclePlugins ?q = []"
    "runFilterPlugins (filters ?q) request cands w = (cands, w)" by (simp_all add: prefix_profile_def prefix_scores_proper)
  have ts: "total_score ?q request cands w b = share m' hashes b * of_int weight" if "b \<in> set cands" for b
    using prefix_total_score [OF assms(1-3) that, of weight] by (simp add: total_score_def prefix_profile_def)
  obtain res w2 where R: "profile_Run ord ?q request cands w = Ret (Inr res, w2)" "set (TargetPods res) \<subseteq> set cands"
    "length (TargetPods res) = min 1 (card (set cands))"
    "\<forall>a\<in>set (TargetPods res). \<forall>b\<in>set cands - set (TargetPods res). total_score ?q request cands w b \<le> total_score ?q request cands w a"
    using profile_Run_best [OF p0(1) assms(8,9) p0(2,3,4)] assms(11) by auto
  have "0 < card (set cands)" using assms(11) by (simp add: card_gt_0_iff)
  then have "length (TargetPods res) = 1" using R(3) by simp
  then obtain pod where pod: "TargetPods res = [pod]" by (auto simp: length_Suc_conv)
  have best: "share m' hashes b \<le> share m' hashes pod" if "b \<in> set cands" for b
    using R(2,4) pod ts that assms(10) by (cases "b = pod") auto
  let ?cs = "cs_Write (tn_Type (px_typedName m')) \<lparr>PrefixHashes = hashes, PrefixCacheServers = matchLongestPrefix m' hashes\<rparr> (w_cycle w)"
  have w2: "w2 = w\<lparr>w_cycle := ?cs\<rparr>"
    using profile_Run_world [OF p0(2) _ p0(3) assms(11) R(1)]
    by (simp add: runScorerPlugins_def prefix_profile_def prefix_scores_share [OF assms(1-3)])
  have po: "prefix_object m w2 = m'" using assms(3) by (simp add: w2 prefix_object_def)
  obtain i where i: "ix_Add (pd_lru d) hashes (server_of pod) (px_indexer m') = Ret i" using ix_Add_live [OF assms(7,5)] by blast
  obtain w1 where w1: "prefix_post (pd_lru d) m res w2 = Ret w1" "prefix_object m w1 = m'\<lparr>px_indexer := i\<rparr>" "\<not> w_panicked w1"
    using i assms(4,6) po pod by (auto simp: w2 prefix_post_def prefix_PostCycle_def ReadCycleStateKey_Write Let_def prefix_object_def)
  have "profile_Run ord ?p request cands w = Ret (Inr res, w1)"
    by (rule profile_Run_post [OF R(1)]) (simp add: prefix_profile_def w1(1))
  then show ?thesis using pod R(2) best i w1(2,3) by auto
qed


definition wDeps :: "(nat \<times> BlockHash list) pluginDeps" where
  "wDeps = \<lparr>pd_sum64 = wSum, pd_sum64String = (\<lambda>s. 7), pd_spare = [], pd_lru = wLru, pd_unmarshalPrefix = (\<lambda>s c. Inr c),
     pd_unmarshalPicker = (\<lambda>s n. Inr n), pd_shuffle = id\<rparr>"

definition wWorld :: "(nat \<times> BlockHash list) pluginWorld" where
  "wWorld = \<lparr>w_prefix = Map.empty, w_cycle = Map.empty, w_panicked = False, w_metrics = []\<rparr>"


end
