(* ===== verification/EventFilters.thy ===== *)
theory EventFilters
  imports PoolMetrics
begin

text \<open>
  What reaches the reconcilers: the resources the manager watches
  (\<open>server/controller_manager.go\<close>) and the filters on their events that the reconcilers register
  (\<open>SetupWithManager\<close> of \<open>controller/*_reconciler.go\<close>). The filters are shown to drop only events
  whose reconciliation would change nothing, so the store follows the cluster as if there were no
  filters.
\<close>

section \<open>The watched resources\<close>

definition v1_GroupName :: string where "v1_GroupName = ''inference.networking.k8s.io''"
definition v1alpha2_GroupName :: string where "v1alpha2_GroupName = ''inference.networking.x-k8s.io''"

text \<open>The kinds of objects in the cache of the manager.\<close>

datatype watchedKind = PodKind | ObjectiveKind | PoolKind_v1 | PoolKind_v1alpha2

record watchScope =
  ws_Kind :: watchedKind
  ws_Namespace :: string
  ws_Name :: "string option" \<comment> \<open>the field selector on \<open>metadata.name\<close>\<close>

definition defaultManagerOptions :: "GKNN \<Rightarrow> goError + watchScope list" where
  "defaultManagerOptions gknn =
     (let opt = [\<lparr>ws_Kind = PodKind, ws_Namespace = gk_Namespace gknn, ws_Name = None\<rparr>,
                 \<lparr>ws_Kind = ObjectiveKind, ws_Namespace = gk_Namespace gknn, ws_Name = None\<rparr>]
      in if gk_Group gknn = v1alpha2_GroupName
         then Inr (opt @ [\<lparr>ws_Kind = PoolKind_v1alpha2, ws_Namespace = gk_Namespace gknn, ws_Name = Some (gk_Name gknn)\<rparr>])
         else if gk_Group gknn = v1_GroupName
         then Inr (opt @ [\<lparr>ws_Kind = PoolKind_v1, ws_Namespace = gk_Namespace gknn, ws_Name = Some (gk_Name gknn)\<rparr>])
         else Inl (Errorf ''unknown group'' []))"

text \<open>\<open>ctrlNewManager\<close> is the constructor of the manager.\<close>

definition NewDefaultManager :: "(watchScope list \<Rightarrow> goError + 'm) \<Rightarrow> GKNN \<Rightarrow> goError + 'm" where
  "NewDefaultManager ctrlNewManager gknn =
     (case defaultManagerOptions gknn of
        Inl err \<Rightarrow> Inl (Errorf ''failed to create controller manager options'' [err])
      | Inr opt \<Rightarrow>
          (case ctrlNewManager opt of
             Inl err \<Rightarrow> Inl (Errorf ''failed to create controller manager'' [err])
           | Inr manager \<Rightarrow> Inr manager))"

text \<open>
  What the pool reconciler is registered for; \<open>register\<close> is the registration with the manager, which
  gives the calls it makes and its error.
\<close>

definition pool_SetupWithManager :: "(watchedKind \<Rightarrow> 'c list \<times> goError option) \<Rightarrow> GKNN \<Rightarrow> 'c list \<times> goError option" where
  "pool_SetupWithManager register gknn =
     (if gk_Group gknn = v1alpha2_GroupName then register PoolKind_v1alpha2
      else if gk_Group gknn = v1_GroupName then register PoolKind_v1
      else ([], Some (Errorf ''unknown group'' [])))"

section \<open>The filters\<close>

datatype 'o watchEvent = CreateEvent 'o | UpdateEvent 'o 'o | DeleteEvent 'o | GenericEvent 'o

fun pod_filter :: "((string \<rightharpoonup> string) \<Rightarrow> (string \<rightharpoonup> string) \<Rightarrow> bool) \<Rightarrow> datastore \<Rightarrow> corePod watchEvent \<Rightarrow> bool" where
  "pod_filter matches ds (CreateEvent pod) = PoolLabelsMatch matches (kp_Labels pod) ds"
| "pod_filter matches ds (UpdateEvent oldPod newPod) =
     (PoolLabelsMatch matches (kp_Labels oldPod) ds \<or> PoolLabelsMatch matches (kp_Labels newPod) ds)"
| "pod_filter matches ds (DeleteEvent pod) = PoolLabelsMatch matches (kp_Labels pod) ds"
| "pod_filter matches ds (GenericEvent pod) = PoolLabelsMatch matches (kp_Labels pod) ds"

fun objective_filter :: "string \<Rightarrow> string \<Rightarrow> InferenceObjective watchEvent \<Rightarrow> bool" where
  "objective_filter poolName poolGroup (CreateEvent ob) = eventPredicate poolName poolGroup ob"
| "objective_filter poolName poolGroup (UpdateEvent old new) = (eventPredicate poolName poolGroup old \<or> eventPredicate poolName poolGroup new)"
| "objective_filter poolName poolGroup (DeleteEvent ob) = eventPredicate poolName poolGroup ob"
| "objective_filter poolName poolGroup (GenericEvent ob) = eventPredicate poolName poolGroup ob"

section \<open>A watch\<close>

text \<open>The event for the change of an object, from what the cluster had to what it has.\<close>

fun change_event :: "'o option \<Rightarrow> 'o option \<Rightarrow> 'o watchEvent option" where
  "change_event None None = None"
| "change_event None (Some new) = Some (CreateEvent new)"
| "change_event (Some old) (Some new) = Some (UpdateEvent old new)"
| "change_event (Some old) None = Some (DeleteEvent old)"

abbreviation found :: "'o option \<Rightarrow> 'o getResult" where
  "found x \<equiv> (case x of None \<Rightarrow> NotFound | Some ob \<Rightarrow> Found ob)"

text \<open>Changes of pods, reconciled if their event passes the filter.\<close>

fun watched_pods :: "((string \<rightharpoonup> string) \<Rightarrow> (string \<rightharpoonup> string) \<Rightarrow> bool) \<Rightarrow> (NamespacedName \<times> corePod option) list \<Rightarrow>
  (NamespacedName \<rightharpoonup> corePod) \<Rightarrow> datastore \<Rightarrow> datastore" where
  "watched_pods matches [] C ds = ds"
| "watched_pods matches ((k, x) # es) C ds =
     watched_pods matches es (C(k := x))
       (if pred_option (Not \<circ> pod_filter matches ds) (change_event (C k) x) then ds
        else snd (pod_Reconcile matches k (found x) ds))"

text \<open>Changes of objectives of the namespace \<open>ns\<close>, without and with the filter.\<close>

fun objective_events :: "string \<Rightarrow> string \<Rightarrow> string \<Rightarrow> (string \<times> InferenceObjective option) list \<Rightarrow> datastore \<Rightarrow> datastore" where
  "objective_events ns n g [] ds = ds"
| "objective_events ns n g ((k, x) # es) ds =
     objective_events ns n g es (snd (objective_Reconcile n g \<lparr>nn_Namespace = ns, nn_Name = k\<rparr> (found x) ds))"

fun watched_objectives :: "string \<Rightarrow> string \<Rightarrow> string \<Rightarrow> (string \<times> InferenceObjective option) list \<Rightarrow>
  (string \<rightharpoonup> InferenceObjective) \<Rightarrow> datastore \<Rightarrow> datastore" where
  "watched_objectives ns n g [] C ds = ds"
| "watched_objectives ns n g ((k, x) # es) C ds =
     watched_objectives ns n g es (C(k := x))
       (if pred_option (Not \<circ> objective_filter n g) (change_event (C k) x) then ds
        else snd (objective_Reconcile n g \<lparr>nn_Namespace = ns, nn_Name = k\<rparr> (found x) ds))"

fun objectives_after :: "(string \<times> InferenceObjective option) list \<Rightarrow> (string \<rightharpoonup> InferenceObjective) \<Rightarrow> (string \<rightharpoonup> InferenceObjective)" where
  "objectives_after [] C = C"
| "objectives_after ((k, x) # es) C = objectives_after es (C(k := x))"

text \<open>The store has exactly the objectives that refer to the pool and are not being deleted.\<close>

definition tracks_objectives :: "string \<Rightarrow> string \<Rightarrow> (string \<rightharpoonup> InferenceObjective) \<Rightarrow> datastore \<Rightarrow> bool" where
  "tracks_objectives n g C ds \<longleftrightarrow> (\<forall>k. ds_objectives ds k =
     (case C k of None \<Rightarrow> None | Some ob \<Rightarrow> if eventPredicate n g ob \<and> \<not> obj_Deleting ob then Some ob else None))"

section \<open>The filters lose nothing\<close>

lemma unsynced_no_match: "\<not> PoolHasSynced ds \<Longrightarrow> \<not> PoolLabelsMatch matches l ds"
  by (simp add: PoolHasSynced_def PoolLabelsMatch_def)

lemma tracks_absent:
  assumes "tracks matches C ds" "pred_option (\<lambda>pod. \<not> PoolLabelsMatch matches (kp_Labels pod) ds) (C k)"
  shows "ds_pods ds k = None"
proof -
  have "map_option pm_pod (ds_pods ds k) = None" using spec [OF assms(1) [unfolded tracks_def], of k] assms(2) by (cases "C k") simp_all
  then show ?thesis by simp
qed

lemma tracks_change:
  assumes "tracks matches C ds" "ds_pods ds k = None" "pred_option (\<lambda>pod. \<not> PoolLabelsMatch matches (kp_Labels pod) ds) x"
  shows "tracks matches (C(k := x)) ds"
  unfolding tracks_def
proof
  fix j
  show "map_option pm_pod (ds_pods ds j) =
     (case (C(k := x)) j of
        Some pod \<Rightarrow> if IsPodReady pod \<and> PoolLabelsMatch matches (kp_Labels pod) ds then Some (toInternalPod pod) else None
      | None \<Rightarrow> None)"
    using spec [OF assms(1) [unfolded tracks_def], of j] assms(2,3) by (cases x) auto
qed

lemma pod_filter_sound:
  assumes t: "tracks matches C ds" and x: "\<forall>pod. x = Some pod \<longrightarrow> pod_key pod = k"
    and p: "pred_option (Not \<circ> pod_filter matches ds) (change_event (C k) x)"
  shows "snd (pod_Reconcile matches k (found x) ds) = ds" "tracks matches (C(k := x)) ds"
proof -
  have n: "pred_option (\<lambda>pod. \<not> PoolLabelsMatch matches (kp_Labels pod) ds) x" using p by (cases "C k"; cases x) simp_all
  have "pred_option (\<lambda>pod. \<not> PoolLabelsMatch matches (kp_Labels pod) ds) (C k)" using p by (cases "C k"; cases x) simp_all
  then have a: "ds_pods ds k = None" by (rule tracks_absent [OF t])
  show "tracks matches (C(k := x)) ds" by (rule tracks_change [OF t a n])
  have "PodDelete k ds = ds" using a by (simp add: PodDelete_def)
  then show "snd (pod_Reconcile matches k (found x) ds) = ds"
    using n x by (auto simp: pod_Reconcile_def updateDatastore_def pod_key_def Let_def split: option.split)
qed

lemma pod_change_tracks:
  assumes "tracks matches C ds" "\<forall>pod. x = Some pod \<longrightarrow> pod_key pod = k"
  shows "tracks matches (C(k := x)) (snd (pod_Reconcile matches k (found x) ds))"
proof (cases "PoolHasSynced ds")
  case True
  then show ?thesis using pod_Reconcile_tracks [OF assms(1) True assms(2)] by blast
next
  case False
  have "pred_option (Not \<circ> pod_filter matches ds) (change_event (C k) x)"
    using unsynced_no_match [OF False] by (cases "C k"; cases x) simp_all
  from pod_filter_sound [OF assms this] show ?thesis by simp
qed

lemma watched_pods_exact:
  "\<lbrakk>tracks matches C ds; \<forall>(k, x)\<in>set es. \<forall>pod. x = Some pod \<longrightarrow> pod_key pod = k\<rbrakk> \<Longrightarrow>
   watched_pods matches es C ds = pod_events matches es ds \<and> tracks matches (cluster_after es C) (pod_events matches es ds)"
proof (induction matches es C ds rule: watched_pods.induct)
  case (2 matches k x es C ds)
  have x: "\<forall>pod. x = Some pod \<longrightarrow> pod_key pod = k" using "2.prems"(2) by auto
  let ?ds = "if pred_option (Not \<circ> pod_filter matches ds) (change_event (C k) x) then ds else snd (pod_Reconcile matches k (found x) ds)"
  have ds: "?ds = snd (pod_Reconcile matches k (found x) ds)" using pod_filter_sound(1) [OF "2.prems"(1) x] by simp
  have "tracks matches (C(k := x)) ?ds" unfolding ds by (rule pod_change_tracks [OF "2.prems"(1) x])
  moreover have "\<forall>(k, x)\<in>set es. \<forall>pod. x = Some pod \<longrightarrow> pod_key pod = k" using "2.prems"(2) by simp
  ultimately show ?case unfolding watched_pods.simps pod_events.simps cluster_after.simps using "2.IH" unfolding ds by blast
qed simp

lemma objective_change:
  assumes "tracks_objectives n g C ds" "\<forall>ob. x = Some ob \<longrightarrow> obj_Name ob = k"
  shows "tracks_objectives n g (C(k := x)) (snd (objective_Reconcile n g \<lparr>nn_Namespace = ns, nn_Name = k\<rparr> (found x) ds))"
    and "pred_option (Not \<circ> objective_filter n g) (change_event (C k) x) \<Longrightarrow>
      snd (objective_Reconcile n g \<lparr>nn_Namespace = ns, nn_Name = k\<rparr> (found x) ds) = ds"
proof -
  show "tracks_objectives n g (C(k := x)) (snd (objective_Reconcile n g \<lparr>nn_Namespace = ns, nn_Name = k\<rparr> (found x) ds))"
    using assms by (auto simp: tracks_objectives_def objective_Reconcile_def ObjectiveDelete_def ObjectiveSet_def eventPredicate_def split: option.split)
  assume p: "pred_option (Not \<circ> objective_filter n g) (change_event (C k) x)"
  have n: "pred_option (\<lambda>ob. \<not> eventPredicate n g ob) (C k)" "pred_option (\<lambda>ob. \<not> eventPredicate n g ob) x"
    using p by (cases "C k"; cases x; simp)+
  then have "ds_objectives ds k = None" using assms(1) by (cases "C k") (simp_all add: tracks_objectives_def)
  then have "ObjectiveDelete \<lparr>nn_Namespace = ns, nn_Name = k\<rparr> ds = ds" by (simp add: ObjectiveDelete_def fun_upd_idem)
  then show "snd (objective_Reconcile n g \<lparr>nn_Namespace = ns, nn_Name = k\<rparr> (found x) ds) = ds"
    using n(2) by (auto simp: objective_Reconcile_def eventPredicate_def split: option.split)
qed

lemma watched_objectives_exact:
  "\<lbrakk>tracks_objectives n g C ds; \<forall>(k, x)\<in>set es. \<forall>ob. x = Some ob \<longrightarrow> obj_Name ob = k\<rbrakk> \<Longrightarrow>
   watched_objectives ns n g es C ds = objective_events ns n g es ds \<and>
   tracks_objectives n g (objectives_after es C) (objective_events ns n g es ds)"
proof (induction ns n g es C ds rule: watched_objectives.induct)
  case (2 ns n g k x es C ds)
  have x: "\<forall>ob. x = Some ob \<longrightarrow> obj_Name ob = k" using "2.prems"(2) by auto
  let ?ds = "if pred_option (Not \<circ> objective_filter n g) (change_event (C k) x) then ds
    else snd (objective_Reconcile n g \<lparr>nn_Namespace = ns, nn_Name = k\<rparr> (found x) ds)"
  note R = objective_change [OF "2.prems"(1) x, of ns]
  have ds: "?ds = snd (objective_Reconcile n g \<lparr>nn_Namespace = ns, nn_Name = k\<rparr> (found x) ds)" using R(2) by simp
  have "tracks_objectives n g (C(k := x)) ?ds" unfolding ds by (rule R(1))
  moreover have "\<forall>(k, x)\<in>set es. \<forall>ob. x = Some ob \<longrightarrow> obj_Name ob = k" using "2.prems"(2) by simp
  ultimately show ?case unfolding watched_objectives.simps objective_events.simps objectives_after.simps using "2.IH" unfolding ds by blast
qed simp

text \<open>
  C12. The event filters lose nothing: from a store that follows the cluster, handling only the
  events that pass the filters of the pod and the objective reconcilers leads to the same store as
  reconciling after every change, and that store follows the cluster again. This holds also while
  there is no pool.
\<close>

theorem filters_lose_nothing:
  assumes "tracks matches C ds" "\<forall>(k, x)\<in>set es. \<forall>pod. x = Some pod \<longrightarrow> pod_key pod = k"
    "tracks_objectives poolName poolGroup O1 ds'" "\<forall>(k, x)\<in>set os. \<forall>ob. x = Some ob \<longrightarrow> obj_Name ob = k"
  shows "watched_pods matches es C ds = pod_events matches es ds \<and>
    tracks matches (cluster_after es C) (watched_pods matches es C ds) \<and>
    watched_objectives ns poolName poolGroup os O1 ds' = objective_events ns poolName poolGroup os ds' \<and>
    tracks_objectives poolName poolGroup (objectives_after os O1) (watched_objectives ns poolName poolGroup os O1 ds')"
  using watched_pods_exact [OF assms(1,2)] watched_objectives_exact [OF assms(3,4), of ns] by simp

definition wObjective :: "string \<Rightarrow> InferenceObjective" where
  "wObjective pool = \<lparr>obj_Name = ''o'', obj_Criticality = Some 2, obj_PoolName = pool, obj_PoolGroup = ''g'', obj_Deleting = False\<rparr>"

theorem filters_lose_nothing_witness:
  "ds_objectives (watched_objectives ''ns'' ''pool'' ''g'' [(''o'', Some (wObjective ''pool'')), (''o'', Some (wObjective ''other''))]
      Map.empty NewDatastore) = Map.empty \<and>
   watched_pods wMatches [(pod_key (wCore ''a''), Some (wCore ''a''))] Map.empty NewDatastore = NewDatastore"
proof -
  have t: "tracks wMatches Map.empty NewDatastore" "tracks_objectives ''pool'' ''g'' Map.empty NewDatastore"
    by (simp_all add: tracks_def tracks_objectives_def NewDatastore_def)
  let ?es = "[(pod_key (wCore ''a''), Some (wCore ''a''))]" and ?os = "[(''o'', Some (wObjective ''pool'')), (''o'', Some (wObjective ''other''))]"
  have c: "\<forall>(k, x)\<in>set ?es. \<forall>pod. x = Some pod \<longrightarrow> pod_key pod = k" "\<forall>(k, x)\<in>set ?os. \<forall>ob. x = Some ob \<longrightarrow> obj_Name ob = k"
    by (simp_all add: wObjective_def)
  note F = filters_lose_nothing [OF t(1) c(1) t(2) c(2), of "''ns''"]
  have "pod_events wMatches ?es NewDatastore = NewDatastore" by (simp add: pod_Reconcile_def PoolHasSynced_def NewDatastore_def)
  moreover have "objectives_after ?os Map.empty = [''o'' \<mapsto> wObjective ''other'']" by simp
  moreover have "tracks_objectives ''pool'' ''g'' [''o'' \<mapsto> wObjective ''other''] ds \<Longrightarrow> ds_objectives ds = Map.empty" for ds
    by (rule ext) (simp add: tracks_objectives_def eventPredicate_def wObjective_def)
  ultimately show ?thesis using F by metis
qed

text \<open>
  The manager watches one namespace: every pod and objective in its cache is in the namespace of
  the pool, and of the pools only the one with its name.
\<close>

lemma manager_scope:
  assumes "defaultManagerOptions gknn = Inr scopes"
  shows "\<forall>s\<in>set scopes. ws_Namespace s = gk_Namespace gknn \<and> (ws_Kind s \<in> {PoolKind_v1, PoolKind_v1alpha2} \<longrightarrow> ws_Name s = Some (gk_Name gknn))"
    "pool_SetupWithManager register gknn \<in> {register PoolKind_v1, register PoolKind_v1alpha2}"
  using assms by (auto simp: defaultManagerOptions_def pool_SetupWithManager_def Let_def split: if_splits)

end
