(* ===== verification/Flags.thy ===== *)
theory Flags
  imports Saturation
begin

text \<open>
  The flags of the endpoint picker (\<open>cmd/epp/runner/runner.go\<close>, with their defaults from
  \<open>pkg/epp/server/runserver.go\<close>) and how the environment and the command line set them. The
  packages \<open>flag\<close> and \<open>strconv\<close> of the language are modelled as far as the runner uses them;
  the parser of durations is an argument, as are the flags that other packages define.
\<close>

section \<open>Integers\<close>

datatype uintResult = UintOk nat | UintSyntax | UintRange

definition digit_value :: "char \<Rightarrow> nat option" where
  "digit_value c =
     (let n = (of_char c :: nat); l = (of_char (to_lower c) :: nat) in
      if 48 \<le> n \<and> n \<le> 57 then Some (n - 48)
      else if 97 \<le> l \<and> l \<le> 122 then Some (l - 87)
      else None)"

fun parse_digits :: "nat \<Rightarrow> string \<Rightarrow> nat \<Rightarrow> uintResult" where
  "parse_digits base [] n = UintOk n"
| "parse_digits base (c # cs) n =
     (if c = CHR ''_'' then parse_digits base cs n
      else case digit_value c of
        None \<Rightarrow> UintSyntax
      | Some d \<Rightarrow> if d \<ge> base then UintSyntax
          else if n * base + d > 2 ^ 64 - 1 then UintRange
          else parse_digits base cs (n * base + d))"

text \<open>The state of the check of underscores: the start, a digit, an underscore, or something else.\<close>

datatype sawChar = SawStart | SawDigit | SawUnderscore | SawOther

fun underscore_loop :: "bool \<Rightarrow> sawChar \<Rightarrow> string \<Rightarrow> bool" where
  "underscore_loop hex saw [] = (saw \<noteq> SawUnderscore)"
| "underscore_loop hex saw (c # cs) =
     (if is_digit c \<or> (hex \<and> to_lower c \<in> set ''abcdef'') then underscore_loop hex SawDigit cs
      else if c = CHR ''_'' then (if saw \<noteq> SawDigit then False else underscore_loop hex SawUnderscore cs)
      else if saw = SawUnderscore then False
      else underscore_loop hex SawOther cs)"

definition base_prefix :: "string \<Rightarrow> bool" where
  "base_prefix s \<longleftrightarrow> length s \<ge> 2 \<and> s ! 0 = CHR ''0'' \<and> to_lower (s ! 1) \<in> set ''box''"

definition underscoreOK :: "string \<Rightarrow> bool" where
  "underscoreOK s =
     (if base_prefix s then underscore_loop (to_lower (s ! 1) = CHR ''x'') SawDigit (drop 2 s)
      else underscore_loop False SawStart s)"

text \<open>\<open>strconv.ParseUint\<close> with base 0: the prefix gives the base.\<close>

definition strconv_ParseUint :: "string \<Rightarrow> uintResult" where
  "strconv_ParseUint s0 =
     (if s0 = [] then UintSyntax
      else let (base, s) =
        (if hd s0 \<noteq> CHR ''0'' then (10, s0)
         else if length s0 \<ge> 3 \<and> to_lower (s0 ! 1) = CHR ''b'' then (2, drop 2 s0)
         else if length s0 \<ge> 3 \<and> to_lower (s0 ! 1) = CHR ''o'' then (8, drop 2 s0)
         else if length s0 \<ge> 3 \<and> to_lower (s0 ! 1) = CHR ''x'' then (16, drop 2 s0)
         else (8, tl s0))
      in case parse_digits base s 0 of
           UintOk n \<Rightarrow> if CHR ''_'' \<in> set s \<and> \<not> underscoreOK s0 then UintSyntax else UintOk n
         | err \<Rightarrow> err)"

text \<open>\<open>strconv.ParseInt\<close> for 64 bits: the value, which an error leaves at 0 or at the bound, and whether there was none.\<close>

definition strconv_ParseInt :: "string \<Rightarrow> int \<times> bool" where
  "strconv_ParseInt s0 =
     (if s0 = [] then (0, False)
      else let neg = (hd s0 = CHR ''-'');
               s = (if hd s0 = CHR ''+'' \<or> hd s0 = CHR ''-'' then tl s0 else s0)
      in case strconv_ParseUint s of
           UintSyntax \<Rightarrow> (0, False)
         | UintRange \<Rightarrow> (if neg then minInt64 else maxInt64, False)
         | UintOk un \<Rightarrow>
             if \<not> neg \<and> un \<ge> 2 ^ 63 then (maxInt64, False)
             else if neg \<and> un > 2 ^ 63 then (minInt64, False)
             else (if neg then - int un else int un, True))"

section \<open>Flags\<close>

text \<open>The value of a flag; of a flag of another package only whether it is boolean and what it accepts.\<close>

datatype flagValue = IntFlag int | BoolFlag bool | StringFlag string | DurationFlag duration | ForeignFlag bool "string \<Rightarrow> bool"

record flagSet =
  fs_formal :: "string \<rightharpoonup> flagValue"
  fs_actual :: "string list" \<comment> \<open>the flags that were set\<close>

fun IsBoolFlag :: "flagValue \<Rightarrow> bool" where
  "IsBoolFlag (BoolFlag b) = True"
| "IsBoolFlag (ForeignFlag b acc) = b"
| "IsBoolFlag v = False"

text \<open>\<open>Set\<close> of a value: whether the text was accepted, and the value, which is assigned in any case.\<close>

fun value_Set :: "(string \<Rightarrow> duration option) \<Rightarrow> flagValue \<Rightarrow> string \<Rightarrow> bool \<times> flagValue" where
  "value_Set parseDuration (IntFlag n) s = (case strconv_ParseInt s of (v, ok) \<Rightarrow> (ok, IntFlag v))"
| "value_Set parseDuration (BoolFlag b) s =
     (case strconv_ParseBool s of None \<Rightarrow> (False, BoolFlag False) | Some v \<Rightarrow> (True, BoolFlag v))"
| "value_Set parseDuration (StringFlag t) s = (True, StringFlag s)"
| "value_Set parseDuration (DurationFlag d) s =
     (case parseDuration s of None \<Rightarrow> (False, DurationFlag 0) | Some v \<Rightarrow> (True, DurationFlag v))"
| "value_Set parseDuration (ForeignFlag b acc) s = (acc s, ForeignFlag b acc)"

definition flag_Set :: "(string \<Rightarrow> duration option) \<Rightarrow> string \<Rightarrow> string \<Rightarrow> flagSet \<Rightarrow> goError option \<times> flagSet" where
  "flag_Set parseDuration name s fs =
     (case fs_formal fs name of
        None \<Rightarrow> (Some (Errorf ''no such flag'' []), fs)
      | Some v \<Rightarrow>
          (case value_Set parseDuration v s of (ok, v') \<Rightarrow>
             let fs1 = fs\<lparr>fs_formal := (fs_formal fs)(name \<mapsto> v')\<rparr>
             in if \<not> ok then (Some (Errorf ''parse error'' []), fs1)
                else (None, fs1\<lparr>fs_actual := List.insert name (fs_actual fs1)\<rparr>)))"

text \<open>\<open>flag.Parse\<close>, which ends the process with a code on an error or a request for help.\<close>

fun flag_Parse :: "(string \<Rightarrow> duration option) \<Rightarrow> string list \<Rightarrow> flagSet \<Rightarrow> nat + flagSet" where
  "flag_Parse pd [] fs = Inr fs"
| "flag_Parse pd (s # args) fs =
     (if length s < 2 \<or> hd s \<noteq> CHR ''-'' \<or> s = ''--'' then Inr fs
      else
        let name0 = drop (if s ! 1 = CHR ''-'' then 2 else 1) s;
            name = takeWhile (\<lambda>c. c \<noteq> CHR ''='') name0;
            value = dropWhile (\<lambda>c. c \<noteq> CHR ''='') name0
        in
        if name0 = [] \<or> hd name0 = CHR ''-'' \<or> hd name0 = CHR ''='' then Inl 2
        else case fs_formal fs name of
          None \<Rightarrow> if name = ''help'' \<or> name = ''h'' then Inl 0 else Inl 2
        | Some fv \<Rightarrow>
            if value \<noteq> [] then (case flag_Set pd name (tl value) fs of (Some err, _) \<Rightarrow> Inl 2 | (None, fs') \<Rightarrow> flag_Parse pd args fs')
            else if IsBoolFlag fv then (case flag_Set pd name ''true'' fs of (Some err, _) \<Rightarrow> Inl 2 | (None, fs') \<Rightarrow> flag_Parse pd args fs')
            else case args of
              [] \<Rightarrow> Inl 2
            | v # args' \<Rightarrow> (case flag_Set pd name v fs of (Some err, _) \<Rightarrow> Inl 2 | (None, fs') \<Rightarrow> flag_Parse pd args' fs'))"

definition flagInt :: "flagSet \<Rightarrow> string \<Rightarrow> int" where
  "flagInt fs name = (case fs_formal fs name of Some (IntFlag n) \<Rightarrow> n | _ \<Rightarrow> 0)"

definition flagBool :: "flagSet \<Rightarrow> string \<Rightarrow> bool" where
  "flagBool fs name = (case fs_formal fs name of Some (BoolFlag b) \<Rightarrow> b | _ \<Rightarrow> False)"

definition flagString :: "flagSet \<Rightarrow> string \<Rightarrow> string" where
  "flagString fs name = (case fs_formal fs name of Some (StringFlag s) \<Rightarrow> s | _ \<Rightarrow> [])"

definition flagDuration :: "flagSet \<Rightarrow> string \<Rightarrow> duration" where
  "flagDuration fs name = (case fs_formal fs name of Some (DurationFlag d) \<Rightarrow> d | _ \<Rightarrow> 0)"

section \<open>The flags of the picker\<close>

text \<open>The default values (the constants of \<open>runserver.go\<close>), by the name of the flag.\<close>

definition CommandLine :: "(string \<times> flagValue) list" where
  "CommandLine =
     [(''grpc-port'', IntFlag 9002), (''grpc-health-port'', IntFlag 9003), (''metrics-port'', IntFlag 9090),
      (''enable-pprof'', BoolFlag True), (''pool-name'', StringFlag []),
      (''pool-group'', StringFlag ''inference.networking.k8s.io''), (''pool-namespace'', StringFlag ''default''),
      (''v'', IntFlag 2), (''secure-serving'', BoolFlag True), (''health-checking'', BoolFlag False), (''cert-path'', StringFlag []),
      (''total-queued-requests-metric'', StringFlag ''vllm:num_requests_waiting''),
      (''kv-cache-usage-percentage-metric'', StringFlag ''vllm:gpu_cache_usage_perc''),
      (''lora-info-metric'', StringFlag ''vllm:lora_requests_info''),
      (''refresh-metrics-interval'', DurationFlag (50 * 1000000)),
      (''refresh-prometheus-metrics-interval'', DurationFlag (5 * 1000000000)),
      (''metrics-staleness-threshold'', DurationFlag (2 * 1000000000)),
      (''config-file'', StringFlag []), (''config-text'', StringFlag []),
      (''model-server-metrics-port'', IntFlag 0), (''model-server-metrics-path'', StringFlag ''/metrics''),
      (''model-server-metrics-scheme'', StringFlag ''http''),
      (''model-server-metrics-https-insecure-skip-verify'', BoolFlag True)]"

definition default_flags :: "(string \<rightharpoonup> flagValue) \<Rightarrow> flagSet" where
  "default_flags foreign = \<lparr>fs_formal = foreign ++ map_of CommandLine, fs_actual = []\<rparr>"

definition env_flags :: "(string \<times> string) list" where
  "env_flags =
     [(''GRPC_PORT'', ''grpc-port''), (''GRPC_HEALTH_PORT'', ''grpc-health-port''),
      (''MODEL_SERVER_METRICS_PORT'', ''model-server-metrics-port''), (''MODEL_SERVER_METRICS_PATH'', ''model-server-metrics-path''),
      (''MODEL_SERVER_METRICS_SCHEME'', ''model-server-metrics-scheme''),
      (''MODEL_SERVER_METRICS_HTTPS_INSECURE_SKIP_VERIFY'', ''model-server-metrics-https-insecure-skip-verify''),
      (''POOL_NAME'', ''pool-name''), (''POOL_NAMESPACE'', ''pool-namespace''),
      (''REFRESH_METRICS_INTERVAL'', ''refresh-metrics-interval''), (''SECURE_SERVING'', ''secure-serving'')]"

text \<open>\<open>ord\<close> is the order in which the loop ranges over the map.\<close>

definition bindEnvToFlags ::
  "(string \<Rightarrow> duration option) \<Rightarrow> ((string \<times> string) list \<Rightarrow> (string \<times> string) list) \<Rightarrow> environment \<Rightarrow> flagSet \<Rightarrow> flagSet" where
  "bindEnvToFlags parseDuration ord env fs =
     fold (\<lambda>(e, flg) fs. case env e of None \<Rightarrow> fs | Some v \<Rightarrow> if v \<noteq> [] then snd (flag_Set parseDuration flg v fs) else fs)
       (ord env_flags) fs"

definition validateFlags :: "flagSet \<Rightarrow> goError option" where
  "validateFlags fs =
     (if flagString fs ''pool-name'' = [] then Some (Errorf ''required flag not set'' [])
      else if flagString fs ''config-text'' \<noteq> [] \<and> flagString fs ''config-file'' \<noteq> []
        then Some (Errorf ''both flags can not be set at the same time'' [])
      else if flagString fs ''model-server-metrics-scheme'' \<noteq> ''http'' \<and> flagString fs ''model-server-metrics-scheme'' \<noteq> ''https''
        then Some (Errorf ''unexpected value, it can only be set to http or https'' [])
      else None)"

section \<open>The command line\<close>

text \<open>A setting in the form that names the flag and its value.\<close>

definition format_flag :: "string \<times> string \<Rightarrow> string" where "format_flag nv = ''--'' @ fst nv @ ''='' @ snd nv"

lemma parse_formatted_step:
  assumes "n \<noteq> []" "CHR ''='' \<notin> set n" "hd n \<noteq> CHR ''-''" "flag_Set pd n v fs = (None, fs')"
  shows "flag_Parse pd (format_flag (n, v) # args) fs = flag_Parse pd args fs'"
proof -
  have t: "takeWhile (\<lambda>c. c \<noteq> CHR ''='') (n @ CHR ''='' # v) = n" "dropWhile (\<lambda>c. c \<noteq> CHR ''='') (n @ CHR ''='' # v) = CHR ''='' # v"
    using assms(2) by (induction n) auto
  obtain fv where fv: "fs_formal fs n = Some fv" using assms(4) by (auto simp: flag_Set_def split: option.splits)
  have h: "hd (n @ CHR ''='' # v) = hd n" "hd n \<noteq> CHR ''=''" using assms(1,2) by (cases n; auto)+
  show ?thesis using assms(1,3,4) fv h by (simp add: format_flag_def Let_def t)
qed

text \<open>What a value accepts, and what it becomes, does not depend on what it was set to before.\<close>

lemma value_Set_again: "value_Set pd (snd (value_Set pd fv u)) v = value_Set pd fv v"
  by (cases fv) (auto split: prod.splits option.splits)

lemma flag_Set_formal:
  "fs_formal (snd (flag_Set pd n v fs)) m =
     (if m = n then map_option (\<lambda>fv. snd (value_Set pd fv v)) (fs_formal fs n) else fs_formal fs m)"
  by (auto simp: flag_Set_def Let_def split: option.splits prod.splits)

lemma flag_Set_ok:
  assumes "fs_formal fs n = Some fv" "fst (value_Set pd fv v)"
  shows "flag_Set pd n v fs = (None, snd (flag_Set pd n v fs))" "set (fs_actual (snd (flag_Set pd n v fs))) = insert n (set (fs_actual fs))"
  using assms by (auto simp: flag_Set_def Let_def split: prod.splits)

definition setting_ok :: "(string \<Rightarrow> duration option) \<Rightarrow> flagSet \<Rightarrow> string \<times> string \<Rightarrow> bool" where
  "setting_ok pd fs nv \<longleftrightarrow> fst nv \<noteq> [] \<and> CHR ''='' \<notin> set (fst nv) \<and> hd (fst nv) \<noteq> CHR ''-'' \<and>
     (case fs_formal fs (fst nv) of None \<Rightarrow> False | Some fv \<Rightarrow> fst (value_Set pd fv (snd nv)))"

lemma setting_ok_Set: "setting_ok pd (snd (flag_Set pd n v fs)) nv = setting_ok pd fs nv"
  by (auto simp: setting_ok_def flag_Set_formal value_Set_again split: option.splits)

text \<open>
  Settings written as \<open>--name=value\<close> and parsed give exactly these values: every flag has the value
  of its last setting, a flag without one keeps its value, and the flags known as set are those of
  the settings.
\<close>

lemma parse_formatted:
  assumes "list_all (setting_ok pd fs) nvs"
  shows "\<exists>fs'. flag_Parse pd (map format_flag nvs) fs = Inr fs' \<and> set (fs_actual fs') = set (fs_actual fs) \<union> fst ` set nvs \<and>
    (\<forall>n. fs_formal fs' n = (case map_of (rev nvs) n of None \<Rightarrow> fs_formal fs n
       | Some v \<Rightarrow> map_option (\<lambda>fv. snd (value_Set pd fv v)) (fs_formal fs n)))"
  using assms
proof (induction nvs arbitrary: fs)
  case (Cons nv nvs)
  obtain n v where nv: "nv = (n, v)" by (cases nv)
  let ?fs = "snd (flag_Set pd n v fs)"
  have ok: "setting_ok pd fs (n, v)" "list_all (setting_ok pd ?fs) nvs" using Cons.prems by (simp_all add: nv setting_ok_Set [abs_def])
  then obtain fv where fv: "fs_formal fs n = Some fv" "fst (value_Set pd fv v)" by (auto simp: setting_ok_def split: option.splits)
  have "flag_Parse pd (map format_flag (nv # nvs)) fs = flag_Parse pd (map format_flag nvs) ?fs"
    using parse_formatted_step [of n pd v fs ?fs] flag_Set_ok(1) [OF fv] ok(1) by (simp add: nv setting_ok_def)
  moreover from Cons.IH [OF ok(2)] obtain fs' where IH: "flag_Parse pd (map format_flag nvs) ?fs = Inr fs'"
    "set (fs_actual fs') = set (fs_actual ?fs) \<union> fst ` set nvs"
    "\<forall>m. fs_formal fs' m = (case map_of (rev nvs) m of None \<Rightarrow> fs_formal ?fs m
       | Some v \<Rightarrow> map_option (\<lambda>fv. snd (value_Set pd fv v)) (fs_formal ?fs m))" by blast
  moreover have "fs_formal fs' m = (case map_of (rev (nv # nvs)) m of None \<Rightarrow> fs_formal fs m
       | Some v \<Rightarrow> map_option (\<lambda>fv. snd (value_Set pd fv v)) (fs_formal fs m))" for m
    unfolding IH(3) [rule_format] by (auto simp: nv flag_Set_formal fv(1) value_Set_again map_add_def split: option.split)
  moreover have "set (fs_actual fs') = set (fs_actual fs) \<union> fst ` set (nv # nvs)" using IH(2) flag_Set_ok(2) [OF fv] by (auto simp: nv)
  ultimately show ?case by auto
qed simp

section \<open>The environment\<close>

lemma bind_fold:
  assumes "distinct (map snd xs)"
  shows "fs_formal (fold (\<lambda>(e, flg) fs. case env e of None \<Rightarrow> fs | Some v \<Rightarrow> if v \<noteq> [] then snd (flag_Set pd flg v fs) else fs) xs fs) m =
    (case find (\<lambda>(e, flg). flg = m) xs of None \<Rightarrow> fs_formal fs m
     | Some (e, flg) \<Rightarrow> (case env e of None \<Rightarrow> fs_formal fs m
         | Some v \<Rightarrow> if v \<noteq> [] then map_option (\<lambda>fv. snd (value_Set pd fv v)) (fs_formal fs m) else fs_formal fs m))"
  using assms
proof (induction xs arbitrary: fs)
  case (Cons x xs)
  obtain e flg where x: "x = (e, flg)" by (cases x)
  have "find (\<lambda>(e, flg). flg = m) xs = None" if "flg = m" using Cons.prems that by (force simp: x find_None_iff)
  then show ?case using Cons by (auto simp: x flag_Set_formal split: option.split)
qed simp

lemma find_second: "distinct (map snd xs) \<Longrightarrow> (e, g) \<in> set xs \<Longrightarrow> find (\<lambda>(e, g'). g' = g) xs = Some (e, g)"
  by (induction xs) force+

text \<open>The flag of a variable, whatever the order of the loop.\<close>

lemma bindEnvToFlags_value:
  assumes "mset (ord env_flags) = mset env_flags" "(e, flg) \<in> set env_flags" "env e = Some v" "v \<noteq> []"
  shows "fs_formal (bindEnvToFlags pd ord env fs) flg = map_option (\<lambda>fv. snd (value_Set pd fv v)) (fs_formal fs flg)"
proof -
  have e: "distinct (map snd env_flags)" by (simp add: env_flags_def)
  have d: "distinct (map snd (ord env_flags))" using assms(1) e by (metis mset_eq_imp_distinct_iff mset_map)
  have "(e, flg) \<in> set (ord env_flags)" using assms(1,2) by (metis mset_eq_setD)
  then have "find (\<lambda>(e, g). g = flg) (ord env_flags) = Some (e, flg)" by (rule find_second [OF d])
  then show ?thesis unfolding bindEnvToFlags_def bind_fold [OF d] using assms(3,4) by simp
qed

lemma bindEnvToFlags_other:
  assumes "mset (ord env_flags) = mset env_flags" "\<forall>e v. (e, flg) \<in> set env_flags \<and> env e = Some v \<longrightarrow> v = []"
  shows "fs_formal (bindEnvToFlags pd ord env fs) flg = fs_formal fs flg"
proof -
  have e: "distinct (map snd env_flags)" by (simp add: env_flags_def)
  have d: "distinct (map snd (ord env_flags))" using assms(1) e by (metis mset_eq_imp_distinct_iff mset_map)
  have s: "set (ord env_flags) = set env_flags" using assms(1) by (metis mset_eq_setD)
  show ?thesis unfolding bindEnvToFlags_def bind_fold [OF d]
  proof (cases "find (\<lambda>(e, g). g = flg) (ord env_flags)")
    case (Some p)
    then obtain e where "p = (e, flg)" "(e, flg) \<in> set env_flags" using s by (auto simp: find_Some_iff) (metis nth_mem)
    then show "(case find (\<lambda>(e, g). g = flg) (ord env_flags) of None \<Rightarrow> fs_formal fs flg
     | Some (e, g) \<Rightarrow> (case env e of None \<Rightarrow> fs_formal fs flg
         | Some v \<Rightarrow> if v \<noteq> [] then map_option (\<lambda>fv. snd (value_Set pd fv v)) (fs_formal fs flg) else fs_formal fs flg)) = fs_formal fs flg"
      using Some assms(2) by (auto split: option.split)
  qed simp
qed

lemma setting_ok_bind: "setting_ok pd (bindEnvToFlags pd ord env fs) nv = setting_ok pd fs nv"
proof -
  have "setting_ok pd (fold (\<lambda>(e, flg) fs. case env e of None \<Rightarrow> fs | Some v \<Rightarrow> if v \<noteq> [] then snd (flag_Set pd flg v fs) else fs) xs fs) nv =
      setting_ok pd fs nv" for xs
  proof (induction xs arbitrary: fs)
    case (Cons x xs)
    show ?case by (cases x; cases "env (fst x)") (simp_all add: Cons.IH setting_ok_Set)
  qed simp
  then show ?thesis by (simp add: bindEnvToFlags_def)
qed

text \<open>What the environment has for a flag.\<close>

definition env_setting :: "environment \<Rightarrow> string \<Rightarrow> string option" where
  "env_setting env flg =
     (case map_of (map prod.swap env_flags) flg of None \<Rightarrow> None
      | Some e \<Rightarrow> (case env e of None \<Rightarrow> None | Some v \<Rightarrow> if v = [] then None else Some v))"

lemma env_setting_value:
  assumes "mset (ord env_flags) = mset env_flags"
  shows "fs_formal (bindEnvToFlags pd ord env fs) flg =
    (case env_setting env flg of None \<Rightarrow> fs_formal fs flg | Some v \<Rightarrow> map_option (\<lambda>fv. snd (value_Set pd fv v)) (fs_formal fs flg))"
proof (cases "env_setting env flg")
  case None
  have "distinct (map fst (map prod.swap env_flags))" by (simp add: env_flags_def)
  then have "map_of (map prod.swap env_flags) flg = Some e" if "(e, flg) \<in> set env_flags" for e
    using that by (intro map_of_is_SomeI) force+
  then have "\<forall>e v. (e, flg) \<in> set env_flags \<and> env e = Some v \<longrightarrow> v = []" using None by (force simp: env_setting_def split: if_splits)
  then show ?thesis using bindEnvToFlags_other [of ord flg env pd fs, OF assms] None by simp
next
  case (Some v)
  then obtain e where e: "map_of (map prod.swap env_flags) flg = Some e" "env e = Some v" "v \<noteq> []"
    by (auto simp: env_setting_def split: option.splits if_splits)
  then have "(e, flg) \<in> set env_flags" using map_of_SomeD by force
  then show ?thesis using bindEnvToFlags_value [of ord e flg env v pd fs, OF assms _ e(2,3)] Some by simp
qed



text \<open>The value of a flag whose text could not be parsed.\<close>

fun zero_value :: "flagValue \<Rightarrow> flagValue" where
  "zero_value (IntFlag n) = IntFlag 0"
| "zero_value (BoolFlag b) = BoolFlag False"
| "zero_value (StringFlag s) = StringFlag []"
| "zero_value (DurationFlag d) = DurationFlag 0"
| "zero_value v = v"

text \<open>What the parsers say of a text: it is not a value of the type of the flag (a number that is too large apart).\<close>

fun malformed :: "(string \<Rightarrow> duration option) \<Rightarrow> flagValue \<Rightarrow> string \<Rightarrow> bool" where
  "malformed pd (IntFlag n) s = (strconv_ParseInt s = (0, False))"
| "malformed pd (BoolFlag b) s = (strconv_ParseBool s = None)"
| "malformed pd (DurationFlag d) s = (pd s = None)"
| "malformed pd v s = False"

lemma malformed_zero: "malformed pd fv s \<Longrightarrow> value_Set pd fv s = (False, zero_value fv)"
  by (cases fv) auto

text \<open>
  C40. A variable of the environment that does not parse is not refused later, as the comment in
  \<open>bindEnvToFlags\<close> says: the parse of the command line succeeds, and the flag has lost its default
  for the zero of its type. So a malformed \<open>SECURE_SERVING\<close> turns TLS off, and a malformed
  \<open>REFRESH_METRICS_INTERVAL\<close> gives an interval of 0.
\<close>

theorem malformed_env_zeroes_flag:
  assumes "mset (ord env_flags) = mset env_flags" "(e, flg) \<in> set env_flags" "env e = Some v" "v \<noteq> []"
    "map_of CommandLine flg = Some fv" "malformed pd fv v"
  shows "\<exists>fs. flag_Parse pd [] (bindEnvToFlags pd ord env (default_flags foreign)) = Inr fs \<and> fs_formal fs flg = Some (zero_value fv)"
  using bindEnvToFlags_value [of ord e flg env v pd "default_flags foreign", OF assms(1-4)] malformed_zero [OF assms(6)] assms(5)
  by (simp add: default_flags_def)

lemma malformed_env_zeroes_flag_witness:
  "(\<exists>fs. flag_Parse (\<lambda>s. None) [] (bindEnvToFlags (\<lambda>s. None) rev [''SECURE_SERVING'' \<mapsto> ''yes''] (default_flags Map.empty)) = Inr fs \<and>
     fs_formal fs ''secure-serving'' = Some (BoolFlag False)) \<and> map_of CommandLine ''secure-serving'' = Some (BoolFlag True)"
proof -
  have c: "map_of CommandLine ''secure-serving'' = Some (BoolFlag True)" by (simp add: CommandLine_def)
  have "\<exists>fs. flag_Parse (\<lambda>s. None) [] (bindEnvToFlags (\<lambda>s. None) rev [''SECURE_SERVING'' \<mapsto> ''yes''] (default_flags Map.empty)) = Inr fs \<and>
     fs_formal fs ''secure-serving'' = Some (zero_value (BoolFlag True))"
    by (rule malformed_env_zeroes_flag [where e = "''SECURE_SERVING''" and v = "''yes''", OF _ _ _ _ c]) (simp_all add: env_flags_def strconv_ParseBool_def)
  then show ?thesis using c by simp
qed

end
