(* ===== verification/Runner.thy ===== *)
theory Runner
  imports InTreePlugins EventFilters Flags
begin

text \<open>
  The process of the endpoint picker (\<open>cmd/epp/runner/runner.go\<close>) and its external processing server
  (\<open>pkg/epp/server/runserver.go\<close>): from the flags and the configuration to the calls that set up the
  controller manager. The manager, the file system and the decoders are arguments; the calls to the
  manager are recorded in their order.
\<close>

section \<open>The server runner\<close>

text \<open>
  The factory of the metrics of pods, with which the data store is created: the client, whether it
  is made for TLS and then skips the verification, and the interval.
\<close>

record podMetricsFactory =
  pf_Client :: PodMetricsClientImpl
  pf_InsecureSkipVerify :: "bool option"
  pf_Interval :: duration

text \<open>\<open>None\<close> is the nil pointer.\<close>

record 'w ExtProcServerRunner =
  GrpcPort :: int
  PoolNamespacedName :: NamespacedName
  PoolGKNN :: GKNN
  SecureServing :: bool
  HealthChecking :: bool
  CertPath :: string
  RefreshPrometheusMetricsInterval :: duration
  StalenessThreshold :: duration
  runner_Datastore :: "(datastore \<times> podMetricsFactory) option"
  runner_Director :: "'w Director option"
  runner_Saturation :: "SaturationConfig option"

text \<open>The calls to the manager.\<close>

datatype 'w managerCall =
  AddMetricsServerExtraHandler string
| CompleteController watchedKind
| AddHealthServer int
| AddExtProcServer "'w ExtProcServerRunner"
| StartManager

type_synonym 'w manager = "'w managerCall \<Rightarrow> goError option"

definition NewDefaultExtProcServerRunner :: "'w ExtProcServerRunner" where
  "NewDefaultExtProcServerRunner =
     \<lparr>GrpcPort = 9002, PoolNamespacedName = \<lparr>nn_Namespace = ''default'', nn_Name = []\<rparr>,
      PoolGKNN = \<lparr>gk_Group = ''inference.networking.k8s.io'', gk_Kind = ''InferencePool'', gk_Namespace = ''default'', gk_Name = []\<rparr>,
      SecureServing = True, HealthChecking = False, CertPath = [], RefreshPrometheusMetricsInterval = 5 * 1000000000,
      StalenessThreshold = 2 * 1000000000, runner_Datastore = None, runner_Director = None, runner_Saturation = None\<rparr>"

text \<open>One call, and a sequence that stops at the first error; \<open>wrap\<close> is what is said of the error.\<close>

definition call1 :: "'w manager \<Rightarrow> (goError \<Rightarrow> goError) \<Rightarrow> 'w managerCall \<Rightarrow> 'w managerCall list \<times> goError option" where
  "call1 mgr wrap c = ([c], map_option wrap (mgr c))"

definition and_then :: "'a list \<times> goError option \<Rightarrow> 'a list \<times> goError option \<Rightarrow> 'a list \<times> goError option" where
  "and_then p q = (case p of (cs, Some err) \<Rightarrow> (cs, Some err) | (cs, None) \<Rightarrow> (cs @ fst q, snd q))"

definition runner_SetupWithManager :: "'w manager \<Rightarrow> 'w ExtProcServerRunner \<Rightarrow> 'w managerCall list \<times> goError option" where
  "runner_SetupWithManager mgr r =
     and_then (map_prod id (map_option (\<lambda>err. Errorf ''failed setting up InferencePoolReconciler'' [err]))
                 (pool_SetupWithManager (\<lambda>k. call1 mgr id (CompleteController k)) (PoolGKNN r)))
    (and_then (call1 mgr (\<lambda>err. Errorf ''failed setting up InferenceObjectiveReconciler'' [err]) (CompleteController ObjectiveKind))
              (call1 mgr (\<lambda>err. Errorf ''failed setting up PodReconciler'' []) (CompleteController PodKind)))"

text \<open>
  The server that the runnable starts: \<open>loadKeyPair\<close> and \<open>selfSigned\<close> are the two ways to a
  certificate. The result is an error, or the certificate, whether the health service is
  registered, and the port.
\<close>

definition AsRunnable :: "(string \<Rightarrow> string \<Rightarrow> goError + 'k) \<Rightarrow> (goError + 'k) \<Rightarrow> 'w ExtProcServerRunner \<Rightarrow> goError + 'k option \<times> bool \<times> int" where
  "AsRunnable loadKeyPair selfSigned r =
     (if SecureServing r
      then case (if CertPath r \<noteq> [] then loadKeyPair (CertPath r @ ''/tls.crt'') (CertPath r @ ''/tls.key'') else selfSigned) of
        Inl err \<Rightarrow> Inl err
      | Inr cert \<Rightarrow> Inr (Some cert, HealthChecking r, GrpcPort r)
      else Inr (None, HealthChecking r, GrpcPort r))"

section \<open>The runner\<close>

record 'w Runner =
  requestControlConfig :: "'w ControlConfig"
  schedulerConfig :: "'w SchedulerConfig option"

definition NewRunner :: "'w Runner" where "NewRunner = \<lparr>requestControlConfig = control_NewConfig, schedulerConfig = None\<rparr>"

definition WithRequestControlConfig :: "'w ControlConfig \<Rightarrow> 'w Runner \<Rightarrow> 'w Runner" where
  "WithRequestControlConfig c r = r\<lparr>requestControlConfig := c\<rparr>"

definition WithSchedulerConfig :: "'w SchedulerConfig \<Rightarrow> 'w Runner \<Rightarrow> 'w Runner" where
  "WithSchedulerConfig c r = r\<lparr>schedulerConfig := Some c\<rparr>"

text \<open>
  What the process finds around it. \<open>asControl\<close> is the type assertion to the interfaces of request
  control; the orders are those of ranges over maps.
\<close>

record 'c surroundings =
  sr_parseDuration :: "string \<Rightarrow> duration option"
  sr_parseFloat :: "string \<Rightarrow> float64 option"
  sr_foreignFlags :: "string \<rightharpoonup> flagValue"
  sr_envOrder :: "(string \<times> string) list \<Rightarrow> (string \<times> string) list"
  sr_GetConfig :: "goError option"
  sr_registered :: "string list"
  sr_CommitSHA :: string
  sr_BuildRef :: string
  sr_NewManager :: "int \<Rightarrow> watchScope list \<Rightarrow> goError + 'c pluginWorld manager"
  sr_ReadFile :: "string \<Rightarrow> goError + string"
  sr_decode :: "string \<Rightarrow> goError + EndpointPickerConfig"
  sr_Registry :: "'c pluginWorld Registry"
  sr_plugins :: "'c pluginDeps"
  sr_asControl :: "'c pluginWorld pluginInstance \<Rightarrow> 'c pluginWorld controlPlugin"
  sr_handleOrder :: "nat \<Rightarrow> 'c pluginWorld handle \<Rightarrow> 'c pluginWorld handle"
  sr_scoreOrder :: "(Pod \<times> float64) mapOrder"
  sr_profileOrder :: "(string \<times> 'c pluginWorld SchedulerProfile) mapOrder"
  sr_now :: time
  sr_podOrder :: "datastore \<Rightarrow> NamespacedName list"

definition config_bytes :: "'c surroundings \<Rightarrow> flagSet \<Rightarrow> goError + string" where
  "config_bytes x fs =
     (if flagString fs ''config-text'' \<noteq> [] then Inr (flagString fs ''config-text'')
      else case sr_ReadFile x (flagString fs ''config-file'') of
        Inl err \<Rightarrow> Inl (Errorf ''failed to load config from a file'' [err])
      | Inr b \<Rightarrow> Inr b)"

definition parsePluginsConfiguration :: "'c surroundings \<Rightarrow> flagSet \<Rightarrow> 'c pluginWorld Runner \<Rightarrow> (goError option \<times> 'c pluginWorld Runner) go" where
  "parsePluginsConfiguration x fs r =
     (if flagString fs ''config-text'' = [] \<and> flagString fs ''config-file'' = [] then Ret (None, r)
      else case config_bytes x fs of
        Inl err \<Rightarrow> Ret (Some err, r)
      | Inr configBytes \<Rightarrow>
          (case LoadConfig (sr_decode x) (registerInTreePlugins (sr_plugins x) (sr_Registry x)) (sr_handleOrder x) (pd_shuffle (sr_plugins x))
                  configBytes NewEppHandle of
             Panic \<Rightarrow> Panic
           | Ret (Inl err, h) \<Rightarrow> Ret (Some (Errorf ''failed to load the configuration'' [err]), r)
           | Ret (Inr config, h) \<Rightarrow>
               Ret (None, r\<lparr>schedulerConfig := Some config,
                 requestControlConfig := control_AddPlugins (map (sr_asControl x) (GetAllPlugins (sr_handleOrder x 3) h)) (requestControlConfig r)\<rparr>)))"

text \<open>The level of the logger, unless the flag of the logger sets it.\<close>

definition initLogging :: "flagSet \<Rightarrow> int option" where
  "initLogging fs =
     (if ''zap-log-level'' \<in> set (fs_actual fs) then None else Some (sint (word_of_int (- 1 * flagInt fs ''v'') :: 8 word)))"

fun setupPprofHandlers :: "'w manager \<Rightarrow> string list \<Rightarrow> 'w managerCall list \<times> goError option" where
  "setupPprofHandlers mgr [] = ([], None)"
| "setupPprofHandlers mgr (p # ps) =
     and_then (call1 mgr id (AddMetricsServerExtraHandler (''/debug/pprof/'' @ p))) (setupPprofHandlers mgr ps)"

definition pprof_profiles :: "string list" where
  "pprof_profiles = [''heap'', ''goroutine'', ''allocs'', ''threadcreate'', ''block'', ''mutex'']"

definition registerHealthServer :: "'w manager \<Rightarrow> int \<Rightarrow> 'w managerCall list \<times> goError option" where
  "registerHealthServer mgr port = call1 mgr id (AddHealthServer port)"

definition registerExtProcServer :: "'w manager \<Rightarrow> 'w ExtProcServerRunner \<Rightarrow> 'w managerCall list \<times> goError option" where
  "registerExtProcServer mgr r = call1 mgr id (AddExtProcServer r)"

section \<open>Run\<close>

definition metrics_factory :: "flagSet \<Rightarrow> MetricMapping \<Rightarrow> podMetricsFactory" where
  "metrics_factory fs mapping =
     \<lparr>pf_Client = \<lparr>pmc_MetricMapping = mapping, ModelServerMetricsPort = sint (word_of_int (flagInt fs ''model-server-metrics-port'') :: 32 word),
        ModelServerMetricsPath = flagString fs ''model-server-metrics-path'', ModelServerMetricsScheme = flagString fs ''model-server-metrics-scheme''\<rparr>,
      pf_InsecureSkipVerify = (if flagString fs ''model-server-metrics-scheme'' = ''https''
        then Some (flagBool fs ''model-server-metrics-https-insecure-skip-verify'') else None),
      pf_Interval = flagDuration fs ''refresh-metrics-interval''\<rparr>"

definition pool_GKNN :: "flagSet \<Rightarrow> GKNN" where
  "pool_GKNN fs = \<lparr>gk_Group = flagString fs ''pool-group'', gk_Kind = ''InferencePool'', gk_Namespace = flagString fs ''pool-namespace'',
     gk_Name = flagString fs ''pool-name''\<rparr>"

definition server_runner ::
  "'c surroundings \<Rightarrow> flagSet \<Rightarrow> SaturationConfig \<Rightarrow> podMetricsFactory \<Rightarrow> 'c pluginWorld SchedulerConfig \<Rightarrow> 'c pluginWorld ControlConfig \<Rightarrow>
   'c pluginWorld ExtProcServerRunner" where
  "server_runner x fs sdConfig pmf sc cc =
     (let scheduler = Schedule (NewSchedulerWithConfig (sc_profileHandler sc) (sc_profiles sc)) (sr_scoreOrder x) (sr_profileOrder x);
          saturated = (\<lambda>ds. IsSaturated sdConfig (sr_now x) (sr_podOrder x ds) ds)
      in \<lparr>GrpcPort = flagInt fs ''grpc-port'',
          PoolNamespacedName = \<lparr>nn_Namespace = flagString fs ''pool-namespace'', nn_Name = flagString fs ''pool-name''\<rparr>,
          PoolGKNN = pool_GKNN fs, SecureServing = flagBool fs ''secure-serving'', HealthChecking = flagBool fs ''health-checking'',
          CertPath = flagString fs ''cert-path'',
          RefreshPrometheusMetricsInterval = flagDuration fs ''refresh-prometheus-metrics-interval'',
          StalenessThreshold = flagDuration fs ''metrics-staleness-threshold'',
          runner_Datastore = Some (NewDatastore, pmf),
          runner_Director = Some (NewDirectorWithConfig scheduler saturated cc), runner_Saturation = Some sdConfig\<rparr>)"

text \<open>How the process ends: with an exit code, a panic, or what \<open>Run\<close> returns.\<close>

datatype runOutcome = Exit nat | Crashed | Returned "goError option"

text \<open>The second half, with the manager; the first half below gets there.\<close>

definition run_manager ::
  "'c surroundings \<Rightarrow> flagSet \<Rightarrow> SaturationConfig \<Rightarrow> podMetricsFactory \<Rightarrow> 'c pluginWorld Runner \<Rightarrow> 'c pluginWorld manager \<Rightarrow>
   'c pluginWorld managerCall list \<times> runOutcome" where
  "run_manager x fs sdConfig pmf r mgr =
     (case (if flagBool fs ''enable-pprof'' then setupPprofHandlers mgr pprof_profiles else ([], None)) of
        (cs, Some err) \<Rightarrow> (cs, Returned (Some err))
      | (cs, None) \<Rightarrow>
          (case parsePluginsConfiguration x fs r of
             Panic \<Rightarrow> (cs, Crashed)
           | Ret (Some err, r') \<Rightarrow> (cs, Returned (Some err))
           | Ret (None, r') \<Rightarrow>
               (case schedulerConfig r' of
                  None \<Rightarrow> (cs, Returned (Some (Errorf ''scheduler config must be set either by config api or through code'' [])))
                | Some sc \<Rightarrow>
                    (let sr = server_runner x fs sdConfig pmf sc (requestControlConfig r') in
                     case and_then (runner_SetupWithManager mgr sr)
                         (and_then (registerHealthServer mgr (flagInt fs ''grpc-health-port''))
                         (and_then (registerExtProcServer mgr sr) (call1 mgr id StartManager))) of
                       (cs', err) \<Rightarrow> (cs @ cs', Returned err)))))"

definition Run ::
  "'c surroundings \<Rightarrow> 'c pluginWorld Runner \<Rightarrow> environment \<Rightarrow> string list \<Rightarrow> 'c pluginWorld managerCall list \<times> metricCall list \<times> runOutcome" where
  "Run x r env args =
     (let fs0 = bindEnvToFlags (sr_parseDuration x) (sr_envOrder x) env (default_flags (sr_foreignFlags x)) in
      case flag_Parse (sr_parseDuration x) args fs0 of
        Inl code \<Rightarrow> ([], [], Exit code)
      | Inr fs \<Rightarrow>
          (case validateFlags fs of
             Some err \<Rightarrow> ([], [], Returned (Some err))
           | None \<Rightarrow>
               (let sdConfig = LoadConfigFromEnv (sr_parseFloat x) (sr_parseDuration x) env in
                case sr_GetConfig x of
                  Some err \<Rightarrow> ([], [], Returned (Some err))
                | None \<Rightarrow>
                    (case NewMetricMapping (flagString fs ''total-queued-requests-metric'') (flagString fs ''kv-cache-usage-percentage-metric'')
                            (flagString fs ''lora-info-metric'') of
                       Inl err \<Rightarrow> ([], [], Returned (Some err))
                     | Inr mapping \<Rightarrow>
                         (case metrics_Register [''inference_pool_per_pod_queue_size''] (False, sr_registered x) of
                            Panic \<Rightarrow> ([], [], Crashed)
                          | Ret _ \<Rightarrow>
                              (let info = RecordInferenceExtensionInfo (sr_CommitSHA x) (sr_BuildRef x) in
                               case NewDefaultManager (sr_NewManager x (flagInt fs ''metrics-port'')) (pool_GKNN fs) of
                                 Inl err \<Rightarrow> ([], info, Returned (Some err))
                               | Inr mgr \<Rightarrow>
                                   (case run_manager x fs sdConfig (metrics_factory fs mapping) r mgr of (cs, res) \<Rightarrow> (cs, info, res)))))))) "

section \<open>Sequences of calls\<close>

fun perform :: "'w manager \<Rightarrow> (('w managerCall) \<times> (goError \<Rightarrow> goError)) list \<Rightarrow> 'w managerCall list \<times> goError option" where
  "perform mgr [] = ([], None)"
| "perform mgr ((c, wrap) # plan) = and_then (call1 mgr wrap c) (perform mgr plan)"

lemma and_then_assoc: "and_then (and_then p q) s = and_then p (and_then q s)"
  by (auto simp: and_then_def split: prod.splits option.splits)

lemma perform_append: "perform mgr (ps @ qs) = and_then (perform mgr ps) (perform mgr qs)"
  by (induction mgr ps rule: perform.induct) (auto simp: and_then_assoc, simp add: and_then_def)

lemma perform_one: "call1 mgr wrap c = perform mgr [(c, wrap)]"
  by (simp add: and_then_def call1_def split: option.split)

text \<open>The last call is made only after all others succeeded.\<close>

lemma perform_last:
  assumes "c \<in> set (fst (perform mgr (plan @ [(c, wrap)])))" "c \<notin> fst ` set plan"
  shows "perform mgr (plan @ [(c, wrap)]) = (map fst plan @ [c], map_option wrap (mgr c)) \<and> list_all (\<lambda>d. mgr d = None) (map fst plan)"
  using assms
proof (induction plan)
  case Nil
  then show ?case by (simp add: and_then_def call1_def split: option.split)
next
  case (Cons p plan)
  obtain d w where p: "p = (d, w)" by (cases p)
  show ?case
  proof (cases "mgr d")
    case None
    then show ?thesis using Cons by (simp add: p and_then_def call1_def)
  next
    case (Some err)
    then show ?thesis using Cons.prems by (simp add: p and_then_def call1_def)
  qed
qed

lemma setupPprofHandlers_perform:
  "setupPprofHandlers mgr ps = perform mgr (map (\<lambda>p. (AddMetricsServerExtraHandler (''/debug/pprof/'' @ p), id)) ps)"
  by (induction mgr ps rule: setupPprofHandlers.induct) (simp_all add: id_def)

definition pool_kind :: "GKNN \<Rightarrow> watchedKind" where
  "pool_kind gknn = (if gk_Group gknn = v1alpha2_GroupName then PoolKind_v1alpha2 else PoolKind_v1)"

definition known_group :: "GKNN \<Rightarrow> bool" where
  "known_group gknn \<longleftrightarrow> gk_Group gknn \<in> {v1alpha2_GroupName, v1_GroupName}"

definition setup_plan :: "'w ExtProcServerRunner \<Rightarrow> ('w managerCall \<times> (goError \<Rightarrow> goError)) list" where
  "setup_plan sr =
     [(CompleteController (pool_kind (PoolGKNN sr)), \<lambda>err. Errorf ''failed setting up InferencePoolReconciler'' [err]),
      (CompleteController ObjectiveKind, \<lambda>err. Errorf ''failed setting up InferenceObjectiveReconciler'' [err]),
      (CompleteController PodKind, \<lambda>err. Errorf ''failed setting up PodReconciler'' [])]"

lemma SetupWithManager_perform: "known_group (PoolGKNN sr) \<Longrightarrow> runner_SetupWithManager mgr sr = perform mgr (setup_plan sr)"
  unfolding runner_SetupWithManager_def setup_plan_def pool_SetupWithManager_def known_group_def pool_kind_def
  by (auto simp: and_then_def call1_def option.map_comp comp_def split: option.splits)

text \<open>The calls of a start that goes through.\<close>

definition startup_calls :: "flagSet \<Rightarrow> 'w ExtProcServerRunner \<Rightarrow> 'w managerCall list" where
  "startup_calls fs sr =
     (if flagBool fs ''enable-pprof'' then map (\<lambda>p. AddMetricsServerExtraHandler (''/debug/pprof/'' @ p)) pprof_profiles else []) @
     [CompleteController (pool_kind (PoolGKNN sr)), CompleteController ObjectiveKind, CompleteController PodKind,
      AddHealthServer (flagInt fs ''grpc-health-port''), AddExtProcServer sr, StartManager]"

lemma perform_ok: "\<forall>c. mgr c = None \<Longrightarrow> perform mgr plan = (map fst plan, None)"
  by (induction mgr plan rule: perform.induct) (auto simp: and_then_def call1_def)

lemma perform_calls: "set (fst (perform mgr plan)) \<subseteq> fst ` set plan"
  by (induction mgr plan rule: perform.induct) (auto simp: and_then_def call1_def split: option.splits)

text \<open>The calls after the configuration is loaded, as one sequence.\<close>

lemma server_calls:
  assumes "known_group (PoolGKNN sr)"
  shows "and_then (runner_SetupWithManager mgr sr) (and_then (registerHealthServer mgr port) (and_then (registerExtProcServer mgr sr) (call1 mgr id StartManager))) =
    perform mgr ((setup_plan sr @ [(AddHealthServer port, id), (AddExtProcServer sr, id)]) @ [(StartManager, id)])"
  unfolding perform_append SetupWithManager_perform [OF assms] and_then_assoc registerHealthServer_def registerExtProcServer_def
  by (simp add: and_then_assoc) (simp add: and_then_def call1_def split: option.split prod.split)

definition pprof_plan :: "flagSet \<Rightarrow> ('w managerCall \<times> (goError \<Rightarrow> goError)) list" where
  "pprof_plan fs = (if flagBool fs ''enable-pprof'' then map (\<lambda>p. (AddMetricsServerExtraHandler (''/debug/pprof/'' @ p), id)) pprof_profiles else [])"

lemma pprof_perform:
  "(if flagBool fs ''enable-pprof'' then setupPprofHandlers mgr pprof_profiles else ([], None)) = perform mgr (pprof_plan fs)"
  by (simp add: pprof_plan_def setupPprofHandlers_perform)

lemma perform_complete:
  "snd (perform mgr plan) = None \<Longrightarrow> fst (perform mgr plan) = map fst plan \<and> list_all (\<lambda>c. mgr c = None) (map fst plan)"
  by (induction mgr plan rule: perform.induct) (auto simp: and_then_def call1_def split: option.splits)

lemma pprof_not_start: "perform mgr (pprof_plan fs) = (cs, err) \<Longrightarrow> StartManager \<notin> set cs"
  using perform_calls [of mgr "pprof_plan fs"] by (auto simp: pprof_plan_def split: if_splits)

lemma startup_calls_plan:
  "startup_calls fs sr = map fst (pprof_plan fs) @ map fst (setup_plan sr @ [(AddHealthServer (flagInt fs ''grpc-health-port''), id), (AddExtProcServer sr, id)]) @ [StartManager]"
  by (simp add: startup_calls_def pprof_plan_def setup_plan_def)

section \<open>What is served\<close>

lemma run_manager_started:
  assumes "run_manager x fs sdConfig pmf r mgr = (calls, out)" "StartManager \<in> set calls" "known_group (pool_GKNN fs)"
  shows "\<exists>r' sc. parsePluginsConfiguration x fs r = Ret (None, r') \<and> schedulerConfig r' = Some sc \<and>
    calls = startup_calls fs (server_runner x fs sdConfig pmf sc (requestControlConfig r')) \<and> out = Returned (mgr StartManager) \<and>
    list_all (\<lambda>c. mgr c = None) (butlast calls)"
proof -
  obtain cs err where P: "perform mgr (pprof_plan fs) = (cs, err)" by force
  have ns: "StartManager \<notin> set cs" using pprof_not_start [OF P] .
  have e: "err = None" using assms(1,2) ns by (cases err) (auto simp: run_manager_def pprof_perform P)
  obtain r' where R: "parsePluginsConfiguration x fs r = Ret (None, r')"
    using assms(1,2) ns by (auto simp: run_manager_def pprof_perform P e split: go.splits prod.splits option.splits)
  obtain sc where S: "schedulerConfig r' = Some sc"
    using assms(1,2) ns by (auto simp: run_manager_def pprof_perform P e R split: option.splits)
  let ?sr = "server_runner x fs sdConfig pmf sc (requestControlConfig r')"
  let ?plan = "setup_plan ?sr @ [(AddHealthServer (flagInt fs ''grpc-health-port''), id), (AddExtProcServer ?sr, id)]"
  have g: "known_group (PoolGKNN ?sr)" using assms(3) by (simp add: server_runner_def Let_def)
  obtain cs' err' where Q: "perform mgr (?plan @ [(StartManager, id)]) = (cs', err')" by force
  have c: "calls = cs @ cs'" "out = Returned err'"
    using assms(1) by (auto simp: run_manager_def pprof_perform P e R S Let_def server_calls [OF g] Q simp del: append_assoc)
  then have "StartManager \<in> set (fst (perform mgr (?plan @ [(StartManager, id)])))" using assms(2) ns Q by simp
  from perform_last [OF this] have L: "cs' = map fst ?plan @ [StartManager]" "err' = mgr StartManager" "list_all (\<lambda>d. mgr d = None) (map fst ?plan)"
    unfolding Q by (auto simp: setup_plan_def option.map_id)
  have "cs = map fst (pprof_plan fs)" "list_all (\<lambda>c. mgr c = None) cs" using perform_complete [of mgr "pprof_plan fs"] P e by auto
  then show ?thesis using R S c L unfolding startup_calls_plan by (intro exI conjI) (simp_all add: butlast_append)
qed

text \<open>The scheduler after the configuration has been read.\<close>

lemma loaded_profiles:
  assumes "parsePluginsConfiguration x fs r = Ret (None, r')" "schedulerConfig r' = Some sc" "\<forall>n xs. mset (sr_handleOrder x n xs) = mset xs"
  shows "if flagString fs ''config-text'' = [] \<and> flagString fs ''config-file'' = [] then schedulerConfig r = Some sc
     else \<exists>configBytes raw h. config_bytes x fs = Inr configBytes \<and> sr_decode x configBytes = Inr raw \<and>
       map fst (sc_profiles sc) = (if cfg_SchedulingProfiles raw = [] then [''default''] else map prof_Name (cfg_SchedulingProfiles raw)) \<and>
       list_all (\<lambda>(name, p). picker p \<noteq> None) (sc_profiles sc) \<and>
       (cfg_SchedulingProfiles raw = [] \<or>
          map (scorers \<circ> snd) (sc_profiles sc) = map (\<lambda>n. List.map_filter (scorer_ref h) (prof_Plugins n)) (cfg_SchedulingProfiles raw))"
proof (cases "flagString fs ''config-text'' = [] \<and> flagString fs ''config-file'' = []")
  case True
  then show ?thesis using assms(1,2) by (simp add: parsePluginsConfiguration_def)
next
  case False
  let ?load = "\<lambda>b. LoadConfig (sr_decode x) (registerInTreePlugins (sr_plugins x) (sr_Registry x)) (sr_handleOrder x) (pd_shuffle (sr_plugins x)) b NewEppHandle"
  obtain b h where b: "config_bytes x fs = Inr b" "?load b = Ret (Inr sc, h)"
    using assms(1,2) False by (auto simp: parsePluginsConfiguration_def split: sum.splits go.splits prod.splits if_splits)
  obtain raw where raw: "sr_decode x b = Inr raw"
    using b(2) by (auto simp: LoadConfig_def loadRawConfig_def split: sum.splits)
  show ?thesis using loadConfig_profiles [OF raw b(2) _ assms(3)] b(1) raw False by (auto simp: NewEppHandle_def)
qed

text \<open>The group of the pool is known when there is a manager.\<close>

lemma manager_group: "NewDefaultManager new gknn = Inr mgr \<Longrightarrow> known_group gknn \<and> (\<exists>scopes. defaultManagerOptions gknn = Inr scopes \<and> new scopes = Inr mgr)"
  by (auto simp: NewDefaultManager_def defaultManagerOptions_def known_group_def Let_def split: sum.splits if_splits)


text \<open>Conversely the process starts, and ends without an error, if nothing on the way fails.\<close>

lemma run_starts:
  assumes "flag_Parse (sr_parseDuration x) args (bindEnvToFlags (sr_parseDuration x) (sr_envOrder x) env (default_flags (sr_foreignFlags x))) = Inr fs"
    "validateFlags fs = None" "sr_GetConfig x = None"
    "NewMetricMapping (flagString fs ''total-queued-requests-metric'') (flagString fs ''kv-cache-usage-percentage-metric'')
       (flagString fs ''lora-info-metric'') = Inr mapping"
    "distinct (sr_registered x @ map fqName epp_vectors @ [''inference_pool_per_pod_queue_size''])"
    "NewDefaultManager (sr_NewManager x (flagInt fs ''metrics-port'')) (pool_GKNN fs) = Inr mgr" "\<forall>c. mgr c = None"
    "parsePluginsConfiguration x fs r = Ret (None, r')" "schedulerConfig r' = Some sc"
  shows "Run x r env args = (startup_calls fs (server_runner x fs (LoadConfigFromEnv (sr_parseFloat x) (sr_parseDuration x) env)
      (metrics_factory fs mapping) sc (requestControlConfig r')), RecordInferenceExtensionInfo (sr_CommitSHA x) (sr_BuildRef x), Returned None)"
proof -
  let ?sr = "server_runner x fs (LoadConfigFromEnv (sr_parseFloat x) (sr_parseDuration x) env) (metrics_factory fs mapping) sc (requestControlConfig r')"
  have g: "known_group (PoolGKNN ?sr)" using manager_group [OF assms(6)] by (simp add: server_runner_def Let_def)
  have "run_manager x fs (LoadConfigFromEnv (sr_parseFloat x) (sr_parseDuration x) env) (metrics_factory fs mapping) r mgr = (startup_calls fs ?sr, Returned None)"
    unfolding run_manager_def pprof_perform perform_ok [OF assms(7)]
    by (simp add: assms(8,9) Let_def server_calls [OF g] perform_ok [OF assms(7)] startup_calls_plan)
  then show ?thesis using assms(1-4,6) metrics_Register_once(1) [OF assms(5)] by (simp add: Run_def Let_def)
qed

text \<open>The server uses TLS exactly when secure serving is on; without a certificate it does not start then.\<close>

lemma AsRunnable_tls: "AsRunnable loadKeyPair selfSigned r = Inr (cert, health, port) \<Longrightarrow> (cert \<noteq> None \<longleftrightarrow> SecureServing r) \<and> port = GrpcPort r"
  by (auto simp: AsRunnable_def split: if_splits sum.splits)

text \<open>The verbosity becomes the level of the logger up to 128; above, the conversion to 8 bits turns it around.\<close>

lemma initLogging_level:
  assumes "''zap-log-level'' \<notin> set (fs_actual fs)" "- 127 \<le> flagInt fs ''v''" "flagInt fs ''v'' \<le> 128"
  shows "initLogging fs = Some (- flagInt fs ''v'')"
proof -
  have "sint (word_of_int (- flagInt fs ''v'') :: 8 word) = signed_take_bit 7 (- flagInt fs ''v'')" by (simp add: signed_of_int del: of_int_minus)
  also have "\<dots> = - flagInt fs ''v''" using assms(2,3) by (intro signed_take_bit_int_eq_self) simp_all
  finally show ?thesis using assms(1) by (simp add: initLogging_def del: of_int_minus)
qed

section \<open>A start\<close>

definition wEppConfig :: EndpointPickerConfig where
  "wEppConfig = \<lparr>cfg_Plugins = [\<lparr>spec_Name = [], spec_Type = QueueScorerType, spec_Parameters = None\<rparr>,
       \<lparr>spec_Name = [], spec_Type = PrefixCachePluginType, spec_Parameters = None\<rparr>],
     cfg_SchedulingProfiles = [\<lparr>prof_Name = ''default'', prof_Plugins = [\<lparr>PluginRef = QueueScorerType, ref_Weight = None\<rparr>,
       \<lparr>PluginRef = PrefixCachePluginType, ref_Weight = Some 3\<rparr>]\<rparr>]\<rparr>"

definition wSurroundings :: "(nat \<times> BlockHash list) surroundings" where
  "wSurroundings = \<lparr>sr_parseDuration = (\<lambda>s. None), sr_parseFloat = (\<lambda>s. None), sr_foreignFlags = Map.empty, sr_envOrder = rev,
     sr_GetConfig = None, sr_registered = [], sr_CommitSHA = ''abc'', sr_BuildRef = ''v1'', sr_NewManager = (\<lambda>port scopes. Inr (\<lambda>c. None)),
     sr_ReadFile = (\<lambda>f. Inl (Errorf ''no such file'' [])), sr_decode = (\<lambda>s. Inr wEppConfig), sr_Registry = Map.empty, sr_plugins = wDeps,
     sr_asControl = (\<lambda>i. \<lparr>cp_PreRequest = None, cp_PostResponse = None\<rparr>), sr_handleOrder = (\<lambda>n. rev),
     sr_scoreOrder = id, sr_profileOrder = id, sr_now = 0, sr_podOrder = (\<lambda>ds. [])\<rparr>"

definition wFlags :: flagSet where
  "wFlags = \<lparr>fs_formal = (map_of CommandLine)(''pool-name'' \<mapsto> StringFlag ''p'', ''config-text'' \<mapsto> StringFlag ''c''),
     fs_actual = [''config-text'', ''pool-name'']\<rparr>"

lemma default_values:
  "map_of CommandLine ''pool-name'' = Some (StringFlag [])" "map_of CommandLine ''config-text'' = Some (StringFlag [])"
  "map_of CommandLine ''config-file'' = Some (StringFlag [])" "map_of CommandLine ''model-server-metrics-scheme'' = Some (StringFlag ''http'')"
  "map_of CommandLine ''pool-group'' = Some (StringFlag v1_GroupName)" "map_of CommandLine ''pool-namespace'' = Some (StringFlag ''default'')"
  "map_of CommandLine ''total-queued-requests-metric'' = Some (StringFlag ''vllm:num_requests_waiting'')"
  "map_of CommandLine ''kv-cache-usage-percentage-metric'' = Some (StringFlag ''vllm:gpu_cache_usage_perc'')"
  "map_of CommandLine ''lora-info-metric'' = Some (StringFlag ''vllm:lora_requests_info'')"
  by (simp_all add: CommandLine_def v1_GroupName_def)

lemma wFlags_parse: "flag_Parse (\<lambda>s. None) [''--pool-name=p'', ''--config-text=c''] (bindEnvToFlags (\<lambda>s. None) rev Map.empty (default_flags Map.empty)) = Inr wFlags"
proof -
  have b: "bindEnvToFlags (\<lambda>s. None) rev Map.empty (default_flags Map.empty) = default_flags Map.empty" by (simp add: bindEnvToFlags_def env_flags_def)
  have 1: "flag_Set (\<lambda>s. None) ''pool-name'' ''p'' (default_flags Map.empty) =
      (None, \<lparr>fs_formal = (map_of CommandLine)(''pool-name'' \<mapsto> StringFlag ''p''), fs_actual = [''pool-name'']\<rparr>)" (is "_ = (None, ?fs1)")
    by (simp add: flag_Set_def default_flags_def default_values)
  have 2: "flag_Set (\<lambda>s. None) ''config-text'' ''c'' ?fs1 = (None, wFlags)"
    by (simp add: flag_Set_def wFlags_def default_values)
  have n: "''--pool-name=p'' = format_flag (''pool-name'', ''p'')" "''--config-text=c'' = format_flag (''config-text'', ''c'')" by (simp_all add: format_flag_def)
  show ?thesis unfolding b n using parse_formatted_step [OF _ _ _ 1] parse_formatted_step [OF _ _ _ 2] by simp
qed

lemma wFlags_values:
  "validateFlags wFlags = None" "pool_GKNN wFlags = \<lparr>gk_Group = v1_GroupName, gk_Kind = ''InferencePool'', gk_Namespace = ''default'', gk_Name = ''p''\<rparr>"
  "flagString wFlags ''config-text'' = ''c''" "flagString wFlags ''total-queued-requests-metric'' = ''vllm:num_requests_waiting''"
  "flagString wFlags ''kv-cache-usage-percentage-metric'' = ''vllm:gpu_cache_usage_perc''" "flagString wFlags ''lora-info-metric'' = ''vllm:lora_requests_info''"
  by (simp_all add: validateFlags_def pool_GKNN_def flagString_def wFlags_def default_values)

lemma wEppConfig_loads:
  "\<exists>sc h. LoadConfig (\<lambda>s. Inr wEppConfig) (registerInTreePlugins wDeps Map.empty) (\<lambda>n. rev) id b NewEppHandle = Ret (Inr sc, h)"
proof -
  let ?reg = "registerInTreePlugins wDeps Map.empty"
  let ?q = "plain_instance (plain_object QueueScorerType QueueScorerType\<lparr>po_Scorer := Some QueueScorer_Score\<rparr>)"
  let ?p = "prefix_instance wDeps (prefix_WithName PrefixCachePluginType (prefix_New DefaultConfig))"
  have t: "QueueScorerType \<noteq> []" "PrefixCachePluginType \<noteq> []" "PrefixCachePluginType \<noteq> QueueScorerType"
    "QueueScorerType \<noteq> PrefixCachePluginType" by (simp_all add: type_names)
  have i: "instantiatePlugins ?reg (cfg_Plugins (setDefaultsPhaseOne wEppConfig)) [] = (None, [(QueueScorerType, ?q), (PrefixCachePluginType, ?p)])"
    by (simp add: instantiatePlugins_def setDefaultsPhaseOne_def wEppConfig_def t in_tree_registry QueueScorerFactory_def prefix_factory_def
        PrefixCachePluginFactory_def AddPlugin_def)
  have "\<exists>sc h. (let (cfg2, h2) = setDefaultsPhaseTwo (\<lambda>n. rev) id (setDefaultsPhaseOne wEppConfig) [(QueueScorerType, ?q), (PrefixCachePluginType, ?p)] in
      case validateSchedulingProfiles cfg2 of Some err \<Rightarrow> Ret (Inl (Errorf ''failed to validate scheduling profiles'' [err]), h2)
      | None \<Rightarrow> (case loadSchedulerConfig rev (cfg_SchedulingProfiles cfg2) h2 of Panic \<Rightarrow> Panic | Ret res \<Rightarrow> Ret (res, h2))) = Ret (Inr sc, h)"
    unfolding prefix_instance_def plain_instance_def plain_object_def
    by (simp add: wLoad setDefaultsPhaseOne_def wEppConfig_def Let_def QueueScorerType_def PrefixCachePluginType_def)
  then show ?thesis by (simp add: LoadConfig_def loadRawConfig_def NewEppHandle_def i)
qed

lemma default_mapping:
  "\<exists>mapping. NewMetricMapping ''vllm:num_requests_waiting'' ''vllm:gpu_cache_usage_perc'' ''vllm:lora_requests_info'' = Inr mapping"
  by (simp add: NewMetricMapping_def stringToMetricSpec_def str_Index_def str_TrimSpace_def is_space_def Let_def)

lemma wRun:
  "\<exists>sr. Run wSurroundings NewRunner Map.empty [''--pool-name=p'', ''--config-text=c''] =
     (startup_calls wFlags sr, RecordInferenceExtensionInfo ''abc'' ''v1'', Returned None)"
proof -
  let ?x = wSurroundings
  obtain sc h where L: "LoadConfig (\<lambda>s. Inr wEppConfig) (registerInTreePlugins wDeps Map.empty) (\<lambda>n. rev) id ''c'' NewEppHandle = Ret (Inr sc, h)"
    using wEppConfig_loads by blast
  have c: "config_bytes ?x wFlags = Inr ''c''" by (simp add: config_bytes_def wFlags_values)
  obtain r' where r': "parsePluginsConfiguration ?x wFlags NewRunner = Ret (None, r')" "schedulerConfig r' = Some sc"
    unfolding parsePluginsConfiguration_def c using L by (simp add: wFlags_values wSurroundings_def wDeps_def)
  obtain mapping where m: "NewMetricMapping ''vllm:num_requests_waiting'' ''vllm:gpu_cache_usage_perc'' ''vllm:lora_requests_info'' = Inr mapping"
    using default_mapping by blast
  have d: "distinct (sr_registered ?x @ map fqName epp_vectors @ [''inference_pool_per_pod_queue_size''])"
    unfolding wSurroundings_def using collector_distinct by simp
  have n: "NewDefaultManager (sr_NewManager ?x (flagInt wFlags ''metrics-port'')) (pool_GKNN wFlags) = Inr (\<lambda>c. None)"
    by (simp add: NewDefaultManager_def defaultManagerOptions_def wFlags_values wSurroundings_def v1_GroupName_def v1alpha2_GroupName_def Let_def)
  have p: "sr_parseDuration ?x = (\<lambda>s. None)" "sr_envOrder ?x = rev" "sr_foreignFlags ?x = Map.empty" "sr_GetConfig ?x = None"
    "sr_CommitSHA ?x = ''abc''" "sr_BuildRef ?x = ''v1''" by (simp_all add: wSurroundings_def)
  show ?thesis
    using run_starts [of ?x _ Map.empty wFlags mapping, OF _ _ _ _ d n _ r'] wFlags_parse wFlags_values(1,4,5,6) m unfolding p by auto
qed


end
