(* ===== verification/Spec2Isabelle.thy ===== *)
theory Spec2Isabelle
  imports HeapArray ProcessorBulk ProcessorRun PluginStates PrefixPlugin BodyRouter ConfigLoader DataMetrics PoolMetrics HeaderFilter StreamMetrics Runner
begin

text \<open>
  Verification of the Gateway API inference extension.

  The repository has two programs. The endpoint picker (\<open>cmd/epp\<close>, \<open>pkg/epp\<close>) is an external
  processing server of a gateway: a proxy sends it the parts of each inference request on a stream,
  and it answers with the pod of an inference pool that is to serve the request. The body-based
  router (\<open>pkg/bbr\<close>) copies the name of the model from a request body into a header. The flow control
  system (\<open>pkg/epp/flowcontrol\<close>) is a library of the picker for queueing requests by priority; nothing
  calls it yet. Source paths below are relative to \<open>src/\<close>, and to \<open>src/pkg/epp/\<close> where they do not
  start with \<open>cmd\<close>, \<open>pkg\<close>, \<open>api\<close> or \<open>apix\<close>.

  \<^bold>\<open>How the parts interact.\<close> \<open>Run\<close> of the runner reads flags, environment and configuration, registers
  the plugins and metrics, and hands the manager three reconcilers and two servers. The reconcilers
  turn events of the cluster into changes of the data store. The server runs \<open>Process\<close> for each
  stream; at the last chunk of a request it calls the director, which admits the request (unless
  the saturation detector objects), takes the candidate pods from the store and calls the scheduler.
  The scheduler runs the profiles its handler picks: filters, scorers, a picker and post-cycle
  plugins. The answers go back in the order the protocol prescribes. The metrics of pods are scraped
  by the clients of \<open>backend/metrics\<close> or of the newer \<open>datalayer\<close>.

  \<^bold>\<open>Conventions.\<close> Go structs are records, enums datatypes, maps partial functions, or association
  lists where the program ranges over them. Objects that are shared and changed in place live in
  explicit stores (items, list nodes, heap handles) or are passed and returned. A plugin is a
  function on the state \<open>'w\<close> that all plugins share. Errors are \<open>goError\<close> or \<open>eppError\<close> values, a panic is
  \<open>Panic\<close> of the type \<open>go\<close>, and a call that may not return has a result of type \<open>option\<close>. Times and durations are
  integers of nanoseconds with the saturation of \<open>time.Sub\<close>. Sizes and capacities of flow control and
  block hashes are 64-bit words that wrap, bytes are 8-bit words, and the log level of the runner wraps at
  8 bits; counters, weights and lengths of type \<open>int\<close> are unbounded integers or natural numbers.
  Floating point numbers are rationals: rounding, infinities and NaN are not modelled. The order in
  which Go ranges over a map, random shuffles, the clock, the success of sends, codecs (JSON,
  YAML, the Prometheus text format) and libraries (LRU cache, xxhash, the Kubernetes client and manager, the
  metrics registry) are arguments; what is assumed of them is a premise of the theorem that needs it, with a
  concrete instance in its witness. Strings are lists of characters; messages of errors and log output
  are abbreviated or left out, since nothing reads them.

  \<^bold>\<open>Flow control.\<close>
  \<^item> \<open>Prelude\<close>, \<open>FlowTypes\<close>: errors, time, flow keys, requests, items and their one-shot
    finalisation (\<open>flowcontrol/types\<close>, \<open>controller/internal/item.go\<close>).
  \<^item> \<open>QueueContract\<close>: the locales \<open>safe_queue\<close>, \<open>fifo_queue\<close> and \<open>priority_queue\<close>, the contract of
    \<open>framework/queue.go\<close>. \<open>ListQueue\<close> (doubly linked list), \<open>MaxMinHeap\<close>, \<open>HeapQueue\<close> and \<open>HeapOrder\<close> (array
    heap with handles) interpret them; \<open>ManagedQueue\<close> is \<open>registry/managedqueue.go\<close> on either.
    \<open>QueueServing\<close> has what a client sees: both queues serve in order, and adding and removing is the
    identity. \<open>HeapArray\<close> shows that removing from the middle of the heap can break its order.
  \<^item> \<open>RegistryConfig\<close>, \<open>Policies\<close>, \<open>RegistryShard\<close>: configuration and its partition into shards, the dispatch
    policies (round robin is fair, best head serves the earliest), and a shard with its statistics.
  \<^item> \<open>ShardProcessor\<close>, \<open>ProcessorCorrect\<close>, \<open>ProcessorBulk\<close>, \<open>ProcessorRun\<close>: \<open>controller/internal/processor.go\<close>.
    Operations are functions on shard and item store; the two sweeps share the locale \<open>queue_sweep\<close>. The
    running processor is the step relation \<open>sys_step\<close> of callers, main loop, cleanup and cancellation; invariants
    by rule induction give that no item is lost and that shutdown is complete, up to the race of \<open>Enqueue\<close>
    with shutdown, which is proved to exist.

  \<^bold>\<open>Scheduling.\<close>
  \<^item> \<open>SchedTypes\<close>, \<open>SchedulerProfile\<close>, \<open>SchedPlugins\<close>: pods, requests, cycle and plugin state, the scheduler with
    its profiles, pickers and scorers (locales \<open>pod_scorer\<close>, \<open>bounded_scorer\<close>). The loop over the profiles is a
    \<open>partial_function\<close>, shown to return with the single profile handler; weighted scores are exact and the
    best pods are picked. \<open>PluginStates\<close>: histories of \<open>plugins/plugin_state.go\<close>. \<open>HeaderFilter\<close>: the filter
    of the conformance tests.
  \<^item> \<open>PrefixHash\<close>, \<open>PrefixIndex\<close>, \<open>PrefixPlugin\<close>: the prefix cache plugin (\<open>multi/prefix\<close>): the chain of block hashes,
    the index over LRU caches, scores and affinity.
  \<^item> \<open>ConfigLoader\<close>, \<open>InTreePlugins\<close>: \<open>config/loader\<close>, \<open>plugins/handle.go\<close>, the factories and registration of
    the plugins; a profile with the prefix plugin sends equal prompts to the same server.

  \<^bold>\<open>Data.\<close>
  \<^item> \<open>GoStrings\<close>, \<open>MetricSpec\<close>, \<open>PoolMetrics\<close>: string functions, metric specifications and their parser, the scraping client and
    the aggregates of the pool. \<open>DataLayer\<close>, \<open>DataMetrics\<close>: the data layer and that its extractor agrees with the older one.
  \<^item> \<open>Datastore\<close>, \<open>EventFilters\<close>: \<open>datastore/datastore.go\<close>, the reconcilers of \<open>controller\<close> and their event filters. After
    any events the store is the set of matching pods and objectives of the cluster; the filters lose nothing; the lock order of
    \<open>PoolGet\<close> and \<open>PoolSet\<close> allows a deadlock (step relation \<open>threads_step\<close>).
  \<^item> \<open>Saturation\<close>: \<open>saturationdetector\<close> and \<open>util/env\<close>.

  \<^bold>\<open>Requests.\<close>
  \<^item> \<open>RequestTypes\<close>, \<open>Director\<close>: \<open>util/request\<close>, \<open>util/error\<close>, \<open>requestcontrol\<close>. Every request is answered with a pod of the
    store or with the error of the first step that failed.
  \<^item> \<open>StreamServer\<close>, \<open>StreamProcess\<close>, \<open>StreamMetrics\<close>: \<open>handlers\<close>. The chunking loop is a \<open>partial_function\<close> shown to end.
    Answers keep the order of the protocol, requests are answered, responses pass unchanged, and the gauge of running requests
    is balanced.
  \<^item> \<open>BodyRouter\<close>: \<open>pkg/bbr/handlers\<close>.

  \<^bold>\<open>The process.\<close>
  \<^item> \<open>EppMetrics\<close>: the metric vectors of both programs and the recording functions, as calls to the library.
  \<^item> \<open>Flags\<close>, \<open>Runner\<close>: flags with the parts of the packages \<open>flag\<close> and \<open>strconv\<close> they need, the environment, and
    \<open>Run\<close> as the sequence of calls to the manager.

  This theory has the property that spans the picker from the stream to the pod.

  \<^bold>\<open>Bounds.\<close> There is no fuel. Recursions are structural or have a measure; the two loops that might
  not end are partial functions to \<open>option\<close>, and the theorems state that they return. Concurrency is explicit
  only where the code relies on it: the processor (\<open>ProcessorRun\<close>), the locks of the store (\<open>Datastore\<close>) and the
  orders of parallel workers (\<open>ProcessorBulk\<close>). Elsewhere the operations on an object are atomic, as its mutex makes them,
  and a stream is one sequence of events; streams that interleave are not modelled, except that the store and the
  plugins may be in any state at the start.

  \<^bold>\<open>Not modelled.\<close>
  \<^item> Logging (\<open>util/logging\<close>), certificates (\<open>internal/tls\<close>), the gRPC runnable and leader election (\<open>internal/runnable\<close>), the
    HTTP client of the data layer (\<open>datalayer/metrics/client.go\<close>), the conversion of unstructured objects
    (\<open>pkg/common/convert.go\<close>): calls of libraries and input or output, of which the model uses the result as an argument.
  \<^item> The process of the body-based router (\<open>cmd/bbr\<close>, \<open>pkg/bbr/server\<close>): calls of libraries as in the runner of the
    picker, without a configuration.
  \<^item> The goroutines that only drive a modelled step from a ticker: the refresh loop of \<open>pod_metrics.go\<close> and the
    debugging output of \<open>logger.go\<close>. Their steps are modelled (\<open>refreshMetrics\<close>, \<open>refreshPrometheusMetrics\<close>).
  \<^item> API types beyond the fields the picker reads, deep copies, registrations, clients, informers and listers (\<open>api\<close>, \<open>apix\<close>,
    \<open>client-go\<close>, \<open>pkg/generator\<close>): declarations and generated code.
  \<^item> Mocks, fakes, test utilities, tools and the conformance suite (\<open>conformance\<close>, \<open>test\<close>): code for tests.
\<close>

section \<open>From the stream to the best pod\<close>

text \<open>
  C1. A request through the whole endpoint picker: the chunks of its body arrive on the stream, the
  server decodes them and asks the director, which runs the scheduler with one profile that has
  filters, weighted scorers and a max-score picker for one pod. If the request has a model and a
  prompt, is admitted and a candidate passes the filters, the proxy gets a header response that
  names a pod that passed the filters with the greatest weighted score, at the port of the pool, and
  after it the body with the model rewritten.
\<close>

theorem stream_reaches_best_pod:
  assumes "dir_scheduler (env_director env) = Schedule (NewSchedulerWithConfig NewSingleProfileHandler [(name, p)]) mord pord"
    "\<forall>sc\<in>set (scorers p). proper_scorer sc" "\<forall>xs. mset (mord xs) = mset xs" "\<forall>xs. mset (pord xs) = mset xs" "\<forall>xs. mset (shuffle xs) = mset xs"
    "picker p = Some (MaxScorePicker_Pick shuffle (NewMaxScorePicker 1))" "postCyclePlugins p = []"
    "unanswered (cn_ctx c)" "\<forall>n. env_sendOk env n"
    "env_unmarshal env (cn_body c @ concat (map (\<lambda>(md, t, x). x) bs) @ b) (rq_Body (rc_Request (cn_ctx c))) = Some m"
    "ctx = (cn_ctx c)\<lparr>rc_Request := (rc_Request (cn_ctx c))\<lparr>rq_Metadata := ExtractMetadataValues md, rq_Body := m\<rparr>\<rparr>"
    "incoming ctx = Some model" "ExtractPromptFromRequestBody (rq_Body (rc_Request (ctx_parsed ctx))) = Inr prompt"
    "criticality_of (rc_ObjectiveKey ctx) (cn_ds c) = (cr, ds1)" "admitRequest (env_director env) ds1 cr = None"
    "getCandidatePodsForScheduling (env_ord env (cn_ds c)) ds1 (rq_Metadata (rc_Request ctx)) = Ret cands"
    "runFilterPlugins (filters p) (llm_request ctx prompt) cands (cn_w c) = (pods, w1)" "pods \<noteq> []" "cands \<noteq> []" "ds_pool (cn_ds c) = Some pool"
    "env_marshal env (rq_Body (rc_Request (ctx_parsed ctx))) = Some out"
  shows "\<exists>best hs rs. let endpoint = net_JoinHostPort (bp_Address (GetPod best)) (strconv_Itoa (TargetPortNumber pool)) in
    best \<in> set pods \<and>
    (\<forall>q\<in>set pods. total_score p (llm_request ctx prompt) pods w1 q \<le> total_score p (llm_request ctx prompt) pods w1 best) \<and>
    Process env (request_events bs md now b) c [] = (Waiting, RespRequestHeaders hs (generateMetadata endpoint) # map RespRequestBody rs) \<and>
    (DestinationEndpointKey, endpoint) \<in> set hs \<and> carries out rs"
proof -
  obtain ctx' w' best where H: "HandleRequest (env_director env) (env_ord env (cn_ds c)) ctx (cn_ds c) (cn_w c) = Some (Ret (ctx', None, ds1, w'))"
    and B: "best \<in> set pods" "\<forall>q\<in>set pods. total_score p (llm_request ctx prompt) pods w1 q \<le> total_score p (llm_request ctx prompt) pods w1 best"
    and T: "rq_Body (rc_Request ctx') = rq_Body (rc_Request (ctx_parsed ctx))"
      "TargetEndpoint ctx' = net_JoinHostPort (bp_Address (GetPod best)) (strconv_Itoa (TargetPortNumber pool))"
    using request_reaches_best_pod [OF assms(1-7,12-20)] by blast
  show ?thesis
    using request_served [OF assms(8-10) H [unfolded assms(11)], of out now] assms(21) B T unfolding Let_def by metis
qed

theorem stream_reaches_best_pod_witness:
  "\<exists>hs rs. Process wRouteEnv (request_events [(None, 1, [1, 2])] None 2 [3]) wConn [] =
      (Waiting, RespRequestHeaders hs (generateMetadata ''10.0.0.1:8000'') # map RespRequestBody rs) \<and>
    (DestinationEndpointKey, ''10.0.0.1:8000'') \<in> set hs \<and> carries [123, 125] rs"
proof -
  have env: "env_director wRouteEnv = wDirector" "\<And>ds. env_ord wRouteEnv ds = [pod_key (wCore ''a'')]" "cn_ds wConn = wStore" "cn_w wConn = ()"
    by (simp_all add: wRouteEnv_def wEnv_def wConn_def)
  have ctx: "wContext = (cn_ctx wConn)\<lparr>rc_Request := (rc_Request (cn_ctx wConn))\<lparr>rq_Metadata := ExtractMetadataValues None,
      rq_Body := [''model'' \<mapsto> JStr ''m'', ''prompt'' \<mapsto> JStr ''hi'']\<rparr>\<rparr>"
    by (simp add: wContext_def wConn_def newContext_def ExtractMetadataValues_def)
  have "\<exists>best hs rs. let endpoint = net_JoinHostPort (bp_Address (GetPod best)) (strconv_Itoa (TargetPortNumber wPool)) in
    best \<in> set wCands \<and>
    (\<forall>q\<in>set wCands. total_score wBest (llm_request wContext ''hi'') wCands () q \<le> total_score wBest (llm_request wContext ''hi'') wCands () best) \<and>
    Process wRouteEnv (request_events [(None, 1, [1, 2])] None 2 [3]) wConn [] =
      (Waiting, RespRequestHeaders hs (generateMetadata endpoint) # map RespRequestBody rs) \<and>
    (DestinationEndpointKey, endpoint) \<in> set hs \<and> carries [123, 125] rs"
    by (rule stream_reaches_best_pod [where shuffle = rev and mord = id and pord = rev and name = "''default''" and ?ds1.0 = wStore and cr = 0 and cands = wCands,
          OF _ _ _ _ _ _ _ _ _ _ ctx wContext_parsed(1,3)])
       (simp_all add: env wContext_admitted wContext_parsed,
        simp_all add: wDirector_def NewDirectorWithConfig_def wBest_def scorers_proper toSchedulerPodMetrics_def wStore_def wConn_def unanswered_def newContext_def wRouteEnv_def wEnv_def)
  then show ?thesis using wCands_endpoint unfolding Let_def by metis
qed

end
